(* ===== verification/Rt_Prelude.thy ===== *)
theory Rt_Prelude
  imports Main "HOL-Library.Word" "HOL-Library.Char_ord" "HOL-Library.List_Lexorder"
begin

unbundle bit_operations_syntax

text \<open>
  Shared ground of the development: the machine types the C++ code uses, the ways an
  operation of it can fail, C strings and character classes, and the number parsing and
  printing of the C and C++ standard libraries that the code calls
  (\<open>strtol\<close>, \<open>operator>>\<close> on \<open>size_t\<close>, \<open>operator<<\<close> on integers).
  \<open>std::string\<close> is \<open>string\<close>: a list of 8-bit characters, NUL included.
\<close>

named_theorems result_simps
named_theorems digit_simps

section \<open>Machine types and failures\<close>

type_synonym size_t = "64 word"
type_synonym wchar = "32 word"
type_synonym wstring = "wchar list"

text \<open>
  \<open>rikitiki::exception\<close>, its subclass \<open>InvalidStateException\<close>, a failed
  \<open>assert\<close>, and an access outside an object (undefined behaviour of the language).
\<close>

datatype rt_error =
    RtException string
  | InvalidState string
  | AssertFailure
  | UndefinedBehaviour

type_synonym 'a result = "rt_error + 'a"

fun bindE :: "'e + 'a \<Rightarrow> ('a \<Rightarrow> 'e + 'b) \<Rightarrow> 'e + 'b" where
  "bindE (Inl e) f = Inl e"
| "bindE (Inr x) f = f x"

lemma bindE_eq_Inr [result_simps]: "bindE m f = Inr y \<longleftrightarrow> (\<exists>x. m = Inr x \<and> f x = Inr y)"
  by (cases m) auto

lemma bindE_eq_Inl [result_simps]:
  "bindE m f = Inl e \<longleftrightarrow> m = Inl e \<or> (\<exists>x. m = Inr x \<and> f x = Inl e)"
  by (cases m) auto

lemma bindE_assoc: "bindE (bindE m f) g = bindE m (\<lambda>x. bindE (f x) g)"
  by (cases m) auto

lemma bindE_Inr_right [simp]: "bindE m Inr = m"
  by (cases m) auto

section \<open>Characters and C strings\<close>

abbreviation NUL :: char where "NUL \<equiv> CHR 0x00"
abbreviation CR :: char where "CR \<equiv> CHR 0x0D"
abbreviation LF :: char where "LF \<equiv> CHR 0x0A"
abbreviation TAB :: char where "TAB \<equiv> CHR 0x09"

definition crlf :: string where "crlf = [CR, LF]"

definition is_nl :: "char \<Rightarrow> bool" where
  "is_nl c \<longleftrightarrow> c = CR \<or> c = LF"

text \<open>A \<open>const char*\<close> read out of a string object stops at the first NUL.\<close>

definition cstr :: "string \<Rightarrow> string" where
  "cstr s = takeWhile (\<lambda>c. c \<noteq> NUL) s"

definition nul_free :: "string \<Rightarrow> bool" where
  "nul_free s \<longleftrightarrow> NUL \<notin> set s"

lemma takeWhile_until: "x \<notin> set w \<Longrightarrow> takeWhile (\<lambda>c. c \<noteq> x) (w @ x # t) = w"
  by (induction w) auto

lemma dropWhile_until: "x \<notin> set w \<Longrightarrow> dropWhile (\<lambda>c. c \<noteq> x) (w @ x # t) = x # t"
  by (induction w) auto

lemma cstr_nul_free [simp]: "nul_free s \<Longrightarrow> cstr s = s"
  by (auto simp: cstr_def nul_free_def takeWhile_eq_all_conv)

lemma nul_free_cstr [simp]: "nul_free (cstr s)"
  by (auto simp: cstr_def nul_free_def dest: set_takeWhileD)

lemma nul_free_simps [simp]:
  "nul_free []"
  "nul_free (c # s) \<longleftrightarrow> c \<noteq> NUL \<and> nul_free s"
  "nul_free (s @ t) \<longleftrightarrow> nul_free s \<and> nul_free t"
  by (auto simp: nul_free_def)

text \<open>\<open>isspace\<close> (and \<open>iswspace\<close> on a \<open>char\<close>) in the C locale.\<close>

definition isspace_c :: "char \<Rightarrow> bool" where
  "isspace_c c \<longleftrightarrow> c = CHR 0x20 \<or> c = TAB \<or> c = LF \<or> c = CHR 0x0B \<or> c = CHR 0x0C \<or> c = CR"

text \<open>A \<open>char\<close> is signed on the targets of the code: its value as an \<open>int\<close>.\<close>

definition schar :: "char \<Rightarrow> int" where
  "schar c = (let n = (of_char c :: int) in if n < 128 then n else n - 256)"

text \<open>Narrowing a \<open>wchar_t\<close> to \<open>char\<close> keeps the low byte; a literal widens unchanged.\<close>

definition char_of_wchar :: "wchar \<Rightarrow> char" where
  "char_of_wchar w = char_of (unat w)"

definition wchar_of_char :: "char \<Rightarrow> wchar" where
  "wchar_of_char c = of_nat (of_char c)"

lemma of_char_less_256 [simp]: "(of_char c :: nat) < 256"
  using nat_of_char_less_256 by simp

lemma char_of_wchar_of_char [simp]: "char_of_wchar (wchar_of_char c) = c"
proof -
  have "(of_char c :: nat) < 2 ^ 32"
    by (rule less_trans [OF of_char_less_256]) simp
  then have "unat (of_nat (of_char c) :: wchar) = of_char c"
    by (simp add: unat_of_nat)
  then show ?thesis by (simp add: char_of_wchar_def wchar_of_char_def)
qed

text \<open>
  The conversions of the third-party \<open>mxcomp::utf\<close> between narrow and wide strings are
  parameters of the model, bundled in one record. What the code relies on is that text made
  of ASCII characters comes through unchanged in either direction.
\<close>

record utf_lib =
  widen :: "string \<Rightarrow> wstring"
  narrow :: "wstring \<Rightarrow> string"

definition ascii :: "string \<Rightarrow> bool" where
  "ascii s \<longleftrightarrow> (\<forall>c \<in> set s. (of_char c :: nat) < 128)"

definition wide_lit :: "string \<Rightarrow> wstring" where
  "wide_lit s = map wchar_of_char s"

definition utf_ascii :: "utf_lib \<Rightarrow> bool" where
  "utf_ascii u \<longleftrightarrow>
     (\<forall>s. ascii s \<longrightarrow> widen u s = wide_lit s \<and> narrow u (wide_lit s) = s)"

text \<open>A concrete conversion, byte for byte, that the witnesses use.\<close>

definition latin1_utf :: utf_lib where
  "latin1_utf = \<lparr>widen = wide_lit, narrow = map char_of_wchar\<rparr>"

lemma utf_ascii_latin1 [simp]: "utf_ascii latin1_utf"
  by (simp add: utf_ascii_def latin1_utf_def wide_lit_def comp_def)

lemma utf_ascii_narrow [simp]: "utf_ascii u \<Longrightarrow> ascii s \<Longrightarrow> narrow u (wide_lit s) = s"
  by (simp add: utf_ascii_def)

lemma utf_ascii_widen [simp]: "utf_ascii u \<Longrightarrow> ascii s \<Longrightarrow> widen u s = wide_lit s"
  by (simp add: utf_ascii_def)

lemma ascii_simps [simp]:
  "ascii []"
  "ascii (c # s) \<longleftrightarrow> (of_char c :: nat) < 128 \<and> ascii s"
  "ascii (s @ t) \<longleftrightarrow> ascii s \<and> ascii t"
  by (auto simp: ascii_def)

section \<open>Sizes\<close>

text \<open>
  Lengths of objects fit a \<open>size_t\<close>; \<open>npos\<close> is both \<open>std::string::npos\<close>
  and the \<open>(size_t)-1\<close> the code uses for "no size".
\<close>

definition npos :: size_t where "npos = - 1"

definition size_of :: "'a list \<Rightarrow> size_t" where
  "size_of xs = of_nat (length xs)"

text \<open>What every object in memory satisfies; the bound leaves room for the sentinel.\<close>

definition fits :: "nat \<Rightarrow> bool" where
  "fits n \<longleftrightarrow> n < 2 ^ 63"

lemma unat_of_nat_size [simp]: "n < 2 ^ 64 \<Longrightarrow> unat (of_nat n :: size_t) = n"
  by (simp add: unat_of_nat)

lemma unat_npos [simp]: "unat npos = 2 ^ 64 - 1"
  by (simp add: npos_def unsigned_minus_1_eq_mask mask_eq_exp_minus_1)

lemma of_nat_neq_npos [simp]: "fits n \<Longrightarrow> (of_nat n :: size_t) \<noteq> npos"
proof
  assume f: "fits n" and eq: "(of_nat n :: size_t) = npos"
  from f have "n < 2 ^ 64" by (simp add: fits_def)
  then have "unat (of_nat n :: size_t) = n" by simp
  with eq have "n = 2 ^ 64 - 1" by simp
  with f show False by (simp add: fits_def)
qed

lemma of_nat_size_inj:
  "m < 2 ^ 64 \<Longrightarrow> n < 2 ^ 64 \<Longrightarrow> (of_nat m :: size_t) = of_nat n \<longleftrightarrow> m = n"
  by (metis unat_of_nat_size)

lemma of_nat_size_le:
  "m < 2 ^ 64 \<Longrightarrow> n < 2 ^ 64 \<Longrightarrow> (of_nat m :: size_t) \<le> of_nat n \<longleftrightarrow> m \<le> n"
  by (simp add: word_le_nat_alt)

lemma of_nat_size_diff: "m \<le> n \<Longrightarrow> (of_nat n :: size_t) - of_nat m = of_nat (n - m)"
  by (simp add: of_nat_diff)

lemma fits_mono: "fits n \<Longrightarrow> m \<le> n \<Longrightarrow> fits m"
  by (simp add: fits_def)

lemma fits_64: "fits n \<Longrightarrow> n < 2 ^ 64"
  by (simp add: fits_def)

section \<open>Digits\<close>

definition digit_char :: "nat \<Rightarrow> char" where
  "digit_char d = (if d < 10 then char_of (48 + d) else char_of (87 + d))"

text \<open>Value of a character as a digit, in any base up to 36.\<close>

definition digit_val :: "char \<Rightarrow> nat option" where
  "digit_val c = (let n = (of_char c :: nat) in
     if 48 \<le> n \<and> n \<le> 57 then Some (n - 48)
     else if 97 \<le> n \<and> n \<le> 122 then Some (n - 87)
     else if 65 \<le> n \<and> n \<le> 90 then Some (n - 55)
     else None)"

definition is_digit_in :: "nat \<Rightarrow> char \<Rightarrow> bool" where
  "is_digit_in b c \<longleftrightarrow> (case digit_val c of None \<Rightarrow> False | Some d \<Rightarrow> d < b)"

text \<open>\<open>operator<<\<close> of an unsigned integer, in base 10 or (with \<open>std::hex\<close>) 16.\<close>

fun show_base :: "nat \<Rightarrow> nat \<Rightarrow> string" where
  "show_base b n =
     (if b < 2 \<or> n < b then [digit_char n] else show_base b (n div b) @ [digit_char (n mod b)])"

declare show_base.simps [simp del]

abbreviation show_dec :: "nat \<Rightarrow> string" where "show_dec \<equiv> show_base 10"
abbreviation show_hex :: "nat \<Rightarrow> string" where "show_hex \<equiv> show_base 16"

definition digits_value :: "nat \<Rightarrow> string \<Rightarrow> nat" where
  "digits_value b s = foldl (\<lambda>a c. a * b + the (digit_val c)) 0 s"

lemma of_char_digit_char:
  "d < 36 \<Longrightarrow> (of_char (digit_char d) :: nat) = (if d < 10 then 48 + d else 87 + d)"
  by (simp add: digit_char_def)

lemma digit_val_digit_char [digit_simps]: "d < 36 \<Longrightarrow> digit_val (digit_char d) = Some d"
  by (simp add: digit_val_def of_char_digit_char)

lemma is_digit_in_digit_char [digit_simps]: "d < b \<Longrightarrow> b \<le> 36 \<Longrightarrow> is_digit_in b (digit_char d)"
  by (simp add: is_digit_in_def digit_val_digit_char)

lemma show_base_digits:
  "2 \<le> b \<Longrightarrow> b \<le> 36 \<Longrightarrow> c \<in> set (show_base b n) \<Longrightarrow> \<exists>d < b. c = digit_char d"
proof (induction b n rule: show_base.induct)
  case (1 b n)
  show ?case
  proof (cases "n < b")
    case True
    with 1 show ?thesis by (auto simp: show_base.simps [of b n])
  next
    case False
    from 1 have "n mod b < b" by simp
    then have "\<exists>d<b. digit_char (n mod b) = digit_char d" by blast
    with False 1 show ?thesis by (auto simp: show_base.simps [of b n])
  qed
qed

lemma show_base_nonempty [simp]: "show_base b n \<noteq> []"
  by (subst show_base.simps) simp

lemma digits_value_snoc [digit_simps]:
  "digits_value b (s @ [c]) = digits_value b s * b + the (digit_val c)"
  by (simp add: digits_value_def)

lemma digits_value_show [digit_simps]:
  "2 \<le> b \<Longrightarrow> b \<le> 36 \<Longrightarrow> digits_value b (show_base b n) = n"
proof (induction b n rule: show_base.induct)
  case (1 b n)
  show ?case
  proof (cases "n < b")
    case True
    with 1 show ?thesis
      by (simp add: show_base.simps [of b n] digits_value_def digit_val_digit_char)
  next
    case False
    from 1 have "n mod b < b" by simp
    with 1 have "n mod b < 36" by linarith
    with False 1 show ?thesis
      by (simp add: show_base.simps [of b n] digits_value_snoc digit_val_digit_char)
  qed
qed

lemma takeWhile_show_base:
  assumes "2 \<le> b" "b \<le> 36" "t = [] \<or> \<not> is_digit_in b (hd t)"
  shows "takeWhile (is_digit_in b) (show_base b n @ t) = show_base b n"
    and "dropWhile (is_digit_in b) (show_base b n @ t) = t"
proof -
  have all: "c \<in> set (show_base b n) \<Longrightarrow> is_digit_in b c" for c
    using show_base_digits [OF assms(1,2)] is_digit_in_digit_char assms(2) by blast
  have "takeWhile (is_digit_in b) t = []" "dropWhile (is_digit_in b) t = t"
    using assms(3) by (cases t; simp)+
  with all show "takeWhile (is_digit_in b) (show_base b n @ t) = show_base b n"
    and "dropWhile (is_digit_in b) (show_base b n @ t) = t"
    by (simp_all add: takeWhile_append2 dropWhile_append2)
qed

text \<open>The characters of a printed number are neither space, sign, NUL nor line end.\<close>

lemma of_char_hd_show_base:
  assumes "2 \<le> b" "b \<le> 36" "c \<in> set (show_base b n)"
  shows "(48 \<le> (of_char c :: nat) \<and> of_char c \<le> (57::nat)) \<or>
    (97 \<le> (of_char c :: nat) \<and> of_char c \<le> (122::nat))"
proof -
  obtain d where "d < b" and c: "c = digit_char d"
    using show_base_digits [OF assms] by blast
  with assms(2) have "d < 36" by simp
  with c show ?thesis by (auto simp: of_char_digit_char)
qed

lemma show_base_plain:
  assumes "2 \<le> b" "b \<le> 36" "c \<in> set (show_base b n)"
  shows "\<not> isspace_c c" "c \<noteq> CHR ''-''" "c \<noteq> CHR ''+''" "c \<noteq> NUL" "\<not> is_nl c"
    "(of_char c :: nat) < 128" "c \<noteq> CHR '':''" "c \<noteq> CHR '' ''"
  using of_char_hd_show_base [OF assms]
  by (auto simp: isspace_c_def is_nl_def)

lemma nul_free_show [simp]: "nul_free (show_dec n)" "nul_free (show_hex n)"
  using show_base_plain(4) [of 10 _ n] show_base_plain(4) [of 16 _ n]
  by (auto simp: nul_free_def)

lemma ascii_show [simp]: "ascii (show_dec n)" "ascii (show_hex n)"
  using show_base_plain(6) [of 10 _ n] show_base_plain(6) [of 16 _ n]
  by (auto simp: ascii_def)

section \<open>Reading numbers\<close>

text \<open>
  \<open>strtol(s, &end, b)\<close> on a 64-bit \<open>long\<close>: leading white space, an optional sign, in
  base 16 an optional \<open>0x\<close> that is followed by a digit, then the longest run of digits,
  clamped to the range of \<open>long\<close>. The result is the value and the rest of the string;
  with no digit the value is 0 and nothing is consumed. The argument is a C string.
\<close>

definition take_sign :: "string \<Rightarrow> bool \<times> string" where
  "take_sign s = (case s of
      c # t \<Rightarrow> if c = CHR ''-'' then (True, t) else if c = CHR ''+'' then (False, t) else (False, s)
    | [] \<Rightarrow> (False, s))"

definition skip_0x :: "nat \<Rightarrow> string \<Rightarrow> string" where
  "skip_0x b s = (case s of
      z # x # d # t \<Rightarrow>
        if b = 16 \<and> z = CHR ''0'' \<and> (x = CHR ''x'' \<or> x = CHR ''X'') \<and> is_digit_in 16 d
        then d # t else s
    | _ \<Rightarrow> s)"

definition clamp_long :: "int \<Rightarrow> int" where
  "clamp_long v = max (- (2 ^ 63)) (min (2 ^ 63 - 1) v)"

definition strtol :: "nat \<Rightarrow> string \<Rightarrow> int \<times> string" where
  "strtol b s =
     (let (neg, t) = take_sign (dropWhile isspace_c s);
          u = skip_0x b t;
          ds = takeWhile (is_digit_in b) u
      in if ds = [] then (0, s)
         else (clamp_long (if neg then - int (digits_value b ds) else int (digits_value b ds)),
               dropWhile (is_digit_in b) u))"

text \<open>
  \<open>operator>>\<close> of a \<open>size_t\<close> from a fresh stream over \<open>s\<close>, into a variable that
  holds \<open>d\<close>: with nothing but white space the variable keeps its value; with no digits it
  becomes 0; too large a number saturates; a minus sign negates modulo \<open>2 ^ 64\<close>.
\<close>

definition stream_size :: "size_t \<Rightarrow> string \<Rightarrow> size_t" where
  "stream_size d s =
     (let s1 = dropWhile isspace_c s in
      if s1 = [] then d
      else let (neg, t) = take_sign s1; ds = takeWhile (is_digit_in 10) t in
        if ds = [] then 0
        else if 2 ^ 64 \<le> digits_value 10 ds then npos
        else if neg then - of_nat (digits_value 10 ds) else of_nat (digits_value 10 ds))"

text \<open>\<open>operator>>\<close> of a \<open>std::string\<close> from a fresh stream: the first word.\<close>

definition stream_word :: "string \<Rightarrow> string" where
  "stream_word s = takeWhile (\<lambda>c. \<not> isspace_c c) (dropWhile isspace_c s)"

lemma hd_show_base_in: "hd (show_base b n) \<in> set (show_base b n)"
  by simp

lemma dropWhile_space_show:
  "2 \<le> b \<Longrightarrow> b \<le> 36 \<Longrightarrow> dropWhile isspace_c (show_base b n @ t) = show_base b n @ t"
  using show_base_plain(1) [OF _ _ hd_show_base_in, of b n]
  by (cases "show_base b n") auto

lemma take_sign_show:
  "2 \<le> b \<Longrightarrow> b \<le> 36 \<Longrightarrow> take_sign (show_base b n @ t) = (False, show_base b n @ t)"
  using show_base_plain(2,3) [OF _ _ hd_show_base_in, of b n]
  by (cases "show_base b n") (auto simp: take_sign_def)

lemma strtol_show_dec:
  assumes "n < 2 ^ 63" "t = [] \<or> \<not> is_digit_in 10 (hd t)"
  shows "strtol 10 (show_dec n @ t) = (int n, t)"
proof -
  have "skip_0x 10 u = u" for u
    by (auto simp: skip_0x_def split: list.splits)
  moreover have "clamp_long (int n) = int n"
    using assms(1) by (simp add: clamp_long_def)
  ultimately show ?thesis
    using assms(2)
    by (simp add: strtol_def dropWhile_space_show take_sign_show takeWhile_show_base digits_value_show)
qed

lemma stream_size_show [simp]: "n < 2 ^ 64 \<Longrightarrow> stream_size d (show_dec n) = of_nat n"
  using takeWhile_show_base(1) [of 10 "[]" n] dropWhile_space_show [of 10 n "[]"]
    take_sign_show [of 10 n "[]"]
  by (simp add: stream_size_def digits_value_show Let_def del: takeWhile_eq_all_conv)

end
