(* ===== verification/Http_Enums.thy ===== *)
theory Http_Enums
  imports Rt_Prelude
begin

text \<open>
  The enumerations of the HTTP layer with their conversions to and from text
  (\<open>include/rikitiki/http/Enums.h\<close>, \<open>src/http/Enums.cc\<close>), and the states of a message
  parser with the choice of body framing (\<open>MessageParserState.h\<close>, \<open>.cc\<close>). Enumerators
  of different C++ namespaces share names, so each carries a prefix here.
\<close>

section \<open>Request methods\<close>

datatype request_method =
    RM_ANY | RM_GET | RM_POST | RM_HEAD | RM_PUT | RM_DELETE | RM_TRACE | RM_OPTIONS
  | RM_CONNECT | RM_PATCH | RM_OTHER

text \<open>\<open>RequestMethod::FromString(const char*)\<close>: the chain of \<open>strcmp\<close> tests.\<close>

definition method_from_string :: "string \<Rightarrow> request_method" where
  "method_from_string s = (let method = cstr s in
     if method = ''GET'' then RM_GET
     else if method = ''POST'' then RM_POST
     else if method = ''HEAD'' then RM_HEAD
     else if method = ''PUT'' then RM_PUT
     else if method = ''DELETE'' then RM_DELETE
     else if method = ''TRACE'' then RM_TRACE
     else if method = ''OPTIONS'' then RM_OPTIONS
     else if method = ''CONNECT'' then RM_CONNECT
     else if method = ''PATCH'' then RM_PATCH
     else RM_ANY)"

text \<open>A wide C string: the characters before the first 0.\<close>

definition wcstr :: "wstring \<Rightarrow> wstring" where
  "wcstr w = takeWhile (\<lambda>c. c \<noteq> 0) w"

text \<open>\<open>RequestMethod::FromString(const wchar_t*)\<close>\<close>

definition method_from_wide :: "wstring \<Rightarrow> request_method" where
  "method_from_wide w = (let method = wcstr w in
     if method = wide_lit ''GET'' then RM_GET
     else if method = wide_lit ''POST'' then RM_POST
     else if method = wide_lit ''HEAD'' then RM_HEAD
     else if method = wide_lit ''PUT'' then RM_PUT
     else if method = wide_lit ''DELETE'' then RM_DELETE
     else if method = wide_lit ''TRACE'' then RM_TRACE
     else if method = wide_lit ''OPTIONS'' then RM_OPTIONS
     else if method = wide_lit ''CONNECT'' then RM_CONNECT
     else if method = wide_lit ''PATCH'' then RM_PATCH
     else RM_ANY)"

text \<open>\<open>RequestMethod::ToString\<close>\<close>

fun method_to_string :: "request_method \<Rightarrow> string" where
  "method_to_string RM_GET = ''GET''"
| "method_to_string RM_POST = ''POST''"
| "method_to_string RM_HEAD = ''HEAD''"
| "method_to_string RM_PUT = ''PUT''"
| "method_to_string RM_DELETE = ''DELETE''"
| "method_to_string RM_TRACE = ''TRACE''"
| "method_to_string RM_OPTIONS = ''OPTIONS''"
| "method_to_string RM_CONNECT = ''CONNECT''"
| "method_to_string RM_PATCH = ''PATCH''"
| "method_to_string RM_ANY = ''ANY''"
| "method_to_string RM_OTHER = ''ANY''"

lemma method_to_string_plain [simp]:
  "nul_free (method_to_string m)" "ascii (method_to_string m)" "method_to_string m \<noteq> []"
  "CHR '' '' \<notin> set (method_to_string m)"
  by (cases m; simp)+

lemma method_from_to_string:
  "method_from_string (method_to_string m) = (if m = RM_OTHER then RM_ANY else m)"
  by (cases m) (simp_all add: method_from_string_def)

lemma method_from_string_iff:
  "method_from_string s = m \<Longrightarrow> m \<noteq> RM_ANY \<Longrightarrow> cstr s = method_to_string m"
  by (auto simp: method_from_string_def Let_def split: if_splits)

lemma wcstr_wide_lit: "wcstr (wide_lit s) = wide_lit (cstr s)"
proof -
  have "wchar_of_char c = 0 \<longleftrightarrow> c = NUL" for c
  proof -
    have "wchar_of_char NUL = 0" by (simp add: wchar_of_char_def)
    then show ?thesis by (metis char_of_wchar_of_char)
  qed
  then show ?thesis by (simp add: wcstr_def wide_lit_def cstr_def takeWhile_map comp_def)
qed

lemma wide_lit_inj [simp]: "wide_lit s = wide_lit t \<longleftrightarrow> s = t"
  by (metis (no_types, lifting) char_of_wchar_of_char comp_apply list.map_comp list.map_ident_strong
      wide_lit_def)

text \<open>The two overloads agree on the wide form of a narrow string.\<close>

lemma method_from_wide_lit: "method_from_wide (wide_lit s) = method_from_string s"
  by (simp add: method_from_wide_def method_from_string_def wcstr_wide_lit Let_def)

section \<open>Transfer encodings\<close>

datatype encoding =
    Enc_UNKNOWN | Enc_chunked | Enc_compress | Enc_deflate | Enc_gzip | Enc_identity | Enc_OTHER

text \<open>\<open>Encoding::ToString\<close> is a stub that fails its assertion.\<close>

definition encoding_to_string :: "encoding \<Rightarrow> string result" where
  "encoding_to_string e = Inl AssertFailure"

text \<open>\<open>Encoding::FromString\<close>\<close>

definition encoding_from_wide :: "wstring \<Rightarrow> encoding" where
  "encoding_from_wide w = (let str = wcstr w in
     if str = wide_lit ''chunked'' then Enc_chunked
     else if str = wide_lit ''compress'' then Enc_compress
     else if str = wide_lit ''deflate'' then Enc_deflate
     else if str = wide_lit ''gzip'' then Enc_gzip
     else if str = wide_lit ''identity'' then Enc_identity
     else Enc_OTHER)"

text \<open>\<open>operator>>(std::istream&, Encoding::t&)\<close> on a fresh stream over \<open>s\<close>, and the
  overload on a wide stream, given the word the stream delivers.\<close>

definition encoding_extract :: "utf_lib \<Rightarrow> string \<Rightarrow> encoding" where
  "encoding_extract u s = encoding_from_wide (widen u (cstr (stream_word s)))"

definition encoding_extract_wide :: "wstring \<Rightarrow> encoding" where
  "encoding_extract_wide str = encoding_from_wide str"

lemma encoding_extract_ascii:
  "utf_ascii u \<Longrightarrow> ascii (cstr (stream_word s)) \<Longrightarrow>
     encoding_extract u s = encoding_from_wide (wide_lit (cstr (stream_word s)))"
  by (simp add: encoding_extract_def)

section \<open>Parser states and body framing\<close>

datatype message_state = MS_UNKNOWN | MS_START_LINE | MS_HEADERS | MS_BODY | MS_FINISHED

datatype body_type = BT_UNKNOWN | BT_NONE | BT_BUFFERING | BT_KNOWN_SIZE | BT_CHUNKED

text \<open>The code compares message states by their enumeration order.\<close>

fun ms_code :: "message_state \<Rightarrow> nat" where
  "ms_code MS_UNKNOWN = 0"
| "ms_code MS_START_LINE = 1"
| "ms_code MS_HEADERS = 2"
| "ms_code MS_BODY = 3"
| "ms_code MS_FINISHED = 4"

instantiation message_state :: linorder
begin

definition less_eq_message_state :: "message_state \<Rightarrow> message_state \<Rightarrow> bool" where
  "less_eq_message_state a b \<longleftrightarrow> ms_code a \<le> ms_code b"

definition less_message_state :: "message_state \<Rightarrow> message_state \<Rightarrow> bool" where
  "less_message_state a b \<longleftrightarrow> ms_code a < ms_code b"

instance
proof
  fix a b c :: message_state
  show "a \<le> b \<Longrightarrow> b \<le> a \<Longrightarrow> a = b"
    by (cases a; cases b) (simp_all add: less_eq_message_state_def)
qed (auto simp: less_eq_message_state_def less_message_state_def)

end

lemmas ms_order = less_eq_message_state_def less_message_state_def

text \<open>\<open>BodyType::From\<close>\<close>

definition body_type_from :: "size_t \<Rightarrow> encoding \<Rightarrow> body_type" where
  "body_type_from contentSize enc =
     (if contentSize \<noteq> npos then BT_KNOWN_SIZE
      else if enc = Enc_chunked then BT_CHUNKED
      else BT_NONE)"

record parser_state =
  bodyType :: body_type
  streamState :: message_state

text \<open>The constructor of \<open>MessageParserState\<close> with its default arguments.\<close>

definition init_parser_state :: parser_state where
  "init_parser_state = \<lparr>bodyType = BT_UNKNOWN, streamState = MS_START_LINE\<rparr>"

end
