(* ===== verification/Buffered_Reader.thy ===== *)
theory Buffered_Reader
  imports Http_Enums
begin

text \<open>
  \<open>BufferedReader\<close> (\<open>include/rikitiki/http/parsing/BufferedReader.h\<close>, its
  \<open>OnData\<close> in \<open>src/http/Response.cc\<close>): cuts the incoming bytes into lines or blocks
  and hands each to the virtual \<open>OnBufferedData\<close>, which is a parameter here. The records
  of the derived classes extend \<open>reader\<close>.

  A block of memory is given as its bytes and the readable bytes that follow it
  (\<open>after\<close>): the code scans with \<open>strpbrk\<close>, which does not stop at the end of the
  block. Reading beyond \<open>after\<close> is undefined behaviour. A loop that would not end shows as
  \<open>None\<close>, when the fuel is used up.
\<close>

datatype buffer_mode = BM_LENGTH | BM_NEWLINE | BM_NONE

record reader =
  expectedSize :: size_t
  bufferMode :: buffer_mode
  buffer :: string

text \<open>The constructor.\<close>

definition new_reader :: reader where
  "new_reader = \<lparr>expectedSize = npos, bufferMode = BM_NEWLINE, buffer = []\<rparr>"

type_synonym 's on_buffered = "string \<Rightarrow> string \<Rightarrow> 's \<Rightarrow> (bool \<times> 's) result"

text \<open>
  The search for the end of a line: \<open>strpbrk(data, "\r\n")\<close>, one step past what it found,
  and one more past a second line-end character. \<open>None\<close> is the null pointer.
\<close>

definition newline_end :: "string \<Rightarrow> string \<Rightarrow> nat option result" where
  "newline_end data after =
     (let mem = data @ after;
          k = length (takeWhile (\<lambda>c. \<not> is_nl c \<and> c \<noteq> NUL) mem)
      in if length mem \<le> k then Inl UndefinedBehaviour
         else if mem ! k = NUL then Inr None
         else if length mem \<le> k + 1 then Inl UndefinedBehaviour
         else Inr (Some (if is_nl (mem ! (k + 1)) then k + 2 else k + 1)))"

text \<open>\<open>BufferedReader::OnData\<close>; \<open>length_case\<close> is the label \<open>LENGTH\<close>, which the
  newline case falls into.\<close>

fun on_data_loop ::
  "nat \<Rightarrow> 'a reader_scheme on_buffered \<Rightarrow> string \<Rightarrow> string \<Rightarrow> 'a reader_scheme \<Rightarrow>
   (bool \<times> 'a reader_scheme) result option"
and length_case ::
  "nat \<Rightarrow> 'a reader_scheme on_buffered \<Rightarrow> string \<Rightarrow> string \<Rightarrow> 'a reader_scheme \<Rightarrow>
   (bool \<times> 'a reader_scheme) result option"
where
  "on_data_loop 0 onBuf data after rd = None"
| "on_data_loop (Suc n) onBuf data after rd =
     (if data = [] then Some (Inr (False, rd))
      else case bufferMode rd of
        BM_NONE \<Rightarrow> Some (onBuf data after rd)
      | BM_NEWLINE \<Rightarrow>
          (case newline_end data after of
             Inl e \<Rightarrow> Some (Inl e)
           | Inr None \<Rightarrow> Some (Inr (False, rd\<lparr>buffer := buffer rd @ data\<rparr>))
           | Inr (Some p) \<Rightarrow>
               length_case n onBuf data after
                 (rd\<lparr>expectedSize := size_of (buffer rd) + of_nat p\<rparr>))
      | BM_LENGTH \<Rightarrow> length_case n onBuf data after rd)"
| "length_case n onBuf data after rd =
     (let remaining = expectedSize rd - size_of (buffer rd) in
      if remaining \<le> size_of data then
        (let r = unat remaining;
             rd1 = rd\<lparr>buffer := buffer rd @ take r data\<rparr>
         in case onBuf (buffer rd1) [NUL] rd1 of
              Inl e \<Rightarrow> Some (Inl e)
            | Inr (rtn, rd2) \<Rightarrow>
                if rtn then Some (Inr (True, rd2\<lparr>buffer := []\<rparr>))
                else on_data_loop n onBuf (drop r data) after (rd2\<lparr>buffer := []\<rparr>))
      else Some (Inr (False, rd\<lparr>buffer := buffer rd @ data\<rparr>)))"

declare on_data_loop.simps(2) [simp del] length_case.simps [simp del]

text \<open>
  One unit of fuel per pass of the loop. A pass of a client that never asks for a block of
  length 0 consumes a byte, so one more than the number of bytes is enough for it.
\<close>

definition on_data ::
  "'a reader_scheme on_buffered \<Rightarrow> string \<Rightarrow> string \<Rightarrow> 'a reader_scheme \<Rightarrow>
   (bool \<times> 'a reader_scheme) result option" where
  "on_data onBuf data after rd = on_data_loop (Suc (length data)) onBuf data after rd"

section \<open>Line ends\<close>

text \<open>Bytes that neither end a line nor a C string.\<close>

definition line_text :: "string \<Rightarrow> bool" where
  "line_text s \<longleftrightarrow> (\<forall>c \<in> set s. \<not> is_nl c \<and> c \<noteq> NUL)"

lemma line_text_simps [simp]:
  "line_text []"
  "line_text (c # s) \<longleftrightarrow> \<not> is_nl c \<and> c \<noteq> NUL \<and> line_text s"
  "line_text (s @ t) \<longleftrightarrow> line_text s \<and> line_text t"
  by (auto simp: line_text_def)

lemma is_nl_simps [simp]: "is_nl CR" "is_nl LF" "\<not> is_nl NUL" "\<not> is_nl (CHR '' '')" "\<not> is_nl (CHR '':'')"
  by (simp_all add: is_nl_def)

lemma line_text_nul_free: "line_text s \<Longrightarrow> nul_free s"
  by (auto simp: line_text_def nul_free_def)

lemma takeWhile_line:
  "line_text s \<Longrightarrow> is_nl c \<or> c = NUL \<Longrightarrow>
     takeWhile (\<lambda>c. \<not> is_nl c \<and> c \<noteq> NUL) (s @ c # t) = s"
  by (simp add: line_text_def takeWhile_append2)

text \<open>A line that ends in CR LF is found up to and with its end, whatever follows.\<close>

lemma newline_end_crlf: "line_text s \<Longrightarrow> newline_end (s @ crlf @ rest) after = Inr (Some (length s + 2))"
  by (simp add: newline_end_def crlf_def takeWhile_line nth_append)

text \<open>Otherwise the first line-end character decides, with the byte after it.\<close>

lemma newline_end_first:
  assumes "line_text s" "is_nl c" "rest @ after \<noteq> []"
  shows "newline_end (s @ c # rest) after =
    Inr (Some (if is_nl (hd (rest @ after)) then length s + 2 else length s + 1))"
proof -
  obtain d t where "rest @ after = d # t" using assms(3) by (metis neq_Nil_conv)
  then show ?thesis
    using assms(1,2) by (auto simp: newline_end_def Let_def takeWhile_line nth_append)
qed

lemma line_or_split: "line_text xs \<or> (\<exists>l c r. xs = l @ c # r \<and> line_text l \<and> (is_nl c \<or> c = NUL))"
proof (induction xs)
  case (Cons x xs)
  show ?case
  proof (cases "is_nl x \<or> x = NUL")
    case True
    then show ?thesis by (metis append_Nil line_text_simps(1))
  next
    case False
    with Cons show ?thesis by (metis append_Cons line_text_simps(2))
  qed
qed simp

lemma newline_end_none: "line_text s \<Longrightarrow> newline_end s (NUL # t) = Inr None"
  by (simp add: newline_end_def takeWhile_line nth_append)

lemma newline_end_NUL: "line_text s \<Longrightarrow> newline_end (s @ NUL # r) after = Inr None"
  by (simp add: newline_end_def takeWhile_line nth_append)

lemma newline_end_some:
  assumes "newline_end xs (NUL # t) = Inr (Some p)"
  obtains l c r where "xs = l @ c # r" "line_text l" "is_nl c"
  using line_or_split [of xs] assms newline_end_none [of xs t] newline_end_NUL by fastforce

lemma newline_end_bound:
  "newline_end data (NUL # t) = Inr (Some p) \<Longrightarrow> 0 < p \<and> p \<le> length data"
proof -
  let ?P = "\<lambda>c. \<not> is_nl c \<and> c \<noteq> NUL"
  let ?m = "data @ NUL # t"
  assume e: "newline_end data (NUL # t) = Inr (Some p)"
  let ?k = "length (takeWhile ?P ?m)"
  have k: "?k \<le> length data"
    by (simp add: takeWhile_append length_takeWhile_le)
  from e have nn: "?m ! ?k \<noteq> NUL"
    and p: "p = (if is_nl (?m ! (?k + 1)) then ?k + 2 else ?k + 1)"
    by (auto simp: newline_end_def Let_def split: if_splits)
  from nn k have "?k < length data"
    by (metis le_neq_implies_less nth_append_length)
  moreover have "is_nl (?m ! (?k + 1)) \<Longrightarrow> ?k + 1 \<noteq> length data"
    by (metis is_nl_simps(3) nth_append_length)
  ultimately show ?thesis unfolding p by auto
qed

text \<open>Bytes that arrive later do not move a line end, unless they complete a pair.\<close>

lemma newline_end_later:
  assumes "newline_end xs (NUL # t) = Inr (Some p)" "ys \<noteq> []"
    "\<not> (is_nl (last xs) \<and> is_nl (hd ys))"
  shows "newline_end (xs @ ys) after = Inr (Some p)"
proof -
  from assms(1) obtain l c r where xs: "xs = l @ c # r" "line_text l" "is_nl c"
    by (rule newline_end_some)
  show ?thesis
  proof (cases r)
    case Nil
    with assms(2,3) xs have "\<not> is_nl (hd (ys @ after))" by simp
    moreover have "[] @ NUL # t \<noteq> []" "ys @ after \<noteq> []" using assms(2) by auto
    ultimately show ?thesis
      using assms(1) xs Nil by (simp add: newline_end_first [where rest = "[]", simplified] newline_end_first)
  next
    case (Cons d r')
    with assms(1) xs show ?thesis by (simp add: newline_end_first)
  qed
qed

lemma newline_end_line_append:
  "line_text xs \<Longrightarrow>
     newline_end (xs @ ys) after =
       (case newline_end ys after of
          Inl e \<Rightarrow> Inl e | Inr None \<Rightarrow> Inr None | Inr (Some p) \<Rightarrow> Inr (Some (length xs + p)))"
proof -
  assume "line_text xs"
  then have "takeWhile (\<lambda>c. \<not> is_nl c \<and> c \<noteq> NUL) (xs @ ys @ after) =
      xs @ takeWhile (\<lambda>c. \<not> is_nl c \<and> c \<noteq> NUL) (ys @ after)"
    by (simp add: line_text_def takeWhile_append2)
  then show ?thesis by (simp add: newline_end_def Let_def nth_append)
qed

lemma newline_end_none_line: "nul_free xs \<Longrightarrow> newline_end xs (NUL # t) = Inr None \<Longrightarrow> line_text xs"
  using line_or_split [of xs] by (auto simp: newline_end_first)

lemma newline_end_terminated: "\<exists>r. newline_end xs (NUL # t) = Inr r"
proof -
  let ?P = "\<lambda>c. \<not> is_nl c \<and> c \<noteq> NUL"
  let ?m = "xs @ NUL # t"
  let ?k = "length (takeWhile ?P ?m)"
  have k: "?k \<le> length xs" by (simp add: takeWhile_append length_takeWhile_le)
  moreover have "?k + 1 < length ?m" if nn: "?m ! ?k \<noteq> NUL"
  proof -
    have "?k \<noteq> length xs" using nn by (metis nth_append_length)
    with k show ?thesis by simp
  qed
  ultimately show ?thesis
    by (cases "?m ! ?k = NUL") (simp_all add: newline_end_def Let_def)
qed

section \<open>The loop\<close>

text \<open>More fuel than enough changes nothing.\<close>

lemma length_case_mono:
  assumes "\<And>data rd. on_data_loop n onBuf data after rd = Some r \<Longrightarrow>
      on_data_loop m onBuf data after rd = Some r"
    and "length_case n onBuf data after rd = Some r"
  shows "length_case m onBuf data after rd = Some r"
  using assms(2) unfolding length_case.simps [of n] length_case.simps [of m] Let_def
  by (auto split: if_splits sum.splits dest: assms(1))

lemma on_data_fuel_mono:
  "on_data_loop n onBuf data after rd = Some r \<Longrightarrow> n \<le> m \<Longrightarrow>
     on_data_loop m onBuf data after rd = Some r"
proof (induction n arbitrary: m data rd)
  case (Suc n)
  then obtain k where m: "m = Suc k" "n \<le> k" by (metis Suc_le_D Suc_le_mono)
  have lc: "length_case k onBuf data after rd' = Some r"
    if "length_case n onBuf data after rd' = Some r" for rd'
    using that by (rule length_case_mono [rotated]) (rule Suc.IH [OF _ m(2)])
  show ?case
  proof (cases "bufferMode rd")
    case BM_LENGTH
    with Suc.prems lc show ?thesis by (auto simp: on_data_loop.simps(2) m(1) split: if_splits)
  next
    case BM_NEWLINE
    with Suc.prems lc show ?thesis
      by (cases "newline_end data after")
        (auto simp: on_data_loop.simps(2) m(1) split: if_splits option.splits)
  next
    case BM_NONE
    with Suc.prems show ?thesis by (simp add: on_data_loop.simps(2) m(1) split: if_splits)
  qed
qed simp

lemma block_size: "(size_of b + of_nat p) - size_of b = (of_nat p :: size_t)"
  by simp

lemma on_data_Nil [simp]: "on_data onBuf [] after rd = Some (Inr (False, rd))"
  by (simp add: on_data_def on_data_loop.simps)

lemma on_data_none_mode:
  "bufferMode rd = BM_NONE \<Longrightarrow> data \<noteq> [] \<Longrightarrow> on_data onBuf data after rd = Some (onBuf data after rd)"
  by (simp add: on_data_def on_data_loop.simps)

lemma on_data_no_line:
  "bufferMode rd = BM_NEWLINE \<Longrightarrow> newline_end data after = Inr None \<Longrightarrow>
     on_data onBuf data after rd = Some (Inr (False, rd\<lparr>buffer := buffer rd @ data\<rparr>))"
  by (cases "data = []") (simp_all add: on_data_def on_data_loop.simps)

text \<open>What one pass in line mode does, before the loop goes on with the rest.\<close>

lemma on_data_loop_line:
  assumes "bufferMode rd = BM_NEWLINE" "data \<noteq> []"
    "newline_end data after = Inr (Some p)" "p \<le> length data" "fits (length data)"
  shows "on_data_loop (Suc n) onBuf data after rd =
    (let block = buffer rd @ take p data in
     case onBuf block [NUL]
        (rd\<lparr>expectedSize := size_of block, buffer := block\<rparr>) of
       Inl e \<Rightarrow> Some (Inl e)
     | Inr (rtn, rd2) \<Rightarrow>
         if rtn then Some (Inr (True, rd2\<lparr>buffer := []\<rparr>))
         else on_data_loop n onBuf (drop p data) after (rd2\<lparr>buffer := []\<rparr>))"
proof -
  have p: "p < 2 ^ 64" using assms(4,5) by (simp add: fits_def)
  moreover have "length data < 2 ^ 64" using assms(5) by (simp add: fits_def)
  ultimately have "(of_nat p :: size_t) \<le> size_of data"
    using assms(4) by (simp add: size_of_def of_nat_size_le)
  moreover have "size_of (buffer rd @ take p data) = size_of (buffer rd) + of_nat p"
    using assms(4) by (simp add: size_of_def)
  ultimately show ?thesis
    using assms p by (simp add: on_data_loop.simps length_case.simps Let_def)
qed

text \<open>
  A client of the reader whose blocks are lines or whatever has arrived. \<open>inv\<close> is what it
  keeps between calls: it depends on neither the buffer nor the expected size, it excludes
  the mode that waits for a length, and both kinds of calls keep it. In block mode a client
  may be handed its data in pieces.
\<close>

locale buffered_client =
  fixes onBuf :: "'a reader_scheme on_buffered"
    and inv :: "'a reader_scheme \<Rightarrow> bool"
  assumes inv_buffer: "inv rd \<Longrightarrow> inv (rd\<lparr>buffer := b\<rparr>)"
    and inv_size: "inv rd \<Longrightarrow> inv (rd\<lparr>expectedSize := e\<rparr>)"
    and inv_mode: "inv rd \<Longrightarrow> bufferMode rd \<noteq> BM_LENGTH"
    and inv_line: "inv rd \<Longrightarrow> bufferMode rd = BM_NEWLINE \<Longrightarrow> expectedSize rd = size_of data \<Longrightarrow>
      fits (length data) \<Longrightarrow> onBuf data [NUL] rd = Inr (rtn, rd') \<Longrightarrow> inv rd'"
    and inv_block: "inv rd \<Longrightarrow> bufferMode rd = BM_NONE \<Longrightarrow> onBuf data after rd = Inr (rtn, rd') \<Longrightarrow> inv rd'"
    and block_split: "inv rd \<Longrightarrow> bufferMode rd = BM_NONE \<Longrightarrow> xs \<noteq> [] \<Longrightarrow> fits (length (xs @ ys)) \<Longrightarrow>
      onBuf xs after rd = Inr (False, rd') \<Longrightarrow>
      bufferMode rd' = BM_NONE \<and> onBuf (xs @ ys) after' rd = onBuf ys after' rd'"
begin

lemma client_mode: "inv rd \<Longrightarrow> bufferMode rd = BM_NONE \<or> bufferMode rd = BM_NEWLINE"
  using inv_mode by (cases "bufferMode rd") auto

lemma client_line_inv:
  assumes "inv rd" "bufferMode rd = BM_NEWLINE" "fits (length block)"
    "onBuf block [NUL] (rd\<lparr>expectedSize := size_of block, buffer := block\<rparr>) = Inr (rtn, rd')"
  shows "inv (rd'\<lparr>buffer := []\<rparr>)"
proof -
  let ?rd = "rd\<lparr>expectedSize := size_of block, buffer := block\<rparr>"
  have "inv ?rd" using assms(1) by (simp add: inv_buffer inv_size)
  moreover have "bufferMode ?rd = BM_NEWLINE" "expectedSize ?rd = size_of block"
    using assms(2) by simp_all
  ultimately have "inv rd'" using assms(3,4) inv_line by blast
  then show ?thesis by (rule inv_buffer)
qed

lemma loop_terminates:
  "inv rd \<Longrightarrow> fits (length (buffer rd) + length data) \<Longrightarrow> length data < n \<Longrightarrow>
     \<exists>r. on_data_loop n onBuf data (NUL # t) rd = Some r \<and>
         (\<forall>rtn rd'. r = Inr (rtn, rd') \<longrightarrow> inv rd')"
proof (induction n arbitrary: data rd)
  case (Suc n)
  consider "data = []" | "data \<noteq> []" "bufferMode rd = BM_NONE"
    | "data \<noteq> []" "bufferMode rd = BM_NEWLINE"
    using client_mode Suc.prems by blast
  then show ?case
  proof cases
    case 1
    with Suc.prems show ?thesis by (simp add: on_data_loop.simps)
  next
    case 2
    with Suc.prems show ?thesis by (auto simp: on_data_loop.simps intro: inv_block)
  next
    case 3
    obtain r where r: "newline_end data (NUL # t) = Inr r"
      using newline_end_terminated by blast
    show ?thesis
    proof (cases r)
      case None
      with r 3 Suc.prems show ?thesis by (auto simp: on_data_loop.simps inv_buffer)
    next
      case (Some p)
      let ?block = "buffer rd @ take p data"
      let ?rd = "rd\<lparr>expectedSize := size_of ?block, buffer := ?block\<rparr>"
      have p: "0 < p" "p \<le> length data" using newline_end_bound r Some by blast+
      have f: "fits (length data)" "fits (length ?block)"
        using Suc.prems(2) p by (auto intro: fits_mono)
      note eq = on_data_loop_line [OF 3(2,1) r [unfolded Some] p(2) f(1), of n onBuf]
      show ?thesis
      proof (cases "onBuf ?block [NUL] ?rd")
        case (Inl e)
        then show ?thesis by (simp add: eq Let_def)
      next
        case (Inr b)
        obtain rtn rd2 where b: "b = (rtn, rd2)" by force
        have i: "inv (rd2\<lparr>buffer := []\<rparr>)"
          using client_line_inv Suc.prems(1) 3(2) f(2) Inr b by blast
        have "\<exists>r. on_data_loop n onBuf (drop p data) (NUL # t) (rd2\<lparr>buffer := []\<rparr>) = Some r \<and>
            (\<forall>rtn rd'. r = Inr (rtn, rd') \<longrightarrow> inv rd')"
        proof (rule Suc.IH)
          show "fits (length (buffer (rd2\<lparr>buffer := []\<rparr>)) + length (drop p data))"
            using Suc.prems(2) by (auto intro: fits_mono)
          show "length (drop p data) < n" using p Suc.prems(3) by simp
        qed (rule i)
        with Inr b i show ?thesis by (auto simp: eq Let_def)
      qed
    qed
  qed
qed simp

lemma on_data_returns:
  assumes "inv rd" "fits (length (buffer rd) + length data)"
  obtains r where "on_data onBuf data (NUL # t) rd = Some r"
    and "\<And>rtn rd'. r = Inr (rtn, rd') \<Longrightarrow> inv rd'"
  using loop_terminates [OF assms lessI, of t] unfolding on_data_def by blast

text \<open>One line off the front of the data.\<close>

lemma on_data_line:
  assumes "inv rd" "bufferMode rd = BM_NEWLINE" "fits (length (buffer rd) + length data)"
    "newline_end data (NUL # t) = Inr (Some p)"
  shows "on_data onBuf data (NUL # t) rd =
    (let block = buffer rd @ take p data in
     case onBuf block [NUL]
        (rd\<lparr>expectedSize := size_of block, buffer := block\<rparr>) of
       Inl e \<Rightarrow> Some (Inl e)
     | Inr (rtn, rd2) \<Rightarrow>
         if rtn then Some (Inr (True, rd2\<lparr>buffer := []\<rparr>))
         else on_data onBuf (drop p data) (NUL # t) (rd2\<lparr>buffer := []\<rparr>))"
proof -
  let ?block = "buffer rd @ take p data"
  have p: "0 < p" "p \<le> length data" using newline_end_bound assms(4) by blast+
  then have ne: "data \<noteq> []" by auto
  have f: "fits (length data)" "fits (length ?block)"
    using assms(3) p by (auto intro: fits_mono)
  have rest: "on_data_loop (length data) onBuf (drop p data) (NUL # t) (rd2\<lparr>buffer := []\<rparr>) =
      on_data onBuf (drop p data) (NUL # t) (rd2\<lparr>buffer := []\<rparr>)"
    if onb: "onBuf ?block [NUL] (rd\<lparr>expectedSize := size_of ?block, buffer := ?block\<rparr>) =
      Inr (rtn, rd2)" for rtn rd2
  proof -
    have i: "inv (rd2\<lparr>buffer := []\<rparr>)"
      using client_line_inv assms(1,2) f(2) onb by blast
    have "fits (length (buffer (rd2\<lparr>buffer := []\<rparr>)) + length (drop p data))"
      using assms(3) by (auto intro: fits_mono)
    then obtain r where
      "on_data onBuf (drop p data) (NUL # t) (rd2\<lparr>buffer := []\<rparr>) = Some r"
      using on_data_returns [OF i] by blast
    moreover have "Suc (length (drop p data)) \<le> length data" using p by simp
    ultimately show ?thesis unfolding on_data_def by (metis on_data_fuel_mono)
  qed
  show ?thesis
    unfolding on_data_def [of onBuf data]
      on_data_loop_line [OF assms(2) ne assms(4) p(2) f(1)]
    by (auto simp: Let_def rest split: sum.splits)
qed

text \<open>
  Data that arrives in two pieces does what the whole does, when the cut is not inside a
  line end and the first piece has not already finished the message.
\<close>

lemma on_data_split:
  "inv rd \<Longrightarrow> fits (length (buffer rd) + length xs + length ys) \<Longrightarrow>
   (bufferMode rd' = BM_NEWLINE \<Longrightarrow> nul_free (buffer rd')) \<Longrightarrow> ys \<noteq> [] \<Longrightarrow>
   (bufferMode rd = BM_NEWLINE \<Longrightarrow> xs \<noteq> [] \<Longrightarrow> \<not> (is_nl (last xs) \<and> is_nl (hd ys))) \<Longrightarrow>
   on_data onBuf xs (NUL # t) rd = Some (Inr (False, rd')) \<Longrightarrow>
   on_data onBuf (xs @ ys) (NUL # t') rd = on_data onBuf ys (NUL # t') rd'"
proof (induction "length xs" arbitrary: xs rd rule: less_induct)
  case less
  consider "xs = []" | "xs \<noteq> []" "bufferMode rd = BM_NONE"
    | "xs \<noteq> []" "bufferMode rd = BM_NEWLINE"
    using client_mode less.prems by blast
  then show ?case
  proof cases
    case 1
    with less.prems show ?thesis by simp
  next
    case 2
    have "onBuf xs (NUL # t) rd = Inr (False, rd')"
      using less.prems 2 by (simp add: on_data_none_mode)
    moreover have "fits (length (xs @ ys))" using less.prems(2) by (rule fits_mono) simp
    ultimately have "bufferMode rd' = BM_NONE"
      "onBuf (xs @ ys) (NUL # t') rd = onBuf ys (NUL # t') rd'"
      using block_split less.prems(1) 2 by blast+
    with 2 less.prems(4) show ?thesis by (simp add: on_data_none_mode)
  next
    case 3
    have cut: "\<not> (is_nl (last xs) \<and> is_nl (hd ys))" using less.prems(5) 3 by blast
    obtain r where r: "newline_end xs (NUL # t) = Inr r"
      using newline_end_terminated by blast
    show ?thesis
    proof (cases r)
      case None
      have rd': "rd' = rd\<lparr>buffer := buffer rd @ xs\<rparr>"
        using less.prems(6) r None 3 by (simp add: on_data_no_line)
      with less.prems(3) 3 have "nul_free xs" by simp
      with r None have lt: "line_text xs" using newline_end_none_line by blast
      obtain q where q: "newline_end ys (NUL # t') = Inr q"
        using newline_end_terminated by blast
      have m: "bufferMode rd' = BM_NEWLINE" using 3 rd' by simp
      have i: "inv rd'" using less.prems(1) rd' by (simp add: inv_buffer)
      show ?thesis
      proof (cases q)
        case None
        with q lt have "newline_end (xs @ ys) (NUL # t') = Inr None"
          by (simp add: newline_end_line_append)
        with q None 3 m rd' show ?thesis by (simp add: on_data_no_line)
      next
        case (Some p)
        with q lt have w: "newline_end (xs @ ys) (NUL # t') = Inr (Some (length xs + p))"
          by (simp add: newline_end_line_append)
        have f: "fits (length (buffer rd') + length ys)"
          using less.prems(2) rd' by (simp add: ac_simps)
        have f': "fits (length (buffer rd) + length (xs @ ys))"
          using less.prems(2) by (simp add: ac_simps)
        have dr: "drop (length xs + p) (xs @ ys) = drop p ys" by simp
        show ?thesis
          unfolding on_data_line [OF i m f q [unfolded Some]]
            on_data_line [OF less.prems(1) 3(2) f' w] dr
          by (simp add: rd')
      qed
    next
      case (Some p)
      let ?block = "buffer rd @ take p xs"
      have p: "0 < p" "p \<le> length xs" using newline_end_bound r Some by blast+
      have nx: "newline_end (xs @ ys) (NUL # t') = Inr (Some p)"
        using newline_end_later less.prems(4) cut r Some by blast
      have f: "fits (length (buffer rd) + length xs)" "fits (length (buffer rd) + length (xs @ ys))"
        "fits (length ?block)"
        using less.prems(2) by (auto intro: fits_mono)
      note line = on_data_line [OF less.prems(1) 3(2)]
      obtain rd2 where onb: "onBuf ?block [NUL]
          (rd\<lparr>expectedSize := size_of ?block, buffer := ?block\<rparr>) = Inr (False, rd2)"
        and rest: "on_data onBuf (drop p xs) (NUL # t) (rd2\<lparr>buffer := []\<rparr>) = Some (Inr (False, rd'))"
        using less.prems(6) unfolding line [OF f(1) r [unfolded Some]]
        by (auto simp: Let_def split: sum.splits if_splits)
      have i: "inv (rd2\<lparr>buffer := []\<rparr>)"
        using client_line_inv less.prems(1) 3(2) f(3) onb by blast
      have "on_data onBuf (drop p xs @ ys) (NUL # t') (rd2\<lparr>buffer := []\<rparr>) =
          on_data onBuf ys (NUL # t') rd'"
      proof (rule less.hyps [OF _ i])
        show "length (drop p xs) < length xs" using p by simp
        show "fits (length (buffer (rd2\<lparr>buffer := []\<rparr>)) + length (drop p xs) + length ys)"
          using less.prems(2) by (auto intro: fits_mono)
        show "\<not> (is_nl (last (drop p xs)) \<and> is_nl (hd ys))" if "drop p xs \<noteq> []"
          using cut that by simp
      qed (use less.prems rest in auto)
      then show ?thesis
        unfolding line [OF f(2) nx] using p onb by (simp add: Let_def)
    qed
  qed
qed

lemma on_data_nul_free:
  "inv rd \<Longrightarrow> fits (length (buffer rd) + length xs) \<Longrightarrow> nul_free (buffer rd @ xs) \<Longrightarrow>
   on_data onBuf xs (NUL # t) rd = Some (Inr (False, rd')) \<Longrightarrow>
   bufferMode rd' = BM_NEWLINE \<Longrightarrow> nul_free (buffer rd')"
proof (induction "length xs" arbitrary: xs rd rule: less_induct)
  case less
  consider "xs = []" | "xs \<noteq> []" "bufferMode rd = BM_NONE"
    | "xs \<noteq> []" "bufferMode rd = BM_NEWLINE"
    using client_mode less.prems by blast
  then show ?case
  proof cases
    case 1
    with less.prems show ?thesis by simp
  next
    case 2
    have f: "fits (length (xs @ []))" using less.prems(2) by (auto intro: fits_mono)
    have "onBuf xs (NUL # t) rd = Inr (False, rd')"
      using less.prems(4) 2 by (simp add: on_data_none_mode)
    then have "bufferMode rd' = BM_NONE" using block_split [OF less.prems(1) 2(2,1) f] by blast
    with less.prems(5) show ?thesis by simp
  next
    case 3
    obtain r where r: "newline_end xs (NUL # t) = Inr r"
      using newline_end_terminated by blast
    show ?thesis
    proof (cases r)
      case None
      with less.prems r 3 show ?thesis by (auto simp: on_data_no_line)
    next
      case (Some p)
      let ?block = "buffer rd @ take p xs"
      have p: "0 < p" "p \<le> length xs" using newline_end_bound r Some by blast+
      have f: "fits (length ?block)" using less.prems(2) by (auto intro: fits_mono)
      obtain rd2 where onb: "onBuf ?block [NUL]
          (rd\<lparr>expectedSize := size_of ?block, buffer := ?block\<rparr>) = Inr (False, rd2)"
        and rest: "on_data onBuf (drop p xs) (NUL # t) (rd2\<lparr>buffer := []\<rparr>) = Some (Inr (False, rd'))"
        using less.prems(4) unfolding on_data_line [OF less.prems(1) 3(2) less.prems(2) r [unfolded Some]]
        by (auto simp: Let_def split: sum.splits if_splits)
      show ?thesis
      proof (rule less.hyps [OF _ _ _ _ rest less.prems(5)])
        show "inv (rd2\<lparr>buffer := []\<rparr>)"
          using client_line_inv less.prems(1) 3(2) f onb by blast
        show "fits (length (buffer (rd2\<lparr>buffer := []\<rparr>)) + length (drop p xs))"
          using less.prems(2) by (auto intro: fits_mono)
        show "nul_free (buffer (rd2\<lparr>buffer := []\<rparr>) @ drop p xs)"
          using less.prems(3) by (auto simp: nul_free_def dest: in_set_dropD)
      qed (use p in simp)
    qed
  qed
qed

end

section \<open>Data in several pieces\<close>

text \<open>
  One call of \<open>OnData\<close> for every piece that arrives, until a call says that the message is
  complete or fails. Every piece is a NUL-terminated block.
\<close>

fun feed ::
  "'a reader_scheme on_buffered \<Rightarrow> string list \<Rightarrow> 'a reader_scheme \<Rightarrow>
   (bool \<times> 'a reader_scheme) result option" where
  "feed onBuf [] rd = Some (Inr (False, rd))"
| "feed onBuf (p # ps) rd =
     (case on_data onBuf p [NUL] rd of
        Some (Inr (rtn, rd')) \<Rightarrow> if rtn then Some (Inr (True, rd')) else feed onBuf ps rd'
      | r \<Rightarrow> r)"

text \<open>A cut between two pieces that does not separate the characters of a line end.\<close>

definition clean_cut :: "string \<Rightarrow> string \<Rightarrow> bool" where
  "clean_cut xs ys \<longleftrightarrow> xs \<noteq> [] \<longrightarrow> ys \<noteq> [] \<longrightarrow> \<not> (is_nl (last xs) \<and> is_nl (hd ys))"

fun clean_cuts :: "string list \<Rightarrow> bool" where
  "clean_cuts [] \<longleftrightarrow> True"
| "clean_cuts (p # ps) \<longleftrightarrow> p \<noteq> [] \<and> clean_cut p (concat ps) \<and> clean_cuts ps"

context buffered_client
begin

text \<open>
  When no proper beginning of the data completes the message, feeding the pieces is feeding
  the whole.
\<close>

lemma feed_pieces:
  assumes "inv rd" "fits (length (buffer rd) + length (concat ps))" "clean_cuts ps" "ps \<noteq> []"
    and "\<And>xs ys. concat ps = xs @ ys \<Longrightarrow> xs \<noteq> [] \<Longrightarrow> ys \<noteq> [] \<Longrightarrow> clean_cut xs ys \<Longrightarrow>
      \<exists>rd'. on_data onBuf xs [NUL] rd = Some (Inr (False, rd')) \<and> inv rd' \<and>
        fits (length (buffer rd') + length ys) \<and> (bufferMode rd' = BM_NEWLINE \<longrightarrow> nul_free (buffer rd'))"
  shows "feed onBuf ps rd = on_data onBuf (concat ps) [NUL] rd"
  using assms
proof (induction ps arbitrary: rd)
  case (Cons p ps)
  show ?case
  proof (cases "ps = []")
    case True
    then show ?thesis by (auto split: option.splits sum.splits prod.splits)
  next
    case False
    let ?q = "concat ps"
    have q: "?q \<noteq> []" "p \<noteq> []" "clean_cut p ?q" using Cons.prems(3) False by (cases ps; auto)+
    obtain rd1 where rd1: "on_data onBuf p [NUL] rd = Some (Inr (False, rd1))" "inv rd1"
      "fits (length (buffer rd1) + length ?q)"
      "bufferMode rd1 = BM_NEWLINE \<Longrightarrow> nul_free (buffer rd1)"
      using Cons.prems(5) [of p ?q] q by auto
    have split: "on_data onBuf (p @ zs) [NUL] rd = on_data onBuf zs [NUL] rd1"
      if "?q = zs @ ws" "zs \<noteq> []" for zs ws
    proof (rule on_data_split [OF Cons.prems(1) _ _ _ _ rd1(1)])
      show "fits (length (buffer rd) + length p + length zs)"
        using Cons.prems(2) that by (auto intro: fits_mono)
      show "\<not> (is_nl (last p) \<and> is_nl (hd zs))" using q that by (simp add: clean_cut_def)
    qed (use rd1 that in auto)
    have "feed onBuf ps rd1 = on_data onBuf ?q [NUL] rd1"
    proof (rule Cons.IH [OF rd1(2,3) _ False])
      show "clean_cuts ps" using Cons.prems(3) by simp
    next
      fix xs ys
      assume xy: "?q = xs @ ys" "xs \<noteq> []" "ys \<noteq> []" "clean_cut xs ys"
      then have "clean_cut (p @ xs) ys" by (simp add: clean_cut_def)
      then show "\<exists>rd'. on_data onBuf xs [NUL] rd1 = Some (Inr (False, rd')) \<and> inv rd' \<and>
          fits (length (buffer rd') + length ys) \<and>
          (bufferMode rd' = BM_NEWLINE \<longrightarrow> nul_free (buffer rd'))"
        using Cons.prems(5) [of "p @ xs" ys] split [OF xy(1,2)] xy by simp
    qed
    with rd1(1) split [of ?q "[]"] q(1) show ?thesis by simp
  qed
qed simp

end

end
