(* ===== verification/Std_Map.thy ===== *)
theory Std_Map
  imports Rt_Prelude
begin

text \<open>
  \<open>std::map\<close> as the code uses it: the list of its entries in the order of the keys.
  The order is \<open>std::less\<close>, on strings the lexicographic order of unsigned characters.
  \<open>map_of\<close> is the finite map it stands for; the section on the contract states what the
  clients rely on as a locale, interpreted on the list operations.
\<close>

section \<open>The operations\<close>

type_synonym ('k, 'v) std_map = "('k \<times> 'v) list"

text \<open>\<open>m[k] = v\<close>: assignment through \<open>operator[]\<close>.\<close>

fun std_set :: "'k::linorder \<Rightarrow> 'v \<Rightarrow> ('k, 'v) std_map \<Rightarrow> ('k, 'v) std_map" where
  "std_set k v [] = [(k, v)]"
| "std_set k v ((k', v') # m) =
     (if k < k' then (k, v) # (k', v') # m
      else if k = k' then (k, v) # m
      else (k', v') # std_set k v m)"

text \<open>\<open>m.find(k)\<close>\<close>

definition std_find :: "'k \<Rightarrow> ('k, 'v) std_map \<Rightarrow> 'v option" where
  "std_find k m = map_of m k"

text \<open>\<open>m[k]\<close> read: a missing key is inserted with the default value \<open>d\<close>.\<close>

definition std_at :: "'v \<Rightarrow> 'k::linorder \<Rightarrow> ('k, 'v) std_map \<Rightarrow> 'v \<times> ('k, 'v) std_map" where
  "std_at d k m = (case map_of m k of Some v \<Rightarrow> (v, m) | None \<Rightarrow> (d, std_set k d m))"

text \<open>\<open>m.insert({k, v})\<close>: no effect on a key that is present.\<close>

definition std_insert :: "'k::linorder \<Rightarrow> 'v \<Rightarrow> ('k, 'v) std_map \<Rightarrow> ('k, 'v) std_map" where
  "std_insert k v m = (case map_of m k of Some _ \<Rightarrow> m | None \<Rightarrow> std_set k v m)"

definition std_erase :: "'k \<Rightarrow> ('k, 'v) std_map \<Rightarrow> ('k, 'v) std_map" where
  "std_erase k m = filter (\<lambda>e. fst e \<noteq> k) m"

text \<open>The representation invariant: keys strictly increase.\<close>

definition std_ok :: "('k::linorder, 'v) std_map \<Rightarrow> bool" where
  "std_ok m \<longleftrightarrow> sorted_wrt (<) (map fst m)"

section \<open>Lookup after update\<close>

lemma map_of_std_set [simp]: "map_of (std_set k v m) = (map_of m)(k \<mapsto> v)"
  by (induction k v m rule: std_set.induct) (auto simp: fun_eq_iff)

lemma std_set_nonempty [simp]: "std_set k v m \<noteq> []"
  by (induction k v m rule: std_set.induct) auto

lemma map_of_std_erase [simp]: "map_of (std_erase k m) = (map_of m)(k := None)"
  by (induction m) (auto simp: std_erase_def fun_eq_iff)

lemma map_of_std_insert:
  "map_of (std_insert k v m) = (if k \<in> dom (map_of m) then map_of m else (map_of m)(k \<mapsto> v))"
  by (auto simp: std_insert_def split: option.splits)

lemma std_find_simps [simp]:
  "std_find k [] = None"
  "std_find k (std_set k' v m) = (if k = k' then Some v else std_find k m)"
  "std_find k (std_erase k' m) = (if k = k' then None else std_find k m)"
  by (auto simp: std_find_def)

lemma keys_std_set: "fst ` set (std_set k v m) = insert k (fst ` set m)"
  by (induction k v m rule: std_set.induct) auto

lemma std_ok_Nil [simp]: "std_ok []"
  by (simp add: std_ok_def)

lemma std_ok_Cons: "std_ok ((k, v) # m) \<longleftrightarrow> (\<forall>k' \<in> fst ` set m. k < k') \<and> std_ok m"
  by (auto simp: std_ok_def)

lemma std_ok_set [simp]: "std_ok m \<Longrightarrow> std_ok (std_set k v m)"
proof (induction k v m rule: std_set.induct)
  case (2 k v k' v' m)
  then show ?case by (auto simp: std_ok_Cons keys_std_set)
qed (simp add: std_ok_Cons)

lemma std_ok_insert [simp]: "std_ok m \<Longrightarrow> std_ok (std_insert k v m)"
  by (simp add: std_insert_def split: option.splits)

lemma std_ok_at [simp]: "std_ok m \<Longrightarrow> std_ok (snd (std_at d k m))"
  by (simp add: std_at_def split: option.splits)

lemma std_ok_erase [simp]: "std_ok m \<Longrightarrow> std_ok (std_erase k m)"
  by (induction m) (auto simp: std_erase_def std_ok_def)

section \<open>A map is determined by its lookups\<close>

lemma std_ok_ext:
  assumes "std_ok m" "std_ok n" "map_of m = map_of n"
  shows "m = n"
  using assms
proof (induction m arbitrary: n)
  case Nil
  then show ?case by (cases n) (auto simp: fun_eq_iff split: if_splits)
next
  case (Cons e m)
  obtain k v where e: "e = (k, v)" by force
  from fun_cong [OF Cons.prems(3), of k] have "n \<noteq> []" by (auto simp: e)
  then obtain k' v' n' where n: "n = (k', v') # n'" by (cases n) auto
  have dom: "insert k (fst ` set m) = insert k' (fst ` set n')"
    using arg_cong [OF Cons.prems(3), of dom]
    by (simp add: e n dom_map_of_conv_image_fst del: map_of.simps)
  have "k \<in> insert k' (fst ` set n')" "k' \<in> insert k (fst ` set m)"
    using dom by blast+
  moreover have "x \<in> fst ` set n' \<Longrightarrow> k' < x" "x \<in> fst ` set m \<Longrightarrow> k < x" for x
    using Cons.prems(1,2) by (auto simp: e n std_ok_Cons)
  ultimately have k: "k = k'"
    by (metis insertE less_asym)
  have v: "v = v'"
    using Cons.prems(3) by (simp add: e n k) (metis fun_upd_eqD option.inject)
  have "map_of m x = map_of n' x" for x
  proof (cases "x = k")
    case True
    from Cons.prems(1,2) have "k \<notin> fst ` set m" "k \<notin> fst ` set n'"
      by (auto simp: e n k std_ok_Cons)
    with True show ?thesis by (metis map_of_eq_None_iff)
  next
    case False
    with fun_cong [OF Cons.prems(3), of x] show ?thesis by (simp add: e n k)
  qed
  then have "m = n'"
    using Cons.IH [of n'] Cons.prems(1,2) by (auto simp: e n std_ok_Cons fun_eq_iff)
  then show ?case by (simp add: e n k v)
qed

section \<open>The contract its clients use\<close>

text \<open>
  A store of entries: lookup after each update, and an invariant that makes two stores with
  the same lookups equal. Header collections, query strings, the table of content types and
  the table of websocket processes are clients.
\<close>

locale entry_store =
  fixes lookup :: "'k \<Rightarrow> 's \<Rightarrow> 'v option"
    and store :: "'k \<Rightarrow> 'v \<Rightarrow> 's \<Rightarrow> 's"
    and remove :: "'k \<Rightarrow> 's \<Rightarrow> 's"
    and ok :: "'s \<Rightarrow> bool"
  assumes find_set: "lookup k (store k' v s) = (if k = k' then Some v else lookup k s)"
    and find_erase: "lookup k (remove k' s) = (if k = k' then None else lookup k s)"
    and ok_set: "ok s \<Longrightarrow> ok (store k v s)"
    and ok_erase: "ok s \<Longrightarrow> ok (remove k s)"
    and ok_ext: "ok s \<Longrightarrow> ok t \<Longrightarrow> (\<And>k. lookup k s = lookup k t) \<Longrightarrow> s = t"
begin

lemma set_twice: "ok s \<Longrightarrow> store k v (store k w s) = store k v s"
  by (rule ok_ext) (simp_all add: ok_set find_set)

lemma set_commute: "ok s \<Longrightarrow> k \<noteq> k' \<Longrightarrow> store k v (store k' w s) = store k' w (store k v s)"
  by (rule ok_ext) (auto simp: ok_set find_set)

lemma set_same: "ok s \<Longrightarrow> lookup k s = Some v \<Longrightarrow> store k v s = s"
  by (rule ok_ext) (auto simp: ok_set find_set)

lemma erase_set: "ok s \<Longrightarrow> lookup k s = None \<Longrightarrow> remove k (store k v s) = s"
  by (rule ok_ext) (auto simp: ok_set ok_erase find_set find_erase)

lemma ok_fold_set: "ok s \<Longrightarrow> ok (fold (\<lambda>(k, v). store k v) kvs s)"
  by (induction kvs arbitrary: s) (auto simp: ok_set)

lemma find_fold_set:
  "lookup k (fold (\<lambda>(k, v). store k v) kvs s) =
     (case map_of (rev kvs) k of Some v \<Rightarrow> Some v | None \<Rightarrow> lookup k s)"
  by (induction kvs rule: rev_induct) (auto simp: find_set split: option.splits)

end

interpretation std: entry_store std_find std_set std_erase std_ok
proof unfold_locales
  fix s t :: "('a::linorder, 'b) std_map"
  assume "std_ok s" "std_ok t" "\<And>k. std_find k s = std_find k t"
  then show "s = t" by (intro std_ok_ext) (auto simp: std_find_def fun_eq_iff)
qed auto

lemma std_at_find: "std_at d k m = (case std_find k m of Some v \<Rightarrow> (v, m) | None \<Rightarrow> (d, std_set k d m))"
  by (simp add: std_at_def std_find_def)

end
