(* ===== verification/Content_Types.thy ===== *)
theory Content_Types
  imports Std_Map
begin

text \<open>
  The content types (\<open>include/rikitiki/http/content_types.h\<close>) and their conversions
  (\<open>src/http/content_types.cc\<close>). \<open>FromString\<close> reads through a static
  \<open>std::map\<close> that it fills on first use, so the map is a state that every call
  passes on.
\<close>

datatype (plugins only: code) content_type =
    CT_DEFAULT
  | CT_ALL
  | application_atom_xml
  | application_ecmascript
  | application_EDI_X12
  | application_EDIFACT
  | application_json
  | application_javascript
  | application_octet_stream
  | application_ogg
  | application_pdf
  | application_postscript
  | application_rdf_xml
  | application_rss_xml
  | application_soap_xml
  | application_font_woff
  | application_xhtml_xml
  | application_xml
  | application_xml_dtd
  | application_xop_xml
  | application_zip
  | application_gzip
  | audio_basic
  | audio_L24
  | audio_mp4
  | audio_mpeg
  | audio_ogg
  | audio_vorbis
  | audio_vnd_rn_realaudio
  | audio_vnd_wave
  | audio_webm
  | image_gif
  | image_jpeg
  | image_pjpeg
  | image_png
  | image_svg_xml
  | image_tiff
  | image_vnd_microsoft_icon
  | message_http
  | message_imdn_xml
  | message_partial
  | message_rfc822
  | model_example
  | model_iges
  | model_mesh
  | model_vrml
  | model_x3d_binary
  | model_x3d_vrml
  | model_x3d_xml
  | multipart_mixed
  | multipart_alternative
  | multipart_related
  | multipart_form_data
  | multipart_signed
  | multipart_encrypted
  | text_cmd
  | text_css
  | text_csv
  | text_html
  | text_javascript
  | text_plain
  | text_vcard
  | text_xml
  | video_mpeg
  | video_mp4
  | video_ogg
  | video_quicktime
  | video_webm
  | video_x_matroska
  | video_x_ms_wmv
  | video_x_flv
  | CT_MAX

text \<open>
  The enumerators from \<open>ALL\<close> up to, but not including, \<open>MAX\<close>, in the order of
  their values: the range of the loop that fills the map.
\<close>

definition ct_range :: "content_type list" where
  "ct_range =
    [CT_ALL, application_atom_xml, application_ecmascript, application_EDI_X12,
     application_EDIFACT, application_json, application_javascript, application_octet_stream,
     application_ogg, application_pdf, application_postscript, application_rdf_xml,
     application_rss_xml, application_soap_xml, application_font_woff, application_xhtml_xml,
     application_xml, application_xml_dtd, application_xop_xml, application_zip,
     application_gzip, audio_basic, audio_L24, audio_mp4, audio_mpeg, audio_ogg, audio_vorbis,
     audio_vnd_rn_realaudio, audio_vnd_wave, audio_webm, image_gif, image_jpeg, image_pjpeg,
     image_png, image_svg_xml, image_tiff, image_vnd_microsoft_icon, message_http,
     message_imdn_xml, message_partial, message_rfc822, model_example, model_iges, model_mesh,
     model_vrml, model_x3d_binary, model_x3d_vrml, model_x3d_xml, multipart_mixed,
     multipart_alternative, multipart_related, multipart_form_data, multipart_signed,
     multipart_encrypted, text_cmd, text_css, text_csv, text_html, text_javascript, text_plain,
     text_vcard, text_xml, video_mpeg, video_mp4, video_ogg, video_quicktime, video_webm,
     video_x_matroska, video_x_ms_wmv, video_x_flv]"

text \<open>\<open>ContentType::ToString\<close>: the expansion of its \<open>CASE_RET\<close> macros.\<close>

primrec ct_to_string :: "content_type \<Rightarrow> string" where
  "ct_to_string application_atom_xml = ''application/atom+xml''"
| "ct_to_string application_ecmascript = ''application/ecmascript''"
| "ct_to_string application_EDI_X12 = ''application/EDI-X12''"
| "ct_to_string application_EDIFACT = ''application/EDIFACT''"
| "ct_to_string application_json = ''application/json''"
| "ct_to_string application_javascript = ''application/javascript''"
| "ct_to_string application_octet_stream = ''application/octet-stream''"
| "ct_to_string application_ogg = ''application/ogg''"
| "ct_to_string application_pdf = ''application/pdf''"
| "ct_to_string application_postscript = ''application/postscript''"
| "ct_to_string application_rdf_xml = ''application/rdf+xml''"
| "ct_to_string application_rss_xml = ''application/rss+xml''"
| "ct_to_string application_soap_xml = ''application/soap+xml''"
| "ct_to_string application_font_woff = ''application/font-woff''"
| "ct_to_string application_xhtml_xml = ''application/xhtml+xml''"
| "ct_to_string application_xml = ''application/xml''"
| "ct_to_string application_xml_dtd = ''application/xml-dtd''"
| "ct_to_string application_xop_xml = ''application/xop+xml''"
| "ct_to_string application_zip = ''application/zip''"
| "ct_to_string application_gzip = ''application/gzip''"
| "ct_to_string audio_basic = ''audio/basic''"
| "ct_to_string audio_L24 = ''audio/L24''"
| "ct_to_string audio_mp4 = ''audio/mp4''"
| "ct_to_string audio_mpeg = ''audio/mpeg''"
| "ct_to_string audio_ogg = ''audio/ogg''"
| "ct_to_string audio_vorbis = ''audio/vorbis''"
| "ct_to_string audio_webm = ''audio/webm''"
| "ct_to_string image_gif = ''image/gif''"
| "ct_to_string image_jpeg = ''image/jpeg''"
| "ct_to_string image_pjpeg = ''image/pjpeg''"
| "ct_to_string image_png = ''image/png''"
| "ct_to_string image_svg_xml = ''image/svg+xml''"
| "ct_to_string image_tiff = ''image/tiff''"
| "ct_to_string message_http = ''message/http''"
| "ct_to_string message_imdn_xml = ''message/imdn+xml''"
| "ct_to_string message_partial = ''message/partial''"
| "ct_to_string message_rfc822 = ''message/rfc822''"
| "ct_to_string model_example = ''model/example''"
| "ct_to_string model_iges = ''model/iges''"
| "ct_to_string model_mesh = ''model/mesh''"
| "ct_to_string model_vrml = ''model/vrml''"
| "ct_to_string model_x3d_binary = ''model/x3d+binary''"
| "ct_to_string model_x3d_vrml = ''model/x3d+vrml''"
| "ct_to_string model_x3d_xml = ''model/x3d+xml''"
| "ct_to_string multipart_mixed = ''multipart/mixed''"
| "ct_to_string multipart_alternative = ''multipart/alternative''"
| "ct_to_string multipart_related = ''multipart/related''"
| "ct_to_string multipart_form_data = ''multipart/form-data''"
| "ct_to_string multipart_signed = ''multipart/signed''"
| "ct_to_string multipart_encrypted = ''multipart/encrypted''"
| "ct_to_string text_cmd = ''text/cmd''"
| "ct_to_string text_css = ''text/css''"
| "ct_to_string text_csv = ''text/csv''"
| "ct_to_string text_javascript = ''text/javascript''"
| "ct_to_string text_plain = ''text/plain''"
| "ct_to_string text_vcard = ''text/vcard''"
| "ct_to_string text_xml = ''text/xml''"
| "ct_to_string video_mpeg = ''video/mpeg''"
| "ct_to_string video_mp4 = ''video/mp4''"
| "ct_to_string video_ogg = ''video/ogg''"
| "ct_to_string video_quicktime = ''video/quicktime''"
| "ct_to_string video_webm = ''video/webm''"
| "ct_to_string video_x_matroska = ''video/x-matroska''"
| "ct_to_string video_x_ms_wmv = ''video/x-ms-wmv''"
| "ct_to_string video_x_flv = ''video/x-flv''"
| "ct_to_string image_vnd_microsoft_icon = ''image/vnd-microsoft-icon''"
| "ct_to_string audio_vnd_wave = ''audio/vnd-wave''"
| "ct_to_string audio_vnd_rn_realaudio = ''audio/vnd-rn-realaudio''"
| "ct_to_string CT_ALL = ''*/*''"
| "ct_to_string CT_DEFAULT = ''text/html''"
| "ct_to_string text_html = ''text/html''"
| "ct_to_string CT_MAX = ''unknown''"

type_synonym types_map = "(string, content_type) std_map"

text \<open>The loop that fills the map: \<open>types[ToString(_type)] = _type\<close> for each of the range.\<close>

definition ct_table :: types_map where
  "ct_table = fold (\<lambda>(k, t). std_set k t) (map (\<lambda>t. (ct_to_string t, t)) ct_range) []"

text \<open>
  \<open>ContentType::FromString(const std::string&)\<close>. The final \<open>types[type]\<close> inserts a
  missing key with the value-initialised enumerator, whose value 0 is
  \<open>application_atom_xml\<close>.
\<close>

definition ct_from_string :: "string \<Rightarrow> types_map \<Rightarrow> content_type \<times> types_map" where
  "ct_from_string type types =
     (if type = [] then (CT_DEFAULT, types)
      else let types1 = (if types = [] then ct_table else types)
           in std_at application_atom_xml type types1)"

text \<open>\<open>ContentType::FromString(const std::wstring&)\<close>\<close>

definition ct_from_wide :: "utf_lib \<Rightarrow> wstring \<Rightarrow> types_map \<Rightarrow> content_type \<times> types_map" where
  "ct_from_wide u type types =
     (if type = [] then (CT_DEFAULT, types)
      else let types1 = (if types = [] then ct_table else types)
           in std_at application_atom_xml (narrow u type) types1)"

text \<open>\<open>operator>>(std::istream&, ContentType::t&)\<close> on a fresh stream over \<open>s\<close>.\<close>

definition ct_extract :: "string \<Rightarrow> types_map \<Rightarrow> content_type \<times> types_map" where
  "ct_extract s types = ct_from_string (stream_word s) types"

section \<open>What a call answers, whatever was asked before\<close>

text \<open>The map after a history of calls, from the empty static map of a fresh process.\<close>

definition types_after :: "string list \<Rightarrow> types_map" where
  "types_after ss = fold (\<lambda>s types. snd (ct_from_string s types)) ss []"

text \<open>The content type that a name stands for, as a search through the enumeration.\<close>

definition ct_named :: "string \<Rightarrow> content_type option" where
  "ct_named s = find (\<lambda>t. ct_to_string t = s) ct_range"

definition ct_expected :: "string \<Rightarrow> content_type" where
  "ct_expected s = (case ct_named s of Some t \<Rightarrow> t | None \<Rightarrow> application_atom_xml)"

text \<open>A filled map answers as expected, and it knows every name of the enumeration.\<close>

definition types_filled :: "types_map \<Rightarrow> bool" where
  "types_filled types \<longleftrightarrow> std_ok types \<and> types \<noteq> [] \<and>
     (\<forall>s t. std_find s types = Some t \<longrightarrow> t = ct_expected s) \<and>
     (\<forall>s. ct_named s \<noteq> None \<longrightarrow> std_find s types \<noteq> None)"

definition types_inv :: "types_map \<Rightarrow> bool" where
  "types_inv types \<longleftrightarrow> types = [] \<or> types_filled types"

lemma distinct_ct_strings: "distinct (map ct_to_string ct_range)"
  by code_simp

lemma in_ct_range: "t \<in> set ct_range \<longleftrightarrow> t \<noteq> CT_DEFAULT \<and> t \<noteq> CT_MAX"
  by (cases t) (simp_all add: ct_range_def)

lemma ct_range_nonempty [simp]: "ct_range \<noteq> []"
  by (simp add: ct_range_def)

lemma map_of_graph_distinct:
  "distinct (map f ts) \<Longrightarrow> map_of (map (\<lambda>t. (f t, t)) ts) s = find (\<lambda>t. f t = s) ts"
  by (induction ts) auto

lemma map_of_rev_distinct_keys: "distinct (map fst kvs) \<Longrightarrow> map_of (rev kvs) = map_of kvs"
  by (rule map_of_eqI) (auto simp: map_of_eq_Some_iff rev_map [symmetric] intro!: map_of_eqI)

lemma find_ct_table: "std_find s ct_table = ct_named s"
proof -
  have "map_of (rev (map (\<lambda>t. (ct_to_string t, t)) ct_range)) s = ct_named s"
    using distinct_ct_strings
    by (subst map_of_rev_distinct_keys) (simp_all add: comp_def map_of_graph_distinct ct_named_def)
  then show ?thesis
    unfolding ct_table_def std.find_fold_set
    by (simp split: option.split)
qed

lemma std_ok_ct_table [simp]: "std_ok ct_table"
  unfolding ct_table_def by (rule std.ok_fold_set) simp

lemma ct_table_nonempty [simp]: "ct_table \<noteq> []"
proof
  assume "ct_table = []"
  then have "std_find (ct_to_string CT_ALL) ct_table = None" by simp
  then have "ct_named (ct_to_string CT_ALL) = None" by (simp only: find_ct_table)
  then show False by (simp add: ct_named_def ct_range_def)
qed

lemma types_filled_table: "types_filled ct_table"
  by (simp add: types_filled_def find_ct_table ct_expected_def)

lemma std_at_filled:
  assumes "types_filled types"
  shows "fst (std_at application_atom_xml s types) = ct_expected s"
    and "types_filled (snd (std_at application_atom_xml s types))"
proof -
  have new: "std_find s types = None \<Longrightarrow> ct_expected s = application_atom_xml"
    using assms by (cases "ct_named s") (auto simp: types_filled_def ct_expected_def)
  then show "fst (std_at application_atom_xml s types) = ct_expected s"
    using assms by (auto simp: std_at_find types_filled_def split: option.split)
  show "types_filled (snd (std_at application_atom_xml s types))"
    using assms new by (auto simp: std_at_find types_filled_def split: option.split)
qed

lemma ct_from_string_filled:
  assumes "types_inv types"
  shows "fst (ct_from_string s types) = (if s = [] then CT_DEFAULT else ct_expected s)"
    and "types_inv (snd (ct_from_string s types))"
  using assms std_at_filled [OF types_filled_table, of s] std_at_filled [of types s]
  by (auto simp: ct_from_string_def types_inv_def Let_def)

lemma types_inv_after: "types_inv (types_after ss)"
proof -
  have "types_inv types \<Longrightarrow> types_inv (fold (\<lambda>s types. snd (ct_from_string s types)) ss types)" for types
    by (induction ss arbitrary: types) (auto simp: ct_from_string_filled)
  then show ?thesis by (simp add: types_after_def types_inv_def)
qed

lemma ct_named_to_string:
  "ct_named (ct_to_string t) =
     (if t = CT_MAX then None else Some (if t = CT_DEFAULT then text_html else t))"
proof -
  have *: "t \<in> set ct_range \<Longrightarrow> ct_named (ct_to_string t) = Some t" for t
    using map_of_is_SomeI [of "map (\<lambda>t. (ct_to_string t, t)) ct_range" "ct_to_string t" t]
      distinct_ct_strings
    by (simp add: comp_def map_of_graph_distinct ct_named_def)
  consider "t = CT_MAX" | "t = CT_DEFAULT" | "t \<in> set ct_range"
    by (auto simp: in_ct_range)
  then show ?thesis
  proof cases
    case 1
    then show ?thesis by (simp add: ct_named_def ct_range_def)
  next
    case 2
    with * [of text_html] show ?thesis by (simp add: in_ct_range)
  next
    case 3
    with * [of t] show ?thesis by (simp add: in_ct_range)
  qed
qed

section \<open>Properties\<close>

text \<open>Whatever names were looked up before, \<open>ContentType::FromString\<close> answers a name
  of the enumeration with its value and any other name with \<open>application_atom_xml\<close> (the
  enumerator 0): looking up an unknown name never disturbs later answers.\<close>

theorem content_type_lookup:
  "fst (ct_from_string s (types_after history)) = (if s = [] then CT_DEFAULT else ct_expected s)"
  by (rule ct_from_string_filled(1) [OF types_inv_after])

text \<open>\<open>FromString\<close> undoes \<open>ToString\<close> on every content type but the two markers
  \<open>DEFAULT\<close> (printed as \<open>text/html\<close>) and \<open>MAX\<close>, after any history of calls.\<close>

theorem content_type_roundtrip:
  assumes "t \<noteq> CT_DEFAULT" and "t \<noteq> CT_MAX"
  shows "fst (ct_from_string (ct_to_string t) (types_after history)) = t"
proof -
  have "ct_to_string t \<noteq> []" by (cases t) simp_all
  then show ?thesis
    using assms ct_from_string_filled(1) [OF types_inv_after, of "ct_to_string t" history]
    by (simp add: ct_expected_def ct_named_to_string)
qed

theorem content_type_roundtrip_witness:
  "fst (ct_from_string (ct_to_string image_png) (types_after [''x/unknown'', [], ''text/css''])) = image_png"
  by (rule content_type_roundtrip) simp_all

end
