(* ===== verification/Http_Header.thy ===== *)
theory Http_Header
  imports Std_Map Http_Enums Content_Types
begin

text \<open>
  Headers, cookies, form data and query strings (\<open>include/rikitiki/http/Header.h\<close>,
  \<open>src/http/Header.cc\<close>): the collections, their insertion and lookup operations, the
  comma-separated list reader and the query-string parser.
\<close>

section \<open>Name and value pairs\<close>

text \<open>
  \<open>Header\<close>, \<open>PostContent\<close> and \<open>Cookie\<close> are pairs of strings. The constructor of a
  cookie appends its attributes to the value; the one from a single string is a stub.
\<close>

type_synonym wstringpair = "string \<times> string"

definition new_header :: "string \<Rightarrow> string \<Rightarrow> wstringpair" where
  "new_header name val = (name, val)"

definition new_post_content :: "string \<Rightarrow> string \<Rightarrow> wstringpair" where
  "new_post_content name val = (name, val)"

definition cookie_of_string :: "string \<Rightarrow> wstringpair result" where
  "cookie_of_string nameAndValue = Inl AssertFailure"

definition new_cookie ::
  "string \<Rightarrow> string \<Rightarrow> string \<Rightarrow> string \<Rightarrow> string \<Rightarrow> bool \<Rightarrow> bool \<Rightarrow> wstringpair" where
  "new_cookie name val domain path expires secure httpOnly =
     (name,
      val @ ''; '' @ ''Domain='' @ domain @ ''; '' @
      (if path \<noteq> [] then ''Path='' @ path @ ''; '' else []) @
      (if expires \<noteq> [] then ''Expires='' @ expires @ ''; '' else []) @
      (if secure then ''Secure; '' else []) @
      (if httpOnly then ''HttpOnly'' else []))"

text \<open>The default arguments: no domain, path \<open>/\<close>, no expiry, neither flag.\<close>

definition default_cookie :: "string \<Rightarrow> string \<Rightarrow> wstringpair" where
  "default_cookie name val = new_cookie name val [] ''/'' [] False False"

section \<open>The multimap of posted values\<close>

text \<open>
  \<open>multimap\<close>: insertion goes after the entries with an equal key, \<open>find\<close> gives the
  first entry with the key.
\<close>

type_synonym post_collection = "wstringpair list"

fun mm_insert :: "wstringpair \<Rightarrow> post_collection \<Rightarrow> post_collection" where
  "mm_insert kv [] = [kv]"
| "mm_insert kv (kv' # m) = (if fst kv < fst kv' then kv # kv' # m else kv' # mm_insert kv m)"

definition mm_push_back :: "wstringpair \<Rightarrow> post_collection \<Rightarrow> post_collection" where
  "mm_push_back kv m = mm_insert kv m"

text \<open>\<open>hasValue\<close>: whether the key is there, and the value left in the out parameter.\<close>

definition mm_has_value :: "string \<Rightarrow> string \<Rightarrow> post_collection \<Rightarrow> bool \<times> string" where
  "mm_has_value key rtn m = (case map_of m key of Some v \<Rightarrow> (True, v) | None \<Rightarrow> (False, rtn))"

definition mm_values :: "string \<Rightarrow> post_collection \<Rightarrow> string list" where
  "mm_values key m = map snd (filter (\<lambda>kv. fst kv = key) m)"

definition mm_ok :: "post_collection \<Rightarrow> bool" where
  "mm_ok m \<longleftrightarrow> sorted_wrt (\<le>) (map fst m)"

lemma fst_mm_insert: "fst ` set (mm_insert kv m) = insert (fst kv) (fst ` set m)"
  by (induction m) auto

lemma mm_ok_insert: "mm_ok m \<Longrightarrow> mm_ok (mm_insert kv m)"
proof (induction m)
  case Nil
  then show ?case by (simp add: mm_ok_def)
next
  case (Cons kv' m)
  have "\<forall>k \<in> fst ` set (mm_insert kv m). \<not> fst kv < fst kv' \<longrightarrow> fst kv' \<le> k"
    using Cons.prems by (auto simp: mm_ok_def fst_mm_insert)
  with Cons show ?case by (auto simp: mm_ok_def dest: order.strict_trans2 less_imp_le)
qed

lemma filter_key_greater: "\<forall>e \<in> set m. (k :: string) < fst e \<Longrightarrow> filter (\<lambda>e. fst e = k) m = []"
  unfolding filter_empty_conv by (metis less_irrefl)

lemma mm_values_insert:
  "mm_ok m \<Longrightarrow>
     mm_values k (mm_insert (k', v) m) = (if k = k' then mm_values k m @ [v] else mm_values k m)"
proof (induction m)
  case Nil
  then show ?case by (simp add: mm_values_def)
next
  case (Cons e m)
  show ?case
  proof (cases "k' < fst e")
    case True
    with Cons.prems have "\<forall>e' \<in> set (e # m). k' < fst e'" by (auto simp: mm_ok_def)
    then have "filter (\<lambda>e'. fst e' = k') (e # m) = []" by (rule filter_key_greater)
    with True show ?thesis by (auto simp: mm_values_def)
  next
    case False
    with Cons show ?thesis by (auto simp: mm_values_def mm_ok_def)
  qed
qed

section \<open>Header collections\<close>

type_synonym header_collection = "(string, string) std_map"

text \<open>\<open>Add\<close>: a value for a present, non-empty header is appended after a comma.\<close>

definition hc_add :: "string \<Rightarrow> string \<Rightarrow> header_collection \<Rightarrow> header_collection" where
  "hc_add name val h =
     (let (current, h1) = std_at [] name h;
          current1 = (if length current > 0 then current @ '', '' else current)
      in std_set name (current1 @ val) h1)"

definition hc_add_wide ::
  "utf_lib \<Rightarrow> wstring \<Rightarrow> wstring \<Rightarrow> header_collection \<Rightarrow> header_collection" where
  "hc_add_wide u name val h = hc_add (narrow u (wcstr name)) (narrow u (wcstr val)) h"

text \<open>\<open>Set\<close> takes a narrow name and value through their wide forms and back.\<close>

definition hc_set_wide ::
  "utf_lib \<Rightarrow> wstring \<Rightarrow> wstring \<Rightarrow> header_collection \<Rightarrow> header_collection" where
  "hc_set_wide u name val h = std_set (narrow u name) (narrow u val) h"

definition hc_set :: "utf_lib \<Rightarrow> string \<Rightarrow> string \<Rightarrow> header_collection \<Rightarrow> header_collection" where
  "hc_set u name val h = hc_set_wide u (widen u (cstr name)) (widen u (cstr val)) h"

definition hc_set_size :: "utf_lib \<Rightarrow> string \<Rightarrow> size_t \<Rightarrow> header_collection \<Rightarrow> header_collection" where
  "hc_set_size u name val h = hc_set u name (show_dec (unat val)) h"

definition hc_set_size_wide ::
  "utf_lib \<Rightarrow> wstring \<Rightarrow> size_t \<Rightarrow> header_collection \<Rightarrow> header_collection" where
  "hc_set_size_wide u name val h = hc_set u (narrow u name) (show_dec (unat val)) h"

definition hc_get :: "string \<Rightarrow> header_collection \<Rightarrow> string option" where
  "hc_get name h = std_find name h"

text \<open>The template \<open>Get<T>(name, def)\<close> at the types the code uses.\<close>

definition hc_get_size :: "string \<Rightarrow> size_t \<Rightarrow> header_collection \<Rightarrow> size_t" where
  "hc_get_size name d h = (case hc_get name h of None \<Rightarrow> d | Some v \<Rightarrow> stream_size d v)"

definition hc_get_encoding :: "utf_lib \<Rightarrow> string \<Rightarrow> encoding \<Rightarrow> header_collection \<Rightarrow> encoding" where
  "hc_get_encoding u name d h =
     (case hc_get name h of None \<Rightarrow> d | Some v \<Rightarrow> encoding_extract u v)"

definition hc_get_content_type ::
  "string \<Rightarrow> content_type \<Rightarrow> header_collection \<Rightarrow> types_map \<Rightarrow> content_type \<times> types_map" where
  "hc_get_content_type name d h types =
     (case hc_get name h of None \<Rightarrow> (d, types) | Some v \<Rightarrow> ct_extract v types)"

text \<open>
  \<open>GetList\<close>: the loop over \<open>strchr(buffer, ',')\<close>. \<open>pre\<close> holds the characters
  before \<open>buffer\<close>, the nearest first, because the loop that drops trailing spaces runs
  backwards without looking at \<open>buffer\<close>: it reads before the start of the string when
  nothing but spaces precedes the comma, and it leaves a range that ends before it starts
  when it has crossed \<open>buffer\<close>.
\<close>

function hc_list_loop :: "string \<Rightarrow> string \<Rightarrow> string list result" where
  "hc_list_loop pre buffer =
     (if CHR '','' \<notin> set buffer then Inr [buffer]
      else let entry = takeWhile (\<lambda>c. c \<noteq> CHR '','') buffer;
               rest = tl (dropWhile (\<lambda>c. c \<noteq> CHR '','') buffer);
               before = rev entry @ pre;
               stripped = dropWhile (\<lambda>c. c = CHR '' '') before;
               spaces = takeWhile (\<lambda>c. c = CHR '' '') rest
           in if stripped = [] \<or> length stripped < length pre then Inl UndefinedBehaviour
              else bindE (hc_list_loop (rev spaces @ CHR '','' # before)
                            (dropWhile (\<lambda>c. c = CHR '' '') rest))
                     (\<lambda>rtn. Inr (rev (take (length stripped - length pre) stripped) # rtn)))"
  by pat_completeness auto
termination
proof (relation "measure (\<lambda>(pre, buffer). length buffer)")
  show "wf (measure (\<lambda>(pre :: string, buffer :: string). length buffer))" by simp
next
  fix pre buffer entry rest before stripped spaces :: string
  assume c: "\<not> CHR '','' \<notin> set buffer"
    and rest: "rest = tl (dropWhile (\<lambda>c. c \<noteq> CHR '','') buffer)"
  have "dropWhile (\<lambda>c. c \<noteq> CHR '','') buffer \<noteq> []"
    using c by (auto simp: dropWhile_eq_Nil_conv)
  then have "length rest < length (dropWhile (\<lambda>c. c \<noteq> CHR '','') buffer)"
    by (cases "dropWhile (\<lambda>c. c \<noteq> CHR '','') buffer") (auto simp: rest)
  also have "\<dots> \<le> length buffer" by (rule length_dropWhile_le)
  finally have "length rest < length buffer" .
  moreover have "length (dropWhile (\<lambda>c. c = CHR '' '') rest) \<le> length rest"
    by (rule length_dropWhile_le)
  ultimately show "((rev spaces @ CHR '','' # before, dropWhile (\<lambda>c. c = CHR '' '') rest),
      pre, buffer) \<in> measure (\<lambda>(pre, buffer). length buffer)"
    by simp
qed

declare hc_list_loop.simps [simp del]

definition hc_get_list :: "string \<Rightarrow> header_collection \<Rightarrow> string list result" where
  "hc_get_list name h =
     (case hc_get name h of None \<Rightarrow> Inr [] | Some csv \<Rightarrow> hc_list_loop [] (cstr csv))"

section \<open>Laws of header collections\<close>

text \<open>What \<open>Add\<close> leaves under a name.\<close>

definition hc_merge :: "string option \<Rightarrow> string \<Rightarrow> string" where
  "hc_merge old val = (case old of None \<Rightarrow> val | Some c \<Rightarrow> if c = [] then val else c @ '', '' @ val)"

lemma hc_add_eq: "std_ok h \<Longrightarrow> hc_add name val h = std_set name (hc_merge (hc_get name h) val) h"
  by (auto simp: hc_add_def hc_merge_def hc_get_def std_at_find std.set_twice split: option.splits)

lemma hc_get_add_eq:
  "hc_get k (hc_add name val h) =
     (if k = name then Some (hc_merge (hc_get name h) val) else hc_get k h)"
  by (auto simp: hc_add_def hc_merge_def hc_get_def std_at_find split: option.splits)

lemma hc_ok_add [simp]: "std_ok h \<Longrightarrow> std_ok (hc_add name val h)"
  by (simp add: hc_add_eq)

text \<open>Text that the conversions of \<open>Set\<close> leave alone.\<close>

definition plain_text :: "string \<Rightarrow> bool" where
  "plain_text s \<longleftrightarrow> ascii s \<and> nul_free s"

lemma hc_set_plain:
  "utf_ascii u \<Longrightarrow> plain_text name \<Longrightarrow> plain_text val \<Longrightarrow> hc_set u name val h = std_set name val h"
  by (simp add: hc_set_def hc_set_wide_def plain_text_def)

lemma hc_set_size_plain:
  "utf_ascii u \<Longrightarrow> plain_text name \<Longrightarrow> hc_set_size u name n h = std_set name (show_dec (unat n)) h"
  by (simp add: hc_set_size_def hc_set_plain plain_text_def)

text \<open>
  The interface that messages use: adding a value merges it with what is there. The lemma on
  \<open>fold\<close> is what parsing a block of header lines amounts to.
\<close>

locale header_store =
  fixes get :: "string \<Rightarrow> 'h \<Rightarrow> string option"
    and add :: "string \<Rightarrow> string \<Rightarrow> 'h \<Rightarrow> 'h"
    and valid :: "'h \<Rightarrow> bool"
  assumes get_add: "get k (add n v h) = (if k = n then Some (hc_merge (get n h) v) else get k h)"
    and valid_add: "valid h \<Longrightarrow> valid (add n v h)"
    and valid_ext: "valid h \<Longrightarrow> valid h' \<Longrightarrow> (\<And>k. get k h = get k h') \<Longrightarrow> h = h'"
begin

lemma get_adds:
  "get k (fold (\<lambda>(n, v). add n v) hs h) =
     fold (\<lambda>(n, v) old. if n = k then Some (hc_merge old v) else old) hs (get k h)"
  by (induction hs arbitrary: h) (auto simp: get_add)

lemma valid_adds: "valid h \<Longrightarrow> valid (fold (\<lambda>(n, v). add n v) hs h)"
  by (induction hs arbitrary: h) (auto simp: valid_add)

lemma get_adds_other: "k \<notin> fst ` set hs \<Longrightarrow> get k (fold (\<lambda>(n, v). add n v) hs h) = get k h"
  by (induction hs arbitrary: h) (auto simp: get_add)

lemma get_adds_distinct:
  "distinct (map fst hs) \<Longrightarrow> (n, v) \<in> set hs \<Longrightarrow> get n h = None \<Longrightarrow>
     get n (fold (\<lambda>(n, v). add n v) hs h) = Some v"
proof (induction hs arbitrary: h)
  case (Cons e hs)
  obtain n' v' where e: "e = (n', v')" by force
  show ?case
  proof (cases "n' = n")
    case True
    with Cons.prems have "v' = v" "n \<notin> fst ` set hs" by (force simp: e)+
    with True Cons.prems show ?thesis by (simp add: e get_adds_other get_add hc_merge_def)
  next
    case False
    with Cons show ?thesis by (auto simp: e get_add)
  qed
qed simp

lemma add_commute: "valid h \<Longrightarrow> n \<noteq> n' \<Longrightarrow> add n v (add n' v' h) = add n' v' (add n v h)"
  by (rule valid_ext) (auto simp: valid_add get_add)

end

interpretation hdr: header_store hc_get hc_add std_ok
proof unfold_locales
  fix h h' :: header_collection
  assume "std_ok h" "std_ok h'" "\<And>k. hc_get k h = hc_get k h'"
  then show "h = h'" by (auto simp: hc_get_def intro: std.ok_ext)
qed (simp_all add: hc_get_add_eq)

section \<open>Lists in headers\<close>

text \<open>An entry of a comma-separated list that reads back unchanged.\<close>

definition list_item :: "string \<Rightarrow> bool" where
  "list_item s \<longleftrightarrow> s \<noteq> [] \<and> nul_free s \<and> CHR '','' \<notin> set s \<and> hd s \<noteq> CHR '' '' \<and> last s \<noteq> CHR '' ''"

fun join_with :: "string \<Rightarrow> string list \<Rightarrow> string" where
  "join_with sep [] = []"
| "join_with sep [x] = x"
| "join_with sep (x # y # zs) = x @ sep @ join_with sep (y # zs)"

lemma join_with_snoc: "xs \<noteq> [] \<Longrightarrow> join_with sep (xs @ [y]) = join_with sep xs @ sep @ y"
  by (induction sep xs rule: join_with.induct) auto

lemma join_with_nonempty: "list_item x \<Longrightarrow> join_with sep (x # xs) \<noteq> []"
  by (cases xs) (auto simp: list_item_def)

lemma hc_add_items:
  assumes "std_ok h" "hc_get n h = None" "\<forall>x \<in> set items. list_item x" "items \<noteq> []"
  shows "hc_get n (fold (hc_add n) items h) = Some (join_with '', '' items)"
  using assms(3,4)
proof (induction items rule: rev_induct)
  case (snoc y xs)
  show ?case
  proof (cases "xs = []")
    case True
    with assms(2) show ?thesis by (simp add: hc_get_add_eq hc_merge_def)
  next
    case False
    with snoc have IH: "hc_get n (fold (hc_add n) xs h) = Some (join_with '', '' xs)" by simp
    have "join_with '', '' xs \<noteq> []"
      using False snoc.prems by (cases xs) (simp_all add: join_with_nonempty)
    with False IH show ?thesis by (simp add: hc_get_add_eq hc_merge_def join_with_snoc)
  qed
qed simp

lemma dropWhile_space_item: "list_item x \<Longrightarrow> dropWhile (\<lambda>c. c = CHR '' '') (x @ t) = x @ t"
  by (cases x) (auto simp: list_item_def)

lemma dropWhile_space_rev_item:
  "list_item x \<Longrightarrow> dropWhile (\<lambda>c. c = CHR '' '') (rev x @ t) = rev x @ t"
  by (cases x rule: rev_cases) (auto simp: list_item_def)

lemma hc_list_loop_items:
  "\<forall>x \<in> set items. list_item x \<Longrightarrow> items \<noteq> [] \<Longrightarrow>
     hc_list_loop pre (join_with '', '' items) = Inr items"
proof (induction "'', '' :: string" items arbitrary: pre rule: join_with.induct)
  case (2 x)
  then show ?case by (subst hc_list_loop.simps) (simp add: list_item_def)
next
  case (3 x y zs)
  let ?t = "join_with '', '' (y # zs)"
  from 3 have x: "list_item x" and y: "list_item y" by auto
  from x have nc: "\<forall>c \<in> set x. c \<noteq> CHR '',''" by (auto simp: list_item_def)
  from x have ns: "\<exists>c \<in> set x. c \<noteq> CHR '' ''" by (metis last_in_set list_item_def)
  have t: "dropWhile (\<lambda>c. c = CHR '' '') ?t = ?t"
    using dropWhile_space_item [OF y] dropWhile_space_item [OF y, of "[]"] by (cases zs) auto
  have IH: "hc_list_loop p ?t = Inr (y # zs)" for p
    using 3 by auto
  show ?case
    using x nc ns t
    by (subst hc_list_loop.simps)
      (auto simp: takeWhile_append2 dropWhile_append2 dropWhile_space_rev_item IH Let_def)
qed simp

lemma nul_free_join: "nul_free sep \<Longrightarrow> \<forall>x \<in> set xs. nul_free x \<Longrightarrow> nul_free (join_with sep xs)"
  by (induction sep xs rule: join_with.induct) auto

section \<open>Properties\<close>

text \<open>The values added under a name with \<open>HeaderCollection::Add\<close>, one by one, come back
  in order from \<open>GetList\<close>, and adding under other names does not touch them.\<close>

theorem header_list_roundtrip:
  assumes "std_ok h" and "hc_get n h = None" and "items \<noteq> []" and "\<forall>x \<in> set items. list_item x"
    and "n \<notin> fst ` set others"
  shows "hc_get_list n (fold (\<lambda>(k, v). hc_add k v) others (fold (hc_add n) items h)) = Inr items"
proof -
  have "hc_get n (fold (\<lambda>(k, v). hc_add k v) others (fold (hc_add n) items h)) =
      Some (join_with '', '' items)"
    using assms by (simp add: hdr.get_adds_other hc_add_items)
  moreover have "nul_free (join_with '', '' items)"
    using assms(4) by (intro nul_free_join) (auto simp: list_item_def)
  ultimately show ?thesis using assms(3,4) by (simp add: hc_get_list_def hc_list_loop_items)
qed

theorem header_list_roundtrip_witness:
  "hc_get_list ''Accept'' (fold (\<lambda>(k, v). hc_add k v) [(''Host'', ''h'')]
     (fold (hc_add ''Accept'') [''text/html'', ''a b'', ''*/*''] [])) = Inr [''text/html'', ''a b'', ''*/*'']"
  by (rule header_list_roundtrip) (simp_all add: hc_get_def list_item_def)

end
