(* ===== verification/Http_Status.thy ===== *)
theory Http_Status
  imports Rt_Prelude
begin

text \<open>
  Status codes: the class \<open>HttpStatus\<close> (\<open>include/rikitiki/http/http_statuses.h\<close>)
  and its standard constants (\<open>src/http/http_statuses.cc\<close>), listed with their names.
  \<open>managed\<close> marks a constant of the program, which a response must not delete.
\<close>

record http_status =
  status_code :: "16 word"
  status_name :: string
  managed :: bool

text \<open>The constructors; the flag is false by default. The second takes a wide name.\<close>

definition new_status :: "16 word \<Rightarrow> string \<Rightarrow> http_status" where
  "new_status s n = \<lparr>status_code = s, status_name = n, managed = False\<rparr>"

definition new_status_wide :: "utf_lib \<Rightarrow> 16 word \<Rightarrow> wstring \<Rightarrow> http_status" where
  "new_status_wide u s n = \<lparr>status_code = s, status_name = narrow u n, managed = False\<rparr>"

definition standard_statuses :: "(string \<times> http_status) list" where
  "standard_statuses =
   [(''Continue'', \<lparr>status_code = 100, status_name = ''Continue'', managed = True\<rparr>),
    (''Switching_Protocols'', \<lparr>status_code = 101, status_name = ''Switching Protocols'', managed = True\<rparr>),
    (''Processing'', \<lparr>status_code = 102, status_name = ''Processing'', managed = True\<rparr>),
    (''OK'', \<lparr>status_code = 200, status_name = ''OK'', managed = True\<rparr>),
    (''Created'', \<lparr>status_code = 201, status_name = ''Created'', managed = True\<rparr>),
    (''Accepted'', \<lparr>status_code = 202, status_name = ''Accepted'', managed = True\<rparr>),
    (''Non_Authoritative_Information'', \<lparr>status_code = 203, status_name = ''Non-Authoritative Information'', managed = True\<rparr>),
    (''No_Content'', \<lparr>status_code = 204, status_name = ''No Content'', managed = True\<rparr>),
    (''Reset_Content'', \<lparr>status_code = 205, status_name = ''Reset Content'', managed = True\<rparr>),
    (''Partial_Content'', \<lparr>status_code = 206, status_name = ''Partial Content'', managed = True\<rparr>),
    (''Multi_Status'', \<lparr>status_code = 207, status_name = ''Multi-Status'', managed = True\<rparr>),
    (''Already_Reported'', \<lparr>status_code = 208, status_name = ''Already Reported'', managed = True\<rparr>),
    (''IM_Used'', \<lparr>status_code = 226, status_name = ''IM Used'', managed = True\<rparr>),
    (''Multiple_Choices'', \<lparr>status_code = 300, status_name = ''Multiple Choices'', managed = True\<rparr>),
    (''Moved_Permanently'', \<lparr>status_code = 301, status_name = ''Moved Permanently'', managed = True\<rparr>),
    (''Found'', \<lparr>status_code = 302, status_name = ''Found'', managed = True\<rparr>),
    (''See_Other'', \<lparr>status_code = 303, status_name = ''See Other'', managed = True\<rparr>),
    (''Not_Modified'', \<lparr>status_code = 304, status_name = ''Not Modified'', managed = True\<rparr>),
    (''Use_Proxy'', \<lparr>status_code = 305, status_name = ''Use Proxy'', managed = True\<rparr>),
    (''Switch_Proxy'', \<lparr>status_code = 306, status_name = ''Switch Proxy'', managed = True\<rparr>),
    (''Temporary_Redirect'', \<lparr>status_code = 307, status_name = ''Temporary Redirect'', managed = True\<rparr>),
    (''Permanent_Redirect'', \<lparr>status_code = 308, status_name = ''Permanent Redirect'', managed = True\<rparr>),
    (''Bad_Request'', \<lparr>status_code = 400, status_name = ''Bad Request'', managed = True\<rparr>),
    (''Unauthorized'', \<lparr>status_code = 401, status_name = ''Unauthorized'', managed = True\<rparr>),
    (''Payment_Required'', \<lparr>status_code = 402, status_name = ''Payment Required'', managed = True\<rparr>),
    (''Forbidden'', \<lparr>status_code = 403, status_name = ''Forbidden'', managed = True\<rparr>),
    (''Not_Found'', \<lparr>status_code = 404, status_name = ''Not Found'', managed = True\<rparr>),
    (''Method_Not_Allowed'', \<lparr>status_code = 405, status_name = ''Method Not Allowed'', managed = True\<rparr>),
    (''Not_Acceptable'', \<lparr>status_code = 406, status_name = ''Not Acceptable'', managed = True\<rparr>),
    (''Proxy_Authentication_Required'', \<lparr>status_code = 407, status_name = ''Proxy Authentication Required'', managed = True\<rparr>),
    (''Request_Timeout'', \<lparr>status_code = 408, status_name = ''Request Timeout'', managed = True\<rparr>),
    (''Conflict'', \<lparr>status_code = 409, status_name = ''Conflict'', managed = True\<rparr>),
    (''Gone'', \<lparr>status_code = 410, status_name = ''Gone'', managed = True\<rparr>),
    (''Length_Required'', \<lparr>status_code = 411, status_name = ''Length Required'', managed = True\<rparr>),
    (''Precondition_Failed'', \<lparr>status_code = 412, status_name = ''Precondition Failed'', managed = True\<rparr>),
    (''Request_Entity_Too_Large'', \<lparr>status_code = 413, status_name = ''Request Entity Too Large'', managed = True\<rparr>),
    (''Request_URI_Too_Long'', \<lparr>status_code = 414, status_name = ''Request-URI Too Long'', managed = True\<rparr>),
    (''Unsupported_Media_Type'', \<lparr>status_code = 415, status_name = ''Unsupported Media Type'', managed = True\<rparr>),
    (''Requested_Range_Not_Satisfiable'', \<lparr>status_code = 416, status_name = ''Requested Range Not Satisfiable'', managed = True\<rparr>),
    (''Expectation_Failed'', \<lparr>status_code = 417, status_name = ''Expectation Failed'', managed = True\<rparr>),
    (''Im_a_teapot'', \<lparr>status_code = 418, status_name = (''I'' @ [CHR 0x27] @ ''m a teapot''), managed = True\<rparr>),
    (''Enhance_Your_Calm'', \<lparr>status_code = 420, status_name = ''Enhance Your Calm'', managed = True\<rparr>),
    (''Unprocessable_Entity'', \<lparr>status_code = 422, status_name = ''Unprocessable Entity'', managed = True\<rparr>),
    (''Locked'', \<lparr>status_code = 423, status_name = ''Locked'', managed = True\<rparr>),
    (''Failed_Dependency'', \<lparr>status_code = 424, status_name = ''Failed Dependency'', managed = True\<rparr>),
    (''Unordered_Collection'', \<lparr>status_code = 425, status_name = ''Unordered Collection'', managed = True\<rparr>),
    (''Upgrade_Required'', \<lparr>status_code = 426, status_name = ''Upgrade Required'', managed = True\<rparr>),
    (''Precondition_Required'', \<lparr>status_code = 428, status_name = ''Precondition Required'', managed = True\<rparr>),
    (''Too_Many_Requests'', \<lparr>status_code = 429, status_name = ''Too Many Requests'', managed = True\<rparr>),
    (''Request_Header_Fields_Too_Large'', \<lparr>status_code = 431, status_name = ''Request Header Fields Too Large'', managed = True\<rparr>),
    (''No_Response'', \<lparr>status_code = 444, status_name = ''No Response'', managed = True\<rparr>),
    (''Retry_With'', \<lparr>status_code = 449, status_name = ''Retry With'', managed = True\<rparr>),
    (''Blocked_by_Windows_Parental_Controls'', \<lparr>status_code = 450, status_name = ''Blocked by Windows Parental Controls'', managed = True\<rparr>),
    (''Client_Closed_Request'', \<lparr>status_code = 499, status_name = ''Client Closed Request'', managed = True\<rparr>),
    (''Internal_Server_Error'', \<lparr>status_code = 500, status_name = ''Internal Server Error'', managed = True\<rparr>),
    (''Not_Implemented'', \<lparr>status_code = 501, status_name = ''Not Implemented'', managed = True\<rparr>),
    (''Bad_Gateway'', \<lparr>status_code = 502, status_name = ''Bad Gateway'', managed = True\<rparr>),
    (''Service_Unavailable'', \<lparr>status_code = 503, status_name = ''Service Unavailable'', managed = True\<rparr>),
    (''Gateway_Timeout'', \<lparr>status_code = 504, status_name = ''Gateway Timeout'', managed = True\<rparr>),
    (''HTTP_Version_Not_Supported'', \<lparr>status_code = 505, status_name = ''HTTP Version Not Supported'', managed = True\<rparr>),
    (''Variant_Also_Negotiates'', \<lparr>status_code = 506, status_name = ''Variant Also Negotiates'', managed = True\<rparr>),
    (''Insufficient_Storage'', \<lparr>status_code = 507, status_name = ''Insufficient Storage'', managed = True\<rparr>),
    (''Bandwidth_Limit_Exceeded'', \<lparr>status_code = 509, status_name = ''Bandwidth Limit Exceeded'', managed = True\<rparr>),
    (''Not_Extended'', \<lparr>status_code = 510, status_name = ''Not Extended'', managed = True\<rparr>)]"

text \<open>The constants that the modelled code names.\<close>

definition status_OK :: http_status where
  "status_OK = \<lparr>status_code = 200, status_name = ''OK'', managed = True\<rparr>"

definition status_Bad_Request :: http_status where
  "status_Bad_Request = \<lparr>status_code = 400, status_name = ''Bad Request'', managed = True\<rparr>"

definition status_Not_Acceptable :: http_status where
  "status_Not_Acceptable = \<lparr>status_code = 406, status_name = ''Not Acceptable'', managed = True\<rparr>"

definition status_Internal_Server_Error :: http_status where
  "status_Internal_Server_Error =
     \<lparr>status_code = 500, status_name = ''Internal Server Error'', managed = True\<rparr>"

text \<open>\<open>HttpStatus::StartString\<close> (\<open>src/http/Enums.cc\<close>)\<close>

definition start_string :: "http_status \<Rightarrow> string" where
  "start_string st = show_dec (unat (status_code st)) @ '' '' @ status_name st"

text \<open>
  A reason phrase that survives a status line: it is not empty, holds no NUL and no line
  end, and does not end in white space, which the parser strips.
\<close>

definition plain_reason :: "string \<Rightarrow> bool" where
  "plain_reason n \<longleftrightarrow> n \<noteq> [] \<and> nul_free n \<and> (\<forall>c \<in> set n. \<not> is_nl c) \<and> \<not> isspace_c (last n)"

lemma standard_named [simp]:
  "(''OK'', status_OK) \<in> set standard_statuses"
  "(''Bad_Request'', status_Bad_Request) \<in> set standard_statuses"
  "(''Not_Acceptable'', status_Not_Acceptable) \<in> set standard_statuses"
  "(''Internal_Server_Error'', status_Internal_Server_Error) \<in> set standard_statuses"
  by (simp_all add: standard_statuses_def status_OK_def status_Bad_Request_def
      status_Not_Acceptable_def status_Internal_Server_Error_def)

lemma standard_statuses_plain:
  "list_all (\<lambda>(n, st). plain_reason (status_name st) \<and> managed st) standard_statuses"
  by (simp add: standard_statuses_def plain_reason_def is_nl_def isspace_c_def)

lemma standard_codes_distinct: "distinct (map (status_code \<circ> snd) standard_statuses)"
  by code_simp

end
