(* ===== verification/Query_String.thy ===== *)
theory Query_String
  imports Http_Header
begin

text \<open>
  \<open>QueryStringCollection::FromQueryString\<close> (\<open>src/http/Header.cc\<close>): the character loop
  with its two modes, a specification over the segments between ampersands, and the proof
  that the loop computes it.
\<close>

section \<open>The loop\<close>

type_synonym query_collection = "(string, string) std_map"

text \<open>
  The local variables of the loop. The pointer \<open>val\<close> refers to the entry of \<open>name\<close>,
  which does not change while the loop reads a value.
\<close>

record qs_state =
  nameMode :: bool
  qs_name :: string
  qs_map :: query_collection

definition qs_step :: "wchar \<Rightarrow> qs_state \<Rightarrow> qs_state" where
  "qs_step c st =
     (if nameMode st then
        if c = wchar_of_char (CHR ''='') then
          st\<lparr>nameMode := False, qs_map := snd (std_at [] (qs_name st) (qs_map st))\<rparr>
        else if c = wchar_of_char (CHR ''&'') then
          st\<lparr>qs_map := std_set (qs_name st) [] (qs_map st), qs_name := []\<rparr>
        else st\<lparr>qs_name := qs_name st @ [char_of_wchar c]\<rparr>
      else
        if c = wchar_of_char (CHR ''&'') then st\<lparr>nameMode := True, qs_name := []\<rparr>
        else st\<lparr>qs_map := std_set (qs_name st)
                   (fst (std_at [] (qs_name st) (qs_map st)) @ [char_of_wchar c]) (qs_map st)\<rparr>)"

definition from_query_wide :: "wstring \<Rightarrow> query_collection \<Rightarrow> query_collection" where
  "from_query_wide qs m =
     qs_map (fold qs_step (wcstr qs) \<lparr>nameMode = True, qs_name = [], qs_map = m\<rparr>)"

definition from_query_string :: "utf_lib \<Rightarrow> string \<Rightarrow> query_collection \<Rightarrow> query_collection" where
  "from_query_string u qs m = from_query_wide (widen u (cstr qs)) m"

text \<open>\<open>QueryStringCollection::hasValue\<close>\<close>

definition qs_has_value :: "string \<Rightarrow> string \<Rightarrow> query_collection \<Rightarrow> bool \<times> string" where
  "qs_has_value name val m =
     (case std_find name m of None \<Rightarrow> (False, val) | Some v \<Rightarrow> (True, v))"

section \<open>Specification by segments\<close>

text \<open>
  The string is cut at ampersands. A segment \<open>name=text\<close> appends \<open>text\<close> to what the
  name already has; a segment without an equals sign sets its name to the empty string; the
  last segment counts only if it has an equals sign.
\<close>

definition qs_assign :: "string \<Rightarrow> query_collection \<Rightarrow> query_collection" where
  "qs_assign seg m =
     (let name = takeWhile (\<lambda>c. c \<noteq> CHR ''='') seg;
          val = tl (dropWhile (\<lambda>c. c \<noteq> CHR ''='') seg);
          old = (case std_find name m of None \<Rightarrow> [] | Some v \<Rightarrow> v)
      in std_set name (old @ val) m)"

fun qs_segments :: "string list \<Rightarrow> query_collection \<Rightarrow> query_collection" where
  "qs_segments [] m = m"
| "qs_segments [seg] m = (if CHR ''='' \<in> set seg then qs_assign seg m else m)"
| "qs_segments (seg # seg' # segs) m =
     qs_segments (seg' # segs)
       (if CHR ''='' \<in> set seg then qs_assign seg m else std_set seg [] m)"

fun split_at :: "char \<Rightarrow> string \<Rightarrow> string list" where
  "split_at d [] = [[]]"
| "split_at d (c # s) =
     (if c = d then [] # split_at d s
      else case split_at d s of seg # segs \<Rightarrow> (c # seg) # segs | [] \<Rightarrow> [[c]])"

section \<open>The loop meets the specification\<close>

lemma wchar_of_char_eq [simp]: "wchar_of_char c = wchar_of_char d \<longleftrightarrow> c = d"
  by (metis char_of_wchar_of_char)

abbreviation qs_run :: "string \<Rightarrow> qs_state \<Rightarrow> qs_state" where
  "qs_run s \<equiv> fold qs_step (wide_lit s)"

lemma wide_lit_simps [simp]:
  "wide_lit [] = []"
  "wide_lit (c # s) = wchar_of_char c # wide_lit s"
  "wide_lit (s @ t) = wide_lit s @ wide_lit t"
  by (simp_all add: wide_lit_def)

lemma qs_run_name:
  "CHR ''='' \<notin> set s \<Longrightarrow> CHR ''&'' \<notin> set s \<Longrightarrow>
     qs_run s \<lparr>nameMode = True, qs_name = n, qs_map = m\<rparr> =
       \<lparr>nameMode = True, qs_name = n @ s, qs_map = m\<rparr>"
  by (induction s arbitrary: n) (auto simp: qs_step_def)

lemma qs_run_value:
  "std_ok m \<Longrightarrow> std_find n m = Some v \<Longrightarrow> CHR ''&'' \<notin> set s \<Longrightarrow>
     qs_run s \<lparr>nameMode = False, qs_name = n, qs_map = m\<rparr> =
       \<lparr>nameMode = False, qs_name = n, qs_map = std_set n (v @ s) m\<rparr>"
proof (induction s arbitrary: m v)
  case Nil
  then show ?case by (simp add: std.set_same)
next
  case (Cons c s)
  have "qs_step (wchar_of_char c) \<lparr>nameMode = False, qs_name = n, qs_map = m\<rparr> =
      \<lparr>nameMode = False, qs_name = n, qs_map = std_set n (v @ [c]) m\<rparr>"
    using Cons.prems by (auto simp: qs_step_def std_at_find)
  with Cons show ?case by (simp add: std.set_twice)
qed

lemma split_first:
  "d \<in> set s \<Longrightarrow> s = takeWhile (\<lambda>c. c \<noteq> d) s @ d # tl (dropWhile (\<lambda>c. c \<noteq> d) s)"
  by (induction s) auto

lemma qs_run_assign:
  assumes "std_ok m" "CHR ''&'' \<notin> set seg" "CHR ''='' \<in> set seg"
  shows "qs_run seg \<lparr>nameMode = True, qs_name = [], qs_map = m\<rparr> =
    \<lparr>nameMode = False, qs_name = takeWhile (\<lambda>c. c \<noteq> CHR ''='') seg, qs_map = qs_assign seg m\<rparr>"
proof -
  let ?n = "takeWhile (\<lambda>c. c \<noteq> CHR ''='') seg" and ?v = "tl (dropWhile (\<lambda>c. c \<noteq> CHR ''='') seg)"
  let ?old = "case std_find ?n m of None \<Rightarrow> [] | Some v \<Rightarrow> v"
  have seg: "seg = ?n @ CHR ''='' # ?v" by (rule split_first [OF assms(3)])
  have "CHR ''&'' \<notin> set (?n @ CHR ''='' # ?v)" using assms(2) seg by simp
  then have amp: "CHR ''&'' \<notin> set ?n" "CHR ''&'' \<notin> set ?v" by auto
  have noeq: "CHR ''='' \<notin> set ?n" by (auto dest: set_takeWhileD)
  let ?m = "snd (std_at [] ?n m)"
  have m: "std_ok ?m" "std_find ?n ?m = Some ?old" "std_set ?n (?old @ ?v) ?m = std_set ?n (?old @ ?v) m"
    using assms(1) by (auto simp: std_at_find std.set_twice split: option.splits)
  have "qs_run (?n @ CHR ''='' # ?v) \<lparr>nameMode = True, qs_name = [], qs_map = m\<rparr> =
      \<lparr>nameMode = False, qs_name = ?n, qs_map = std_set ?n (?old @ ?v) m\<rparr>"
    using qs_run_name [OF noeq amp(1), of "[]" m] qs_run_value [OF m(1,2) amp(2)] m(3)
    by (simp add: qs_step_def)
  then show ?thesis
    unfolding seg [symmetric] by (simp add: qs_assign_def Let_def)
qed

lemma std_ok_assign [simp]: "std_ok m \<Longrightarrow> std_ok (qs_assign seg m)"
  by (simp add: qs_assign_def Let_def)

lemma qs_step_amp:
  "qs_step (wchar_of_char (CHR ''&'')) \<lparr>nameMode = True, qs_name = n, qs_map = m\<rparr> =
     \<lparr>nameMode = True, qs_name = [], qs_map = std_set n [] m\<rparr>"
  "qs_step (wchar_of_char (CHR ''&'')) \<lparr>nameMode = False, qs_name = n, qs_map = m\<rparr> =
     \<lparr>nameMode = True, qs_name = [], qs_map = m\<rparr>"
  by (simp_all add: qs_step_def)

lemma qs_run_segments:
  "segs \<noteq> [] \<Longrightarrow> std_ok m \<Longrightarrow> \<forall>seg \<in> set segs. CHR ''&'' \<notin> set seg \<Longrightarrow>
     qs_map (qs_run (join_with [CHR ''&''] segs) \<lparr>nameMode = True, qs_name = [], qs_map = m\<rparr>) =
       qs_segments segs m"
proof (induction segs m rule: qs_segments.induct)
  case (2 seg m)
  then show ?case
    by (cases "CHR ''='' \<in> set seg") (simp_all add: qs_run_assign qs_run_name)
next
  case (3 seg seg' segs m)
  then show ?case
    by (cases "CHR ''='' \<in> set seg") (simp_all add: qs_run_assign qs_run_name qs_step_amp)
qed simp

lemma split_at_nonempty [simp]: "split_at d s \<noteq> []"
  by (cases s) (auto split: list.splits)

lemma join_split: "join_with [d] (split_at d s) = s"
proof (induction s)
  case (Cons c s)
  obtain seg segs where "split_at d s = seg # segs"
    using split_at_nonempty by (metis neq_Nil_conv)
  with Cons show ?case by (cases segs) auto
qed simp

lemma split_at_free: "seg \<in> set (split_at d s) \<Longrightarrow> d \<notin> set seg"
proof (induction s arbitrary: seg)
  case (Cons c s)
  obtain seg' segs where "split_at d s = seg' # segs"
    using split_at_nonempty by (metis neq_Nil_conv)
  with Cons show ?case by (auto split: if_splits)
qed simp

lemma from_query_segments:
  assumes "utf_ascii u" "ascii (cstr qs)" "std_ok m"
  shows "from_query_string u qs m = qs_segments (split_at (CHR ''&'') (cstr qs)) m"
proof -
  have "from_query_string u qs m =
      qs_map (qs_run (cstr qs) \<lparr>nameMode = True, qs_name = [], qs_map = m\<rparr>)"
    using assms(1,2) by (simp add: from_query_string_def from_query_wide_def wcstr_wide_lit)
  also have "\<dots> = qs_map (qs_run (join_with [CHR ''&''] (split_at (CHR ''&'') (cstr qs)))
      \<lparr>nameMode = True, qs_name = [], qs_map = m\<rparr>)"
    by (simp add: join_split)
  also have "\<dots> = qs_segments (split_at (CHR ''&'') (cstr qs)) m"
    using assms(3) split_at_free by (intro qs_run_segments) auto
  finally show ?thesis .
qed

lemma fold_qs_step_ok: "std_ok (qs_map st) \<Longrightarrow> std_ok (qs_map (fold qs_step ws st))"
proof (induction ws arbitrary: st)
  case (Cons w ws)
  have "std_ok (qs_map (qs_step w st))"
    using Cons.prems by (simp add: qs_step_def)
  with Cons.IH show ?case by simp
qed simp

lemma from_query_ok: "std_ok m \<Longrightarrow> std_ok (from_query_string u qs m)"
  by (simp add: from_query_string_def from_query_wide_def fold_qs_step_ok)

section \<open>Rendering a query\<close>

text \<open>Names and values that need no escaping in a query string.\<close>

definition query_pair :: "wstringpair \<Rightarrow> bool" where
  "query_pair kv \<longleftrightarrow> plain_text (fst kv) \<and> plain_text (snd kv) \<and>
     CHR ''='' \<notin> set (fst kv) \<and> CHR ''&'' \<notin> set (fst kv) \<and> CHR ''&'' \<notin> set (snd kv)"

definition render_pair :: "wstringpair \<Rightarrow> string" where
  "render_pair kv = fst kv @ CHR ''='' # snd kv"

definition render_query :: "wstringpair list \<Rightarrow> string" where
  "render_query kvs = join_with [CHR ''&''] (map render_pair kvs)"

lemma render_pair_props:
  assumes "query_pair kv"
  shows "CHR ''='' \<in> set (render_pair kv)" "CHR ''&'' \<notin> set (render_pair kv)"
    "takeWhile (\<lambda>c. c \<noteq> CHR ''='') (render_pair kv) = fst kv"
    "tl (dropWhile (\<lambda>c. c \<noteq> CHR ''='') (render_pair kv)) = snd kv"
proof -
  have "c \<in> set (fst kv) \<Longrightarrow> c \<noteq> CHR ''=''" for c
    using assms by (auto simp: query_pair_def)
  then show "takeWhile (\<lambda>c. c \<noteq> CHR ''='') (render_pair kv) = fst kv"
    "tl (dropWhile (\<lambda>c. c \<noteq> CHR ''='') (render_pair kv)) = snd kv"
    by (simp_all add: render_pair_def takeWhile_append2 dropWhile_append2)
qed (use assms in \<open>auto simp: render_pair_def query_pair_def\<close>)

lemma qs_assign_render:
  "query_pair (k, v) \<Longrightarrow> std_find k m = None \<Longrightarrow> qs_assign (render_pair (k, v)) m = std_set k v m"
  using render_pair_props(3,4) [of "(k, v)"] by (simp add: qs_assign_def)

lemma qs_segments_render:
  "kvs \<noteq> [] \<Longrightarrow> \<forall>kv \<in> set kvs. query_pair kv \<Longrightarrow> distinct (map fst kvs) \<Longrightarrow>
     \<forall>k \<in> fst ` set kvs. std_find k m = None \<Longrightarrow>
     qs_segments (map render_pair kvs) m = fold (\<lambda>(k, v). std_set k v) kvs m"
proof (induction kvs arbitrary: m)
  case (Cons kv kvs)
  obtain k v where kv: "kv = (k, v)" by force
  have step: "qs_assign (render_pair kv) m = std_set k v m"
    using Cons.prems by (simp add: kv qs_assign_render)
  have eq: "CHR ''='' \<in> set (render_pair kv)"
    using Cons.prems render_pair_props(1) by simp
  show ?case
  proof (cases kvs)
    case Nil
    with step eq show ?thesis by (simp add: kv)
  next
    case (Cons kv' kvs')
    have "\<forall>k' \<in> fst ` set kvs. std_find k' (std_set k v m) = None"
      using Cons.prems by (auto simp: kv)
    with Cons.IH [of "std_set k v m"] Cons.prems step eq \<open>kvs = kv' # kvs'\<close> show ?thesis
      by (simp add: kv)
  qed
qed simp

lemma render_query_plain: "\<forall>kv \<in> set kvs. query_pair kv \<Longrightarrow> plain_text (render_query kvs)"
proof -
  have "\<forall>x \<in> set xs. plain_text x \<Longrightarrow> plain_text (join_with [CHR ''&''] xs)" for xs
    by (induction "[CHR ''&'']" xs rule: join_with.induct) (auto simp: plain_text_def)
  moreover assume "\<forall>kv \<in> set kvs. query_pair kv"
  ultimately show ?thesis
    by (auto simp: render_query_def query_pair_def plain_text_def render_pair_def)
qed

lemma split_at_join:
  "xs \<noteq> [] \<Longrightarrow> \<forall>x \<in> set xs. d \<notin> set x \<Longrightarrow> split_at d (join_with [d] xs) = xs"
proof (induction "[d]" xs rule: join_with.induct)
  case (2 x)
  then show ?case by (induction x) auto
next
  case (3 x y zs)
  have "d \<notin> set x \<Longrightarrow> split_at d (x @ d # t) = x # split_at d t" for t
    by (induction x) auto
  with 3 show ?case by simp
qed simp

section \<open>Properties\<close>

text \<open>\<open>FromQueryString\<close> on ASCII text computes the segment specification: it cuts at
  ampersands, a \<open>name=text\<close> segment appends to the value of its name, and a segment
  without an equals sign sets its name to the empty string unless it is the last one.\<close>

theorem query_string_segments:
  assumes "utf_ascii u" and "ascii (cstr qs)" and "std_ok m"
  shows "from_query_string u qs m = qs_segments (split_at (CHR ''&'') (cstr qs)) m"
  by (rule from_query_segments [OF assms])

theorem query_string_segments_witness:
  "from_query_string latin1_utf ''a=1&b&a=2&c'' [] =
     qs_segments (split_at (CHR ''&'') (cstr ''a=1&b&a=2&c'')) []"
  by (rule query_string_segments) simp_all

text \<open>A query string written from distinct names and plain values parses back to a map that
  has exactly these values, on top of what the map held.\<close>

theorem query_string_roundtrip:
  assumes "utf_ascii u" and "kvs \<noteq> []" and "\<forall>kv \<in> set kvs. query_pair kv" and "distinct (map fst kvs)"
  shows "qs_has_value k d (from_query_string u (render_query kvs) []) =
    (case map_of kvs k of None \<Rightarrow> (False, d) | Some v \<Rightarrow> (True, v))"
proof -
  have p: "ascii (render_query kvs)" "nul_free (render_query kvs)"
    using render_query_plain [OF assms(3)] by (simp_all add: plain_text_def)
  have "split_at (CHR ''&'') (render_query kvs) = map render_pair kvs"
    unfolding render_query_def using assms(2,3) by (intro split_at_join) (auto dest: render_pair_props(2))
  then have "from_query_string u (render_query kvs) [] = fold (\<lambda>(k, v). std_set k v) kvs []"
    using assms p by (simp add: from_query_segments qs_segments_render)
  moreover have "std_find k (fold (\<lambda>(k, v). std_set k v) kvs []) = map_of kvs k"
    using map_of_rev_distinct_keys [OF assms(4)] by (simp add: std.find_fold_set split: option.split)
  ultimately show ?thesis by (simp add: qs_has_value_def split: option.split)
qed

theorem query_string_roundtrip_witness:
  "qs_has_value ''b'' ''none'' (from_query_string latin1_utf (render_query [(''a'', ''1''), (''b'', ''x y'')]) []) =
    (case map_of [(''a'', ''1''), (''b'', ''x y'')] ''b'' of None \<Rightarrow> (False, ''none'') | Some v \<Rightarrow> (True, v))"
  by (rule query_string_roundtrip) (simp_all add: query_pair_def plain_text_def)

end
