(* ===== verification/Http_Message.thy ===== *)
theory Http_Message
  imports Http_Header Http_Status Query_String
begin

text \<open>
  Messages, requests and responses (\<open>include/rikitiki/http/Message.h\<close>,
  \<open>Request.h\<close>, \<open>Response.h\<close> and their sources). The collections and the body that the
  virtual accessors return are the fields of the record; a \<open>ByteStream\<close> is the bytes
  written to it. A request and a response extend the record as the classes extend
  \<open>Message\<close>. The printed form of a message and the request text of the client
  (\<open>src/http/helpers/SimpleRequestClient.cc\<close>) are here too.
\<close>

section \<open>Messages\<close>

record message =
  msg_headers :: header_collection
  msg_cookies :: "(string, string) std_map"
  msg_body :: string
  msg_post :: query_collection

definition add_header :: "wstringpair \<Rightarrow> 'a message_scheme \<Rightarrow> 'a message_scheme" where
  "add_header header m = m\<lparr>msg_headers := hc_add (fst header) (snd header) (msg_headers m)\<rparr>"

definition set_content_type ::
  "utf_lib \<Rightarrow> content_type \<Rightarrow> 'a message_scheme \<Rightarrow> 'a message_scheme" where
  "set_content_type u t m =
     m\<lparr>msg_headers := hc_set u ''Content-Type'' (ct_to_string t) (msg_headers m)\<rparr>"

definition put_content_type ::
  "utf_lib \<Rightarrow> content_type \<Rightarrow> 'a message_scheme \<Rightarrow> 'a message_scheme" where
  "put_content_type u t m = set_content_type u t m"

definition add_cookie :: "wstringpair \<Rightarrow> 'a message_scheme \<Rightarrow> 'a message_scheme" where
  "add_cookie cookie m = add_header (''Set-Cookie'', fst cookie @ ''='' @ snd cookie) m"

definition content_length :: "'a message_scheme \<Rightarrow> size_t" where
  "content_length m = hc_get_size ''Content-Length'' npos (msg_headers m)"

definition transfer_encoding :: "utf_lib \<Rightarrow> 'a message_scheme \<Rightarrow> encoding" where
  "transfer_encoding u m = hc_get_encoding u ''Transfer-Encoding'' Enc_UNKNOWN (msg_headers m)"

definition msg_content_type :: "'a message_scheme \<Rightarrow> types_map \<Rightarrow> content_type \<times> types_map" where
  "msg_content_type m types = hc_get_content_type ''contenttype'' text_html (msg_headers m) types"

definition set_content_length ::
  "utf_lib \<Rightarrow> size_t \<Rightarrow> 'a message_scheme \<Rightarrow> 'a message_scheme" where
  "set_content_length u l m =
     m\<lparr>msg_headers := hc_set_size u ''Content-Length'' l (msg_headers m)\<rparr>"

definition set_transfer_encoding ::
  "utf_lib \<Rightarrow> encoding \<Rightarrow> 'a message_scheme \<Rightarrow> 'a message_scheme result" where
  "set_transfer_encoding u enc m =
     bindE (encoding_to_string enc) (\<lambda>s.
       Inr (m\<lparr>msg_headers := hc_set u ''Transfer-Encoding'' s (msg_headers m)\<rparr>))"

text \<open>Writing to the body stream appends.\<close>

definition write_body :: "string \<Rightarrow> 'a message_scheme \<Rightarrow> 'a message_scheme" where
  "write_body bytes m = m\<lparr>msg_body := msg_body m @ bytes\<rparr>"

text \<open>
  \<open>operator<<(std::ostream&, const Message&)\<close>, given what the virtual \<open>Startline\<close>
  returns: \<open>std::endl\<close> writes a line feed.
\<close>

definition header_lines :: "header_collection \<Rightarrow> string" where
  "header_lines h = concat (map (\<lambda>(n, v). n @ '': '' @ v @ [LF]) h)"

definition print_message :: "string \<Rightarrow> 'a message_scheme \<Rightarrow> string" where
  "print_message startline m =
     startline @ [LF] @ header_lines (msg_headers m) @ [LF, LF] @ msg_body m"

text \<open>The same on a wide stream: every text goes through the widening conversion.\<close>

definition print_message_wide :: "utf_lib \<Rightarrow> string \<Rightarrow> 'a message_scheme \<Rightarrow> wstring" where
  "print_message_wide u startline m =
     widen u startline @ wide_lit [LF] @
     concat (map (\<lambda>(n, v). widen u n @ wide_lit '': '' @ widen u v @ wide_lit [LF]) (msg_headers m)) @
     wide_lit [LF, LF] @ widen u (msg_body m)"

text \<open>A header as it goes over a connection.\<close>

definition header_line :: "wstringpair \<Rightarrow> string" where
  "header_line h = fst h @ '': '' @ snd h @ crlf"

definition header_block :: "wstringpair list \<Rightarrow> string" where
  "header_block hs = concat (map header_line hs)"

lemma header_block_simps [simp]:
  "header_block [] = []"
  "header_block (h # hs) = header_line h @ header_block hs"
  by (simp_all add: header_block_def)

section \<open>Requests\<close>

record request = message +
  req_method :: request_method
  req_uri :: string
  req_query :: query_collection

text \<open>
  \<open>Request::Startline\<close>. It writes wide literals to a narrow stream. Here (unlike in
  \<open>Response.cc\<close>) no overload for that is declared, so what a literal comes out as is
  up to the standard library, and the parameter \<open>put_wide\<close> says it. The URI is a C string.
\<close>

definition request_startline :: "(wstring \<Rightarrow> string) \<Rightarrow> 'a request_scheme \<Rightarrow> string" where
  "request_startline put_wide r =
     method_to_string (req_method r) @ put_wide (wide_lit '' '') @ cstr (req_uri r) @
     put_wide (wide_lit '' HTTP/1.1'')"

text \<open>
  \<open>Request::SetStartline\<close>: the text before the first space is the method; the part up
  to the last space goes to a local that is not used. Without a space both indices are
  \<open>npos\<close>, and the code indexes the string there.
\<close>

definition request_set_startline :: "string \<Rightarrow> 'a request_scheme \<Rightarrow> 'a request_scheme result" where
  "request_set_startline startLine r =
     (if CHR '' '' \<notin> set startLine then Inl UndefinedBehaviour
      else Inr (r\<lparr>req_method := method_from_string (takeWhile (\<lambda>c. c \<noteq> CHR '' '') startLine)\<rparr>))"

section \<open>Responses\<close>

record response = message +
  resp_status :: http_status

definition new_response :: response where
  "new_response = \<lparr>msg_headers = [], msg_cookies = [], msg_body = [], msg_post = [],
                   resp_status = status_OK\<rparr>"

definition put_status :: "http_status \<Rightarrow> 'a response_scheme \<Rightarrow> 'a response_scheme" where
  "put_status t r = r\<lparr>resp_status := t\<rparr>"

text \<open>
  \<open>Response::Startline\<close>: wide literals go through the overload that narrows them, the
  name through the one that prints a C string.
\<close>

definition response_startline :: "utf_lib \<Rightarrow> 'a response_scheme \<Rightarrow> string" where
  "response_startline u r =
     narrow u (wide_lit ''HTTP/1.1 '') @ show_dec (unat (status_code (resp_status r))) @
     narrow u (wide_lit '' '') @ cstr (status_name (resp_status r))"

definition strip_right :: "('a \<Rightarrow> bool) \<Rightarrow> 'a list \<Rightarrow> 'a list" where
  "strip_right p xs = rev (dropWhile p (rev xs))"

text \<open>
  \<open>Response::SetStartline\<close>. \<open>str\<close> starts after the first space (at the start when there
  is none). The status text starts one character after the end of the number: past the end
  of the object when the number ends the line. Dropping the trailing white space reads
  before the start of the text when nothing else is in it.
\<close>

definition response_set_startline ::
  "string \<Rightarrow> 'a response_scheme \<Rightarrow> 'a response_scheme result" where
  "response_set_startline startline r =
     (let str = (if CHR '' '' \<in> set startline
                 then tl (dropWhile (\<lambda>c. c \<noteq> CHR '' '') startline) else startline);
          (statusCode, rest) = strtol 10 (cstr str);
          pos2 = length (cstr str) - length rest
      in if length str \<le> pos2 then Inl UndefinedBehaviour
         else let statusString = strip_right isspace_c (cstr (drop (pos2 + 1) str))
           in if statusString = [] then Inl UndefinedBehaviour
              else Inr (r\<lparr>resp_status := new_status (of_int statusCode) statusString\<rparr>))"

section \<open>The request text of the client\<close>

text \<open>
  \<open>SimpleRequestClient::MakeRequest\<close>: what it sends, given the start line of the
  request. The overload that prints C strings is in scope here, for the header texts and
  for the body.
\<close>

definition client_request_text :: "utf_lib \<Rightarrow> wstring \<Rightarrow> string \<Rightarrow> 'a message_scheme \<Rightarrow> string" where
  "client_request_text u host startline request =
     cstr startline @ [LF] @ narrow u (wide_lit ''Host: '') @ narrow u (wcstr host) @ [LF] @
     concat (map (\<lambda>(n, v). cstr n @ '': '' @ cstr v @ [LF]) (msg_headers request)) @
     [LF] @ cstr (msg_body request)"

section \<open>Laws\<close>

lemma add_header_simps [simp]:
  "msg_body (add_header kv m) = msg_body m"
  "msg_cookies (add_header kv m) = msg_cookies m"
  "msg_headers (add_header kv m) = hc_add (fst kv) (snd kv) (msg_headers m)"
  by (simp_all add: add_header_def)

lemma write_body_simps [simp]:
  "msg_body (write_body s m) = msg_body m @ s"
  "msg_headers (write_body s m) = msg_headers m"
  "content_length (write_body s m) = content_length m"
  "transfer_encoding u (write_body s m) = transfer_encoding u m"
  by (simp_all add: write_body_def content_length_def transfer_encoding_def)

lemma write_body_twice: "write_body t (write_body s m) = write_body (s @ t) m"
  by (simp add: write_body_def)

lemma write_body_Nil [simp]: "write_body [] m = m"
  by (simp add: write_body_def)

lemma plain_ct_string: "plain_text (ct_to_string t)"
  by (cases t) (simp_all add: plain_text_def)

lemma set_content_length_get:
  assumes "utf_ascii u"
  shows "content_length (set_content_length u l m) = l"
proof -
  have "unat l < 2 ^ LENGTH(64)" by (rule unsigned_less)
  then have "unat l < 2 ^ 64" by simp
  with assms show ?thesis
    by (simp add: content_length_def set_content_length_def hc_set_size_plain hc_get_size_def
        hc_get_def plain_text_def)
qed

lemma content_length_add:
  "hc_get ''Content-Length'' (msg_headers m) = None \<Longrightarrow> n < 2 ^ 64 \<Longrightarrow>
     content_length (add_header (''Content-Length'', show_dec n) m) = of_nat n"
  by (simp add: content_length_def hc_get_size_def hc_get_add_eq hc_merge_def)

lemma strip_right_append:
  "xs \<noteq> [] \<Longrightarrow> \<not> p (last xs) \<Longrightarrow> \<forall>x \<in> set ys. p x \<Longrightarrow> strip_right p (xs @ ys) = xs"
  by (cases xs rule: rev_cases) (auto simp: strip_right_def dropWhile_append)

lemma nul_free_spaces: "\<forall>c \<in> set ws. isspace_c c \<Longrightarrow> nul_free ws"
proof -
  have "\<not> isspace_c NUL" by (simp add: isspace_c_def)
  then show "\<forall>c \<in> set ws. isspace_c c \<Longrightarrow> nul_free ws" unfolding nul_free_def by blast
qed

lemma status_code_bound: "unat (w :: 16 word) < 2 ^ 63"
proof -
  have "unat w < 2 ^ LENGTH(16)" by (rule unsigned_less)
  then show ?thesis by simp
qed

lemma response_set_startline_line:
  assumes "plain_reason n" "\<forall>c \<in> set ws. isspace_c c"
  shows "response_set_startline (''HTTP/1.1 '' @ show_dec (unat code) @ '' '' @ n @ ws) r =
    Inr (r\<lparr>resp_status := new_status code n\<rparr>)"
proof -
  let ?d = "show_dec (unat code)"
  let ?str = "?d @ CHR '' '' # n @ ws"
  have nf: "nul_free n" "n \<noteq> []" "\<not> isspace_c (last n)"
    using assms(1) by (simp_all add: plain_reason_def)
  with nul_free_spaces [OF assms(2)] have cs: "cstr ?str = ?str" by simp
  have st: "strtol 10 ?str = (int (unat code), CHR '' '' # n @ ws)"
    using strtol_show_dec [OF status_code_bound, of "CHR '' '' # n @ ws" code]
    by (simp add: is_digit_in_def digit_val_def)
  have n: "strip_right isspace_c (cstr (n @ ws)) = n"
    using nf nul_free_spaces [OF assms(2)] assms(2) by (simp add: strip_right_append)
  have code: "of_int (int (unat code)) = code"
    by simp
  show ?thesis
    using nf(2) by (simp add: response_set_startline_def cs st n code Let_def)
qed

section \<open>Properties\<close>

lemma response_startline_ascii:
  "utf_ascii u \<Longrightarrow> response_startline u r =
     ''HTTP/1.1 '' @ show_dec (unat (status_code (resp_status r))) @ '' '' @ cstr (status_name (resp_status r))"
  unfolding response_startline_def by (subst utf_ascii_narrow, assumption, simp)+ simp

text \<open>What \<open>Response::Startline\<close> prints, \<open>Response::SetStartline\<close> reads back, with
  any white space after it (the line end that the reader leaves on), for every status code
  and every reason phrase that is not empty and does not end in white space.\<close>

theorem response_startline_roundtrip:
  assumes "utf_ascii u" and "plain_reason (status_name (resp_status r))" and "\<forall>c \<in> set ws. isspace_c c"
  shows "response_set_startline (response_startline u r @ ws) r' =
    Inr (r'\<lparr>resp_status := new_status (status_code (resp_status r)) (status_name (resp_status r))\<rparr>)"
  using response_set_startline_line [OF assms(2,3)] assms(2)
  by (simp add: response_startline_ascii [OF assms(1)] plain_reason_def)

theorem response_startline_roundtrip_witness:
  "response_set_startline (response_startline latin1_utf new_response @ crlf) new_response =
    Inr (new_response\<lparr>resp_status := new_status (status_code (resp_status new_response))
       (status_name (resp_status new_response))\<rparr>)"
  by (rule response_startline_roundtrip)
    (simp_all add: new_response_def status_OK_def plain_reason_def crlf_def isspace_c_def is_nl_def new_status_def)

text \<open>\<open>SetContentLength\<close> and \<open>ContentLength\<close> agree for every size, and no other
  header changes.\<close>

theorem content_length_roundtrip:
  assumes "utf_ascii u"
  shows "content_length (set_content_length u l m) = l \<and>
    (k \<noteq> ''Content-Length'' \<longrightarrow>
      hc_get k (msg_headers (set_content_length u l m)) = hc_get k (msg_headers m))"
  using set_content_length_get [OF assms, of l m] assms
  by (simp add: set_content_length_def hc_set_size_plain plain_text_def hc_get_def)

theorem content_length_roundtrip_witness:
  "content_length (set_content_length latin1_utf 18446744073709551615 new_response) = 18446744073709551615 \<and>
    hc_get ''Host'' (msg_headers (set_content_length latin1_utf 18446744073709551615 new_response)) =
      hc_get ''Host'' (msg_headers new_response)"
  using content_length_roundtrip [of latin1_utf 18446744073709551615 new_response "''Host''"] by simp

text \<open>\<open>SetContentType\<close> stores the type under \<open>Content-Type\<close>, but \<open>ContentType\<close>
  reads the header \<open>contenttype\<close>: what it answers does not depend on the type that was set.\<close>

theorem content_type_not_read_back:
  assumes "utf_ascii u"
  shows "msg_content_type (set_content_type u t m) types = msg_content_type m types \<and>
    hc_get ''Content-Type'' (msg_headers (set_content_type u t m)) = Some (ct_to_string t)"
  using assms plain_ct_string [of t]
  by (simp add: msg_content_type_def set_content_type_def hc_get_content_type_def hc_get_def
      hc_set_plain plain_text_def)

theorem content_type_not_read_back_witness:
  "msg_content_type (set_content_type latin1_utf image_png new_response) [] = msg_content_type new_response [] \<and>
    hc_get ''Content-Type'' (msg_headers (set_content_type latin1_utf image_png new_response)) =
      Some (ct_to_string image_png)"
  by (rule content_type_not_read_back) simp

end
