(* ===== verification/Incoming_Message.thy ===== *)
theory Incoming_Message
  imports Buffered_Reader Http_Message
begin

text \<open>
  Incoming messages: \<open>IMessage\<close> (\<open>include/rikitiki/http/incoming/Message.h\<close>,
  \<open>src/http/incoming/Message.cc\<close>), the header readers of
  \<open>include/rikitiki/http/parsing/Utils.h\<close>, and the response that
  \<open>SimpleRequestClient::OnData\<close> fills. An incoming message is a buffered reader with a
  parser state and a message; \<open>SetStartline\<close> is virtual and a parameter. Logging is left
  out.
\<close>

section \<open>Header lines\<close>

text \<open>
  The \<open>Utils.h\<close> readers give what they put into \<open>out\<close> and the data that is left.
  \<open>isspace\<close> is that of the C locale, in which no byte above 127 is a space.
\<close>

definition skipWhitespace :: "string \<Rightarrow> string" where
  "skipWhitespace data = dropWhile (\<lambda>c. c = CHR '' '' \<or> c = TAB) data"

definition readHeaderName :: "string \<Rightarrow> string \<times> string" where
  "readHeaderName data =
     (let out = takeWhile (\<lambda>c. \<not> (isspace_c c \<or> c = CHR '':'')) data;
          br = drop (length out) data;
          br1 = dropWhile (\<lambda>c. c \<noteq> CHR '':'') br;
          br2 = dropWhile (\<lambda>c. c = CHR '':'') br1
      in (out, skipWhitespace br2))"

definition readHeaderValue :: "string \<Rightarrow> string \<times> string" where
  "readHeaderValue data =
     (let out = takeWhile (\<lambda>c. \<not> (c = CR \<or> c = LF)) data in (out, drop (length out) data))"

section \<open>The parser\<close>

record 'm imessage = reader +
  currentState :: parser_state
  msg :: 'm

definition new_imessage :: "'m \<Rightarrow> 'm imessage" where
  "new_imessage m =
     \<lparr>expectedSize = expectedSize new_reader, bufferMode = bufferMode new_reader,
      buffer = buffer new_reader, currentState = init_parser_state, msg = m\<rparr>"

type_synonym 'm set_startline = "string \<Rightarrow> 'm \<Rightarrow> 'm result"

text \<open>\<open>SetState\<close>; the \<open>OnStateChange\<close> of \<open>IMessage\<close> does nothing.\<close>

definition set_state :: "message_state \<Rightarrow> 'm imessage \<Rightarrow> 'm imessage" where
  "set_state newState im = im\<lparr>currentState := (currentState im)\<lparr>streamState := newState\<rparr>\<rparr>"

definition set_body_type :: "body_type \<Rightarrow> 'm imessage \<Rightarrow> 'm imessage" where
  "set_body_type t im = im\<lparr>currentState := (currentState im)\<lparr>bodyType := t\<rparr>\<rparr>"

definition on_start_line :: "'m set_startline \<Rightarrow> string \<Rightarrow> 'm imessage \<Rightarrow> 'm imessage result" where
  "on_start_line setStartline startline im =
     bindE (setStartline startline (msg im)) (\<lambda>m. Inr (im\<lparr>msg := m\<rparr>))"

definition on_header ::
  "string \<Rightarrow> string \<Rightarrow> 'a message_scheme imessage \<Rightarrow> 'a message_scheme imessage" where
  "on_header n v im = im\<lparr>msg := add_header (new_header n v) (msg im)\<rparr>"

definition on_body_data :: "string \<Rightarrow> 'a message_scheme imessage \<Rightarrow> 'a message_scheme imessage" where
  "on_body_data data im = im\<lparr>msg := write_body data (msg im)\<rparr>"

text \<open>
  \<open>OnChunkedData(data, len)\<close>, with the length apart from the memory it counts in: a
  length that is not there to read is an access outside the block.
\<close>

definition on_chunked_data ::
  "string \<Rightarrow> size_t \<Rightarrow> 'a message_scheme imessage \<Rightarrow> 'a message_scheme imessage result" where
  "on_chunked_data mem len im =
     (if length mem < unat len then Inl UndefinedBehaviour
      else Inr (on_body_data (take (unat len) mem) im))"

text \<open>\<open>IMessage::OnBufferedData\<close>, one definition for each case of its switch.\<close>

definition on_headers_data ::
  "utf_lib \<Rightarrow> string \<Rightarrow> 'a message_scheme imessage \<Rightarrow> 'a message_scheme imessage" where
  "on_headers_data u data im =
     (if data \<noteq> [] \<and> is_nl (hd data) then
        (let cl = content_length (msg im);
             te = transfer_encoding u (msg im)
         in set_state (if cl = 0 then MS_FINISHED else MS_BODY)
              (set_body_type (body_type_from cl te) im)
              \<lparr>bufferMode := if te = Enc_chunked then BM_NEWLINE else BM_NONE, expectedSize := cl\<rparr>)
      else
        (let (name, d1) = readHeaderName data;
             (val, d2) = readHeaderValue d1
         in on_header (cstr name) (cstr val) im))"

definition on_chunk_line ::
  "string \<Rightarrow> string \<Rightarrow> 'a message_scheme imessage \<Rightarrow> 'a message_scheme imessage result" where
  "on_chunk_line data after im =
     (if expectedSize im = npos then
        Inr (im\<lparr>expectedSize := of_int (fst (strtol 16 (cstr (data @ after)))) + 2,
                bufferMode := BM_LENGTH\<rparr>)
      else
        bindE (on_chunked_data (data @ after) (expectedSize im - 2) im)
          (\<lambda>im1. Inr ((if expectedSize im1 - 2 = 0 then set_state MS_FINISHED im1 else im1)
                        \<lparr>bufferMode := BM_NEWLINE\<rparr>)))"

definition on_sized_data ::
  "string \<Rightarrow> 'a message_scheme imessage \<Rightarrow> 'a message_scheme imessage" where
  "on_sized_data data im =
     (let im1 = (if data \<noteq> [] then
                   (on_body_data data im)
                   \<lparr>bufferMode := BM_NONE,
                    expectedSize := if size_of data \<le> expectedSize im
                                    then expectedSize im - size_of data else 0\<rparr>
                 else im)
      in if expectedSize im1 = 0 then set_state MS_FINISHED im1 else im1)"

definition on_body ::
  "string \<Rightarrow> string \<Rightarrow> 'a message_scheme imessage \<Rightarrow> 'a message_scheme imessage result" where
  "on_body data after im =
     (case bodyType (currentState im) of
        BT_CHUNKED \<Rightarrow> on_chunk_line data after im
      | BT_KNOWN_SIZE \<Rightarrow> Inr (on_sized_data data im)
      | BT_BUFFERING \<Rightarrow> Inr (on_body_data data im)
      | BT_UNKNOWN \<Rightarrow> Inr (on_body_data data im)
      | BT_NONE \<Rightarrow> Inr im)"

definition finished :: "'m imessage \<Rightarrow> bool" where
  "finished im \<longleftrightarrow> streamState (currentState im) = MS_FINISHED"

definition on_buffered_data ::
  "utf_lib \<Rightarrow> 'a message_scheme set_startline \<Rightarrow> string \<Rightarrow> string \<Rightarrow>
   'a message_scheme imessage \<Rightarrow> (bool \<times> 'a message_scheme imessage) result" where
  "on_buffered_data u setStartline data after im =
     (case streamState (currentState im) of
        MS_START_LINE \<Rightarrow>
          bindE (on_start_line setStartline (cstr (data @ after)) im)
            (\<lambda>im1. Inr (False, set_state MS_HEADERS im1))
      | MS_HEADERS \<Rightarrow> (let im1 = on_headers_data u data im in Inr (finished im1, im1))
      | MS_BODY \<Rightarrow> bindE (on_body data after im) (\<lambda>im1. Inr (finished im1, im1))
      | MS_FINISHED \<Rightarrow> Inl (RtException ''Unexpected input'')
      | MS_UNKNOWN \<Rightarrow> Inr (False, im))"

text \<open>\<open>IMessage::OnData\<close>\<close>

definition imessage_on_data ::
  "utf_lib \<Rightarrow> 'a message_scheme set_startline \<Rightarrow> string \<Rightarrow> string \<Rightarrow>
   'a message_scheme imessage \<Rightarrow> (bool \<times> 'a message_scheme imessage) result option" where
  "imessage_on_data u setStartline data after im =
     on_data (on_buffered_data u setStartline) data after im"

text \<open>\<open>IMessage::UpdateBufferState\<close>, which nothing calls.\<close>

definition update_buffer_state ::
  "utf_lib \<Rightarrow> 'a message_scheme imessage \<Rightarrow> 'a message_scheme imessage" where
  "update_buffer_state u im =
     (if streamState (currentState im) = MS_BODY then
        (let bt = body_type_from (content_length (msg im)) (transfer_encoding u (msg im));
             im1 = set_body_type bt im;
             im2 = (if bt = BT_KNOWN_SIZE
                    then im1\<lparr>bufferMode := BM_LENGTH, expectedSize := content_length (msg im)\<rparr>
                    else im1);
             im3 = (if bt = BT_CHUNKED then im2\<lparr>bufferMode := BM_NEWLINE\<rparr> else im2)
         in if bt = BT_NONE then set_state MS_FINISHED im3 else im3)
      else im)"

text \<open>\<open>SimpleRequestClient::OnData\<close>, on the response the client builds (\<open>IResponseMemory\<close>).\<close>

definition client_on_data ::
  "utf_lib \<Rightarrow> string \<Rightarrow> string \<Rightarrow> response imessage \<Rightarrow> (bool \<times> response imessage) result option" where
  "client_on_data u data after im = imessage_on_data u response_set_startline data after im"

text \<open>
  The accessors of the template \<open>IMessage_\<close> wait until the parser has got past the
  headers (the whole message, for the body). Whether a call returns at once:
\<close>

definition headers_ready :: "'m imessage \<Rightarrow> bool" where
  "headers_ready im \<longleftrightarrow> \<not> streamState (currentState im) \<le> MS_HEADERS"

definition body_ready :: "'m imessage \<Rightarrow> bool" where
  "body_ready im \<longleftrightarrow> \<not> streamState (currentState im) < MS_FINISHED"

section \<open>The reader's contract\<close>

text \<open>
  What holds between calls: the parser never waits for a length, it reads lines until the
  headers are over, and a chunked body line by line.
\<close>

definition im_inv :: "'m imessage \<Rightarrow> bool" where
  "im_inv im \<longleftrightarrow>
     bufferMode im \<noteq> BM_LENGTH \<and>
     (streamState (currentState im) \<le> MS_HEADERS \<longrightarrow> bufferMode im = BM_NEWLINE) \<and>
     (streamState (currentState im) = MS_BODY \<and> bodyType (currentState im) = BT_CHUNKED \<longrightarrow>
        bufferMode im = BM_NEWLINE)"

lemma im_inv_new [simp]: "im_inv (new_imessage m)"
  by (simp add: im_inv_def new_imessage_def new_reader_def init_parser_state_def)

lemma im_inv_ext [simp]:
  "im_inv (im\<lparr>buffer := b\<rparr>) = im_inv im"
  "im_inv (im\<lparr>expectedSize := e\<rparr>) = im_inv im"
  "im_inv (im\<lparr>msg := m\<rparr>) = im_inv im"
  by (simp_all add: im_inv_def)

lemma ms_le_simps [simp]:
  "MS_START_LINE \<le> MS_HEADERS" "MS_UNKNOWN \<le> MS_HEADERS"
  "\<not> MS_BODY \<le> MS_HEADERS" "\<not> MS_FINISHED \<le> MS_HEADERS"
  by (simp_all add: ms_order)

lemma im_inv_headers_data: "im_inv im \<Longrightarrow> bufferMode im = BM_NEWLINE \<Longrightarrow> im_inv (on_headers_data u data im)"
  by (auto simp: im_inv_def on_headers_data_def Let_def on_header_def set_state_def
      set_body_type_def body_type_from_def split: prod.splits)

lemma im_inv_sized: "im_inv im \<Longrightarrow> streamState (currentState im) = MS_BODY \<Longrightarrow>
    bodyType (currentState im) = BT_KNOWN_SIZE \<Longrightarrow> im_inv (on_sized_data data im)"
  by (simp add: im_inv_def on_sized_data_def Let_def on_body_data_def set_state_def)

lemma im_inv_chunk_line:
  "im_inv im \<Longrightarrow> expectedSize im \<noteq> npos \<Longrightarrow> on_chunk_line data after im = Inr im' \<Longrightarrow> im_inv im'"
  by (auto simp: im_inv_def on_chunk_line_def on_chunked_data_def on_body_data_def set_state_def
      split: if_splits)

lemma im_inv_on_buffered:
  assumes "im_inv im" "on_buffered_data u setl data after im = Inr (rtn, im')"
    "bodyType (currentState im) = BT_CHUNKED \<and> streamState (currentState im) = MS_BODY \<Longrightarrow>
       expectedSize im \<noteq> npos"
  shows "im_inv im'"
proof (cases "streamState (currentState im)")
  case MS_START_LINE
  with assms show ?thesis
    by (auto simp: on_buffered_data_def on_start_line_def set_state_def result_simps im_inv_def)
next
  case MS_HEADERS
  with assms(1) have "bufferMode im = BM_NEWLINE" by (simp add: im_inv_def)
  with assms MS_HEADERS show ?thesis
    by (auto simp: on_buffered_data_def Let_def intro: im_inv_headers_data)
next
  case MS_BODY
  with assms obtain b where b: "on_body data after im = Inr im'"
    by (auto simp: on_buffered_data_def result_simps)
  show ?thesis
  proof (cases "bodyType (currentState im)")
    case BT_CHUNKED
    with b MS_BODY assms show ?thesis by (auto simp: on_body_def dest: im_inv_chunk_line)
  next
    case BT_KNOWN_SIZE
    with b MS_BODY assms show ?thesis by (auto simp: on_body_def im_inv_sized)
  qed (use b assms(1) in \<open>auto simp: on_body_def on_body_data_def\<close>)
qed (use assms in \<open>auto simp: on_buffered_data_def\<close>)

lemma im_size_not_npos: "fits (length data) \<Longrightarrow> size_of data \<noteq> npos"
  by (simp add: size_of_def)

text \<open>A body of known size may come in pieces.\<close>

lemma size_of_append: "size_of (xs @ ys) = size_of xs + size_of ys"
  by (simp add: size_of_def)

lemma size_le_split:
  assumes "fits (length (xs @ ys))" "size_of xs \<le> e"
  shows "size_of (xs @ ys) \<le> e \<longleftrightarrow> size_of ys \<le> e - size_of xs"
proof -
  have l: "length xs + length ys < 2 ^ 64" using assms(1) by (simp add: fits_def)
  then have u: "unat (size_of xs) = length xs" "unat (size_of ys) = length ys"
    "unat (size_of (xs @ ys)) = length xs + length ys"
    unfolding size_of_def by (subst unat_of_nat_size; simp)+
  moreover have "unat (e - size_of xs) = unat e - length xs"
    using assms(2) u(1) by (simp add: unat_sub)
  moreover have "length xs \<le> unat e" using assms(2) u(1) by (simp add: word_le_nat_alt)
  ultimately show ?thesis by (simp add: word_le_nat_alt) linarith
qed

lemma sized_data_split:
  assumes "fits (length (xs @ ys))" "xs \<noteq> []" "streamState (currentState im) = MS_BODY"
    "\<not> finished (on_sized_data xs im)"
  shows "on_sized_data (xs @ ys) im = on_sized_data ys (on_sized_data xs im)"
proof -
  from assms have le: "size_of xs \<le> expectedSize im" and ne: "expectedSize im - size_of xs \<noteq> 0"
    by (auto simp: on_sized_data_def Let_def finished_def set_state_def on_body_data_def
        split: if_splits)
  note sp = size_le_split [OF assms(1) le, unfolded size_of_append]
  show ?thesis
  proof (cases "ys = []")
    case True
    with le ne assms(2) show ?thesis
      by (simp add: on_sized_data_def Let_def on_body_data_def)
  next
    case False
    with le ne assms(2) show ?thesis
      by (simp add: on_sized_data_def Let_def on_body_data_def sp size_of_append
          write_body_twice diff_diff_eq set_state_def)
  qed
qed

lemma im_block_split:
  assumes "im_inv im" "bufferMode im = BM_NONE" "xs \<noteq> []" "fits (length (xs @ ys))"
    "on_buffered_data u setl xs after im = Inr (False, im')"
  shows "bufferMode im' = BM_NONE \<and>
    on_buffered_data u setl (xs @ ys) after' im = on_buffered_data u setl ys after' im'"
proof -
  from assms(1,2) have st: "\<not> streamState (currentState im) \<le> MS_HEADERS" by (auto simp: im_inv_def)
  with assms(5) have body: "streamState (currentState im) = MS_BODY"
    by (cases "streamState (currentState im)") (auto simp: on_buffered_data_def)
  with assms have nc: "bodyType (currentState im) \<noteq> BT_CHUNKED" by (auto simp: im_inv_def)
  show ?thesis
  proof (cases "bodyType (currentState im)")
    case BT_KNOWN_SIZE
    with assms(5) body have im': "im' = on_sized_data xs im" "\<not> finished im'"
      by (auto simp: on_buffered_data_def on_body_def)
    then have "on_sized_data (xs @ ys) im = on_sized_data ys im'"
      using sized_data_split [OF assms(4,3) body] by simp
    moreover have "currentState im' = currentState im" "bufferMode im' = BM_NONE"
      using im' assms(2,3)
      by (auto simp: on_sized_data_def Let_def on_body_data_def set_state_def finished_def
          split: if_splits)
    ultimately show ?thesis
      using BT_KNOWN_SIZE body by (simp add: on_buffered_data_def on_body_def)
  qed (use assms body nc in \<open>auto simp: on_buffered_data_def on_body_def on_body_data_def
      write_body_twice\<close>)
qed

interpretation im: buffered_client "on_buffered_data u setl" im_inv for u setl
proof unfold_locales
  fix im :: "'a message_scheme imessage" and data rtn im'
  assume "im_inv im" "expectedSize im = size_of data" "fits (length data)"
    "on_buffered_data u setl data [NUL] im = Inr (rtn, im')"
  then show "im_inv im'" by (auto intro!: im_inv_on_buffered [of im u setl data "[NUL]"] dest: im_size_not_npos)
next
  fix im :: "'a message_scheme imessage" and data after rtn im'
  assume i: "im_inv im" "bufferMode im = BM_NONE"
    and r: "on_buffered_data u setl data after im = Inr (rtn, im')"
  from i have "\<not> (bodyType (currentState im) = BT_CHUNKED \<and> streamState (currentState im) = MS_BODY)"
    by (auto simp: im_inv_def)
  with i r show "im_inv im'" using im_inv_on_buffered by blast
next
  fix im im' :: "'a message_scheme imessage" and xs ys after after'
  assume "im_inv im" "bufferMode im = BM_NONE" "xs \<noteq> []" "fits (length (xs @ ys))"
    "on_buffered_data u setl xs after im = Inr (False, im')"
  then show "bufferMode im' = BM_NONE \<and>
      on_buffered_data u setl (xs @ ys) after' im = on_buffered_data u setl ys after' im'"
    by (rule im_block_split)
qed (simp_all, simp add: im_inv_def)

section \<open>Messages on the wire\<close>

text \<open>
  A header that reads back: the name has no white space, colon or NUL, the value stays on
  its line and does not start with a blank.
\<close>

definition wire_name :: "string \<Rightarrow> bool" where
  "wire_name n \<longleftrightarrow> (\<forall>c \<in> set n. \<not> isspace_c c \<and> c \<noteq> CHR '':'' \<and> c \<noteq> NUL)"

definition wire_value :: "string \<Rightarrow> bool" where
  "wire_value v \<longleftrightarrow> line_text v \<and> (v \<noteq> [] \<longrightarrow> hd v \<noteq> CHR '' '' \<and> hd v \<noteq> TAB)"

definition wire_header :: "wstringpair \<Rightarrow> bool" where
  "wire_header h \<longleftrightarrow> wire_name (fst h) \<and> wire_value (snd h)"

lemma wire_name_line: "wire_name n \<Longrightarrow> line_text n"
  by (auto simp: wire_name_def line_text_def is_nl_def isspace_c_def)

lemma readHeaderName_line:
  assumes "wire_name n" "v = [] \<or> hd v \<noteq> CHR '' '' \<and> hd v \<noteq> TAB"
    "v = [] \<Longrightarrow> w \<noteq> [] \<and> hd w \<noteq> CHR '' '' \<and> hd w \<noteq> TAB"
  shows "readHeaderName (n @ '': '' @ v @ w) = (n, v @ w)"
proof -
  have t: "takeWhile (\<lambda>c. \<not> (isspace_c c \<or> c = CHR '':'')) (n @ CHR '':'' # x) = n" for x
    using assms(1) by (subst takeWhile_append2) (auto simp: wire_name_def)
  have "skipWhitespace (CHR '' '' # v @ w) = v @ w"
    using assms(2,3) by (cases v; cases w) (auto simp: skipWhitespace_def)
  then show ?thesis
    using assms(1)
    by (simp add: readHeaderName_def Let_def t [simplified] wire_name_def)
qed

lemma readHeaderValue_line: "line_text v \<Longrightarrow> readHeaderValue (v @ crlf) = (v, crlf)"
  by (auto simp: readHeaderValue_def Let_def crlf_def takeWhile_append2 line_text_def is_nl_def)

lemma on_headers_line:
  assumes "wire_header h"
  shows "on_headers_data u (header_line h) im = on_header (fst h) (snd h) im"
proof -
  obtain n v where h: "h = (n, v)" by force
  with assms have n: "wire_name n" and v: "line_text v" "v = [] \<or> hd v \<noteq> CHR '' '' \<and> hd v \<noteq> TAB"
    by (auto simp: wire_header_def wire_value_def)
  have "readHeaderName (n @ '': '' @ v @ crlf) = (n, v @ crlf)"
    using n v(2) by (rule readHeaderName_line) (simp add: crlf_def)
  moreover have "\<not> is_nl (hd (n @ '': '' @ v @ crlf))"
    using wire_name_line [OF n] by (cases n) auto
  ultimately show ?thesis
    using wire_name_line [OF n] v
    by (simp add: h on_headers_data_def header_line_def readHeaderValue_line line_text_nul_free)
qed

lemma header_line_text: "wire_header h \<Longrightarrow> line_text (fst h @ '': '' @ snd h)"
  by (auto simp: wire_header_def wire_value_def wire_name_line)

text \<open>A line at the front of the data, for a parser that reads lines.\<close>

lemma im_line:
  assumes "im_inv im" "bufferMode im = BM_NEWLINE" "buffer im = []" "line_text s"
    "fits (length (s @ crlf @ rest))"
  shows "imessage_on_data u setl (s @ crlf @ rest) (NUL # t) im =
    (case on_buffered_data u setl (s @ crlf) [NUL]
        (im\<lparr>expectedSize := size_of (s @ crlf), buffer := s @ crlf\<rparr>) of
       Inl e \<Rightarrow> Some (Inl e)
     | Inr (rtn, im2) \<Rightarrow>
         if rtn then Some (Inr (True, im2\<lparr>buffer := []\<rparr>))
         else imessage_on_data u setl rest (NUL # t) (im2\<lparr>buffer := []\<rparr>))"
proof -
  have f: "fits (length (buffer im) + length (s @ crlf @ rest))" using assms(3,5) by simp
  have nl: "newline_end (s @ crlf @ rest) (NUL # t) = Inr (Some (length s + 2))"
    by (rule newline_end_crlf [OF assms(4)])
  have tk: "take (length s + 2) (s @ crlf @ rest) = s @ crlf"
    "drop (length s + 2) (s @ crlf @ rest) = rest"
    by (simp_all add: crlf_def)
  show ?thesis
    unfolding imessage_on_data_def im.on_data_line [OF assms(1,2) f nl] tk assms(3)
    by (simp add: Let_def)
qed

lemma cstr_NUL: "nul_free s \<Longrightarrow> cstr (s @ NUL # t) = s"
  by (induction s) (auto simp: cstr_def)

lemma im_start_line:
  assumes "im_inv im" "streamState (currentState im) = MS_START_LINE" "buffer im = []"
    "line_text s" "fits (length (s @ crlf @ rest))" "setl (s @ crlf) (msg im) = Inr m1"
  shows "imessage_on_data u setl (s @ crlf @ rest) (NUL # t) im =
    imessage_on_data u setl rest (NUL # t)
      (set_state MS_HEADERS (im\<lparr>expectedSize := size_of (s @ crlf), msg := m1\<rparr>))"
proof -
  have m: "bufferMode im = BM_NEWLINE" using assms(1,2) by (simp add: im_inv_def)
  have c: "cstr (s @ crlf @ [NUL]) = s @ crlf"
    using cstr_NUL [of "s @ crlf" "[]"] line_text_nul_free [OF assms(4)] by (simp add: crlf_def)
  have b: "im\<lparr>buffer := []\<rparr> = im" using assms(3) by simp
  show ?thesis
    unfolding im_line [OF assms(1) m assms(3-5)] using assms(2,3,6)
    by (cases im) (simp add: on_buffered_data_def on_start_line_def c set_state_def)
qed

lemma im_header_line:
  assumes "im_inv im" "streamState (currentState im) = MS_HEADERS" "buffer im = []"
    "wire_header h" "fits (length (header_line h @ rest))"
  shows "imessage_on_data u setl (header_line h @ rest) (NUL # t) im =
    imessage_on_data u setl rest (NUL # t)
      (im\<lparr>expectedSize := size_of (header_line h), msg := add_header h (msg im)\<rparr>)"
proof -
  let ?s = "fst h @ '': '' @ snd h"
  have m: "bufferMode im = BM_NEWLINE" using assms(1,2) by (simp add: im_inv_def)
  have l: "header_line h = ?s @ crlf" by (simp add: header_line_def)
  have f: "fits (length (?s @ crlf @ rest))" using assms(5) by (simp add: l)
  show ?thesis
    unfolding l append_assoc [of ?s crlf]
      im_line [OF assms(1) m assms(3) header_line_text [OF assms(4)] f] using assms(2,3)
    by (cases im)
      (simp add: on_buffered_data_def Let_def on_headers_line [OF assms(4), unfolded l append_assoc, simplified]
        on_header_def new_header_def finished_def)
qed

lemma im_header_block:
  "im_inv im \<Longrightarrow> streamState (currentState im) = MS_HEADERS \<Longrightarrow> buffer im = [] \<Longrightarrow>
     \<forall>h \<in> set hs. wire_header h \<Longrightarrow> fits (length (header_block hs @ rest)) \<Longrightarrow>
     \<exists>e. imessage_on_data u setl (header_block hs @ rest) (NUL # t) im =
       imessage_on_data u setl rest (NUL # t)
         (im\<lparr>expectedSize := e, msg := fold add_header hs (msg im)\<rparr>)"
proof (induction hs arbitrary: im)
  case Nil
  then show ?case by (simp, metis imessage.surjective imessage.update_convs reader.update_convs)
next
  case (Cons h hs)
  let ?im = "im\<lparr>expectedSize := size_of (header_line h), msg := add_header h (msg im)\<rparr>"
  have "imessage_on_data u setl (header_block (h # hs) @ rest) (NUL # t) im =
      imessage_on_data u setl (header_block hs @ rest) (NUL # t) ?im"
    using im_header_line [OF Cons.prems(1-3)] Cons.prems(4,5) by simp
  moreover have "fits (length (header_block hs @ rest))"
    using Cons.prems(5) by (auto intro: fits_mono)
  ultimately show ?case using Cons.IH [of ?im] Cons.prems by auto
qed

section \<open>Whole messages\<close>

text \<open>After the blank line the body is expected, of the size the headers gave.\<close>

lemma on_headers_blank:
  assumes "content_length (msg im) = of_nat n" "fits n" "transfer_encoding u (msg im) \<noteq> Enc_chunked"
  shows "on_headers_data u crlf im =
    im\<lparr>currentState := \<lparr>bodyType = BT_KNOWN_SIZE, streamState = if n = 0 then MS_FINISHED else MS_BODY\<rparr>,
       bufferMode := BM_NONE, expectedSize := of_nat n\<rparr>"
proof -
  have "n < 2 ^ 64" using assms(2) by (simp add: fits_def)
  then have "(of_nat n :: size_t) = 0 \<longleftrightarrow> n = 0" using of_nat_size_inj [of n 0] by simp
  with assms show ?thesis
    by (simp add: on_headers_data_def crlf_def Let_def set_state_def set_body_type_def body_type_from_def)
qed

text \<open>The part of a body that has arrived.\<close>

definition body_state ::
  "nat \<Rightarrow> string \<Rightarrow> 'a message_scheme imessage \<Rightarrow> 'a message_scheme imessage" where
  "body_state n part im =
     im\<lparr>currentState := \<lparr>bodyType = BT_KNOWN_SIZE, streamState = if length part = n then MS_FINISHED else MS_BODY\<rparr>,
        bufferMode := BM_NONE, expectedSize := of_nat (n - length part), buffer := [],
        msg := write_body part (msg im)\<rparr>"

lemma im_body_part:
  assumes "0 < n" "length part \<le> n" "fits n"
  shows "imessage_on_data u setl part (NUL # t) (body_state n [] im) =
    Some (Inr (length part = n, body_state n part im))"
proof (cases "part = []")
  case True
  with assms show ?thesis by (simp add: imessage_on_data_def)
next
  case False
  have b: "n < 2 ^ 64" "length part < 2 ^ 64" using assms by (auto simp: fits_def)
  then have le: "size_of part \<le> (of_nat n :: size_t)"
    using assms(2) by (simp add: size_of_def of_nat_size_le)
  have df: "(of_nat n :: size_t) - size_of part = of_nat (n - length part)"
    using assms(2) by (simp add: size_of_def of_nat_diff)
  have z: "(of_nat (n - length part) :: size_t) = 0 \<longleftrightarrow> length part = n"
    using of_nat_size_inj [of "n - length part" 0] b assms(2) by auto
  have m: "bufferMode (body_state n [] im) = BM_NONE" by (simp add: body_state_def)
  show ?thesis
    unfolding imessage_on_data_def on_data_none_mode [OF m False]
    using assms(1) False le
    by (simp add: on_buffered_data_def on_body_def body_state_def on_sized_data_def Let_def
        on_body_data_def df z set_state_def finished_def)
qed

lemma im_blank_line:
  assumes "im_inv im" "streamState (currentState im) = MS_HEADERS" "buffer im = []"
    "content_length (msg im) = of_nat n" "fits n" "transfer_encoding u (msg im) \<noteq> Enc_chunked"
    "fits (length (crlf @ rest))"
  shows "imessage_on_data u setl (crlf @ rest) (NUL # t) im =
    (if n = 0 then Some (Inr (True, body_state n [] im))
     else imessage_on_data u setl rest (NUL # t) (body_state n [] im))"
proof -
  have m: "bufferMode im = BM_NEWLINE" using assms(1,2) by (simp add: im_inv_def)
  show ?thesis
    using im_line [OF assms(1) m assms(3), of "[]" rest u setl t] assms(2-)
    by (simp add: on_buffered_data_def Let_def on_headers_blank [OF _ assms(5)] finished_def
        body_state_def)
qed

text \<open>
  What \<open>OnData\<close> makes of a message with a \<open>Content-Length\<close>: \<open>m\<close> is the message
  once the start line and the headers are in.
\<close>

definition message_text :: "string \<Rightarrow> wstringpair list \<Rightarrow> string \<Rightarrow> string" where
  "message_text startline hs body = startline @ crlf @ header_block hs @ crlf @ body"

definition framed ::
  "utf_lib \<Rightarrow> 'a message_scheme set_startline \<Rightarrow> string \<Rightarrow> wstringpair list \<Rightarrow> string \<Rightarrow>
   'a message_scheme \<Rightarrow> 'a message_scheme \<Rightarrow> bool" where
  "framed u setl startline hs body m0 m \<longleftrightarrow>
     line_text startline \<and> (\<forall>h \<in> set hs. wire_header h) \<and>
     (\<exists>m1. setl (startline @ crlf) m0 = Inr m1 \<and> m = fold add_header hs m1) \<and>
     content_length m = of_nat (length body) \<and> transfer_encoding u m \<noteq> Enc_chunked \<and>
     fits (length (message_text startline hs body))"

lemma im_header_rest:
  assumes "im_inv im" "streamState (currentState im) = MS_HEADERS" "buffer im = []"
    "\<forall>h \<in> set hs. wire_header h" "m = fold add_header hs (msg im)"
    "content_length m = of_nat (length body)" "transfer_encoding u m \<noteq> Enc_chunked"
    "fits (length (header_block hs @ crlf @ body))"
  shows "\<exists>im'. imessage_on_data u setl (header_block hs @ crlf @ body) (NUL # t) im = Some (Inr (True, im')) \<and>
    msg im' = write_body body m \<and> finished im' \<and> buffer im' = []"
proof -
  obtain e where e: "imessage_on_data u setl (header_block hs @ crlf @ body) (NUL # t) im =
      imessage_on_data u setl (crlf @ body) (NUL # t) (im\<lparr>expectedSize := e, msg := m\<rparr>)"
    using im_header_block [OF assms(1-4,8), of u setl t] assms(5) by auto
  let ?im = "im\<lparr>expectedSize := e, msg := m\<rparr>"
  have f: "fits (length body)" "fits (length (crlf @ body))" using assms(8) by (auto intro: fits_mono)
  have "imessage_on_data u setl (crlf @ body) (NUL # t) ?im =
      Some (Inr (True, body_state (length body) body ?im))"
  proof (cases "body = []")
    case True
    then show ?thesis
      using im_blank_line [of ?im "length body" u body setl t] assms(1-3,6,7) f by simp
  next
    case False
    then show ?thesis
      using im_blank_line [of ?im "length body" u body setl t] assms(1-3,6,7) f
        im_body_part [of "length body" body u setl t ?im] by simp
  qed
  with e show ?thesis by (simp add: body_state_def finished_def)
qed

lemma im_message:
  assumes "framed u setl startline hs body m0 m"
  shows "\<exists>im'. imessage_on_data u setl (message_text startline hs body) (NUL # t) (new_imessage m0) =
      Some (Inr (True, im')) \<and> msg im' = write_body body m \<and> finished im' \<and> buffer im' = []"
proof -
  obtain m1 where m1: "setl (startline @ crlf) m0 = Inr m1" "m = fold add_header hs m1"
    using assms by (auto simp: framed_def)
  let ?im = "set_state MS_HEADERS ((new_imessage m0)\<lparr>expectedSize := size_of (startline @ crlf), msg := m1\<rparr>)"
  have f: "fits (length (startline @ crlf @ header_block hs @ crlf @ body))"
    using assms by (simp add: framed_def message_text_def)
  have "imessage_on_data u setl (message_text startline hs body) (NUL # t) (new_imessage m0) =
      imessage_on_data u setl (header_block hs @ crlf @ body) (NUL # t) ?im"
    unfolding message_text_def using assms m1(1) f
    by (intro im_start_line) (simp_all add: framed_def new_imessage_def init_parser_state_def new_reader_def im_inv_def)
  moreover have "fits (length (header_block hs @ crlf @ body))" using f by (rule fits_mono) simp
  ultimately show ?thesis
    using assms im_header_rest [of ?im hs m body u setl t] m1(2)
    by (simp add: framed_def set_state_def new_imessage_def im_inv_def new_reader_def)
qed

text \<open>
  Before the last byte is there, the parser asks for more: the result of \<open>OnData\<close> is
  \<open>False\<close>, and what is left in the buffer is a beginning of a line.
\<close>

definition wants_more ::
  "utf_lib \<Rightarrow> 'a message_scheme set_startline \<Rightarrow> string \<Rightarrow> string \<Rightarrow> 'a message_scheme imessage \<Rightarrow> bool" where
  "wants_more u setl xs ys im \<longleftrightarrow>
     (\<exists>im'. imessage_on_data u setl xs [NUL] im = Some (Inr (False, im')) \<and> im_inv im' \<and>
        fits (length (buffer im') + length ys) \<and>
        (bufferMode im' = BM_NEWLINE \<longrightarrow> nul_free (buffer im')))"

lemma cut_line:
  assumes "xs @ ys = s @ crlf @ rest" "line_text s" "ys \<noteq> []" "clean_cut xs ys"
  shows "line_text xs \<or> (\<exists>zs. xs = s @ crlf @ zs \<and> rest = zs @ ys)"
proof -
  consider us where "s = xs @ us" | us where "xs = s @ us" "us @ ys = crlf @ rest"
    using assms(1) by (auto simp: append_eq_append_conv2)
  then show ?thesis
  proof cases
    case 1
    with assms(2) show ?thesis by simp
  next
    case 2
    then consider "us = []" | "us = [CR]" "hd ys = LF" | zs where "us = crlf @ zs" "rest = zs @ ys"
      by (cases us; cases "tl us") (auto simp: crlf_def)
    then show ?thesis using 2 assms by cases (auto simp: clean_cut_def)
  qed
qed

lemma wants_more_line:
  assumes "im_inv im" "bufferMode im = BM_NEWLINE" "buffer im = []" "line_text xs"
    "fits (length (xs @ ys))"
  shows "wants_more u setl xs ys im"
proof -
  have "imessage_on_data u setl xs [NUL] im = Some (Inr (False, im\<lparr>buffer := xs\<rparr>))"
    unfolding imessage_on_data_def on_data_no_line [OF assms(2) newline_end_none [OF assms(4)]]
    by (simp add: assms(3))
  with assms show ?thesis by (simp add: wants_more_def line_text_nul_free)
qed

lemma wants_more_body:
  assumes "xs @ ys = body" "ys \<noteq> []" "fits (length body)"
  shows "wants_more u setl xs ys (body_state (length body) [] im)"
proof -
  have "length body = length xs + length ys" "0 < length ys"
    using assms(2) by (simp_all flip: assms(1))
  then have "0 < length body" "length xs \<le> length body" "length xs \<noteq> length body"
    by linarith+
  then have "imessage_on_data u setl xs [NUL] (body_state (length body) [] im) =
      Some (Inr (False, body_state (length body) xs im))"
    using im_body_part [of "length body" xs u setl "[]" im] assms(3) by simp
  moreover have "im_inv (body_state (length body) xs im)"
    by (simp add: body_state_def im_inv_def)
  moreover have "fits (length ys)" using assms(1,3) by (auto intro: fits_mono)
  ultimately show ?thesis by (simp add: wants_more_def body_state_def)
qed

lemma wants_more_headers:
  "im_inv im \<Longrightarrow> streamState (currentState im) = MS_HEADERS \<Longrightarrow> buffer im = [] \<Longrightarrow>
   \<forall>h \<in> set hs. wire_header h \<Longrightarrow> m = fold add_header hs (msg im) \<Longrightarrow>
   content_length m = of_nat (length body) \<Longrightarrow> transfer_encoding u m \<noteq> Enc_chunked \<Longrightarrow>
   fits (length (header_block hs @ crlf @ body)) \<Longrightarrow>
   xs @ ys = header_block hs @ crlf @ body \<Longrightarrow> ys \<noteq> [] \<Longrightarrow> clean_cut xs ys \<Longrightarrow>
   wants_more u setl xs ys im"
proof (induction hs arbitrary: im xs)
  case Nil
  have mode: "bufferMode im = BM_NEWLINE" using Nil.prems(1,2) by (simp add: im_inv_def)
  have xy: "xs @ ys = [] @ crlf @ body" using Nil.prems(9) by simp
  then consider "line_text xs" | zs where "xs = crlf @ zs" "body = zs @ ys"
    using cut_line [OF xy _ Nil.prems(10,11)] by auto
  then show ?case
  proof cases
    case 1
    have "fits (length (xs @ ys))" using Nil.prems(8) by (simp add: xy)
    then show ?thesis using wants_more_line Nil.prems(1,3) mode 1 by blast
  next
    case 2
    have f: "fits (length body)" "fits (length (crlf @ zs))"
      using Nil.prems(8) 2 by (auto intro: fits_mono)
    have "length body \<noteq> 0" using 2 Nil.prems(10) by simp
    then have "imessage_on_data u setl xs [NUL] im =
        imessage_on_data u setl zs [NUL] (body_state (length body) [] im)"
      using im_blank_line [of im "length body" u zs setl "[]"] Nil.prems f 2 by simp
    with wants_more_body [of zs ys body u setl im] 2 Nil.prems(10) f show ?thesis
      by (simp add: wants_more_def)
  qed
next
  case (Cons h hs)
  have mode: "bufferMode im = BM_NEWLINE" using Cons.prems(1,2) by (simp add: im_inv_def)
  let ?s = "fst h @ '': '' @ snd h"
  let ?rest = "header_block hs @ crlf @ body"
  have xy: "xs @ ys = ?s @ crlf @ ?rest" using Cons.prems(9) by (simp add: header_line_def)
  have lt: "line_text ?s" using Cons.prems(4) header_line_text by simp
  from cut_line [OF xy lt Cons.prems(10,11)]
  consider "line_text xs" | zs where "xs = header_line h @ zs" "?rest = zs @ ys"
    by (auto simp: header_line_def)
  then show ?case
  proof cases
    case 1
    have "fits (length (xs @ ys))" using Cons.prems(8,9) by simp
    then show ?thesis using wants_more_line Cons.prems(1,3) mode 1 by blast
  next
    case 2
    let ?im = "im\<lparr>expectedSize := size_of (header_line h), msg := add_header h (msg im)\<rparr>"
    have "fits (length (header_line h @ zs @ ys))" using Cons.prems(8) 2 by simp
    then have f: "fits (length ?rest)" "fits (length (header_line h @ zs))"
      unfolding 2(2) by (auto elim: fits_mono)
    have "imessage_on_data u setl xs [NUL] im = imessage_on_data u setl zs [NUL] ?im"
      using im_header_line [OF Cons.prems(1-3) _ f(2)] Cons.prems(4) 2 by simp
    moreover have cc: "clean_cut zs ys"
      using Cons.prems(11) 2(1) by (simp add: clean_cut_def)
    have "wants_more u setl zs ys ?im"
      by (rule Cons.IH [OF _ _ _ _ _ Cons.prems(6,7) f(1) 2(2) [symmetric] Cons.prems(10) cc])
        (use Cons.prems(1-5) in simp_all)
    ultimately show ?thesis by (simp add: wants_more_def)
  qed
qed

lemma wants_more_message:
  assumes "framed u setl startline hs body m0 m" "xs @ ys = message_text startline hs body"
    "ys \<noteq> []" "clean_cut xs ys"
  shows "wants_more u setl xs ys (new_imessage m0)"
proof -
  let ?start = "new_imessage m0"
  let ?rest = "header_block hs @ crlf @ body"
  have xy: "xs @ ys = startline @ crlf @ ?rest" using assms(2) by (simp add: message_text_def)
  have lt: "line_text startline" and f: "fits (length (startline @ crlf @ ?rest))"
    using assms(1) by (simp_all add: framed_def message_text_def)
  obtain m1 where m1: "setl (startline @ crlf) m0 = Inr m1" "m = fold add_header hs m1"
    using assms(1) by (auto simp: framed_def)
  have im0: "bufferMode ?start = BM_NEWLINE" "buffer ?start = []" "msg ?start = m0"
    "streamState (currentState ?start) = MS_START_LINE"
    by (simp_all add: new_imessage_def new_reader_def init_parser_state_def)
  from cut_line [OF xy lt assms(3,4)] show ?thesis
  proof
    assume "line_text xs"
    moreover have "fits (length (xs @ ys))" using f by (simp only: xy)
    ultimately show ?thesis by (rule wants_more_line [OF im_inv_new im0(1,2)])
  next
    assume "\<exists>zs. xs = startline @ crlf @ zs \<and> ?rest = zs @ ys"
    then obtain zs where zs: "xs = startline @ crlf @ zs" "?rest = zs @ ys" by blast
    let ?im = "set_state MS_HEADERS (?start\<lparr>expectedSize := size_of (startline @ crlf), msg := m1\<rparr>)"
    have f': "fits (length ?rest)" "fits (length (startline @ crlf @ zs))"
      using f by (auto simp: zs(2) intro: fits_mono)
    have "imessage_on_data u setl xs [NUL] ?start = imessage_on_data u setl zs [NUL] ?im"
      unfolding zs(1) using im0 m1(1) lt f'(2) by (intro im_start_line) simp_all
    moreover have "clean_cut zs ys" using assms(4) zs(1) by (simp add: clean_cut_def)
    then have "wants_more u setl zs ys ?im"
      using assms(1,3) m1(2) zs(2) f'(1)
      by (intro wants_more_headers [where m = m and hs = hs and body = body])
        (auto simp: framed_def set_state_def new_imessage_def im_inv_def new_reader_def)
    ultimately show ?thesis by (simp add: wants_more_def)
  qed
qed

lemma im_message_pieces:
  assumes "framed u setl startline hs body m0 m" "concat ps = message_text startline hs body"
    "clean_cuts ps"
  shows "\<exists>im'. feed (on_buffered_data u setl) ps (new_imessage m0) = Some (Inr (True, im')) \<and>
    msg im' = write_body body m \<and> finished im'"
proof -
  have ne: "ps \<noteq> []" using assms(2) by (auto simp: message_text_def crlf_def)
  have f: "fits (length (buffer (new_imessage m0)) + length (concat ps))"
    using assms(1,2) by (simp add: framed_def new_imessage_def new_reader_def)
  have "feed (on_buffered_data u setl) ps (new_imessage m0) =
      imessage_on_data u setl (concat ps) [NUL] (new_imessage m0)"
    unfolding imessage_on_data_def
  proof (rule im.feed_pieces [OF im_inv_new f assms(3) ne])
    fix xs ys
    assume "concat ps = xs @ ys" "ys \<noteq> []" "clean_cut xs ys"
    then have "wants_more u setl xs ys (new_imessage m0)"
      using wants_more_message assms(1,2) by metis
    then show "\<exists>im'. on_data (on_buffered_data u setl) xs [NUL] (new_imessage m0) = Some (Inr (False, im')) \<and>
        im_inv im' \<and> fits (length (buffer im') + length ys) \<and>
        (bufferMode im' = BM_NEWLINE \<longrightarrow> nul_free (buffer im'))"
      by (simp add: wants_more_def imessage_on_data_def)
  qed
  with im_message [OF assms(1), of "[]"] assms(2) show ?thesis by auto
qed

section \<open>Chunked bodies\<close>

lemma on_body_chunk:
  assumes "bodyType (currentState im) = BT_CHUNKED" "expectedSize im = size_of (l @ crlf)"
    "fits (length (l @ crlf))"
  shows "on_body (l @ crlf) after im =
    Inr ((if l = [] then set_state MS_FINISHED im else im)
           \<lparr>msg := write_body l (msg im), bufferMode := BM_NEWLINE\<rparr>)"
proof -
  have b: "length l < 2 ^ 64" using assms(3) by (simp add: fits_def)
  have e: "expectedSize im - 2 = of_nat (length l)"
    by (simp add: assms(2) size_of_def crlf_def)
  have z: "(of_nat (length l) :: size_t) = 0 \<longleftrightarrow> l = []"
    using of_nat_size_inj [OF b, of 0] by simp
  have q: "expectedSize im = 2 \<longleftrightarrow> l = []" using e z by (metis eq_iff_diff_eq_0)
  have n: "expectedSize im \<noteq> npos" unfolding assms(2) by (rule im_size_not_npos [OF assms(3)])
  show ?thesis
    using assms(1) n b
    by (simp add: on_body_def on_chunk_line_def on_chunked_data_def on_body_data_def e q set_state_def)
qed

lemma im_chunk_line:
  assumes "currentState im = \<lparr>bodyType = BT_CHUNKED, streamState = MS_BODY\<rparr>" "fits (length (l @ crlf))"
  shows "on_buffered_data u setl (l @ crlf) [NUL] (im\<lparr>expectedSize := size_of (l @ crlf), buffer := l @ crlf\<rparr>) =
    Inr (l = [], im\<lparr>expectedSize := size_of (l @ crlf), buffer := l @ crlf, msg := write_body l (msg im),
       currentState := \<lparr>bodyType = BT_CHUNKED, streamState = if l = [] then MS_FINISHED else MS_BODY\<rparr>,
       bufferMode := BM_NEWLINE\<rparr>)"
proof -
  let ?im = "im\<lparr>expectedSize := size_of (l @ crlf), buffer := l @ crlf\<rparr>"
  have "on_body (l @ crlf) [NUL] ?im =
      Inr ((if l = [] then set_state MS_FINISHED ?im else ?im)
             \<lparr>msg := write_body l (msg ?im), bufferMode := BM_NEWLINE\<rparr>)"
    by (rule on_body_chunk) (use assms in simp_all)
  with assms(1) show ?thesis
    by (cases im) (simp add: on_buffered_data_def finished_def set_state_def)
qed

section \<open>Properties\<close>



text \<open>C31: for any bytes at all, well formed or not, the loop of \<open>BufferedReader::OnData\<close>
  under \<open>IMessage\<close> ends (the fuel is enough), and a parser that meets its invariant still
  meets it when the call returns.\<close>

theorem on_data_total:
  assumes "im_inv im" and "fits (length (buffer im) + length data)"
  shows "\<exists>r. imessage_on_data u setl data (NUL # t) im = Some r \<and>
    (\<forall>rtn im'. r = Inr (rtn, im') \<longrightarrow> im_inv im')"
  unfolding imessage_on_data_def
proof (rule im.on_data_returns [OF assms, of u setl t])
  fix r
  assume "on_data (on_buffered_data u setl) data (NUL # t) im = Some r"
    and "\<And>rtn im'. r = Inr (rtn, im') \<Longrightarrow> im_inv im'"
  then show "\<exists>r. on_data (on_buffered_data u setl) data (NUL # t) im = Some r \<and>
      (\<forall>rtn im'. r = Inr (rtn, im') \<longrightarrow> im_inv im')"
    by simp
qed

theorem on_data_total_witness:
  "\<exists>r. imessage_on_data latin1_utf response_set_startline ''garbage'' [NUL] (new_imessage new_response) = Some r \<and>
    (\<forall>rtn im'. r = Inr (rtn, im') \<longrightarrow> im_inv im')"
proof (rule on_data_total [OF im_inv_new])
  show "fits (length (buffer (new_imessage new_response)) + length ''garbage'')"
    by (simp add: new_imessage_def new_reader_def fits_def)
qed

text \<open>Two calls of \<open>IMessage::OnData\<close> do what one call on all the bytes does, from any
  state of the parser, if the first call asks for more, the cut is not inside a line end and
  the unfinished line in the buffer has no NUL.\<close>

theorem two_reads_one_read:
  assumes "im_inv im" and "fits (length (buffer im) + length xs + length ys)"
    and "imessage_on_data u setl xs (NUL # t) im = Some (Inr (False, im'))"
    and "bufferMode im' = BM_NEWLINE \<Longrightarrow> nul_free (buffer im')"
    and "clean_cut xs ys" and "ys \<noteq> []"
  shows "imessage_on_data u setl (xs @ ys) (NUL # t') im = imessage_on_data u setl ys (NUL # t') im'"
  using im.on_data_split [OF assms(1,2,4,6) _ assms(3) [unfolded imessage_on_data_def]] assms(5,6)
  by (simp add: imessage_on_data_def clean_cut_def)

theorem two_reads_one_read_witness:
  "\<exists>im'. imessage_on_data latin1_utf response_set_startline ''HTTP/1.1 2'' [NUL] (new_imessage new_response) =
      Some (Inr (False, im')) \<and>
    imessage_on_data latin1_utf response_set_startline (''HTTP/1.1 2'' @ ''00 OK'') [NUL] (new_imessage new_response) =
      imessage_on_data latin1_utf response_set_startline ''00 OK'' [NUL] im'"
proof -
  let ?im = "(new_imessage new_response)\<lparr>buffer := ''HTTP/1.1 2''\<rparr>"
  have l: "newline_end ''HTTP/1.1 2'' [NUL] = Inr None"
    by (simp add: newline_end_def is_nl_def)
  have 1: "imessage_on_data latin1_utf response_set_startline ''HTTP/1.1 2'' [NUL] (new_imessage new_response) =
      Some (Inr (False, ?im))"
    unfolding imessage_on_data_def
    by (subst on_data_no_line [OF _ l]) (simp_all add: new_imessage_def new_reader_def)
  have "imessage_on_data latin1_utf response_set_startline (''HTTP/1.1 2'' @ ''00 OK'') [NUL] (new_imessage new_response) =
      imessage_on_data latin1_utf response_set_startline ''00 OK'' [NUL] ?im"
    by (rule two_reads_one_read [OF im_inv_new _ 1])
      (simp_all add: new_imessage_def new_reader_def fits_def clean_cut_def is_nl_def)
  with 1 show ?thesis by blast
qed

text \<open>C35: a chunked body is not decoded. The size that the code waits for is never unset when
  it looks for it, so every line of a chunked body, size lines included, is written to the
  body without its line end, and the first empty line completes the message.\<close>

theorem chunked_body_not_decoded:
  assumes "im_inv im" and "currentState im = \<lparr>bodyType = BT_CHUNKED, streamState = MS_BODY\<rparr>"
    and "buffer im = []" and "\<forall>l \<in> set ls. line_text l \<and> l \<noteq> []"
    and "fits (length (concat (map (\<lambda>l. l @ crlf) ls) @ crlf @ rest))"
  shows "\<exists>im'. imessage_on_data u setl (concat (map (\<lambda>l. l @ crlf) ls) @ crlf @ rest) (NUL # t) im =
      Some (Inr (True, im')) \<and> msg im' = write_body (concat ls) (msg im)"
  using assms
proof (induction ls arbitrary: im)
  case Nil
  have m: "bufferMode im = BM_NEWLINE" using Nil.prems(1,2) by (simp add: im_inv_def)
  show ?case
    using im_line [OF Nil.prems(1) m Nil.prems(3), of "[]" rest u setl t] Nil.prems
      im_chunk_line [OF Nil.prems(2), of "[]" u setl]
    by (simp add: crlf_def fits_def)
next
  case (Cons l ls)
  let ?rest = "concat (map (\<lambda>l. l @ crlf) ls) @ crlf @ rest"
  let ?im = "im\<lparr>expectedSize := size_of (l @ crlf), msg := write_body l (msg im)\<rparr>"
  have m: "bufferMode im = BM_NEWLINE" using Cons.prems(1,2) by (simp add: im_inv_def)
  have l: "line_text l" "l \<noteq> []" using Cons.prems(4) by simp_all
  have f: "fits (length (l @ crlf @ ?rest))" "fits (length ?rest)" "fits (length (l @ crlf))"
    using Cons.prems(5) by (auto intro: fits_mono)
  have "imessage_on_data u setl (l @ crlf @ ?rest) (NUL # t) im = imessage_on_data u setl ?rest (NUL # t) ?im"
    unfolding im_line [OF Cons.prems(1) m Cons.prems(3) l(1) f(1)]
      im_chunk_line [OF Cons.prems(2) f(3)] using Cons.prems(2,3) m l(2)
    by (cases im) simp
  moreover have "\<exists>im'. imessage_on_data u setl ?rest (NUL # t) ?im = Some (Inr (True, im')) \<and>
      msg im' = write_body (concat ls) (msg ?im)"
    by (rule Cons.IH) (use Cons.prems f in simp_all)
  ultimately show ?case by (simp add: write_body_twice)
qed

theorem chunked_body_not_decoded_witness:
  "\<exists>im'. imessage_on_data latin1_utf response_set_startline
      (concat (map (\<lambda>l. l @ crlf) [''5'', ''hello'', ''0'']) @ crlf @ []) (NUL # [])
      ((new_imessage new_response)\<lparr>currentState := \<lparr>bodyType = BT_CHUNKED, streamState = MS_BODY\<rparr>\<rparr>) =
      Some (Inr (True, im')) \<and> msg im' = write_body ''5hello0'' new_response"
  using chunked_body_not_decoded [of "(new_imessage new_response)\<lparr>currentState := \<lparr>bodyType = BT_CHUNKED, streamState = MS_BODY\<rparr>\<rparr>"
      "[''5'', ''hello'', ''0'']" "[]" latin1_utf response_set_startline "[]"]
  by (simp add: new_imessage_def new_reader_def im_inv_def fits_def crlf_def is_nl_def)

text \<open>When a read ends between the CR and the LF of a header line, the LF that comes next
  is taken for the blank line: the header section ends there.\<close>

theorem split_line_end_ends_headers:
  fixes im :: "'a message_scheme imessage"
  assumes "im_inv im" and "streamState (currentState im) = MS_HEADERS" and "buffer im = []"
    and "wire_header h" and "fits (length (header_line h))"
  shows "\<exists>im' rtn. feed (on_buffered_data u setl) [fst h @ '': '' @ snd h @ [CR], [LF]] im = Some (Inr (rtn, im')) \<and>
      \<not> streamState (currentState im') \<le> MS_HEADERS"
proof -
  have m: "bufferMode im = BM_NEWLINE" using assms(1,2) by (simp add: im_inv_def)
  let ?s = "fst h @ '': '' @ snd h"
  let ?b = "?s @ [CR]"
  let ?im1 = "im\<lparr>expectedSize := size_of ?b, msg := add_header h (msg im)\<rparr>"
  have n: "wire_name (fst h)" and v: "line_text (snd h)" "snd h = [] \<or> hd (snd h) \<noteq> CHR '' '' \<and> hd (snd h) \<noteq> TAB"
    using assms(4) by (auto simp: wire_header_def wire_value_def)
  have nl: "newline_end ?b [NUL] = Inr (Some (length ?b))"
    using newline_end_first [OF header_line_text [OF assms(4)], of CR "[]" "[NUL]"] by simp
  have f: "fits (length (buffer im) + length ?b)"
    using assms(3,5) by (auto simp: header_line_def crlf_def intro: fits_mono)
  have "readHeaderName (fst h @ '': '' @ snd h @ [CR]) = (fst h, snd h @ [CR])"
    using n v(2) by (rule readHeaderName_line) simp
  moreover have "readHeaderValue (snd h @ [CR]) = (snd h, [CR])"
    using v(1) by (auto simp: readHeaderValue_def Let_def takeWhile_append2 line_text_def is_nl_def)
  moreover have "\<not> is_nl (hd ?b)" using wire_name_line [OF n] by (cases "fst h") auto
  ultimately have "on_headers_data u ?b x = x\<lparr>msg := add_header h (msg x)\<rparr>"
    for x :: "'a message_scheme imessage"
    using line_text_nul_free [OF wire_name_line [OF n]] line_text_nul_free [OF v(1)]
    by (simp add: on_headers_data_def on_header_def new_header_def)
  then have ob: "on_buffered_data u setl ?b [NUL] (im\<lparr>expectedSize := size_of ?b, buffer := ?b\<rparr>) =
      Inr (False, im\<lparr>expectedSize := size_of ?b, buffer := ?b, msg := add_header h (msg im)\<rparr>)"
    using assms(2) by (simp add: on_buffered_data_def Let_def finished_def)
  have 1: "on_data (on_buffered_data u setl) ?b [NUL] im = Some (Inr (False, ?im1))"
    unfolding im.on_data_line [OF assms(1) m f nl] using ob assms(3)
    by (cases im) (simp add: Let_def)
  have m1: "im_inv ?im1" "bufferMode ?im1 = BM_NEWLINE" using assms(1) m by simp_all
  have nl1: "newline_end [LF] [NUL] = Inr (Some 1)" by (simp add: newline_end_def)
  have f1: "fits (length (buffer ?im1) + length [LF])" using assms(3) by (simp add: fits_def)
  have "\<exists>im' rtn. on_data (on_buffered_data u setl) [LF] [NUL] ?im1 = Some (Inr (rtn, im')) \<and>
      \<not> streamState (currentState im') \<le> MS_HEADERS"
    unfolding im.on_data_line [OF m1 f1 nl1] using assms(2,3)
    by (auto simp: on_buffered_data_def Let_def on_headers_data_def set_state_def set_body_type_def finished_def)
  then obtain im' rtn where 2: "on_data (on_buffered_data u setl) [LF] [NUL] ?im1 = Some (Inr (rtn, im'))"
    "\<not> streamState (currentState im') \<le> MS_HEADERS" by blast
  with 1 have "feed (on_buffered_data u setl) [?b, [LF]] im = Some (Inr (rtn, im'))"
    by (cases rtn) simp_all
  with 2(2) show ?thesis by auto
qed

theorem split_line_end_ends_headers_witness:
  "\<exists>im' rtn. feed (on_buffered_data latin1_utf response_set_startline) [''A'' @ '': '' @ ''b'' @ [CR], [LF]]
      (set_state MS_HEADERS (new_imessage new_response)) = Some (Inr (rtn, im')) \<and>
    \<not> streamState (currentState im') \<le> MS_HEADERS"
  using split_line_end_ends_headers [of "set_state MS_HEADERS (new_imessage new_response)" "(''A'', ''b'')"
      latin1_utf response_set_startline]
  by (simp add: new_imessage_def new_reader_def im_inv_def fits_def crlf_def is_nl_def set_state_def
      wire_header_def wire_name_def wire_value_def isspace_c_def header_line_def)

end
