(* ===== verification/Outgoing_Message.thy ===== *)
theory Outgoing_Message
  imports Http_Message
begin

text \<open>
  Outgoing messages (\<open>include/rikitiki/http/outgoing/*.h\<close>, \<open>src/http/outgoing/*.cc\<close>):
  the state machine of \<open>OMessage\<close>, the writer that puts a message on a connection
  (\<open>OMessageWriter\<close>, \<open>OResponseWriter\<close>), and the messages that are collected in memory
  (\<open>OResponseMemory\<close>, \<open>ORequestMemory\<close>).

  An operation may throw after it has changed its object, so it gives the state next to its
  result. The virtual \<open>WriteData\<close> of an adapter gets the bytes (\<open>written\<close>, everything so
  far) and answers with a count, which is a parameter (\<open>sent\<close>). The operands of a sum of
  calls are taken from left to right, as the compilers of the project do.
\<close>

section \<open>Operations that change a state and may throw\<close>

type_synonym ('s, 'a) op = "'s \<Rightarrow> 'a result \<times> 's"

definition ret :: "'a \<Rightarrow> ('s, 'a) op" where
  "ret x s = (Inr x, s)"

definition throw :: "rt_error \<Rightarrow> ('s, 'a) op" where
  "throw e s = (Inl e, s)"

definition modify :: "('s \<Rightarrow> 's) \<Rightarrow> ('s, unit) op" where
  "modify f s = (Inr (), f s)"

definition bindS :: "('s, 'a) op \<Rightarrow> ('a \<Rightarrow> ('s, 'b) op) \<Rightarrow> ('s, 'b) op" where
  "bindS m f s = (case m s of (Inl e, s') \<Rightarrow> (Inl e, s') | (Inr x, s') \<Rightarrow> f x s')"

definition seqS :: "('s, unit) op \<Rightarrow> ('s, 'b) op \<Rightarrow> ('s, 'b) op" where
  "seqS m k = bindS m (\<lambda>_. k)"

named_theorems op_simps

lemma op_basic [op_simps]:
  "ret x s = (Inr x, s)" "throw e s = (Inl e, s)" "modify f s = (Inr (), f s)"
  by (simp_all add: ret_def throw_def modify_def)

lemma op_bind [op_simps]:
  "bindS m f s = (case m s of (Inl e, s') \<Rightarrow> (Inl e, s') | (Inr x, s') \<Rightarrow> f x s')"
  "seqS m' k s = (case m' s of (Inl e, s') \<Rightarrow> (Inl e, s') | (Inr x, s') \<Rightarrow> k s')"
  by (simp_all add: bindS_def seqS_def)

section \<open>\<open>OMessage\<close>\<close>

record omessage =
  o_streamState :: parser_state
  o_encoding :: encoding
  o_contentSize :: size_t

definition new_omessage :: omessage where
  "new_omessage = \<lparr>o_streamState = init_parser_state, o_encoding = Enc_UNKNOWN, o_contentSize = npos\<rparr>"

abbreviation o_phase :: "'a omessage_scheme \<Rightarrow> message_state" where
  "o_phase w \<equiv> streamState (o_streamState w)"

definition o_set_state :: "message_state \<Rightarrow> 'a omessage_scheme \<Rightarrow> 'a omessage_scheme" where
  "o_set_state st w = w\<lparr>o_streamState := (o_streamState w)\<lparr>streamState := st\<rparr>\<rparr>"

definition o_set_body_type :: "body_type \<Rightarrow> 'a omessage_scheme \<Rightarrow> 'a omessage_scheme" where
  "o_set_body_type t w = w\<lparr>o_streamState := (o_streamState w)\<lparr>bodyType := t\<rparr>\<rparr>"

text \<open>\<open>OMessage::WriteHeader\<close>\<close>

definition omessage_write_header :: "wstringpair \<Rightarrow> ('a omessage_scheme, unit) op" where
  "omessage_write_header header w =
     (case o_phase w of
        MS_START_LINE \<Rightarrow> (Inr (), o_set_state MS_HEADERS w)
      | MS_HEADERS \<Rightarrow> (Inr (), w)
      | _ \<Rightarrow> (Inl (InvalidState ''Could not write header''), w))"

text \<open>\<open>OMessage::WritePayloadData\<close>: a body of no known framing is buffered.\<close>

definition o_start_body :: "'a omessage_scheme \<Rightarrow> 'a omessage_scheme" where
  "o_start_body w =
     (let bt = body_type_from (o_contentSize w) (o_encoding w)
      in o_set_state MS_BODY (o_set_body_type (if bt = BT_NONE then BT_BUFFERING else bt) w))"

definition omessage_write_payload :: "string \<Rightarrow> ('a omessage_scheme, size_t) op" where
  "omessage_write_payload data w =
     (case o_phase w of
        MS_START_LINE \<Rightarrow> (Inr (size_of data), o_start_body (o_set_state MS_HEADERS w))
      | MS_HEADERS \<Rightarrow> (Inr (size_of data), o_start_body w)
      | MS_BODY \<Rightarrow> (Inr (size_of data), w)
      | _ \<Rightarrow> (Inl (InvalidState ''Could not write payload''), w))"

text \<open>The stream operators, given the virtual \<open>WriteHeader\<close>.\<close>

definition omessage_put_header ::
  "(wstringpair \<Rightarrow> ('s, unit) op) \<Rightarrow> wstringpair \<Rightarrow> ('s, unit) op" where
  "omessage_put_header writeHeader t = writeHeader t"

definition omessage_put_content_type ::
  "(wstringpair \<Rightarrow> ('s, unit) op) \<Rightarrow> content_type \<Rightarrow> ('s, unit) op" where
  "omessage_put_content_type writeHeader t =
     writeHeader (new_header ''Content-Type'' (ct_to_string t))"

definition omessage_put_cookie ::
  "(wstringpair \<Rightarrow> ('s, unit) op) \<Rightarrow> wstringpair \<Rightarrow> ('s, unit) op" where
  "omessage_put_cookie writeHeader t =
     omessage_put_header writeHeader (new_header ''Set-Cookie'' (fst t @ ''='' @ snd t))"

section \<open>\<open>OMessageWriter\<close>\<close>

record owriter = omessage +
  o_buffer :: string
  written :: string

definition write_data :: "(string \<Rightarrow> size_t) \<Rightarrow> string \<Rightarrow> ('a owriter_scheme, size_t) op" where
  "write_data sent data w = (Inr (sent data), w\<lparr>written := written w @ data\<rparr>)"

definition write_data_wide ::
  "utf_lib \<Rightarrow> (string \<Rightarrow> size_t) \<Rightarrow> wstring \<Rightarrow> ('a owriter_scheme, size_t) op" where
  "write_data_wide u sent data = write_data sent (narrow u data)"

text \<open>A call whose result is dropped.\<close>

definition emit :: "string \<Rightarrow> ('a owriter_scheme, unit) op" where
  "emit data w = (Inr (), w\<lparr>written := written w @ data\<rparr>)"

type_synonym 'a start_line_writer = "('a owriter_scheme, unit) op"

text \<open>\<open>OMessageWriter::WriteHeader\<close>\<close>

definition emit_header :: "wstringpair \<Rightarrow> ('a owriter_scheme, unit) op" where
  "emit_header header =
     seqS (emit (fst header)) (seqS (emit '': '') (seqS (emit (snd header)) (emit crlf)))"

definition writer_write_header ::
  "'a start_line_writer \<Rightarrow> wstringpair \<Rightarrow> ('a owriter_scheme, unit) op" where
  "writer_write_header writeStartLine header w =
     (case o_phase w of
        MS_START_LINE \<Rightarrow>
          seqS writeStartLine (seqS (modify (o_set_state MS_HEADERS)) (emit_header header)) w
      | MS_HEADERS \<Rightarrow> emit_header header w
      | _ \<Rightarrow> throw (InvalidState ''Could not write header'') w)"

text \<open>\<open>OMessageWriter::WritePayloadData\<close>\<close>

definition writer_send_payload ::
  "(string \<Rightarrow> size_t) \<Rightarrow> string \<Rightarrow> ('a owriter_scheme, size_t) op" where
  "writer_send_payload sent data w =
     (case bodyType (o_streamState w) of
        BT_BUFFERING \<Rightarrow> (Inr (size_of data), w\<lparr>o_buffer := o_buffer w @ data\<rparr>)
      | BT_CHUNKED \<Rightarrow>
          bindS (write_data sent (show_hex (unat (size_of data)) @ crlf))
            (\<lambda>a. bindS (write_data sent data)
              (\<lambda>b. bindS (write_data sent crlf) (\<lambda>c. ret (a + b + c)))) w
      | BT_KNOWN_SIZE \<Rightarrow> write_data sent data w
      | _ \<Rightarrow> throw (InvalidState ''Should not get here.'') w)"

definition writer_write_payload ::
  "(string \<Rightarrow> size_t) \<Rightarrow> 'a start_line_writer \<Rightarrow> string \<Rightarrow> ('a owriter_scheme, size_t) op" where
  "writer_write_payload sent writeStartLine data w =
     (let oldStreamState = o_phase w
      in seqS (if oldStreamState = MS_START_LINE then writeStartLine else ret ())
          (bindS (omessage_write_payload data)
            (\<lambda>_ w1. seqS (if oldStreamState \<le> MS_HEADERS \<and> bodyType (o_streamState w1) \<noteq> BT_BUFFERING
                           then emit crlf else ret ())
                      (writer_send_payload sent data) w1))) w"

text \<open>\<open>OMessageWriter::Done\<close>, with the case that the headers fall through to.\<close>

definition writer_done_body ::
  "'a start_line_writer \<Rightarrow> ('a owriter_scheme, unit) op" where
  "writer_done_body writeStartLine w =
     (case bodyType (o_streamState w) of
        BT_CHUNKED \<Rightarrow> emit (''0'' @ crlf @ crlf) w
      | BT_BUFFERING \<Rightarrow>
          seqS (modify (o_set_state MS_HEADERS))
            (seqS (writer_write_header writeStartLine
                     (new_header ''Content-Length'' (show_dec (length (o_buffer w)))))
              (seqS (emit crlf) (emit (o_buffer w)))) w
      | BT_KNOWN_SIZE \<Rightarrow> throw (InvalidState []) w
      | BT_UNKNOWN \<Rightarrow> throw (InvalidState []) w
      | BT_NONE \<Rightarrow> ret () w)"

definition writer_done_headers ::
  "'a start_line_writer \<Rightarrow> ('a owriter_scheme, unit) op" where
  "writer_done_headers writeStartLine w =
     (if o_contentSize w = npos \<and> o_encoding w \<noteq> Enc_chunked then
        seqS (writer_write_header writeStartLine (new_header ''Content-Length'' ''0'')) (emit crlf) w
      else if o_encoding w = Enc_chunked then emit (crlf @ ''0'' @ crlf @ crlf) w
      else seqS (emit crlf)
             (if o_contentSize w \<noteq> 0
              then throw (RtException ''Connection was abandoned prematurely'')
              else writer_done_body writeStartLine) w)"

definition writer_done ::
  "'a start_line_writer \<Rightarrow> ('a owriter_scheme, unit) op" where
  "writer_done writeStartLine w =
     (case o_phase w of
        MS_START_LINE \<Rightarrow>
          seqS writeStartLine
            (seqS (modify (o_set_state MS_HEADERS)) (writer_done_headers writeStartLine)) w
      | MS_HEADERS \<Rightarrow> writer_done_headers writeStartLine w
      | MS_BODY \<Rightarrow> writer_done_body writeStartLine w
      | _ \<Rightarrow> (Inr (), w))"

section \<open>\<open>OResponseWriter\<close>\<close>

record response_writer = owriter +
  ow_status :: http_status

definition new_response_writer :: response_writer where
  "new_response_writer =
     \<lparr>o_streamState = init_parser_state, o_encoding = Enc_UNKNOWN, o_contentSize = npos,
      o_buffer = [], written = [], ow_status = status_OK\<rparr>"

definition response_write_start_line :: "'a response_writer_scheme \<Rightarrow> unit result \<times> 'a response_writer_scheme" where
  "response_write_start_line w =
     seqS (emit ''HTTP/1.1 '') (emit (start_string (ow_status w) @ crlf)) w"

definition response_writer_put_status :: "http_status \<Rightarrow> (response_writer, unit) op" where
  "response_writer_put_status t w = (Inr (), w\<lparr>ow_status := t\<rparr>)"

text \<open>The template \<open>operator<<(OResponse&, const T&)\<close>, given the text of the object.\<close>

definition oresponse_put ::
  "(string \<Rightarrow> size_t) \<Rightarrow> string \<Rightarrow> (response_writer, unit) op" where
  "oresponse_put sent text =
     bindS (writer_write_payload sent response_write_start_line text) (\<lambda>_. ret ())"

section \<open>Messages kept in memory\<close>

record 'm omemory =
  om_state :: omessage
  om_msg :: 'm

definition memory_write_payload :: "string \<Rightarrow> ('a message_scheme omemory, size_t) op" where
  "memory_write_payload data w =
     (case omessage_write_payload data (om_state w) of
        (Inl e, s) \<Rightarrow> (Inl e, w\<lparr>om_state := s\<rparr>)
      | (Inr _, s) \<Rightarrow>
          (Inr (size_of data), w\<lparr>om_state := s, om_msg := write_body data (om_msg w)\<rparr>))"

text \<open>\<open>OResponseMemory::WriteHeader\<close> does not go through the state of \<open>OMessage\<close>,
  \<open>ORequestMemory::WriteHeader\<close> does.\<close>

definition response_memory_write_header :: "wstringpair \<Rightarrow> ('a response_scheme omemory, unit) op" where
  "response_memory_write_header h w = (Inr (), w\<lparr>om_msg := add_header h (om_msg w)\<rparr>)"

definition response_memory_put_status :: "http_status \<Rightarrow> ('a response_scheme omemory, unit) op" where
  "response_memory_put_status t w = (Inr (), w\<lparr>om_msg := put_status t (om_msg w)\<rparr>)"

definition request_memory_write_header :: "wstringpair \<Rightarrow> ('a request_scheme omemory, unit) op" where
  "request_memory_write_header h w =
     (case omessage_write_header h (om_state w) of
        (Inl e, s) \<Rightarrow> (Inl e, w\<lparr>om_state := s\<rparr>)
      | (Inr _, s) \<Rightarrow> (Inr (), w\<lparr>om_state := s, om_msg := add_header h (om_msg w)\<rparr>))"

definition request_memory_write_data :: "string \<Rightarrow> ('a request_scheme omemory, size_t) op" where
  "request_memory_write_data data = memory_write_payload data"

section \<open>What has been written stays written\<close>

text \<open>An operation that only appends to the connection, whether it throws or not.\<close>

definition appends :: "('a owriter_scheme, 'b) op \<Rightarrow> bool" where
  "appends f \<longleftrightarrow> (\<forall>w. \<exists>out. written (snd (f w)) = written w @ out)"

lemma appendsD: "appends f \<Longrightarrow> \<exists>out. written (snd (f w)) = written w @ out"
  by (simp add: appends_def)

lemma appendsI: "(\<And>w. \<exists>out. written (snd (f w)) = written w @ out) \<Longrightarrow> appends f"
  by (simp add: appends_def)

named_theorems appends_intros

lemma appends_bindS [appends_intros]:
  "appends m \<Longrightarrow> (\<And>x. appends (f x)) \<Longrightarrow> appends (bindS m f)"
  unfolding appends_def bindS_def
proof
  fix w
  assume "\<forall>w. \<exists>out. written (snd (m w)) = written w @ out"
    and f: "\<And>x. \<forall>w. \<exists>out. written (snd (f x w)) = written w @ out"
  then obtain o1 where o1: "written (snd (m w)) = written w @ o1" by blast
  obtain r w' where mw: "m w = (r, w')" by force
  show "\<exists>out. written (snd (case m w of (Inl e, s') \<Rightarrow> (Inl e, s') | (Inr x, s') \<Rightarrow> f x s')) = written w @ out"
  proof (cases r)
    case (Inl e)
    with mw o1 show ?thesis by simp
  next
    case (Inr x)
    from f [of x] obtain o2 where "written (snd (f x w')) = written w' @ o2" by blast
    with mw Inr o1 show ?thesis by simp
  qed
qed

lemma appends_basic [appends_intros]:
  "appends (ret x)" "appends (throw e)" "appends (emit s)" "appends (write_data sent s)"
  "appends (modify (o_set_state st))" "appends (omessage_write_payload s)"
  by (auto simp: appends_def op_simps emit_def write_data_def o_set_state_def o_start_body_def
      o_set_body_type_def omessage_write_payload_def Let_def split: message_state.splits)

lemma appends_seqS [appends_intros]: "appends m \<Longrightarrow> appends k \<Longrightarrow> appends (seqS m k)"
  unfolding seqS_def by (intro appends_intros)

lemma appends_if [appends_intros]: "appends a \<Longrightarrow> appends b \<Longrightarrow> appends (if c then a else b)"
  by simp

text \<open>An operation that looks at the state first.\<close>

lemma appends_dep: "(\<And>w. appends (f w)) \<Longrightarrow> appends (\<lambda>w. f w w)"
  by (auto simp: appends_def)

lemma appends_emit_header [appends_intros]: "appends (emit_header h)"
  unfolding emit_header_def by (intro appends_intros)

lemma appends_write_header [appends_intros]:
  assumes "appends wsl"
  shows "appends (writer_write_header wsl h)"
proof -
  have a: "appends (seqS wsl (seqS (modify (o_set_state MS_HEADERS)) (emit_header h)))"
    "appends (emit_header h)"
    by (simp_all add: appends_intros assms)
  show ?thesis
  proof (rule appendsI)
    fix w
    show "\<exists>out. written (snd (writer_write_header wsl h w)) = written w @ out"
      by (cases "o_phase w") (simp_all add: writer_write_header_def throw_def a [THEN appendsD])
  qed
qed

lemma appends_send_payload [appends_intros]: "appends (writer_send_payload sent data)"
proof -
  have a: "appends (bindS (write_data sent (show_hex (unat (size_of data)) @ crlf))
      (\<lambda>a. bindS (write_data sent data) (\<lambda>b. bindS (write_data sent crlf) (\<lambda>c. ret (a + b + c)))))"
    by (intro appends_intros)
  show ?thesis
  proof (rule appendsI)
    fix w
    show "\<exists>out. written (snd (writer_send_payload sent data w)) = written w @ out"
      by (cases "bodyType (o_streamState w)")
        (simp_all add: writer_send_payload_def throw_def a [THEN appendsD]
          appends_basic(4) [THEN appendsD])
  qed
qed

lemma appends_write_payload [appends_intros]:
  assumes "appends wsl"
  shows "appends (writer_write_payload sent wsl data)"
proof -
  have inner: "appends (\<lambda>w1. seqS (if c \<and> bodyType (o_streamState w1) \<noteq> BT_BUFFERING then emit crlf else ret ())
      (writer_send_payload sent data) w1)" for c
    by (rule appends_dep [where f = "\<lambda>w1. seqS (if c \<and> bodyType (o_streamState w1) \<noteq> BT_BUFFERING
        then emit crlf else ret ()) (writer_send_payload sent data)"]) (intro appends_intros)
  show ?thesis
    unfolding writer_write_payload_def Let_def
    by (rule appends_dep [where f = "\<lambda>w. seqS (if o_phase w = MS_START_LINE then wsl else ret ())
        (bindS (omessage_write_payload data)
          (\<lambda>_ w1. seqS (if o_phase w \<le> MS_HEADERS \<and> bodyType (o_streamState w1) \<noteq> BT_BUFFERING
                         then emit crlf else ret ()) (writer_send_payload sent data) w1))"])
      (intro appends_intros assms inner)
qed

lemma appends_done_body [appends_intros]:
  assumes "appends wsl"
  shows "appends (writer_done_body wsl)"
proof -
  have a: "appends (\<lambda>w. seqS (modify (o_set_state MS_HEADERS))
      (seqS (writer_write_header wsl (new_header ''Content-Length'' (show_dec (length (o_buffer w)))))
        (seqS (emit crlf) (emit (o_buffer w)))) w)"
    by (rule appends_dep [where f = "\<lambda>w. seqS (modify (o_set_state MS_HEADERS))
      (seqS (writer_write_header wsl (new_header ''Content-Length'' (show_dec (length (o_buffer w)))))
        (seqS (emit crlf) (emit (o_buffer w))))"]) (intro appends_intros assms)
  show ?thesis
  proof (rule appendsI)
    fix w
    show "\<exists>out. written (snd (writer_done_body wsl w)) = written w @ out"
    proof (cases "bodyType (o_streamState w)")
      case BT_BUFFERING
      with appendsD [OF a, of w] show ?thesis by (simp add: writer_done_body_def)
    qed (simp_all add: writer_done_body_def throw_def ret_def emit_def)
  qed
qed

lemma appends_done_headers [appends_intros]:
  assumes "appends wsl"
  shows "appends (writer_done_headers wsl)"
proof -
  have a: "appends (seqS (writer_write_header wsl (new_header ''Content-Length'' ''0'')) (emit crlf))"
    "appends (seqS (emit crlf) (throw e))" "appends (seqS (emit crlf) (writer_done_body wsl))" for e
    by (simp_all add: appends_intros assms)
  have b: "appends (emit s)" for s by (intro appends_intros)
  show ?thesis
    by (rule appendsI) (simp add: writer_done_headers_def a [THEN appendsD] b [THEN appendsD])
qed

lemma appends_done:
  assumes "appends wsl"
  shows "appends (writer_done wsl)"
proof -
  have a: "appends (seqS wsl (seqS (modify (o_set_state MS_HEADERS)) (writer_done_headers wsl)))"
    "appends (writer_done_headers wsl)" "appends (writer_done_body wsl)"
    by (simp_all add: appends_intros assms)
  show ?thesis
  proof (rule appendsI)
    fix w
    show "\<exists>out. written (snd (writer_done wsl w)) = written w @ out"
      by (cases "o_phase w") (simp_all add: writer_done_def a [THEN appendsD])
  qed
qed

section \<open>What a response writer promises\<close>

text \<open>
  The calls a handler makes before \<open>Done\<close>. The first error ends the run, as the exception
  leaves the handler.
\<close>

datatype call = Put_Status http_status | Put_Header wstringpair | Put_Payload string

fun run_call :: "(string \<Rightarrow> size_t) \<Rightarrow> call \<Rightarrow> (response_writer, unit) op" where
  "run_call sent (Put_Status t) = response_writer_put_status t"
| "run_call sent (Put_Header h) = writer_write_header response_write_start_line h"
| "run_call sent (Put_Payload s) = oresponse_put sent s"

fun run_calls :: "(string \<Rightarrow> size_t) \<Rightarrow> call list \<Rightarrow> (response_writer, unit) op" where
  "run_calls sent [] = ret ()"
| "run_calls sent (c # cs) = seqS (run_call sent c) (run_calls sent cs)"

text \<open>
  The abstract answer: the status that is set, the status on the start line (the first header
  or payload fixes it), the headers and, once a payload has come, the body.
\<close>

record answer =
  a_status :: http_status
  a_line :: "http_status option"
  a_headers :: "wstringpair list"
  a_body :: "string option"

definition new_answer :: answer where
  "new_answer = \<lparr>a_status = status_OK, a_line = None, a_headers = [], a_body = None\<rparr>"

definition fix_line :: "answer \<Rightarrow> answer" where
  "fix_line a = a\<lparr>a_line := Some (case a_line a of None \<Rightarrow> a_status a | Some st \<Rightarrow> st)\<rparr>"

fun spec_call :: "call \<Rightarrow> (answer, unit) op" where
  "spec_call (Put_Status t) a = (Inr (), a\<lparr>a_status := t\<rparr>)"
| "spec_call (Put_Header h) a =
     (case a_body a of
        None \<Rightarrow> (Inr (), (fix_line a)\<lparr>a_headers := a_headers a @ [h]\<rparr>)
      | Some _ \<Rightarrow> (Inl (InvalidState ''Could not write header''), a))"
| "spec_call (Put_Payload s) a =
     (Inr (), (fix_line a)\<lparr>a_body := Some ((case a_body a of None \<Rightarrow> [] | Some b \<Rightarrow> b) @ s)\<rparr>)"

fun spec_calls :: "call list \<Rightarrow> (answer, unit) op" where
  "spec_calls [] = ret ()"
| "spec_calls (c # cs) = seqS (spec_call c) (spec_calls cs)"

definition start_line_text :: "http_status \<Rightarrow> string" where
  "start_line_text st = ''HTTP/1.1 '' @ start_string st"

text \<open>What is on the connection before \<open>Done\<close>, and the whole message after it.\<close>

definition answer_head :: "answer \<Rightarrow> string" where
  "answer_head a =
     (case a_line a of
        None \<Rightarrow> []
      | Some st \<Rightarrow> start_line_text st @ crlf @ header_block (a_headers a))"

definition answer_text :: "answer \<Rightarrow> string" where
  "answer_text a =
     (let body = (case a_body a of None \<Rightarrow> [] | Some b \<Rightarrow> b)
      in answer_head (fix_line a) @ header_line (''Content-Length'', show_dec (length body)) @ crlf @ body)"

definition answer_phase :: "answer \<Rightarrow> message_state" where
  "answer_phase a =
     (if a_body a \<noteq> None then MS_BODY else if a_line a \<noteq> None then MS_HEADERS else MS_START_LINE)"

text \<open>The simulation relation. The framing is the default one, which no code changes.\<close>

definition writes :: "response_writer \<Rightarrow> answer \<Rightarrow> bool" where
  "writes w a \<longleftrightarrow>
     o_contentSize w = npos \<and> o_encoding w \<noteq> Enc_chunked \<and> ow_status w = a_status a \<and>
     o_phase w = answer_phase a \<and> written w = answer_head a \<and>
     (a_body a \<noteq> None \<longrightarrow> a_line a \<noteq> None \<and> bodyType (o_streamState w) = BT_BUFFERING) \<and>
     (a_line a = None \<longrightarrow> a_headers a = []) \<and>
     o_buffer w = (case a_body a of None \<Rightarrow> [] | Some b \<Rightarrow> b)"

lemma writes_new [simp]: "writes new_response_writer new_answer"
  by (simp add: writes_def new_response_writer_def new_answer_def answer_phase_def answer_head_def
      init_parser_state_def)

lemma header_block_snoc: "header_block (hs @ [h]) = header_block hs @ header_line h"
  by (simp add: header_block_def)

lemma emit_header_eq: "emit_header h w = (Inr (), w\<lparr>written := written w @ header_line h\<rparr>)"
  by (simp add: emit_header_def op_simps emit_def header_line_def)

lemma response_start_eq:
  "response_write_start_line w = (Inr (), w\<lparr>written := written w @ start_line_text (ow_status w) @ crlf\<rparr>)"
  by (simp add: response_write_start_line_def op_simps emit_def start_line_text_def)

lemma writes_cases [consumes 1, case_names start headers body]:
  assumes "writes w a"
  obtains "o_phase w = MS_START_LINE" "a_line a = None" "a_body a = None" "a_headers a = []"
  | st where "o_phase w = MS_HEADERS" "a_line a = Some st" "a_body a = None"
  | st b where "o_phase w = MS_BODY" "a_line a = Some st" "a_body a = Some b"
  using assms by (auto simp: writes_def answer_phase_def split: if_splits)

lemma writes_header:
  assumes "writes w a"
  shows "\<exists>w'. run_call sent (Put_Header h) w = (fst (spec_call (Put_Header h) a), w') \<and>
    writes w' (snd (spec_call (Put_Header h) a))"
  using assms
proof (cases rule: writes_cases)
  case start
  with assms show ?thesis
    by (auto simp: writer_write_header_def op_simps response_start_eq emit_header_eq writes_def fix_line_def
        answer_head_def answer_phase_def o_set_state_def)
next
  case headers
  with assms show ?thesis
    by (auto simp: writer_write_header_def emit_header_eq writes_def fix_line_def
        answer_head_def answer_phase_def header_block_snoc)
next
  case body
  with assms show ?thesis by (simp add: writer_write_header_def throw_def)
qed

lemma payload_buffered:
  assumes "o_contentSize w = npos" "o_encoding w \<noteq> Enc_chunked"
    "o_phase w = MS_START_LINE \<or> o_phase w = MS_HEADERS \<or>
     o_phase w = MS_BODY \<and> bodyType (o_streamState w) = BT_BUFFERING"
  shows "writer_write_payload sent response_write_start_line s w =
    (Inr (size_of s), w\<lparr>o_streamState := \<lparr>bodyType = BT_BUFFERING, streamState = MS_BODY\<rparr>,
       written := written w @ (if o_phase w = MS_START_LINE then start_line_text (ow_status w) @ crlf else []),
       o_buffer := o_buffer w @ s\<rparr>)"
  using assms
  by (cases w) (auto simp: writer_write_payload_def op_simps response_start_eq Let_def ms_order
        omessage_write_payload_def o_start_body_def o_set_state_def o_set_body_type_def body_type_from_def
        writer_send_payload_def)

lemma writes_payload:
  assumes "writes w a"
  shows "\<exists>w'. run_call sent (Put_Payload s) w = (fst (spec_call (Put_Payload s) a), w') \<and>
    writes w' (snd (spec_call (Put_Payload s) a))"
  using assms
proof (cases rule: writes_cases)
  case start
  with assms show ?thesis
    by (auto simp: oresponse_put_def op_simps payload_buffered writes_def fix_line_def answer_head_def
        answer_phase_def)
next
  case headers
  with assms show ?thesis
    by (auto simp: oresponse_put_def op_simps payload_buffered writes_def fix_line_def answer_head_def
        answer_phase_def)
next
  case body
  with assms show ?thesis
    by (auto simp: oresponse_put_def op_simps payload_buffered writes_def fix_line_def answer_head_def
        answer_phase_def)
qed

lemma writes_call:
  assumes "writes w a"
  shows "\<exists>w'. run_call sent c w = (fst (spec_call c a), w') \<and> writes w' (snd (spec_call c a))"
proof (cases c)
  case (Put_Status t)
  with assms show ?thesis
    by (auto simp: response_writer_put_status_def writes_def answer_phase_def answer_head_def
        split: option.splits)
qed (use assms writes_header writes_payload in auto)

lemma writes_calls:
  "writes w a \<Longrightarrow>
     \<exists>w'. run_calls sent cs w = (fst (spec_calls cs a), w') \<and> writes w' (snd (spec_calls cs a))"
proof (induction cs arbitrary: w a)
  case Nil
  then show ?case by (simp add: ret_def)
next
  case (Cons c cs)
  obtain w1 where w1: "run_call sent c w = (fst (spec_call c a), w1)" "writes w1 (snd (spec_call c a))"
    using writes_call [OF Cons.prems] by blast
  obtain r a1 where s: "spec_call c a = (r, a1)" by force
  show ?case
  proof (cases r)
    case (Inl e)
    with w1 s show ?thesis by (simp add: op_simps)
  next
    case (Inr x)
    with w1 s Cons.IH [of w1 a1] show ?thesis by (simp add: op_simps)
  qed
qed

lemma show_dec_0: "show_dec 0 = ''0''"
  by code_simp

lemma writes_done:
  assumes "writes w a"
  shows "\<exists>w'. writer_done response_write_start_line w = (Inr (), w') \<and> written w' = answer_text a"
  using assms
proof (cases rule: writes_cases)
  case start
  with assms show ?thesis
    by (auto simp: writer_done_def writer_done_headers_def writer_write_header_def op_simps
        response_start_eq emit_header_eq emit_def writes_def fix_line_def answer_head_def answer_text_def
        o_set_state_def new_header_def show_dec_0)
next
  case headers
  with assms show ?thesis
    by (auto simp: writer_done_def writer_done_headers_def writer_write_header_def op_simps
        emit_header_eq emit_def writes_def fix_line_def answer_head_def answer_text_def
        new_header_def show_dec_0)
next
  case body
  with assms show ?thesis
    by (auto simp: writer_done_def writer_done_body_def writer_write_header_def op_simps
        emit_header_eq emit_def writes_def fix_line_def answer_head_def answer_text_def
        o_set_state_def new_header_def)
qed

end
