(* ===== verification/Http_Roundtrip.thy ===== *)
theory Http_Roundtrip
  imports Incoming_Message Outgoing_Message
begin

text \<open>
  The two ends of a connection together: what a response writer sends, an incoming response
  reads back, however the bytes are cut on the way. And the chunked framing that the writer
  can produce, against a decoder written from the standard.
\<close>

section \<open>From the writer to the reader\<close>

lemma answer_text_message:
  "answer_text a =
     (let body = (case a_body a of None \<Rightarrow> [] | Some b \<Rightarrow> b);
          st = (case a_line a of None \<Rightarrow> a_status a | Some st \<Rightarrow> st)
      in message_text (start_line_text st)
           (a_headers a @ [(''Content-Length'', show_dec (length body))]) body)"
  by (simp add: answer_text_def answer_head_def fix_line_def message_text_def Let_def header_block_def)

lemma wire_name_content_length: "wire_name ''Content-Length''"
  by (simp add: wire_name_def isspace_c_def)

lemma line_text_digits: "2 \<le> b \<Longrightarrow> b \<le> 36 \<Longrightarrow> line_text (show_base b n)"
proof -
  assume b: "2 \<le> b" "b \<le> 36"
  have "\<not> is_nl (digit_char d) \<and> digit_char d \<noteq> NUL" if "d < 36" for d
  proof -
    have "(of_char (digit_char d) :: nat) \<ge> 48" using that by (simp add: of_char_digit_char)
    then show ?thesis by (auto simp: is_nl_def)
  qed
  with b show ?thesis
    unfolding line_text_def using show_base_digits [OF b] by (metis order_less_le_trans)
qed

lemma wire_value_digits: "wire_value (show_dec n)"
proof -
  have "hd (show_dec n) \<in> set (show_dec n)" by (rule hd_in_set) simp
  then obtain d where d: "d < 10" "hd (show_dec n) = digit_char d"
    using show_base_digits [of 10 "hd (show_dec n)" n] by auto
  then have "(of_char (hd (show_dec n)) :: nat) \<ge> 48" by (simp add: of_char_digit_char)
  then have "hd (show_dec n) \<noteq> CHR '' ''" "hd (show_dec n) \<noteq> TAB" by auto
  then show ?thesis by (simp add: wire_value_def line_text_digits)
qed

lemma line_text_start: "plain_reason (status_name st) \<Longrightarrow> line_text (start_line_text st)"
  using line_text_digits [of 10 "unat (status_code st)"]
  by (auto simp: start_line_text_def start_string_def plain_reason_def line_text_def nul_free_def is_nl_def)

text \<open>A response as the client side collects it.\<close>

definition received :: "http_status \<Rightarrow> wstringpair list \<Rightarrow> string \<Rightarrow> response" where
  "received st hs body =
     write_body body (fold add_header (hs @ [(''Content-Length'', show_dec (length body))])
       (new_response\<lparr>resp_status := new_status (status_code st) (status_name st)\<rparr>))"

lemma fold_add_header:
  "msg_headers (fold add_header hs m) = fold (\<lambda>(n, v). hc_add n v) hs (msg_headers m)"
  by (induction hs arbitrary: m) (auto simp: split_def)

lemma get_fold_add_header:
  "k \<notin> fst ` set hs \<Longrightarrow> hc_get k (msg_headers (fold add_header hs m)) = hc_get k (msg_headers m)"
  by (simp add: fold_add_header hdr.get_adds_other)

definition sendable :: "http_status \<Rightarrow> wstringpair list \<Rightarrow> string \<Rightarrow> bool" where
  "sendable st hs body \<longleftrightarrow>
     plain_reason (status_name st) \<and> (\<forall>h \<in> set hs. wire_header h) \<and>
     ''Content-Length'' \<notin> fst ` set hs \<and> ''Transfer-Encoding'' \<notin> fst ` set hs \<and>
     fits (length (message_text (start_line_text st)
             (hs @ [(''Content-Length'', show_dec (length body))]) body))"

lemma sendable_framed:
  assumes "sendable st hs body"
  shows "framed u response_set_startline (start_line_text st)
    (hs @ [(''Content-Length'', show_dec (length body))]) body new_response
    (fold add_header (hs @ [(''Content-Length'', show_dec (length body))])
       (new_response\<lparr>resp_status := new_status (status_code st) (status_name st)\<rparr>))"
proof -
  let ?m1 = "new_response\<lparr>resp_status := new_status (status_code st) (status_name st)\<rparr>"
  let ?hs = "hs @ [(''Content-Length'', show_dec (length body))]"
  have h0: "msg_headers ?m1 = []" by (simp add: new_response_def)
  have "fits (length body)"
    using assms by (auto simp: sendable_def message_text_def elim: fits_mono)
  then have n: "length body < 2 ^ 64" by (rule fits_64)
  have "hc_get ''Content-Length'' (msg_headers (fold add_header hs ?m1)) = None"
    using assms h0 by (simp add: get_fold_add_header sendable_def) (simp add: hc_get_def)
  then have cl: "content_length (fold add_header ?hs ?m1) = of_nat (length body)"
    using n by (simp add: content_length_add)
  have te: "transfer_encoding u (fold add_header ?hs ?m1) = Enc_UNKNOWN"
    using assms h0
    by (simp add: transfer_encoding_def hc_get_encoding_def hc_get_add_eq get_fold_add_header sendable_def)
      (simp add: hc_get_def)
  have sl: "response_set_startline (start_line_text st @ crlf) new_response = Inr ?m1"
    using response_set_startline_line [of "status_name st" crlf "status_code st" new_response] assms
    by (simp add: start_line_text_def start_string_def sendable_def crlf_def isspace_c_def)
  have w: "\<forall>h \<in> set ?hs. wire_header h"
    using assms by (auto simp: sendable_def wire_header_def wire_name_content_length wire_value_digits)
  show ?thesis
    unfolding framed_def using assms w cl te sl by (simp add: sendable_def line_text_start)
qed

section \<open>Chunks\<close>

text \<open>The chunks that \<open>WritePayloadData\<close> puts on the connection.\<close>

definition chunk_text :: "string \<Rightarrow> string" where
  "chunk_text data = show_hex (length data) @ crlf @ data @ crlf"

definition last_chunk :: string where
  "last_chunk = ''0'' @ crlf @ crlf"

lemma writer_chunk:
  assumes "o_phase w = MS_BODY" "bodyType (o_streamState w) = BT_CHUNKED" "fits (length data)"
  shows "snd (writer_write_payload sent wsl data w) = w\<lparr>written := written w @ chunk_text data\<rparr>"
    and "\<exists>n. fst (writer_write_payload sent wsl data w) = Inr n"
  using assms fits_64 [OF assms(3)]
  by (simp_all add: writer_write_payload_def Let_def op_simps omessage_write_payload_def ms_order
      writer_send_payload_def write_data_def chunk_text_def size_of_def)

text \<open>
  A decoder after RFC 7230, section 4.1, without extensions and trailers: a size in
  hexadecimal digits and its line end, that many bytes and a line end, until the size is 0.
  It gives the body and the bytes after it.
\<close>

function dechunk :: "string \<Rightarrow> (string \<times> string) option" where
  "dechunk s =
     (let digits = takeWhile (is_digit_in 16) s;
          n = digits_value 16 digits;
          rest = drop (length digits) s;
          data = drop 2 rest
      in if digits = [] \<or> take 2 rest \<noteq> crlf then None
         else if n = 0 then (if take 2 data = crlf then Some ([], drop 2 data) else None)
         else if length data < n + 2 \<or> take 2 (drop n data) \<noteq> crlf then None
         else map_option (\<lambda>(body, after). (take n data @ body, after)) (dechunk (drop (n + 2) data)))"
  by pat_completeness auto
termination
proof (relation "measure length")
  fix s digits :: string and n and rest data
  assume "digits = takeWhile (is_digit_in 16) s" "rest = drop (length digits) s" "data = drop 2 rest"
    and "\<not> (length data < n + 2 \<or> take 2 (drop n data) \<noteq> crlf)"
  then have "length data \<le> length s" "2 \<le> length data" by simp_all
  then have "length (drop (n + 2) data) < length s" by (simp only: length_drop)
  then show "(drop (n + 2) data, s) \<in> measure length" by simp
qed simp

declare dechunk.simps [simp del]

lemma dechunk_size:
  "takeWhile (is_digit_in 16) (show_hex n @ crlf @ t) = show_hex n"
  using takeWhile_show_base(1) [of 16 "crlf @ t" n]
  by (simp add: crlf_def is_digit_in_def digit_val_def)

lemma dechunk_chunk:
  assumes "data \<noteq> []"
  shows "dechunk (chunk_text data @ t) = map_option (\<lambda>(body, after). (data @ body, after)) (dechunk t)"
proof -
  let ?n = "length data"
  let ?s = "show_hex ?n @ crlf @ data @ crlf @ t"
  have s: "chunk_text data @ t = ?s" by (simp add: chunk_text_def)
  have tw: "takeWhile (is_digit_in 16) ?s = show_hex ?n" by (rule dechunk_size)
  have dr: "drop (length (show_hex ?n)) ?s = crlf @ data @ crlf @ t" by simp
  have c: "drop 2 (crlf @ x) = x" "take 2 (crlf @ x) = crlf" for x by (simp_all add: crlf_def)
  have dv: "digits_value 16 (show_hex ?n) = ?n" by (simp add: digits_value_show)
  have l: "\<not> length (data @ crlf @ t) < ?n + 2" by (simp add: crlf_def)
  have r: "drop ?n (data @ crlf @ t) = crlf @ t" "drop (?n + 2) (data @ crlf @ t) = t"
    "take ?n (data @ crlf @ t) = data"
    by (simp_all add: crlf_def)
  show ?thesis
    unfolding s dechunk.simps [of ?s] Let_def tw dr c dv r using assms l by simp
qed

lemma dechunk_last: "dechunk (last_chunk @ t) = Some ([], t)"
proof -
  have "takeWhile (is_digit_in 16) (last_chunk @ t) = ''0''"
    by (simp add: last_chunk_def crlf_def is_digit_in_def digit_val_def)
  then show ?thesis
    by (subst dechunk.simps) (simp add: last_chunk_def crlf_def Let_def digits_value_def digit_val_def)
qed

lemma dechunk_chunks:
  "\<forall>p \<in> set ps. p \<noteq> [] \<Longrightarrow> dechunk (concat (map chunk_text ps) @ last_chunk @ t) = Some (concat ps, t)"
  by (induction ps) (simp_all add: dechunk_last dechunk_chunk)

fun write_payloads :: "(string \<Rightarrow> size_t) \<Rightarrow> string list \<Rightarrow> response_writer \<Rightarrow> response_writer" where
  "write_payloads sent [] w = w"
| "write_payloads sent (p # ps) w =
     write_payloads sent ps (snd (writer_write_payload sent response_write_start_line p w))"

lemma write_payloads_chunked:
  "o_phase w = MS_BODY \<Longrightarrow> bodyType (o_streamState w) = BT_CHUNKED \<Longrightarrow> \<forall>p \<in> set ps. fits (length p) \<Longrightarrow>
     write_payloads sent ps w = w\<lparr>written := written w @ concat (map chunk_text ps)\<rparr>"
  by (induction ps arbitrary: w) (simp_all add: writer_chunk)

lemma done_chunked:
  "o_phase w = MS_BODY \<Longrightarrow> bodyType (o_streamState w) = BT_CHUNKED \<Longrightarrow>
     writer_done wsl w = (Inr (), w\<lparr>written := written w @ last_chunk\<rparr>)"
  by (simp add: writer_done_def writer_done_body_def emit_def last_chunk_def)

lemma answer_text_received:
  assumes "a_line (fix_line a) = Some st" "a_headers a = hs"
    and "(case a_body a of None \<Rightarrow> [] | Some b \<Rightarrow> b) = body"
    and "sendable st hs body" "concat ps = answer_text a" "clean_cuts ps"
  shows "\<exists>im. feed (on_buffered_data u response_set_startline) ps (new_imessage new_response) =
      Some (Inr (True, im)) \<and> msg im = received st hs body \<and> finished im"
proof -
  have "st = (case a_line a of None \<Rightarrow> a_status a | Some st \<Rightarrow> st)"
    using assms(1) by (simp add: fix_line_def)
  then have "concat ps = message_text (start_line_text st)
      (hs @ [(''Content-Length'', show_dec (length body))]) body"
    using assms(2,3,5) by (simp add: answer_text_message Let_def)
  from im_message_pieces [OF sendable_framed [OF assms(4)] this assms(6)] show ?thesis
    unfolding received_def by blast
qed

section \<open>Properties\<close>

text \<open>C5: a run of calls on a fresh \<open>OResponseWriter\<close> behaves as the abstract answer says,
  call by call, errors included; when no call failed, \<open>Done\<close> succeeds and the connection holds
  exactly the start line (with the status that was set when it was fixed), the headers in
  order, a correct \<open>Content-Length\<close>, the blank line and all payloads.\<close>

theorem response_writer_refines:
  "\<exists>w. run_calls sent cs new_response_writer = (fst (spec_calls cs new_answer), w) \<and>
     (\<exists>w'. writer_done response_write_start_line w = (Inr (), w') \<and>
       written w' = answer_text (snd (spec_calls cs new_answer)))"
proof -
  obtain w where w: "run_calls sent cs new_response_writer = (fst (spec_calls cs new_answer), w)"
    "writes w (snd (spec_calls cs new_answer))"
    using writes_calls [OF writes_new] by blast
  with writes_done [OF w(2)] show ?thesis by blast
qed



text \<open>In chunked mode, payloads that are not empty, followed by \<open>Done\<close>, decode by the
  rules of RFC 7230 to their concatenation, with nothing left over.\<close>

theorem chunked_writer_decodes:
  assumes "o_phase w = MS_BODY" and "bodyType (o_streamState w) = BT_CHUNKED"
    and "\<forall>p \<in> set ps. p \<noteq> [] \<and> fits (length p)"
  shows "\<exists>out. written (snd (writer_done response_write_start_line (write_payloads sent ps w))) =
      written w @ out \<and> dechunk out = Some (concat ps, [])"
proof -
  have "written (snd (writer_done response_write_start_line (write_payloads sent ps w))) =
      written w @ concat (map chunk_text ps) @ last_chunk"
    using assms by (simp add: write_payloads_chunked done_chunked)
  moreover have "dechunk (concat (map chunk_text ps) @ last_chunk) = Some (concat ps, [])"
    using dechunk_chunks [of ps "[]"] assms(3) by simp
  ultimately show ?thesis by blast
qed

theorem chunked_writer_decodes_witness:
  "\<exists>out. written (snd (writer_done response_write_start_line (write_payloads (\<lambda>_. 0) [''hello '', ''world'']
      (new_response_writer\<lparr>o_streamState := \<lparr>bodyType = BT_CHUNKED, streamState = MS_BODY\<rparr>\<rparr>)))) = out \<and>
    dechunk out = Some (''hello world'', [])"
  using chunked_writer_decodes [of "new_response_writer\<lparr>o_streamState := \<lparr>bodyType = BT_CHUNKED, streamState = MS_BODY\<rparr>\<rparr>"
      "[''hello '', ''world'']" "\<lambda>_. 0"]
  by (simp add: fits_def new_response_writer_def)

text \<open>An empty payload in chunked mode writes the chunk of size 0, which ends the body: a
  reader drops everything that is written after it.\<close>

theorem empty_payload_ends_chunked_body:
  assumes "o_phase w = MS_BODY" and "bodyType (o_streamState w) = BT_CHUNKED"
    and "\<forall>p \<in> set ps. p \<noteq> [] \<and> fits (length p)" and "\<forall>p \<in> set qs. fits (length p)"
  shows "\<exists>out after. written (snd (writer_done response_write_start_line
      (write_payloads sent (ps @ [] # qs) w))) = written w @ out \<and> dechunk out = Some (concat ps, after) \<and>
      after = concat (map chunk_text qs) @ last_chunk"
proof -
  have "show_hex 0 = ''0''" by code_simp
  then have e: "chunk_text [] = last_chunk" by (simp add: chunk_text_def last_chunk_def)
  have "\<forall>p \<in> set (ps @ [] # qs). fits (length p)" using assms(3,4) by (auto simp: fits_def)
  then have "written (snd (writer_done response_write_start_line (write_payloads sent (ps @ [] # qs) w))) =
      written w @ concat (map chunk_text ps) @ last_chunk @ concat (map chunk_text qs) @ last_chunk"
    using assms(1,2) by (simp add: write_payloads_chunked done_chunked e)
  then show ?thesis using dechunk_chunks [of ps] assms(3) by blast
qed

theorem empty_payload_ends_chunked_body_witness:
  "\<exists>out after. written (snd (writer_done response_write_start_line (write_payloads (\<lambda>_. 0) ([''a''] @ [] # [''b''])
      (new_response_writer\<lparr>o_streamState := \<lparr>bodyType = BT_CHUNKED, streamState = MS_BODY\<rparr>\<rparr>)))) = out \<and>
    dechunk out = Some (''a'', after) \<and> after = concat (map chunk_text [''b'']) @ last_chunk"
  using empty_payload_ends_chunked_body [of "new_response_writer\<lparr>o_streamState := \<lparr>bodyType = BT_CHUNKED, streamState = MS_BODY\<rparr>\<rparr>"
      "[''a'']" "[''b'']" "\<lambda>_. 0"]
  by (simp add: fits_def new_response_writer_def)

end
