(* ===== verification/Websocket_Frames.thy ===== *)
theory Websocket_Frames
  imports Std_Map Http_Enums
begin

text \<open>
  Websocket frames (\<open>include/rikitiki/websocket/websocketContext.h\<close>,
  \<open>src/websocket/websocketContext.cc\<close>): the writer, the frame parser and the assembly of
  messages from frames. The code runs on little-endian hosts: a word in memory is its bytes,
  the lowest first. A pointer is the list of the bytes readable from it.
\<close>

type_synonym byte = "8 word"

section \<open>Words in memory\<close>

definition le_bytes :: "nat \<Rightarrow> 'a::len word \<Rightarrow> byte list" where
  "le_bytes n w = map (\<lambda>i. ucast (drop_bit (8 * i) w)) [0..<n]"

definition be_bytes :: "nat \<Rightarrow> 'a::len word \<Rightarrow> byte list" where
  "be_bytes n w = rev (le_bytes n w)"

definition le_value :: "byte list \<Rightarrow> nat" where
  "le_value bs = foldr (\<lambda>b a. unat b + 256 * a) bs 0"

definition be_value :: "byte list \<Rightarrow> nat" where
  "be_value bs = le_value (rev bs)"

text \<open>\<open>htons\<close> and \<open>htonl\<close> of a little-endian host, and the function of the source that
  puts them together (its test of the byte order is decided).\<close>

definition htons :: "16 word \<Rightarrow> 16 word" where
  "htons v = push_bit 8 (take_bit 8 v) OR drop_bit 8 v"

definition htonl :: "32 word \<Rightarrow> 32 word" where
  "htonl v = push_bit 24 (take_bit 8 v) OR push_bit 16 (take_bit 8 (drop_bit 8 v)) OR
     push_bit 8 (take_bit 8 (drop_bit 16 v)) OR drop_bit 24 v"

definition htonll :: "64 word \<Rightarrow> 64 word" where
  "htonll value =
     (let high_part = htonl (ucast (drop_bit 32 value));
          low_part = htonl (ucast (value AND 0xFFFFFFFF))
      in push_bit 32 (ucast low_part) OR ucast high_part)"

lemma upt_8: "[0..<8] = [0, 1, 2, 3, 4, 5, 6, 7 :: nat]"
  by (simp add: upt_rec)

lemma upt_2: "[0..<2] = [0, 1 :: nat]"
  by (simp add: upt_rec)

lemma le_bytes_htons: "le_bytes 2 (htons v) = be_bytes 2 v"
  unfolding le_bytes_def be_bytes_def upt_2
  by (simp add: htons_def) (intro conjI bit_word_eqI; auto simp: bit_simps)

lemma low_half: "(0xFFFFFFFF :: 64 word) = mask 32"
  by (simp add: mask_eq_exp_minus_1)

lemma le_bytes_htonll: "le_bytes 8 (htonll v) = be_bytes 8 v"
  unfolding le_bytes_def be_bytes_def upt_8 htonll_def htonl_def low_half Let_def
  by simp (intro conjI bit_word_eqI; auto simp: bit_simps)

lemma le_bytes_length [simp]: "length (le_bytes n w) = n" "length (be_bytes n w) = n"
  by (simp_all add: le_bytes_def be_bytes_def)

lemma le_bytes_Suc: "le_bytes (Suc n) w = ucast w # le_bytes n (drop_bit 8 w)"
  by (simp add: le_bytes_def upt_rec [of 0] map_Suc_upt [symmetric] drop_bit_drop_bit comp_def
      del: upt_Suc map_Suc_upt)
    (simp add: upt_conv_Cons add.commute flip: map_Suc_upt)

lemma le_value_bytes: "le_value (le_bytes n w) = unat w mod 256 ^ n"
proof (induction n arbitrary: w)
  case 0
  then show ?case by (simp add: le_value_def le_bytes_def)
next
  case (Suc n)
  have "unat (ucast w :: byte) = unat w mod 256"
    by (simp add: unsigned_ucast_eq unsigned_take_bit_eq take_bit_eq_mod)
  moreover have "unat (drop_bit 8 w) = unat w div 256"
    unfolding unat_drop_bit_eq by (simp add: drop_bit_eq_div)
  ultimately show ?case
    using Suc.IH [of "drop_bit 8 w"]
    by (simp add: le_bytes_Suc le_value_def mod_mult2_eq)
qed

lemma be_value_bytes: "be_value (be_bytes n w) = unat w mod 256 ^ n"
  by (simp add: be_value_def be_bytes_def le_value_bytes)

section \<open>Opcodes and frames\<close>

text \<open>\<open>OpCode::T\<close>: the enumerators are bytes, and the code combines them with bit operations.\<close>

definition op_Continuation :: byte where "op_Continuation = 0"
definition op_Text :: byte where "op_Text = 1"
definition op_Binary :: byte where "op_Binary = 2"
definition op_Close :: byte where "op_Close = 8"
definition op_Ping :: byte where "op_Ping = 9"
definition op_Pong :: byte where "op_Pong = 10"
definition op_Final :: byte where "op_Final = 128"

lemmas op_defs = op_Continuation_def op_Text_def op_Binary_def op_Close_def op_Ping_def
  op_Pong_def op_Final_def

text \<open>A member that no constructor has set is \<open>None\<close>.\<close>

record frame_info =
  fi_opcode :: byte
  fi_length :: size_t
  isMasked :: "bool option"
  isFinished :: bool
  fi_mask :: "32 word option"

definition frame_opcode :: "frame_info \<Rightarrow> byte" where
  "frame_opcode info = fi_opcode info AND 0xFF"

record frame =
  info :: frame_info
  frame_data :: "byte list"

text \<open>\<open>Frame::Init\<close>, on the members set so far.\<close>

definition frame_init :: "byte \<Rightarrow> byte list \<Rightarrow> size_t \<Rightarrow> bool option \<Rightarrow> 32 word option \<Rightarrow> frame" where
  "frame_init opcode buf len masked msk =
     \<lparr>info = \<lparr>fi_opcode = opcode AND 0xEF, fi_length = len, isMasked = masked,
              isFinished = 0 < opcode AND op_Close, fi_mask = msk\<rparr>,
      frame_data = buf\<rparr>"

text \<open>\<open>Frame::Frame(unsigned char, const unsigned char*, uint64_t)\<close>\<close>

definition frame_of :: "byte \<Rightarrow> byte list \<Rightarrow> size_t \<Rightarrow> frame" where
  "frame_of opcode buf len = frame_init opcode buf len None None"

text \<open>\<open>Frame::Frame(const unsigned char*, uint64_t)\<close>. The multi-byte members are read in
  host order. \<open>buffer[0] && 0x80\<close> is a test for a byte that is not zero.\<close>

definition read_le :: "nat \<Rightarrow> byte list \<Rightarrow> nat result" where
  "read_le n buf = (if length buf < n then Inl UndefinedBehaviour else Inr (le_value (take n buf)))"

definition parse_frame :: "byte list \<Rightarrow> size_t \<Rightarrow> frame result" where
  "parse_frame buf len =
     (case buf of
        opcode # b1 # rest \<Rightarrow>
          (let masked = (b1 \<noteq> 0)
           in bindE
             (if b1 = 0x7E then bindE (read_le 2 rest) (\<lambda>n. Inr (of_nat n, drop 2 rest))
              else if b1 = 0x7F then bindE (read_le 8 rest) (\<lambda>n. Inr (of_nat n, drop 8 rest))
              else Inr (ucast b1, rest))
             (\<lambda>(n, buf1). bindE
               (if masked then bindE (read_le 4 buf1) (\<lambda>m. Inr (Some (of_nat m), drop 4 buf1))
                else Inr (None, buf1))
               (\<lambda>(msk, buf2).
                  if n \<noteq> len then Inl AssertFailure
                  else Inr (frame_init opcode buf2 (min n len) (Some masked) msk))))
      | _ \<Rightarrow> Inl UndefinedBehaviour)"

section \<open>Messages from frames\<close>

record ws_message =
  opCode :: byte
  ws_data :: "byte list"
  frameLength :: size_t

text \<open>
  \<open>Message::Ingest\<close>. The test for messages that are too large compares the largest value of
  the type with a sum of the type.
\<close>

definition ingest :: "frame \<Rightarrow> ws_message \<Rightarrow> ws_message result" where
  "ingest f m =
     (if opCode m \<noteq> frame_opcode (info f) then Inl AssertFailure
      else let m1 = m\<lparr>frameLength := frameLength m + 1\<rparr>; len = fi_length (info f)
        in if len = 0 then Inr m1
           else if npos < size_of (ws_data m) + len then
             Inl (RtException ''Message sizes this large are not supported on x86 machines'')
           else if length (frame_data f) < unat len then Inl UndefinedBehaviour
           else Inr (m1\<lparr>ws_data := ws_data m @ take (unat len) (frame_data f)\<rparr>))"

definition message_of_frame :: "frame \<Rightarrow> ws_message result" where
  "message_of_frame f =
     ingest f \<lparr>opCode = frame_opcode (info f), ws_data = [], frameLength = 0\<rparr>"

section \<open>Writing\<close>

definition MAX_FRAME :: nat where "MAX_FRAME = 4294967295"

text \<open>The header of a frame: the bytes of the array that are sent.\<close>

definition frame_header :: "byte \<Rightarrow> nat \<Rightarrow> byte list" where
  "frame_header h0 send_size =
     (if send_size < 126 then [h0, of_nat send_size]
      else if send_size < 2 ^ 16 then [h0, 126] @ le_bytes 2 (htons (of_nat send_size))
      else [h0, 127] @ le_bytes 8 (htonll (of_nat send_size)))"

text \<open>
  \<open>WebsocketContext::Write\<close>: \<open>raw_write\<close> is virtual and a parameter that acts on the
  connection; \<open>close\<close> is \<open>server->Close(this)\<close>, for a connection that takes no more.
\<close>

function write_frames ::
  "(byte list \<Rightarrow> 'c \<Rightarrow> int \<times> 'c) \<Rightarrow> ('c \<Rightarrow> 'c) \<Rightarrow> byte \<Rightarrow> byte list \<Rightarrow> 'c \<Rightarrow> 'c" where
  "write_frames raw_write close h0 buf c =
     (if buf = [] then c
      else let send_size = (if length buf > MAX_FRAME then MAX_FRAME else length buf);
               control = (if length buf - send_size = 0 then op_Final else op_Continuation);
               (r1, c1) = raw_write (frame_header (h0 OR control) send_size) c
           in if r1 \<le> 0 then close c1
              else let (r2, c2) = raw_write (take send_size buf) c1
                in if r2 \<le> 0 then close c2
                   else write_frames raw_write close 0 (drop send_size buf) c2)"
  by pat_completeness auto
termination
  by (relation "measure (\<lambda>(_, _, _, buf, _). length buf)") (auto simp: MAX_FRAME_def)

declare write_frames.simps [simp del]

definition ws_write ::
  "(byte list \<Rightarrow> 'c \<Rightarrow> int \<times> 'c) \<Rightarrow> ('c \<Rightarrow> 'c) \<Rightarrow> byte list \<Rightarrow> byte \<Rightarrow> 'c \<Rightarrow> 'c" where
  "ws_write raw_write close buf opcode c = write_frames raw_write close opcode buf c"

definition ws_write_chars ::
  "(byte list \<Rightarrow> 'c \<Rightarrow> int \<times> 'c) \<Rightarrow> ('c \<Rightarrow> 'c) \<Rightarrow> string \<Rightarrow> byte \<Rightarrow> 'c \<Rightarrow> 'c" where
  "ws_write_chars raw_write close buf opcode c =
     ws_write raw_write close (map (of_nat \<circ> of_char) buf) opcode c"

definition ws_write_text ::
  "(byte list \<Rightarrow> 'c \<Rightarrow> int \<times> 'c) \<Rightarrow> ('c \<Rightarrow> 'c) \<Rightarrow> string \<Rightarrow> 'c \<Rightarrow> 'c" where
  "ws_write_text raw_write close buf c =
     ws_write raw_write close (map (of_nat \<circ> of_char) buf) op_Text c"

section \<open>Frames after RFC 6455\<close>

text \<open>
  A decoder written from section 5.2 of the standard: the final bit and the opcode, the mask
  bit and the length in one of three forms, in network order, the mask, the payload.
\<close>

definition unmask :: "byte list \<Rightarrow> byte list \<Rightarrow> byte list" where
  "unmask key xs = map (\<lambda>(i, x). x XOR key ! (i mod 4)) (enumerate 0 xs)"

definition rfc_length :: "nat \<Rightarrow> byte list \<Rightarrow> (nat \<times> byte list) option" where
  "rfc_length l7 rest =
     (if l7 = 126 then (if length rest < 2 then None else Some (be_value (take 2 rest), drop 2 rest))
      else if l7 = 127 then (if length rest < 8 then None else Some (be_value (take 8 rest), drop 8 rest))
      else Some (l7, rest))"

definition rfc_frame :: "byte list \<Rightarrow> (bool \<times> byte \<times> byte list \<times> byte list) option" where
  "rfc_frame bs =
     (case bs of
        b0 # b1 # rest \<Rightarrow>
          (case rfc_length (unat (take_bit 7 b1)) rest of
             None \<Rightarrow> None
           | Some (len, rest1) \<Rightarrow>
               (let masked = bit b1 7;
                    key = (if masked then take 4 rest1 else []);
                    rest2 = (if masked then drop 4 rest1 else rest1)
                in if (masked \<and> length rest1 < 4) \<or> length rest2 < len then None
                   else Some (bit b0 7, take_bit 4 b0,
                     if masked then unmask key (take len rest2) else take len rest2, drop len rest2)))
      | _ \<Rightarrow> None)"

text \<open>A message: a first frame with an opcode, continuation frames up to the final one.\<close>

lemma rfc_length_shorter: "rfc_length l7 rest = Some (len, rest1) \<Longrightarrow> length rest1 \<le> length rest"
  by (auto simp: rfc_length_def split: if_splits)

lemma rfc_frame_shorter:
  assumes "rfc_frame bs = Some (fin, opcode, p, rest)"
  shows "length rest < length bs"
proof -
  obtain b0 b1 r where bs: "bs = b0 # b1 # r"
    using assms by (auto simp: rfc_frame_def split: list.splits)
  obtain len rest1 where l: "rfc_length (unat (take_bit 7 b1)) r = Some (len, rest1)"
    using assms by (auto simp: rfc_frame_def bs split: option.splits)
  have "length rest \<le> length rest1"
    using assms by (auto simp: rfc_frame_def bs l Let_def split: if_splits)
  with rfc_length_shorter [OF l] show ?thesis by (simp add: bs)
qed

function rfc_fragments :: "byte list \<Rightarrow> (byte list \<times> byte list) option" where
  "rfc_fragments bs =
     (case rfc_frame bs of
        None \<Rightarrow> None
      | Some (fin, opcode, p, rest) \<Rightarrow>
          if opcode \<noteq> 0 then None
          else if fin then Some (p, rest)
          else map_option (\<lambda>(q, rest'). (p @ q, rest')) (rfc_fragments rest))"
  by pat_completeness auto
termination
  by (relation "measure length") (auto dest: rfc_frame_shorter)

declare rfc_fragments.simps [simp del]

definition rfc_message :: "byte list \<Rightarrow> (byte \<times> byte list \<times> byte list) option" where
  "rfc_message bs =
     (case rfc_frame bs of
        None \<Rightarrow> None
      | Some (fin, opcode, p, rest) \<Rightarrow>
          if opcode = 0 then None
          else if fin then Some (opcode, p, rest)
          else map_option (\<lambda>(q, rest'). (opcode, p @ q, rest')) (rfc_fragments rest))"

section \<open>What the writer sends decodes\<close>

lemma header_byte:
  "take_bit 4 h0 = h0 \<Longrightarrow> take_bit 4 (h0 OR op_Final) = h0"
  "take_bit 4 h0 = h0 \<Longrightarrow> bit (h0 OR op_Final) 7"
  "take_bit 4 h0 = h0 \<Longrightarrow> \<not> bit (h0 :: byte) 7"
proof -
  assume h: "take_bit 4 h0 = h0"
  have f: "op_Final = push_bit 7 1" by (simp add: op_defs)
  have b: "bit h0 n \<Longrightarrow> n < 4" for n using h by (metis bit_take_bit_iff)
  show "take_bit 4 (h0 OR op_Final) = h0"
    unfolding f by (rule bit_word_eqI) (auto simp: bit_simps dest: b)
  show "bit (h0 OR op_Final) 7" unfolding f by (simp add: bit_simps)
  show "\<not> bit h0 7" using b [of 7] by auto
qed

lemma length_byte:
  assumes "n < 126"
  shows "unat (take_bit 7 (of_nat n :: byte)) = n" "\<not> bit (of_nat n :: byte) 7"
proof -
  have n: "n < 128" using assms by simp
  then have "take_bit 7 (of_nat n :: byte) = of_nat n"
    by (simp add: take_bit_of_nat take_bit_nat_eq_self)
  moreover have "unat (of_nat n :: byte) = n" using n by (simp add: unat_of_nat)
  ultimately show "unat (take_bit 7 (of_nat n :: byte)) = n" by simp
  show "\<not> bit (of_nat n :: byte) 7"
    using \<open>take_bit 7 (of_nat n :: byte) = of_nat n\<close> by (metis bit_take_bit_iff less_irrefl)
qed

lemma rfc_frame_header:
  assumes "take_bit 4 h0 = h0" "length p \<le> MAX_FRAME" "c = op_Final \<or> c = op_Continuation"
  shows "rfc_frame (frame_header (h0 OR c) (length p) @ p @ t) = Some (c = op_Final, h0, p, t)"
proof -
  let ?b0 = "h0 OR c"
  have b0: "bit ?b0 7 = (c = op_Final)" "take_bit 4 ?b0 = h0"
    using assms(1,3) header_byte [OF assms(1)] by (auto simp: op_Continuation_def op_Final_def)
  consider "length p < 126" | "126 \<le> length p" "length p < 2 ^ 16" | "2 ^ 16 \<le> length p"
    by linarith
  then show ?thesis
  proof cases
    case 1
    then show ?thesis
      using length_byte [OF 1] b0 by (simp add: rfc_frame_def frame_header_def rfc_length_def)
  next
    case 2
    have "unat (of_nat (length p) :: 16 word) = length p" using 2 by (simp add: unat_of_nat)
    then have "be_value (be_bytes 2 (of_nat (length p) :: 16 word)) = length p"
      using 2 by (simp add: be_value_bytes)
    moreover have "unat (take_bit 7 (126 :: byte)) = 126" "\<not> bit (126 :: byte) 7" by code_simp+
    ultimately show ?thesis
      using 2 b0 by (simp add: rfc_frame_def frame_header_def rfc_length_def le_bytes_htons)
  next
    case 3
    have "length p < 2 ^ 64" using assms(2) by (simp add: MAX_FRAME_def)
    then have "be_value (be_bytes 8 (of_nat (length p) :: 64 word)) = length p"
      by (simp add: be_value_bytes)
    moreover have "unat (take_bit 7 (127 :: byte)) = 127" "\<not> bit (127 :: byte) 7" by code_simp+
    ultimately show ?thesis
      using 3 b0 by (simp add: rfc_frame_def frame_header_def rfc_length_def le_bytes_htonll)
  qed
qed

text \<open>The frames of a buffer, and a connection that takes whatever it is given.\<close>

function frames_text :: "byte \<Rightarrow> byte list \<Rightarrow> byte list" where
  "frames_text h0 buf =
     (if buf = [] then []
      else let n = min MAX_FRAME (length buf);
               c = (if length buf - n = 0 then op_Final else op_Continuation)
           in frame_header (h0 OR c) n @ take n buf @ frames_text 0 (drop n buf))"
  by pat_completeness auto
termination
  by (relation "measure (\<lambda>(_, buf). length buf)") (auto simp: MAX_FRAME_def)

declare frames_text.simps [simp del]

definition takes_all :: "(byte list \<Rightarrow> 'c \<Rightarrow> int \<times> 'c) \<Rightarrow> ('c \<Rightarrow> byte list) \<Rightarrow> bool" where
  "takes_all raw_write sent \<longleftrightarrow>
     (\<forall>bs c. bs \<noteq> [] \<longrightarrow> 0 < fst (raw_write bs c) \<and> sent (snd (raw_write bs c)) = sent c @ bs)"

lemma frame_header_nonempty [simp]: "frame_header h0 n \<noteq> []"
  by (simp add: frame_header_def)

lemma write_frames_sent:
  "takes_all raw_write sent \<Longrightarrow>
     sent (write_frames raw_write close h0 buf c) = sent c @ frames_text h0 buf"
proof (induction h0 buf arbitrary: c rule: frames_text.induct)
  case (1 h0 buf)
  show ?case
  proof (cases "buf = []")
    case True
    then show ?thesis by (simp add: write_frames.simps frames_text.simps)
  next
    case False
    let ?n = "min MAX_FRAME (length buf)"
    let ?h = "frame_header (h0 OR (if length buf - ?n = 0 then op_Final else op_Continuation)) ?n"
    have n: "(if length buf > MAX_FRAME then MAX_FRAME else length buf) = ?n" by simp
    obtain r1 c1 where w1: "raw_write ?h c = (r1, c1)" by force
    obtain r2 c2 where w2: "raw_write (take ?n buf) c1 = (r2, c2)" by force
    have tn: "take ?n buf \<noteq> []" using False by (simp add: MAX_FRAME_def)
    have s1: "0 < r1" "sent c1 = sent c @ ?h"
      using 1(2) w1 frame_header_nonempty unfolding takes_all_def by (metis fst_conv snd_conv)+
    have s2: "0 < r2" "sent c2 = sent c1 @ take ?n buf"
      using 1(2) w2 tn unfolding takes_all_def by (metis fst_conv snd_conv)+
    have "write_frames raw_write close h0 buf c = write_frames raw_write close 0 (drop ?n buf) c2"
      using False s1(1) s2(1) w1 w2
      by (subst write_frames.simps) (simp only: n Let_def if_False prod.case not_le if_not_P)
    moreover have "sent (write_frames raw_write close 0 (drop ?n buf) c2) =
        sent c2 @ frames_text 0 (drop ?n buf)"
      using 1 False by simp
    moreover have "frames_text h0 buf = ?h @ take ?n buf @ frames_text 0 (drop ?n buf)"
      using False by (subst frames_text.simps) (simp add: Let_def)
    ultimately show ?thesis using s1(2) s2(2) by simp
  qed
qed

lemma continuation_not_final [simp]: "op_Continuation \<noteq> op_Final"
  by (simp add: op_defs)

lemma frames_text_step:
  assumes "buf \<noteq> []" "take_bit 4 h0 = h0"
  shows "rfc_frame (frames_text h0 buf @ t) =
    Some (length buf \<le> MAX_FRAME, h0, take MAX_FRAME buf, frames_text 0 (drop MAX_FRAME buf) @ t)"
proof -
  let ?n = "min MAX_FRAME (length buf)"
  let ?c = "if length buf - ?n = 0 then op_Final else op_Continuation"
  have c: "(?c = op_Final) = (length buf \<le> MAX_FRAME)" by (auto simp: op_defs)
  have "frames_text h0 buf @ t =
      frame_header (h0 OR ?c) (length (take MAX_FRAME buf)) @ take MAX_FRAME buf @
      frames_text 0 (drop MAX_FRAME buf) @ t"
    using assms(1) by (subst frames_text.simps) (simp add: Let_def min_def)
  then show ?thesis
    using rfc_frame_header [OF assms(2), of "take MAX_FRAME buf" ?c] by (simp add: c)
qed

lemma frames_text_fragments:
  "buf \<noteq> [] \<Longrightarrow> rfc_fragments (frames_text 0 buf @ t) = Some (buf, t)"
proof (induction "length buf" arbitrary: buf rule: less_induct)
  case less
  show ?case
  proof (cases "length buf \<le> MAX_FRAME")
    case True
    with less.prems show ?thesis
      by (subst rfc_fragments.simps) (simp add: frames_text_step frames_text.simps [of 0 "[]"])
  next
    case False
    have "length (drop MAX_FRAME buf) < length buf" "drop MAX_FRAME buf \<noteq> []"
      using False less.prems by (auto simp: MAX_FRAME_def)
    with less.hyps have "rfc_fragments (frames_text 0 (drop MAX_FRAME buf) @ t) =
        Some (drop MAX_FRAME buf, t)" by blast
    with False less.prems show ?thesis
      by (subst rfc_fragments.simps) (simp add: frames_text_step)
  qed
qed

lemma frames_text_message:
  assumes "buf \<noteq> []" "take_bit 4 h0 = h0" "h0 \<noteq> 0"
  shows "rfc_message (frames_text h0 buf @ t) = Some (h0, buf, t)"
proof (cases "length buf \<le> MAX_FRAME")
  case True
  with assms show ?thesis
    by (simp add: rfc_message_def frames_text_step frames_text.simps [of 0 "[]"])
next
  case False
  then have "drop MAX_FRAME buf \<noteq> []" by auto
  with False assms show ?thesis
    by (simp add: rfc_message_def frames_text_step frames_text_fragments)
qed

section \<open>Properties\<close>



text \<open>\<open>Write\<close> stops at the first \<open>raw_write\<close> that reports a closed connection: it closes
  the context once and hands over nothing more; a write that fails on the header sends no
  payload.\<close>

theorem websocket_write_closed:
  assumes "buf \<noteq> []" and "length buf \<le> MAX_FRAME"
    and "raw_write (frame_header (opcode OR op_Final) (length buf)) c = (r1, c1)"
    and "raw_write buf c1 = (r2, c2)"
  shows "ws_write raw_write close buf opcode c =
    (if r1 \<le> 0 then close c1 else if r2 \<le> 0 then close c2 else c2)"
  using assms
  by (simp add: ws_write_def write_frames.simps [of raw_write close opcode buf c]
      write_frames.simps [of raw_write close 0 "[]"])

theorem websocket_write_closed_witness:
  "ws_write (\<lambda>bs c. (- 1, c + (1 :: nat))) (\<lambda>c. c + 100) [1, 2] op_Binary 0 =
    (if (- 1 :: int) \<le> 0 then (0 + 1) + 100 else if (- 1 :: int) \<le> 0 then ((0 + 1) + 1) + 100 else (0 + 1) + 1)"
  by (rule websocket_write_closed) (simp_all add: MAX_FRAME_def)

text \<open>A client frame in the form the standard asks for (masked, payload shorter than 126) is
  never accepted by the frame parser with its payload length: the mask bit is counted into
  the length, and the assertion on the length fails.\<close>

theorem masked_client_frame_rejected:
  assumes "n < 126" and "length key = 4" and "length payload = n"
  shows "parse_frame (opcode # (of_nat n OR 128) # key @ payload) (of_nat n) = Inl AssertFailure"
proof -
  have p: "(128 :: byte) = push_bit 7 1" by simp
  have b: "bit (of_nat n OR 128 :: byte) 7" unfolding p by (simp add: bit_simps)
  have "\<not> bit (0 :: byte) 7" "\<not> bit (0x7E :: byte) 7" "\<not> bit (0x7F :: byte) 7" by code_simp+
  with b have ne: "(of_nat n OR 128 :: byte) \<noteq> 0" "(of_nat n OR 128 :: byte) \<noteq> 0x7E"
    "(of_nat n OR 128 :: byte) \<noteq> 0x7F" by metis+
  have "bit (ucast (of_nat n OR 128 :: byte) :: size_t) 7" using b by (simp add: bit_simps)
  moreover have "\<not> bit (of_nat n :: size_t) 7"
  proof -
    have "take_bit 7 (of_nat n :: size_t) = of_nat n"
      using assms(1) by (simp add: take_bit_of_nat take_bit_nat_eq_self)
    then show ?thesis by (metis bit_take_bit_iff less_irrefl)
  qed
  ultimately have "(ucast (of_nat n OR 128 :: byte) :: size_t) \<noteq> of_nat n" by metis
  with ne assms show ?thesis by (simp add: parse_frame_def read_le_def)
qed

theorem masked_client_frame_rejected_witness:
  "parse_frame (0x81 # (of_nat 2 OR 128) # [1, 2, 3, 4] @ [0x69, 0x6B]) (of_nat 2) = Inl AssertFailure"
  by (rule masked_client_frame_rejected) simp_all

end
