(* ===== verification/Websocket_Server.thy ===== *)
theory Websocket_Server
  imports Websocket_Frames
begin

text \<open>
  The receiving side of websockets: \<open>WebsocketProcess\<close> and \<open>WebsocketRoute\<close>
  (\<open>websocketProcess.h\<close>, \<open>src/websocket/websocketProcess.cc\<close>), the base \<open>websocket::Server\<close>
  (\<open>websocketServer.h\<close>, \<open>src/websocket/websocketServer.cc\<close>) and the handlers of
  \<open>MongooseServer\<close> that feed it (\<open>src/mongoose/server.cc\<close>).
\<close>

section \<open>Processes\<close>

text \<open>The virtual operations of a process act on the state of the derived class.\<close>

record 'p callbacks =
  OnConnect :: "'p \<Rightarrow> bool \<times> 'p"
  OnReady :: "'p \<Rightarrow> bool \<times> 'p"
  OnClose :: "'p \<Rightarrow> 'p"
  OnReceiveText :: "byte list \<Rightarrow> 'p \<Rightarrow> bool \<times> 'p"
  OnReceiveBinary :: "byte list \<Rightarrow> 'p \<Rightarrow> bool \<times> 'p"

definition default_callbacks :: "'p callbacks" where
  "default_callbacks =
     \<lparr>OnConnect = \<lambda>p. (True, p), OnReady = \<lambda>p. (True, p), OnClose = \<lambda>p. p,
      OnReceiveText = \<lambda>_ p. (True, p), OnReceiveBinary = \<lambda>_ p. (True, p)\<rparr>"

record 'p process =
  ongoingMessage :: "ws_message option"
  proc :: 'p

definition new_process :: "'p \<Rightarrow> 'p process" where
  "new_process p = \<lparr>ongoingMessage = None, proc = p\<rparr>"

text \<open>\<open>OnReceiveMessage\<close>: the opcodes are tested bit by bit.\<close>

definition on_receive_message :: "'p callbacks \<Rightarrow> ws_message \<Rightarrow> 'p \<Rightarrow> bool \<times> 'p" where
  "on_receive_message cb m p =
     (if opCode m AND op_Text \<noteq> 0 then OnReceiveText cb (ws_data m) p
      else if opCode m AND op_Binary \<noteq> 0 then OnReceiveBinary cb (ws_data m) p
      else (True, p))"

definition on_receive_frame :: "'p callbacks \<Rightarrow> frame \<Rightarrow> 'p process \<Rightarrow> (bool \<times> 'p process) result" where
  "on_receive_frame cb f pr =
     bindE (case ongoingMessage pr of None \<Rightarrow> message_of_frame f | Some m \<Rightarrow> ingest f m)
       (\<lambda>m. if isFinished (info f) then
              let (rtn, p) = on_receive_message cb m (proc pr)
              in Inr (rtn, \<lparr>ongoingMessage = None, proc = p\<rparr>)
            else Inr (True, pr\<lparr>ongoingMessage := Some m\<rparr>))"

text \<open>\<open>WebsocketRoute::Handle\<close>, with \<open>CreateProcessor\<close> as what it creates.\<close>

definition ws_route_handle :: "'p callbacks \<Rightarrow> string \<Rightarrow> 'p \<Rightarrow> string \<Rightarrow> 'p process option" where
  "ws_route_handle cb route created uri =
     (if cstr route = cstr uri then
        let (connected, p) = OnConnect cb created
        in if connected then Some (new_process p) else None
      else None)"

section \<open>The server\<close>

text \<open>A connection handle is an address. A null pointer in the map of processes is \<open>None\<close>;
  \<open>operator[]\<close> leaves one behind.\<close>

type_synonym 'p ws_handler_fn = "string \<Rightarrow> 'p process option"

record 'p ws_server =
  processes :: "(nat, 'p process option) std_map"
  wsHandlers :: "'p ws_handler_fn list"

definition new_ws_server :: "'p ws_server" where
  "new_ws_server = \<lparr>processes = [], wsHandlers = []\<rparr>"

definition add_ws_handler :: "'p ws_handler_fn \<Rightarrow> 'p ws_server \<Rightarrow> 'p ws_server" where
  "add_ws_handler h srv = srv\<lparr>wsHandlers := wsHandlers srv @ [h]\<rparr>"

fun first_handler :: "'p ws_handler_fn list \<Rightarrow> string \<Rightarrow> 'p process option" where
  "first_handler [] uri = None"
| "first_handler (h # hs) uri = (case h uri of Some pr \<Rightarrow> Some pr | None \<Rightarrow> first_handler hs uri)"

definition handle_ws :: "string \<Rightarrow> 'p ws_server \<Rightarrow> 'p process option" where
  "handle_ws uri srv = first_handler (wsHandlers srv) uri"

definition server_on_ready :: "'p callbacks \<Rightarrow> nat \<Rightarrow> 'p ws_server \<Rightarrow> 'p ws_server" where
  "server_on_ready cb handle srv =
     (let (process, ps) = std_at None handle (processes srv)
      in case process of
           None \<Rightarrow> srv\<lparr>processes := ps\<rparr>
         | Some pr \<Rightarrow>
             srv\<lparr>processes := std_set handle (Some (pr\<lparr>proc := snd (OnReady cb (proc pr))\<rparr>)) ps\<rparr>)"

text \<open>\<open>Server::Close\<close>: the process that is deleted, after its \<open>OnClose\<close>, and the server.\<close>

definition server_close :: "'p callbacks \<Rightarrow> nat \<Rightarrow> 'p ws_server \<Rightarrow> ('p \<times> 'p ws_server) result" where
  "server_close cb handle srv =
     (let (process, ps) = std_at None handle (processes srv)
      in case process of
           None \<Rightarrow> Inl AssertFailure
         | Some pr \<Rightarrow> Inr (OnClose cb (proc pr), srv\<lparr>processes := std_erase handle ps\<rparr>))"

section \<open>The mongoose handlers\<close>

definition mongoose_handle_ws :: "string \<Rightarrow> nat \<Rightarrow> 'p ws_server \<Rightarrow> 'p process option \<times> 'p ws_server" where
  "mongoose_handle_ws uri conn srv =
     (case handle_ws uri srv of
        None \<Rightarrow> (None, srv)
      | Some pr \<Rightarrow> (Some pr, srv\<lparr>processes := std_set conn (Some pr) (processes srv)\<rparr>))"

text \<open>\<open>_wsHandler\<close>: 0 accepts the connection.\<close>

definition ws_handler :: "string \<Rightarrow> nat \<Rightarrow> 'p ws_server \<Rightarrow> int \<times> 'p ws_server" where
  "ws_handler uri conn srv =
     (case mongoose_handle_ws uri conn srv of
        (None, srv') \<Rightarrow> (1, srv')
      | (Some _, srv') \<Rightarrow> (0, srv'))"

definition ws_ready :: "'p callbacks \<Rightarrow> nat \<Rightarrow> 'p ws_server \<Rightarrow> 'p ws_server" where
  "ws_ready cb conn srv = server_on_ready cb conn srv"

text \<open>\<open>_wsReceive\<close>: what it returns, the process it has deleted (if so), the server.\<close>

definition ws_receive ::
  "'p callbacks \<Rightarrow> nat \<Rightarrow> byte \<Rightarrow> byte list \<Rightarrow> size_t \<Rightarrow> 'p ws_server \<Rightarrow> (bool \<times> 'p option \<times> 'p ws_server) result" where
  "ws_receive cb conn bits buf len srv =
     (let (process, ps) = std_at None conn (processes srv)
      in case process of
           None \<Rightarrow> Inl AssertFailure
         | Some pr \<Rightarrow>
             (let f = frame_of bits buf len
              in if frame_opcode (info f) AND op_Close \<noteq> 0 then
                   Inr (True, Some (OnClose cb (proc pr)), srv\<lparr>processes := std_erase conn ps\<rparr>)
                 else bindE (on_receive_frame cb f pr)
                   (\<lambda>(rtn, pr'). Inr (rtn, None, srv\<lparr>processes := std_set conn (Some pr') ps\<rparr>))))"

definition mongoose_close :: "'p callbacks \<Rightarrow> nat \<Rightarrow> 'p ws_server \<Rightarrow> ('p \<times> 'p ws_server) result" where
  "mongoose_close cb conn srv =
     (let (process, ps) = std_at None conn (processes srv)
      in case process of
           None \<Rightarrow> Inl AssertFailure
         | Some pr \<Rightarrow> Inr (OnClose cb (proc pr), srv\<lparr>processes := std_erase conn ps\<rparr>))"

section \<open>Laws\<close>

lemma frame_of_simps [simp]:
  "fi_length (info (frame_of opcode buf len)) = len"
  "frame_data (frame_of opcode buf len) = buf"
  by (simp_all add: frame_of_def frame_init_def)

lemma byte_and_max: "(x :: byte) AND 0xFF = x"
proof -
  have "(0xFF :: byte) = - 1" by simp
  then show ?thesis by (simp only: and.right_neutral)
qed

lemma frame_opcode_of: "frame_opcode (info (frame_of opcode buf len)) = opcode AND 0xEF"
  by (simp add: frame_of_def frame_init_def frame_opcode_def byte_and_max)

lemma close_bit_kept: "(opcode AND 0xEF) AND op_Close = opcode AND op_Close"
proof -
  have "(0xEF AND op_Close) = op_Close" by (simp add: op_defs)
  then show ?thesis by (simp only: and.assoc)
qed

lemma finished_iff_close_bit:
  "isFinished (info (frame_of opcode buf len)) \<longleftrightarrow> opcode AND op_Close \<noteq> 0"
  by (simp add: frame_of_def frame_init_def word_neq_0_conv)

lemma ingest_opcode: "ingest f m = Inr m' \<Longrightarrow> opCode m' = opCode m \<and> opCode m = frame_opcode (info f)"
  by (auto simp: ingest_def Let_def split: if_splits)

lemma message_of_frame_opcode: "message_of_frame f = Inr m \<Longrightarrow> opCode m = frame_opcode (info f)"
  by (auto simp: message_of_frame_def dest: ingest_opcode)

text \<open>Between frames a process never holds a message whose frames end messages.\<close>

definition process_inv :: "'p process \<Rightarrow> bool" where
  "process_inv pr \<longleftrightarrow> (\<forall>m. ongoingMessage pr = Some m \<longrightarrow> opCode m AND op_Close = 0)"

lemma process_inv_new [simp]: "process_inv (new_process p)"
  by (simp add: process_inv_def new_process_def)

lemma npos_max: "\<not> npos < w"
  unfolding npos_def by (simp add: not_less)

lemma message_of_frame_eq:
  "length buf = unat len \<Longrightarrow> message_of_frame (frame_of opcode buf len) =
     Inr \<lparr>opCode = frame_opcode (info (frame_of opcode buf len)), ws_data = buf, frameLength = 1\<rparr>"
  by (auto simp: message_of_frame_def ingest_def Let_def npos_max size_of_def)

section \<open>Properties\<close>

text \<open>C34: through mongoose no text and no binary message ever reaches a process: whatever frame
  comes, either the connection is closed and its process deleted, or the call leaves the state
  of every process as it was. The bit that \<open>Frame::Init\<close> takes for the end of a message is the
  one that \<open>_wsReceive\<close> takes for a close frame (and the first bit, which means the end in
  RFC 6455, is never looked at).\<close>

theorem mongoose_delivers_no_message:
  assumes "std_ok (processes srv)"
    and "ws_receive cb conn bits buf len srv = Inr (rtn, closed, srv')"
    and "std_find c (processes srv') = Some (Some pr')"
  shows "\<exists>pr. std_find c (processes srv) = Some (Some pr) \<and> proc pr' = proc pr"
proof -
  obtain process ps where sa: "std_at None conn (processes srv) = (process, ps)" by force
  with assms(2) obtain pr where pr: "process = Some pr"
    by (auto simp: ws_receive_def split: option.splits)
  with sa have f: "std_find conn (processes srv) = Some (Some pr)" and ps: "ps = processes srv"
    by (auto simp: std_at_find split: option.splits)
  let ?f = "frame_of bits buf len"
  show ?thesis
  proof (cases "bits AND op_Close \<noteq> 0")
    case True
    then have "frame_opcode (info ?f) AND op_Close \<noteq> 0"
      unfolding frame_opcode_of close_bit_kept .
    with assms(2) sa pr ps have "processes srv' = std_erase conn (processes srv)"
      by (auto simp: ws_receive_def Let_def)
    with assms(1,3) show ?thesis by (auto split: if_splits)
  next
    case False
    then have "frame_opcode (info ?f) AND op_Close = 0" "\<not> isFinished (info ?f)"
      unfolding frame_opcode_of close_bit_kept finished_iff_close_bit by simp_all
    with assms(2) sa pr ps obtain m where
      "processes srv' = std_set conn (Some (pr\<lparr>ongoingMessage := Some m\<rparr>)) (processes srv)"
      by (auto simp: ws_receive_def Let_def on_receive_frame_def result_simps)
    with assms(3) f show ?thesis by (auto split: if_splits)
  qed
qed

theorem mongoose_delivers_no_message_witness:
  "\<exists>srv' pr'. ws_receive (default_callbacks\<lparr>OnReceiveText := \<lambda>bs p. (True, p @ bs)\<rparr>) 7 0x81 [104, 105] 2
      \<lparr>processes = [(7, Some (new_process []))], wsHandlers = []\<rparr> = Inr (True, None, srv') \<and>
    std_find 7 (processes srv') = Some (Some pr') \<and>
    (\<exists>pr. std_find (7 :: nat) [(7, Some (new_process ([] :: byte list)))] = Some (Some pr) \<and> proc pr' = proc pr)"
proof -
  let ?cb = "default_callbacks\<lparr>OnReceiveText := \<lambda>bs p. (True, p @ bs)\<rparr>"
  let ?srv = "\<lparr>processes = [(7, Some (new_process []))], wsHandlers = []\<rparr>"
  let ?m = "\<lparr>opCode = 0x81, ws_data = [104, 105], frameLength = 1\<rparr>"
  let ?srv' = "\<lparr>processes = [(7, Some \<lparr>ongoingMessage = Some ?m, proc = []\<rparr>)], wsHandlers = []\<rparr>"
  have "frame_opcode (info (frame_of 0x81 [104, 105] 2)) = 0x81" by (simp add: frame_opcode_of)
  moreover have "\<not> isFinished (info (frame_of 0x81 [104, 105] 2))"
    by (simp add: finished_iff_close_bit op_defs)
  ultimately have r: "ws_receive ?cb 7 0x81 [104, 105] 2 ?srv = Inr (True, None, ?srv')"
    using message_of_frame_eq [of "[104, 105]" 2 "0x81"]
    by (simp add: ws_receive_def on_receive_frame_def new_process_def op_defs std_at_def)
  have ok: "std_ok (processes ?srv)" by (simp add: std_ok_def)
  have f: "std_find 7 (processes ?srv') = Some (Some \<lparr>ongoingMessage = Some ?m, proc = []\<rparr>)"
    by (simp add: std_find_def)
  have "\<exists>pr. std_find (7 :: nat) [(7, Some (new_process ([] :: byte list)))] = Some (Some pr) \<and>
      proc \<lparr>ongoingMessage = Some ?m, proc = []\<rparr> = proc pr"
    using mongoose_delivers_no_message [OF ok r f] by simp
  with r f show ?thesis by blast
qed

text \<open>\<open>OnReceiveFrame\<close> on frames built by \<open>Frame(opcode, data, length)\<close> delivers a message
  exactly when one frame with the close bit arrives while nothing is pending, and then
  its payload only: a message of several frames is never delivered.\<close>

theorem receive_frame_single:
  assumes "process_inv pr" and "length buf = unat len"
    and "on_receive_frame cb (frame_of opcode buf len) pr = Inr (rtn, pr')"
  shows "process_inv pr' \<and>
    (if opcode AND op_Close \<noteq> 0
     then ongoingMessage pr = None \<and> ongoingMessage pr' = None \<and>
       (rtn, proc pr') = on_receive_message cb
          \<lparr>opCode = opcode AND 0xEF, ws_data = buf, frameLength = 1\<rparr> (proc pr)
     else ongoingMessage pr' \<noteq> None \<and> proc pr' = proc pr)"
proof -
  let ?f = "frame_of opcode buf len"
  obtain m where m: "(case ongoingMessage pr of None \<Rightarrow> message_of_frame ?f | Some m \<Rightarrow> ingest ?f m) = Inr m"
    using assms(3) by (auto simp: on_receive_frame_def result_simps)
  then have op: "opCode m = opcode AND 0xEF"
    by (auto simp: frame_opcode_of dest: ingest_opcode message_of_frame_opcode split: option.splits)
  show ?thesis
  proof (cases "opcode AND op_Close \<noteq> 0")
    case True
    have none: "ongoingMessage pr = None"
    proof (cases "ongoingMessage pr")
      case (Some m0)
      with m have "opCode m0 = opcode AND 0xEF" by (auto simp: frame_opcode_of dest: ingest_opcode)
      with Some assms(1) have "(opcode AND 0xEF) AND op_Close = 0" by (simp add: process_inv_def)
      with True show ?thesis by (simp only: close_bit_kept)
    qed
    with m message_of_frame_eq [OF assms(2)]
    have "m = \<lparr>opCode = opcode AND 0xEF, ws_data = buf, frameLength = 1\<rparr>"
      by (simp add: frame_opcode_of)
    with assms(3) m True none show ?thesis
      by (auto simp: on_receive_frame_def finished_iff_close_bit process_inv_def split: prod.splits)
  next
    case False
    then have "\<not> isFinished (info ?f)" by (simp add: finished_iff_close_bit)
    with assms(3) m have "pr' = pr\<lparr>ongoingMessage := Some m\<rparr>" by (simp add: on_receive_frame_def)
    with False op show ?thesis by (simp add: process_inv_def close_bit_kept)
  qed
qed

theorem receive_frame_single_witness:
  "\<exists>rtn pr'. on_receive_frame (default_callbacks\<lparr>OnReceiveText := \<lambda>bs p. (True, p @ bs)\<rparr>)
      (frame_of 0x09 [1, 2] 2) (new_process []) = Inr (rtn, pr') \<and> proc pr' = [1, 2]"
proof -
  let ?cb = "default_callbacks\<lparr>OnReceiveText := \<lambda>bs p. (True, p @ bs)\<rparr>"
  let ?pr = "\<lparr>ongoingMessage = None, proc = [1, 2 :: byte]\<rparr>"
  have r: "on_receive_frame ?cb (frame_of 0x09 [1, 2] 2) (new_process []) = Inr (True, ?pr)"
    using message_of_frame_eq [of "[1, 2]" 2 "0x09"]
    by (simp add: on_receive_frame_def new_process_def finished_iff_close_bit on_receive_message_def
        frame_opcode_of op_defs)
  have "(True, proc ?pr) = on_receive_message ?cb \<lparr>opCode = 0x09 AND 0xEF, ws_data = [1, 2], frameLength = 1\<rparr> []"
    using receive_frame_single [OF process_inv_new _ r] by (simp add: op_defs new_process_def)
  with r show ?thesis by auto
qed

text \<open>Routing of a websocket request: the first registered handler that answers wins, a
  route answers only to its exact path and only when its process accepts the connection, and
  mongoose then files the process under the connection.\<close>

theorem ws_handler_routes:
  assumes "wsHandlers srv = map (\<lambda>(route, created). ws_route_handle cb route created) routes"
    and "filter (\<lambda>(route, created). cstr route = cstr uri \<and> fst (OnConnect cb created)) routes = (route, created) # others"
  shows "ws_handler uri conn srv =
    (0, srv\<lparr>processes := std_set conn (Some (new_process (snd (OnConnect cb created)))) (processes srv)\<rparr>)"
proof -
  have "first_handler (map (\<lambda>(route, created). ws_route_handle cb route created) routes) uri =
      Some (new_process (snd (OnConnect cb created)))"
    using assms(2)
  proof (induction routes)
    case (Cons r rs)
    obtain route' created' where r: "r = (route', created')" by force
    show ?case
    proof (cases "cstr route' = cstr uri \<and> fst (OnConnect cb created')")
      case True
      with Cons.prems show ?thesis by (auto simp: r ws_route_handle_def split: prod.splits)
    next
      case False
      then have "ws_route_handle cb route' created' uri = None"
        by (auto simp: ws_route_handle_def split: prod.splits)
      moreover have "filter (\<lambda>(route, created). cstr route = cstr uri \<and> fst (OnConnect cb created)) rs =
          (route, created) # others"
        using Cons.prems False by (auto simp: r split: if_splits)
      ultimately show ?thesis using Cons.IH by (simp add: r)
    qed
  qed simp
  then show ?thesis
    by (simp add: ws_handler_def mongoose_handle_ws_def handle_ws_def assms(1))
qed

theorem ws_handler_routes_witness:
  "ws_handler ''/b'' 7 \<lparr>processes = [], wsHandlers = map (\<lambda>(route, created). ws_route_handle default_callbacks route created)
      [(''/a'', 1), (''/b'', 2 :: nat), (''/b'', 3)]\<rparr> =
    (0, \<lparr>processes = [], wsHandlers = map (\<lambda>(route, created). ws_route_handle default_callbacks route created)
      [(''/a'', 1), (''/b'', 2), (''/b'', 3)]\<rparr>\<lparr>processes := std_set 7 (Some (new_process (snd (OnConnect default_callbacks 2)))) []\<rparr>)"
  by (subst ws_handler_routes [where routes = "[(''/a'', 1), (''/b'', 2), (''/b'', 3)]" and cb = default_callbacks
        and route = "''/b''" and created = 2 and others = "[(''/b'', 3)]"])
    (simp_all add: default_callbacks_def)

end
