(* ===== verification/Routing.thy ===== *)
theory Routing
  imports Http_Enums
begin

text \<open>
  Route matching (\<open>include/rikitiki/routing.h\<close>, \<open>include/rikitiki/routing.tcc\<close>,
  \<open>src/routing.cc\<close>): \<open>modern_sscanf\<close> reads a path along a format such as
  \<open>/item/{id}/{name}\<close>. The stream is modelled with the state bits that its operations set,
  as in the C++ standard and libstdc++.
\<close>

section \<open>The input stream\<close>

text \<open>The unread characters, the character read last, and the two state bits.\<close>

record stream =
  unread :: string
  eofbit :: bool
  failbit :: bool

definition new_stream :: "string \<Rightarrow> stream" where
  "new_stream s = \<lparr>unread = s, eofbit = False, failbit = False\<rparr>"

definition good :: "stream \<Rightarrow> bool" where
  "good b \<longleftrightarrow> \<not> eofbit b \<and> \<not> failbit b"

text \<open>\<open>peek\<close> and \<open>get\<close> give a character or \<open>EOF\<close> (\<open>None\<close>). Either sets the
  fail bit on a stream that is not good.\<close>

definition peek :: "stream \<Rightarrow> char option \<times> stream" where
  "peek b =
     (if \<not> good b then (None, b\<lparr>failbit := True\<rparr>)
      else case unread b of [] \<Rightarrow> (None, b\<lparr>eofbit := True\<rparr>) | c # _ \<Rightarrow> (Some c, b))"

definition get :: "stream \<Rightarrow> char option \<times> stream" where
  "get b =
     (if \<not> good b then (None, b\<lparr>failbit := True\<rparr>)
      else case unread b of
          [] \<Rightarrow> (None, b\<lparr>eofbit := True, failbit := True\<rparr>)
        | c # s \<Rightarrow> (Some c, b\<lparr>unread := s\<rparr>))"

text \<open>\<open>unget\<close> after \<open>get\<close> gave the argument: it clears the end bit first.\<close>

definition unget :: "char option \<Rightarrow> stream \<Rightarrow> stream" where
  "unget v b =
     (if failbit b then b\<lparr>eofbit := False\<rparr>
      else case v of None \<Rightarrow> b\<lparr>eofbit := False, failbit := True\<rparr>
        | Some c \<Rightarrow> b\<lparr>eofbit := False, unread := c # unread b\<rparr>)"

text \<open>What \<open>peek\<close> gives as an \<open>int\<close> and cast to \<open>char\<close>: \<open>EOF\<close> is -1.\<close>

definition int_of_peek :: "char option \<Rightarrow> int" where
  "int_of_peek v = (case v of None \<Rightarrow> - 1 | Some c \<Rightarrow> of_char c)"

definition char_of_peek :: "char option \<Rightarrow> char" where
  "char_of_peek v = (case v of None \<Rightarrow> CHR 0xFF | Some c \<Rightarrow> c)"

text \<open>\<open>operator>>\<close> on an \<open>int\<close>: white space is skipped, then a sign and digits; a value out
  of range is a failure. (After a failure nothing else is read here.)\<close>

definition extract_int :: "stream \<Rightarrow> int option \<times> stream" where
  "extract_int b =
     (if \<not> good b then (None, b\<lparr>failbit := True\<rparr>)
      else
        (let s = dropWhile isspace_c (unread b);
             (neg, s1) = take_sign s;
             digits = takeWhile (is_digit_in 10) s1;
             rest = drop (length digits) s1;
             v = (if neg then - int (digits_value 10 digits) else int (digits_value 10 digits));
             b1 = b\<lparr>unread := rest, eofbit := rest = []\<rparr>
         in if digits = [] \<or> v < - (2 ^ 31) \<or> 2 ^ 31 \<le> v then (None, b1\<lparr>failbit := True\<rparr>)
            else (Some v, b1)))"

section \<open>Formats\<close>

text \<open>\<open>skip_to_format\<close>: the format pointer is the rest of the string, NUL at its end.\<close>

fun skip_to_format :: "stream \<Rightarrow> string \<Rightarrow> bool \<times> stream \<times> string" where
  "skip_to_format b [] =
     (let (v, b1) = peek b
      in if int_of_peek v \<noteq> 0 then (False, b1, [])
         else (False, snd (peek b1), []))"
| "skip_to_format b (f # format) =
     (if f = CHR ''{'' then (True, b, f # format)
      else
        (let (v, b1) = peek b
         in if int_of_peek v \<noteq> schar f then (False, b1, f # format)
            else
              (let (v2, b2) = peek b1
               in if int_of_peek v2 = 0 then (False, b2, f # format)
                  else skip_to_format (snd (get b2)) format)))"

fun skip_to_unformat :: "string \<Rightarrow> bool \<times> string" where
  "skip_to_unformat [] = (False, [])"
| "skip_to_unformat (f # format) =
     (if f = CHR ''}'' then (True, format) else skip_to_unformat format)"

text \<open>The characters of a string argument.\<close>

definition accept_char :: "char \<Rightarrow> bool" where
  "accept_char c =
     (let v = (of_char c :: int)
      in (48 \<le> v \<and> v \<le> 59) \<or> (64 \<le> v \<and> v \<le> 90) \<or> (95 \<le> v \<and> v \<le> 122) \<or> v = 37 \<or> v = 45)"

fun extract_string_loop :: "nat \<Rightarrow> stream \<Rightarrow> string \<Rightarrow> string \<times> stream" where
  "extract_string_loop 0 b t = (t, b)"
| "extract_string_loop (Suc n) b t =
     (if \<not> good b then (t, b)
      else
        (let (v, b1) = get b
         in case v of
              Some c \<Rightarrow> if accept_char c then extract_string_loop n b1 (t @ [c]) else (t, unget v b1)
            | None \<Rightarrow> (t, unget v b1)))"

text \<open>A pass of the loop uses up a character or is the last one.\<close>

definition extract_string :: "stream \<Rightarrow> string option \<times> stream" where
  "extract_string b =
     (let (t, b1) = extract_string_loop (Suc (length (unread b))) b []
      in (if t = [] then None else Some t, b1))"

text \<open>The argument types of a route, and the values it reads for them.\<close>

datatype arg_type = Int_Type | String_Type

datatype arg = Int_Arg int | String_Arg string

definition extract_arg :: "arg_type \<Rightarrow> stream \<Rightarrow> arg option \<times> stream" where
  "extract_arg ty b =
     (case ty of
        Int_Type \<Rightarrow> (case extract_int b of (v, b1) \<Rightarrow> (map_option Int_Arg v, b1))
      | String_Type \<Rightarrow> (case extract_string b of (v, b1) \<Rightarrow> (map_option String_Arg v, b1)))"

text \<open>\<open>modern_sscanf\<close> without arguments: the rest of the path against the rest of the
  format.\<close>

fun scan_rest :: "stream \<Rightarrow> string \<Rightarrow> nat" where
  "scan_rest b [] = (if char_of_peek (fst (peek b)) = CHR 0xFF then 1 else 0)"
| "scan_rest b (f # format) =
     (if eofbit b then 0
      else
        (let (v, b1) = peek b
         in if char_of_peek v \<noteq> f then 0
            else let (_, b2) = get b1 in if good b2 then scan_rest b2 format else 0))"

text \<open>With arguments: the count, and the arguments that were read.\<close>

fun modern_sscanf :: "stream \<Rightarrow> string \<Rightarrow> arg_type list \<Rightarrow> nat \<times> arg list" where
  "modern_sscanf b format [] = (scan_rest b format, [])"
| "modern_sscanf b format (ty # tys) =
     (case skip_to_format b format of
        (False, _, _) \<Rightarrow> (0, [])
      | (True, b1, format1) \<Rightarrow>
          (case extract_arg ty b1 of
             (None, _) \<Rightarrow> (0, [])
           | (Some a, b2) \<Rightarrow>
               (case modern_sscanf b2 (snd (skip_to_unformat format1)) tys of
                  (n, args) \<Rightarrow> (1 + n, a # args))))"

section \<open>Routes\<close>

record route =
  route_path :: string
  route_method :: request_method

definition new_route :: "string \<Rightarrow> request_method \<Rightarrow> route" where
  "new_route r m = \<lparr>route_path = r, route_method = m\<rparr>"

definition new_route_any :: "string \<Rightarrow> route" where
  "new_route_any r = \<lparr>route_path = r, route_method = RM_ANY\<rparr>"

definition route_name :: "route \<Rightarrow> string" where
  "route_name r = route_path r"

text \<open>\<open>Route_<P, T...>::Scan\<close> (and \<open>ScanTest\<close>, the same on a request).\<close>

definition route_scan :: "route \<Rightarrow> arg_type list \<Rightarrow> string \<Rightarrow> nat \<times> arg list" where
  "route_scan r tys uri = modern_sscanf (new_stream (cstr uri)) (cstr (route_path r)) tys"

definition route_method_ok :: "route \<Rightarrow> request_method \<Rightarrow> bool" where
  "route_method_ok r m \<longleftrightarrow> \<not> (route_method r \<noteq> RM_ANY \<and> route_method r \<noteq> m)"

text \<open>\<open>CanHandle\<close> of a route with arguments and of one without.\<close>

definition route_args_can_handle :: "route \<Rightarrow> arg_type list \<Rightarrow> request_method \<Rightarrow> string \<Rightarrow> bool" where
  "route_args_can_handle r tys m uri \<longleftrightarrow>
     route_method_ok r m \<and> fst (route_scan r tys uri) = length tys + 1"

definition route_plain_can_handle :: "route \<Rightarrow> request_method \<Rightarrow> string \<Rightarrow> bool" where
  "route_plain_can_handle r m uri \<longleftrightarrow>
     cstr (route_path r) = cstr uri \<and> (route_method r = RM_ANY \<or> route_method r = m)"

definition route_visible :: "route \<Rightarrow> bool" where
  "route_visible r \<longleftrightarrow> route_method r = RM_GET \<or> route_method r = RM_ANY"

section \<open>Paths written along a format\<close>

text \<open>A format as its pieces: a literal, then a variable of a type, and so on; and the path
  that has arguments in their places.\<close>

type_synonym piece = "string \<times> arg_type \<times> string"

fun format_text :: "piece list \<Rightarrow> string \<Rightarrow> string" where
  "format_text [] end_lit = end_lit"
| "format_text ((lit, ty, var) # ps) end_lit =
     lit @ CHR ''{'' # var @ CHR ''}'' # format_text ps end_lit"

fun arg_text :: "arg \<Rightarrow> string" where
  "arg_text (Int_Arg v) = (if v < 0 then CHR ''-'' # show_dec (nat (- v)) else show_dec (nat v))"
| "arg_text (String_Arg s) = s"

fun path_text :: "piece list \<Rightarrow> arg list \<Rightarrow> string \<Rightarrow> string" where
  "path_text ((lit, ty, var) # ps) (a # as) end_lit = lit @ arg_text a @ path_text ps as end_lit"
| "path_text _ _ end_lit = end_lit"

text \<open>Literals are ASCII text without braces; an argument fits its type; and the text after an
  argument does not continue it.\<close>

definition literal :: "string \<Rightarrow> bool" where
  "literal l \<longleftrightarrow> (\<forall>c \<in> set l. c \<noteq> CHR ''{'' \<and> c \<noteq> NUL \<and> (of_char c :: nat) < 128)"

fun arg_ok :: "arg_type \<Rightarrow> arg \<Rightarrow> bool" where
  "arg_ok Int_Type (Int_Arg v) \<longleftrightarrow> - (2 ^ 31) \<le> v \<and> v < 2 ^ 31"
| "arg_ok String_Type (String_Arg s) \<longleftrightarrow> s \<noteq> [] \<and> (\<forall>c \<in> set s. accept_char c)"
| "arg_ok _ _ \<longleftrightarrow> False"

definition arg_stops :: "arg_type \<Rightarrow> string \<Rightarrow> bool" where
  "arg_stops ty rest \<longleftrightarrow>
     rest = [] \<or> \<not> (case ty of Int_Type \<Rightarrow> is_digit_in 10 (hd rest) | String_Type \<Rightarrow> accept_char (hd rest))"

fun path_ok :: "piece list \<Rightarrow> arg list \<Rightarrow> string \<Rightarrow> bool" where
  "path_ok [] [] end_lit \<longleftrightarrow> literal end_lit"
| "path_ok ((lit, ty, var) # ps) (a # as) end_lit \<longleftrightarrow>
     literal lit \<and> CHR ''}'' \<notin> set var \<and> nul_free var \<and> arg_ok ty a \<and>
     arg_stops ty (path_text ps as end_lit) \<and> path_ok ps as end_lit"
| "path_ok _ _ _ \<longleftrightarrow> False"

lemma good_simps [simp]:
  "good \<lparr>unread = s, eofbit = False, failbit = False\<rparr>"
  "\<not> good \<lparr>unread = s, eofbit = e, failbit = True\<rparr>"
  "\<not> good \<lparr>unread = s, eofbit = True, failbit = f\<rparr>"
  by (simp_all add: good_def)

abbreviation fresh :: "string \<Rightarrow> stream" where
  "fresh s \<equiv> \<lparr>unread = s, eofbit = False, failbit = False\<rparr>"

lemma literal_simps [simp]:
  "literal []"
  "literal (c # l) \<longleftrightarrow> c \<noteq> CHR ''{'' \<and> c \<noteq> NUL \<and> (of_char c :: nat) < 128 \<and> literal l"
  by (auto simp: literal_def)

lemma peek_fresh [simp]:
  "peek (fresh (c # s)) = (Some c, fresh (c # s))"
  "peek (fresh []) = (None, \<lparr>unread = [], eofbit = True, failbit = False\<rparr>)"
  "get (fresh (c # s)) = (Some c, fresh s)"
  by (simp_all add: peek_def get_def)

lemma of_char_int: "(of_char c :: int) = int (of_char c)"
  by (rule of_nat_of_char [symmetric])

lemma schar_ascii: "(of_char c :: nat) < 128 \<Longrightarrow> schar c = int (of_char c)"
  unfolding schar_def of_char_int Let_def by simp

lemma int_of_peek_schar [simp]:
  "(of_char f :: nat) < 128 \<Longrightarrow> int_of_peek (Some c) = schar f \<longleftrightarrow> c = f"
  by (simp add: int_of_peek_def schar_ascii of_char_int del: of_nat_of_char)

lemma int_of_peek_0 [simp]: "int_of_peek (Some c) = 0 \<longleftrightarrow> c = NUL"
proof -
  have "(of_char c :: nat) = of_char NUL \<longleftrightarrow> c = NUL" by (rule of_char_eq_iff)
  then show ?thesis by (simp add: int_of_peek_def of_char_int del: of_nat_of_char)
qed

lemma int_of_peek_None [simp]: "int_of_peek None = - 1"
  by (simp add: int_of_peek_def)

lemma skip_to_format_literal:
  "literal l \<Longrightarrow> skip_to_format (fresh (l @ s)) (l @ CHR ''{'' # f) = (True, fresh s, CHR ''{'' # f)"
  by (induction l) auto

lemma skip_to_unformat_var:
  "CHR ''}'' \<notin> set var \<Longrightarrow> skip_to_unformat (var @ CHR ''}'' # f) = (True, f)"
  by (induction var) auto

text \<open>The stream after an argument: it goes on with the text behind it, or is no longer good
  at the end of the path.\<close>

definition stands_at :: "stream \<Rightarrow> string \<Rightarrow> bool" where
  "stands_at b s \<longleftrightarrow> b = fresh s \<or> s = [] \<and> \<not> good b"

lemma extract_string_loop_run:
  assumes "\<forall>c \<in> set w. accept_char c" "s = [] \<or> \<not> accept_char (hd s)" "length w < n"
  shows "\<exists>b. extract_string_loop n (fresh (w @ s)) t = (t @ w, b) \<and> stands_at b s"
  using assms
proof (induction w arbitrary: n t)
  case Nil
  then obtain m where "n = Suc m" by (cases n) auto
  with Nil show ?case
    by (cases s) (auto simp: unget_def stands_at_def get_def)
next
  case (Cons c w)
  then obtain m where n: "n = Suc m" by (cases n) auto
  with Cons.prems have "\<exists>b. extract_string_loop m (fresh (w @ s)) (t @ [c]) = ((t @ [c]) @ w, b) \<and> stands_at b s"
    by (intro Cons.IH) auto
  with Cons.prems n show ?case by auto
qed

lemma take_sign_digits: "d \<noteq> [] \<Longrightarrow> is_digit_in 10 (hd d) \<Longrightarrow> take_sign (d @ s) = (False, d @ s)"
  by (cases d) (auto simp: take_sign_def is_digit_in_def digit_val_def)

lemma extract_int_run:
  assumes "- (2 ^ 31) \<le> v" "v < 2 ^ 31" "s = [] \<or> \<not> is_digit_in 10 (hd s)"
  shows "\<exists>b. extract_int (fresh (arg_text (Int_Arg v) @ s)) = (Some v, b) \<and> stands_at b s"
proof -
  define n where "n = nat \<bar>v\<bar>"
  have tw: "takeWhile (is_digit_in 10) (show_dec n @ s) = show_dec n"
    by (rule takeWhile_show_base(1)) (use assms(3) in simp_all)
  have v: "v = (if v < 0 then - int n else int n)" by (simp add: n_def)
  show ?thesis
  proof (cases "v < 0")
    case True
    with assms tw v show ?thesis
      by (auto simp: extract_int_def take_sign_def isspace_c_def digits_value_show stands_at_def
          n_def [symmetric] Let_def)
  next
    case False
    then have "arg_text (Int_Arg v) = show_dec n" by (simp add: n_def)
    with False assms tw v show ?thesis
      by (auto simp: extract_int_def dropWhile_space_show take_sign_show digits_value_show
          stands_at_def Let_def)
  qed
qed

lemma extract_arg_run:
  assumes "arg_ok ty a" "arg_stops ty s"
  shows "\<exists>b. extract_arg ty (fresh (arg_text a @ s)) = (Some a, b) \<and> stands_at b s"
proof (cases ty)
  case Int_Type
  with assms obtain v where a: "a = Int_Arg v" and v: "- (2 ^ 31) \<le> v" "v < 2 ^ 31"
    by (cases a) auto
  from extract_int_run [OF v, of s] assms(2) Int_Type
  obtain b where "extract_int (fresh (arg_text (Int_Arg v) @ s)) = (Some v, b)" "stands_at b s"
    by (auto simp: arg_stops_def)
  with a Int_Type show ?thesis by (simp add: extract_arg_def)
next
  case String_Type
  with assms obtain w where a: "a = String_Arg w" and w: "w \<noteq> []" "\<forall>c \<in> set w. accept_char c"
    by (cases a) auto
  from extract_string_loop_run [OF w(2), of s "Suc (length (w @ s))" "[]"] assms(2) String_Type
  obtain b where "extract_string_loop (Suc (length (w @ s))) (fresh (w @ s)) [] = (w, b)" "stands_at b s"
    by (auto simp: arg_stops_def)
  with a w String_Type show ?thesis by (simp add: extract_arg_def extract_string_def)
qed

lemma stands_at_Cons [simp]: "stands_at b (c # s) \<longleftrightarrow> b = fresh (c # s)"
  by (simp add: stands_at_def)

lemma scan_rest_literal: "literal l \<Longrightarrow> stands_at b l \<Longrightarrow> scan_rest b l = 1"
proof (induction l arbitrary: b)
  case Nil
  then show ?case by (auto simp: stands_at_def peek_def char_of_peek_def)
next
  case (Cons c l)
  then have "scan_rest (fresh l) l = 1" by (simp add: stands_at_def)
  with Cons.prems show ?case by (simp add: char_of_peek_def)
qed

lemma arg_text_nonempty: "arg_ok ty a \<Longrightarrow> arg_text a \<noteq> []"
  by (cases "(ty, a)" rule: arg_ok.cases) auto

abbreviation piece_types :: "piece list \<Rightarrow> arg_type list" where
  "piece_types ps \<equiv> map (\<lambda>p. fst (snd p)) ps"

lemma modern_sscanf_run:
  "path_ok ps as end_lit \<Longrightarrow> stands_at b (path_text ps as end_lit) \<Longrightarrow>
   modern_sscanf b (format_text ps end_lit) (piece_types ps) = (length ps + 1, as)"
proof (induction ps as end_lit arbitrary: b rule: path_ok.induct)
  case (1 end_lit)
  then show ?case by (simp add: scan_rest_literal)
next
  case (2 lit ty var ps a as end_lit)
  then have ok: "literal lit" "CHR ''}'' \<notin> set var" "arg_ok ty a"
      "arg_stops ty (path_text ps as end_lit)" "path_ok ps as end_lit"
    by auto
  from arg_text_nonempty [OF ok(3)] 2(3)
  have b: "b = fresh (lit @ arg_text a @ path_text ps as end_lit)"
    by (simp add: stands_at_def)
  obtain b2 where b2: "extract_arg ty (fresh (arg_text a @ path_text ps as end_lit)) = (Some a, b2)"
      "stands_at b2 (path_text ps as end_lit)"
    using extract_arg_run [OF ok(3,4)] by blast
  from 2(1) [OF ok(5) b2(2)] ok b2(1) b show ?case
    by (simp add: skip_to_format_literal skip_to_unformat_var)
qed auto

lemma accept_char_not_NUL: "accept_char c \<Longrightarrow> c \<noteq> NUL"
  by (auto simp: accept_char_def)

lemma nul_free_accepted: "\<forall>c \<in> set w. accept_char c \<Longrightarrow> nul_free w"
  by (auto simp: nul_free_def dest: accept_char_not_NUL)

lemma arg_text_nul_free: "arg_ok ty a \<Longrightarrow> nul_free (arg_text a)"
  by (cases "(ty, a)" rule: arg_ok.cases) (auto simp: nul_free_accepted)

lemma literal_nul_free: "literal l \<Longrightarrow> nul_free l"
  by (auto simp: literal_def nul_free_def)

lemma path_ok_nul_free:
  "path_ok ps as end_lit \<Longrightarrow> nul_free (format_text ps end_lit) \<and> nul_free (path_text ps as end_lit)"
  by (induction ps as end_lit rule: path_ok.induct) (auto simp: literal_nul_free arg_text_nul_free)

section \<open>What a match says of the path\<close>

text \<open>The texts that are read as a value: white space, a sign and digits for an \<open>int\<close>.\<close>

definition int_text :: "string \<Rightarrow> int \<Rightarrow> bool" where
  "int_text w v \<longleftrightarrow>
     (\<exists>sp sg ds. w = sp @ sg @ ds \<and> (\<forall>c \<in> set sp. isspace_c c) \<and> ds \<noteq> [] \<and>
        (\<forall>c \<in> set ds. is_digit_in 10 c) \<and>
        (sg = ''-'' \<and> v = - int (digits_value 10 ds) \<or>
         (sg = [] \<or> sg = ''+'') \<and> v = int (digits_value 10 ds)) \<and>
        - (2 ^ 31) \<le> v \<and> v < 2 ^ 31)"

fun arg_reads :: "arg_type \<Rightarrow> string \<Rightarrow> arg \<Rightarrow> bool" where
  "arg_reads Int_Type w (Int_Arg v) \<longleftrightarrow> int_text w v"
| "arg_reads String_Type w (String_Arg t) \<longleftrightarrow> w = t \<and> t \<noteq> [] \<and> (\<forall>c \<in> set t. accept_char c)"
| "arg_reads _ _ _ \<longleftrightarrow> False"

fun written_as :: "piece list \<Rightarrow> string \<Rightarrow> arg list \<Rightarrow> string \<Rightarrow> bool" where
  "written_as [] end_lit [] s \<longleftrightarrow> (\<exists>rest. s = end_lit @ rest \<and> (rest = [] \<or> hd rest = CHR 0xFF))"
| "written_as ((lit, ty, var) # ps) end_lit (a # as) s \<longleftrightarrow>
     (\<exists>w s'. s = lit @ w @ s' \<and> arg_reads ty w a \<and> written_as ps end_lit as s')"
| "written_as _ _ _ _ \<longleftrightarrow> False"

fun format_ok :: "piece list \<Rightarrow> string \<Rightarrow> bool" where
  "format_ok [] end_lit \<longleftrightarrow> literal end_lit"
| "format_ok ((lit, ty, var) # ps) end_lit \<longleftrightarrow>
     literal lit \<and> CHR ''}'' \<notin> set var \<and> nul_free var \<and> format_ok ps end_lit"

lemma not_good_reads:
  "\<not> good b \<Longrightarrow> fst (peek b) = None" "\<not> good b \<Longrightarrow> extract_arg ty b = (None, b') \<or> fst (extract_arg ty b) = None"
  by (auto simp: peek_def extract_arg_def extract_int_def extract_string_def split: arg_type.split)

lemma schar_literal: "(of_char f :: nat) < 128 \<Longrightarrow> schar f \<noteq> - 1"
  by (simp add: schar_ascii)

lemma skip_to_format_read:
  assumes "literal l" "stands_at b s" "skip_to_format b (l @ CHR ''{'' # f) = (True, b1, f1)"
  shows "f1 = CHR ''{'' # f \<and> (\<exists>s1. s = l @ s1 \<and> stands_at b1 s1)"
  using assms
proof (induction l arbitrary: b s)
  case Nil
  then show ?case by auto
next
  case (Cons c l)
  show ?case
  proof (cases s)
    case Nil
    have "fst (peek b) = None"
      using Cons.prems(2) Nil by (auto simp: stands_at_def not_good_reads)
    then have "int_of_peek (fst (peek b)) \<noteq> schar c"
      using Cons.prems(1) schar_literal [of c] by auto
    with Cons.prems show ?thesis by (auto split: prod.splits if_splits)
  next
    case (Cons d s')
    with Cons.prems Cons.IH [of "fresh s'" s'] show ?thesis
      by (auto simp: stands_at_def split: if_splits)
  qed
qed

lemma extract_string_loop_read:
  "extract_string_loop n (fresh s) t = (t', b) \<Longrightarrow> length s < n \<Longrightarrow>
   \<exists>w s'. t' = t @ w \<and> s = w @ s' \<and> (\<forall>c \<in> set w. accept_char c) \<and> stands_at b s'"
proof (induction n arbitrary: s t)
  case (Suc n)
  show ?case
  proof (cases "s \<noteq> [] \<and> accept_char (hd s)")
    case True
    then obtain c u where s: "s = c # u" "accept_char c" by (cases s) auto
    with Suc obtain w s' where "t' = (t @ [c]) @ w" "u = w @ s'" "\<forall>c \<in> set w. accept_char c" "stands_at b s'"
      using Suc.IH [of u "t @ [c]"] by fastforce
    with s show ?thesis by (intro exI [of _ "c # w"] exI [of _ s']) auto
  next
    case False
    with Suc.prems show ?thesis
      by (cases s) (auto simp: stands_at_def unget_def get_def)
  qed
qed simp

lemma extract_int_read:
  assumes "extract_int (fresh s) = (Some v, b)"
  shows "\<exists>w s'. s = w @ s' \<and> int_text w v \<and> stands_at b s'"
proof -
  define sp where "sp = takeWhile isspace_c s"
  obtain neg s1 where sg: "take_sign (dropWhile isspace_c s) = (neg, s1)" by fastforce
  define ds where "ds = takeWhile (is_digit_in 10) s1"
  define rest where "rest = drop (length ds) s1"
  obtain g where g: "dropWhile isspace_c s = g @ s1" "neg \<and> g = ''-'' \<or> \<not> neg \<and> (g = [] \<or> g = ''+'')"
    using sg by (auto simp: take_sign_def split: list.splits if_splits)
  have "rest = dropWhile (is_digit_in 10) s1"
    by (simp add: rest_def ds_def dropWhile_eq_drop)
  then have s1: "s1 = ds @ rest" by (simp add: ds_def)
  have "s = sp @ dropWhile isspace_c s" by (simp add: sp_def)
  with g s1 have s: "s = (sp @ g @ ds) @ rest" by simp
  have sets: "\<forall>c \<in> set sp. isspace_c c" "\<forall>c \<in> set ds. is_digit_in 10 c"
    by (auto simp: sp_def ds_def dest: set_takeWhileD)
  from assms sg have v: "ds \<noteq> []" "v = (if neg then - int (digits_value 10 ds) else int (digits_value 10 ds))"
      "- (2 ^ 31) \<le> v" "v < 2 ^ 31" "b = \<lparr>unread = rest, eofbit = rest = [], failbit = False\<rparr>"
    by (auto simp: extract_int_def Let_def ds_def rest_def split: if_splits)
  have "int_text (sp @ g @ ds) v"
    unfolding int_text_def using v g sets by (intro exI [of _ sp] exI [of _ g] exI [of _ ds]) auto
  moreover have "stands_at b rest" using v(5) by (auto simp: stands_at_def)
  ultimately show ?thesis using s by blast
qed

lemma extract_arg_read:
  assumes "extract_arg ty b = (Some a, b1)" "stands_at b s"
  shows "\<exists>w s'. s = w @ s' \<and> arg_reads ty w a \<and> stands_at b1 s'"
proof (cases "good b")
  case False
  with assms(1) not_good_reads(2) [of b ty b1] show ?thesis by simp
next
  case True
  with assms(2) have b: "b = fresh s" by (simp add: stands_at_def)
  show ?thesis
  proof (cases ty)
    case Int_Type
    with assms(1) b obtain v where "a = Int_Arg v" "extract_int (fresh s) = (Some v, b1)"
      by (auto simp: extract_arg_def split: prod.splits)
    with extract_int_read [of s v b1] Int_Type show ?thesis by auto
  next
    case String_Type
    with assms(1) b obtain t where "a = String_Arg t" "t \<noteq> []"
        "extract_string_loop (Suc (length s)) (fresh s) [] = (t, b1)"
      by (auto simp: extract_arg_def extract_string_def split: prod.splits if_splits)
    with extract_string_loop_read [of "Suc (length s)" s "[]" t b1] String_Type show ?thesis by auto
  qed
qed

lemma scan_rest_read:
  "literal l \<Longrightarrow> stands_at b s \<Longrightarrow> scan_rest b l = Suc 0 \<Longrightarrow> written_as [] l [] s"
proof (induction l arbitrary: b s)
  case Nil
  then show ?case by (cases s) (auto simp: char_of_peek_def split: if_splits)
next
  case (Cons c l)
  show ?case
  proof (cases s)
    case Nil
    have "fst (peek b) = None"
      using Cons.prems(2) Nil by (auto simp: stands_at_def not_good_reads)
    moreover have "c \<noteq> CHR 0xFF" using Cons.prems(1) by auto
    ultimately show ?thesis
      using Cons.prems(3) by (auto simp: char_of_peek_def split: if_splits prod.splits)
  next
    case (Cons d s')
    with Cons.prems Cons.IH [of "fresh s'" s'] show ?thesis
      by (auto simp: stands_at_def char_of_peek_def split: if_splits)
  qed
qed

lemma modern_sscanf_read:
  "format_ok ps end_lit \<Longrightarrow> stands_at b s \<Longrightarrow>
   modern_sscanf b (format_text ps end_lit) (piece_types ps) = (Suc (length ps), as) \<Longrightarrow>
   written_as ps end_lit as s"
proof (induction ps end_lit arbitrary: b s as rule: format_ok.induct)
  case (1 end_lit)
  then show ?case using scan_rest_read [of end_lit b s] by auto
next
  case (2 lit ty var ps end_lit)
  from 2(2) have ok: "literal lit" "CHR ''}'' \<notin> set var" "format_ok ps end_lit" by auto
  from 2(4) obtain b1 f1 where skip:
      "skip_to_format b (lit @ CHR ''{'' # var @ CHR ''}'' # format_text ps end_lit) = (True, b1, f1)"
    by (auto split: prod.splits bool.splits)
  from skip_to_format_read [OF ok(1) 2(3) skip] obtain s1 where
      f1: "f1 = CHR ''{'' # var @ CHR ''}'' # format_text ps end_lit" and s1: "s = lit @ s1" "stands_at b1 s1"
    by blast
  from 2(4) skip f1 ok(2) obtain a b2 as' where
      a: "extract_arg ty b1 = (Some a, b2)" "as = a # as'"
        "modern_sscanf b2 (format_text ps end_lit) (piece_types ps) = (Suc (length ps), as')"
    by (auto simp: skip_to_unformat_var split: prod.splits option.splits)
  from extract_arg_read [OF a(1) s1(2)] obtain w s2 where
      w: "s1 = w @ s2" "arg_reads ty w a" "stands_at b2 s2" by blast
  from 2(1) [OF ok(3) w(3) a(3)] have "written_as ps end_lit as' s2" .
  with a(2) s1(1) w(1,2) show ?case by auto
qed

lemma format_ok_nul_free: "format_ok ps end_lit \<Longrightarrow> nul_free (format_text ps end_lit)"
  by (induction ps end_lit rule: format_ok.induct) (auto simp: literal_nul_free)

lemma route_scan_run:
  assumes "route_path r = format_text ps end_lit" "path_ok ps args end_lit"
  shows "route_scan r (piece_types ps) (path_text ps args end_lit) = (length ps + 1, args)"
proof -
  have "stands_at (new_stream (path_text ps args end_lit)) (path_text ps args end_lit)"
    by (simp add: stands_at_def new_stream_def)
  with assms path_ok_nul_free [OF assms(2)] modern_sscanf_run [OF assms(2)]
  show ?thesis by (simp add: route_scan_def)
qed

text \<open>C30: a path that is written along a route's format, with an argument of the right type in
  the place of each variable, is matched by the route: \<open>CanHandle\<close> accepts it, and
  \<open>Scan\<close> gives the handler exactly the arguments the path was written with.\<close>

theorem route_reads_arguments:
  assumes "route_path r = format_text ps end_lit" "path_ok ps args end_lit" "route_method_ok r m"
  shows "route_args_can_handle r (piece_types ps) m (path_text ps args end_lit)
    \<and> route_scan r (piece_types ps) (path_text ps args end_lit) = (length ps + 1, args)"
  using assms route_scan_run [OF assms(1,2)] by (simp add: route_args_can_handle_def)

lemma route_reads_arguments_witness:
  "route_args_can_handle (new_route ''/i/{id}/{n}.x'' RM_GET) [Int_Type, String_Type] RM_GET ''/i/-5/ab.x''
   \<and> route_scan (new_route ''/i/{id}/{n}.x'' RM_GET) [Int_Type, String_Type] ''/i/-5/ab.x''
     = (3, [Int_Arg (- 5), String_Arg ''ab''])"
proof -
  have 5: "show_dec 5 = ''5''" by code_simp
  show ?thesis
    using route_reads_arguments [of "new_route ''/i/{id}/{n}.x'' RM_GET"
        "[(''/i/'', Int_Type, ''id''), (''/'', String_Type, ''n'')]" "''.x''"
        "[Int_Arg (- 5), String_Arg ''ab'']" RM_GET]
    by (simp add: new_route_def route_method_ok_def 5 arg_stops_def is_digit_in_def digit_val_def accept_char_def)
qed

text \<open>C16: conversely, a route with arguments accepts only paths that are written along its format:
  literal for literal, with a text that reads as an argument of the right type in the place of
  each variable, up to the end of the path or a byte 0xFF in it, which the code takes for the
  end.\<close>

theorem route_accepts_only_its_paths:
  assumes "route_path r = format_text ps end_lit" "format_ok ps end_lit"
    "route_args_can_handle r (piece_types ps) m uri"
  shows "route_method_ok r m \<and>
    written_as ps end_lit (snd (route_scan r (piece_types ps) uri)) (cstr uri)"
proof -
  have "stands_at (new_stream (cstr uri)) (cstr uri)"
    by (simp add: stands_at_def new_stream_def)
  with assms format_ok_nul_free [OF assms(2)] modern_sscanf_read [OF assms(2), of _ "cstr uri"]
  show ?thesis by (cases "route_scan r (piece_types ps) uri") (auto simp: route_args_can_handle_def route_scan_def)
qed

lemma route_accepts_only_its_paths_witness:
  "route_method_ok (new_route_any ''/u/{n}'') RM_POST \<and>
    written_as [(''/u/'', String_Type, ''n'')] []
      (snd (route_scan (new_route_any ''/u/{n}'') [String_Type] ''/u/ab'')) (cstr ''/u/ab'')"
proof -
  have "route_args_can_handle (new_route_any ''/u/{n}'') [String_Type] RM_POST ''/u/ab''"
    by code_simp
  then show ?thesis
    using route_accepts_only_its_paths [of "new_route_any ''/u/{n}''"
        "[(''/u/'', String_Type, ''n'')]" "[]" RM_POST "''/u/ab''"]
    by (simp add: new_route_any_def)
qed

end
