(* ===== verification/Connection_Context.thy ===== *)
theory Connection_Context
  imports Outgoing_Message
begin

text \<open>
  The connection context that a handler works on (\<open>include/rikitiki/connContext.h\<close>,
  \<open>src/connContext.cc\<close>): the request, the response writer and the mark that the request
  is handled. What a handler throws is a \<open>HandlerException\<close> with its optional status, or
  anything else, which no code of the server catches.
\<close>

section \<open>The connection context\<close>

datatype fault = Handler_Exception "http_status option" | Fault rt_error

type_synonym ('s, 'a) hop = "'s \<Rightarrow> (fault + 'a) \<times> 's"

record conn_context =
  handled :: bool
  cc_request :: request
  cc_response :: response_writer

definition new_conn_context :: "request \<Rightarrow> response_writer \<Rightarrow> conn_context" where
  "new_conn_context rq rs = \<lparr>handled = False, cc_request = rq, cc_response = rs\<rparr>"

definition on_response :: "(response_writer, 'a) op \<Rightarrow> (conn_context, 'a) op" where
  "on_response f c = (case f (cc_response c) of (r, w) \<Rightarrow> (r, c\<lparr>cc_response := w\<rparr>))"

definition cc_close :: "(conn_context, unit) op" where
  "cc_close = on_response (writer_done response_write_start_line)"

definition clean_conn_context :: "(conn_context, unit) op" where
  "clean_conn_context c = (if handled c then cc_close c else (Inr (), c))"

text \<open>The stream operators of \<open>ConnContext\<close>: a status, a cookie or a header marks the
  request as handled, text and content types do not.\<close>

definition mark_handled :: "conn_context \<Rightarrow> conn_context" where
  "mark_handled c = c\<lparr>handled := True\<rparr>"

definition cc_put_status :: "http_status \<Rightarrow> (conn_context, unit) op" where
  "cc_put_status t c = on_response (response_writer_put_status t) (mark_handled c)"

definition cc_put_cookie :: "wstringpair \<Rightarrow> (conn_context, unit) op" where
  "cc_put_cookie t c =
     on_response (omessage_put_cookie (writer_write_header response_write_start_line) t) (mark_handled c)"

definition cc_put_header :: "wstringpair \<Rightarrow> (conn_context, unit) op" where
  "cc_put_header t c =
     on_response (omessage_put_header (writer_write_header response_write_start_line) t) (mark_handled c)"

definition cc_put_string :: "(string \<Rightarrow> size_t) \<Rightarrow> string \<Rightarrow> (conn_context, unit) op" where
  "cc_put_string sent s =
     on_response (bindS (writer_write_payload sent response_write_start_line s) (\<lambda>_. ret ()))"

definition cc_put_cstring :: "(string \<Rightarrow> size_t) \<Rightarrow> string \<Rightarrow> (conn_context, unit) op" where
  "cc_put_cstring sent s =
     on_response (bindS (writer_write_payload sent response_write_start_line (cstr s)) (\<lambda>_. ret ()))"

definition cc_put_content_type :: "content_type \<Rightarrow> (conn_context, unit) op" where
  "cc_put_content_type t =
     on_response (omessage_put_content_type (writer_write_header response_write_start_line) t)"

text \<open>The operators on a \<open>ConnContextRef\<close> go to the response and do not mark.\<close>

definition ref_put_status :: "http_status \<Rightarrow> (conn_context, unit) op" where
  "ref_put_status t = on_response (response_writer_put_status t)"

text \<open>\<open>type_conversion_error\<close>: the content types that have a handler, in an
  \<open>Accept\<close> header; then \<open>HandlerException(Not_Acceptable)\<close>. The loop runs over the
  values from 0, so \<open>DEFAULT\<close> and \<open>ALL\<close> are outside.\<close>

definition accept_list :: "(content_type \<Rightarrow> bool) \<Rightarrow> string" where
  "accept_list handlers =
     fold (\<lambda>t accepts. if handlers t then (if accepts \<noteq> [] then accepts @ '', '' else accepts) @ ct_to_string t
            else accepts) (tl ct_range) []"

definition type_conversion_error :: "(content_type \<Rightarrow> bool) \<Rightarrow> (conn_context, unit) hop" where
  "type_conversion_error handlers c =
     (case cc_put_header (new_header ''Accept'' (accept_list handlers)) c of
        (Inl e, c1) \<Rightarrow> (Inl (Fault e), c1)
      | (Inr _, c1) \<Rightarrow> (Inl (Handler_Exception (Some status_Not_Acceptable)), c1))"

lemma handled_on_response: "on_response f c = (r, c') \<Longrightarrow> handled c' = handled c"
  by (auto simp: on_response_def split: prod.splits)

lemma request_on_response: "on_response f c = (r, c') \<Longrightarrow> cc_request c' = cc_request c"
  by (auto simp: on_response_def split: prod.splits)

end
