(* ===== verification/Server_Dispatch.thy ===== *)
theory Server_Dispatch
  imports Routing Connection_Context
begin

text \<open>
  The server core (\<open>include/rikitiki/server.h\<close>, \<open>src/server.cc\<close>) and the handlers
  that routes make (\<open>include/rikitiki/routing.tcc\<close>). A handler runs on the state of the
  process outside of the context (type \<open>'w\<close>) and on the context. The contract that the loop
  of \<open>Server::Handle\<close> relies on is a locale, interpreted on both kinds of routes.
\<close>

section \<open>The server\<close>

record 'w handler =
  h_name :: string
  h_visible :: bool
  h_can_handle :: "'w \<Rightarrow> request \<Rightarrow> bool"
  h_handle :: "('w \<times> conn_context, bool) hop"

text \<open>\<open>Handler::Handle\<close> of the base class.\<close>

definition base_handle :: "conn_context \<Rightarrow> conn_context" where
  "base_handle c = c\<lparr>handled := True\<rparr>"

fun add_handler :: "'w handler option \<Rightarrow> 'w handler list \<Rightarrow> 'w handler list result" where
  "add_handler None hs = Inl AssertFailure"
| "add_handler (Some h) hs = Inr (hs @ [h])"

fun get_handler :: "'w handler list \<Rightarrow> 'w \<Rightarrow> request \<Rightarrow> 'w handler option" where
  "get_handler [] wd rq = None"
| "get_handler (h # hs) wd rq = (if h_can_handle h wd rq then Some h else get_handler hs wd rq)"

text \<open>The catch clause.\<close>

definition answer_exception :: "http_status option \<Rightarrow> 'w \<times> conn_context \<Rightarrow> (rt_error + bool) \<times> 'w \<times> conn_context" where
  "answer_exception st s =
     (Inr True, fst s,
      snd (ref_put_status (case st of None \<Rightarrow> status_Internal_Server_Error | Some t \<Rightarrow> t) (snd s)))"

fun server_handle :: "'w handler list \<Rightarrow> 'w \<times> conn_context \<Rightarrow> (rt_error + bool) \<times> 'w \<times> conn_context" where
  "server_handle [] s = (Inr False, s)"
| "server_handle (h # hs) s =
     (case (if h_can_handle h (fst s) (cc_request (snd s)) then h_handle h s else (Inr False, s)) of
        (Inl (Handler_Exception st), s1) \<Rightarrow> answer_exception st s1
      | (Inl (Fault e), s1) \<Rightarrow> (Inl e, s1)
      | (Inr _, s1) \<Rightarrow> if handled (snd s1) then (Inr True, s1) else server_handle hs s1)"

section \<open>Route handlers\<close>

definition route_handle ::
  "route \<Rightarrow> arg_type list \<Rightarrow> (arg list \<Rightarrow> ('w \<times> conn_context, unit) hop) \<Rightarrow> ('w \<times> conn_context, bool) hop" where
  "route_handle r tys f s =
     (let s1 = (fst s, base_handle (snd s));
          rq = cc_request (snd s)
      in if \<not> route_method_ok r (req_method rq) then (Inr False, s1)
         else
           (let (matched, args) = route_scan r tys (req_uri rq)
            in if matched = length tys + 1 then
                 (case f args s1 of (Inl e, s2) \<Rightarrow> (Inl e, s2) | (Inr _, s2) \<Rightarrow> (Inr True, s2))
               else (Inr False, s1)))"

definition route_plain_handle ::
  "route \<Rightarrow> ('w \<times> conn_context, unit) hop \<Rightarrow> ('w \<times> conn_context, bool) hop" where
  "route_plain_handle r f s =
     (let s1 = (fst s, base_handle (snd s));
          rq = cc_request (snd s)
      in if route_plain_can_handle r (req_method rq) (req_uri rq) then
           (case f s1 of (Inl e, s2) \<Rightarrow> (Inl e, s2) | (Inr _, s2) \<Rightarrow> (Inr True, s2))
         else (Inr False, s1))"

text \<open>\<open>CreateRoute<T...>::With\<close>\<close>

definition route_handler ::
  "route \<Rightarrow> arg_type list \<Rightarrow> (arg list \<Rightarrow> ('w \<times> conn_context, unit) hop) \<Rightarrow> 'w handler" where
  "route_handler r tys f =
     \<lparr>h_name = route_name r, h_visible = False,
      h_can_handle = \<lambda>wd rq. route_args_can_handle r tys (req_method rq) (req_uri rq),
      h_handle = route_handle r tys f\<rparr>"

definition route_plain_handler :: "route \<Rightarrow> ('w \<times> conn_context, unit) hop \<Rightarrow> 'w handler" where
  "route_plain_handler r f =
     \<lparr>h_name = route_name r, h_visible = route_visible r,
      h_can_handle = \<lambda>wd rq. route_plain_can_handle r (req_method rq) (req_uri rq),
      h_handle = route_plain_handle r f\<rparr>"

section \<open>The contract of a handler\<close>

text \<open>What the loop of \<open>Server::Handle\<close> relies on: a handler that returns has marked the
  request as handled. A provider is a family of handlers, with a condition on what the
  application puts into them.\<close>

definition marks_handled :: "'w handler \<Rightarrow> bool" where
  "marks_handled h \<longleftrightarrow> (\<forall>s b s'. h_handle h s = (Inr b, s') \<longrightarrow> handled (snd s'))"

lemma marks_handledD: "marks_handled h \<Longrightarrow> h_handle h s = (Inr b, s') \<Longrightarrow> handled (snd s')"
  unfolding marks_handled_def by blast

text \<open>What the loop makes of the end of a handler.\<close>

definition server_answer ::
  "(fault + bool) \<times> 'w \<times> conn_context \<Rightarrow> (rt_error + bool) \<times> 'w \<times> conn_context" where
  "server_answer r =
     (case r of
        (Inl (Handler_Exception st), s) \<Rightarrow> answer_exception st s
      | (Inl (Fault e), s) \<Rightarrow> (Inl e, s)
      | (Inr _, s) \<Rightarrow> (Inr True, s))"

locale handler_contract =
  fixes mk :: "'p \<Rightarrow> 'w handler"
    and fit :: "'p \<Rightarrow> bool"
  assumes handle_marks: "fit p \<Longrightarrow> h_handle (mk p) s = (Inr b, s') \<Longrightarrow> handled (snd s')"
begin

lemma marks: "fit p \<Longrightarrow> marks_handled (mk p)"
  unfolding marks_handled_def using handle_marks by blast

lemma takes_over:
  assumes "fit p" "h_can_handle (mk p) (fst s) (cc_request (snd s))"
  shows "server_handle (mk p # hs) s = server_answer (h_handle (mk p) s)"
  using assms handle_marks [OF assms(1), of s]
  by (auto simp: server_answer_def split: prod.splits sum.splits fault.splits)

end

text \<open>A function of the application that leaves a mark in place.\<close>

definition keeps_mark :: "('w \<times> conn_context, unit) hop \<Rightarrow> bool" where
  "keeps_mark f \<longleftrightarrow> (\<forall>s r s'. f s = (r, s') \<longrightarrow> handled (snd s) \<longrightarrow> handled (snd s'))"

lemma keeps_markD: "keeps_mark f \<Longrightarrow> f s = (r, s') \<Longrightarrow> handled (snd s) \<Longrightarrow> handled (snd s')"
  unfolding keeps_mark_def by blast

lemma handled_base [simp]: "handled (base_handle c)" "cc_request (base_handle c) = cc_request c"
    "cc_response (base_handle c) = cc_response c"
  by (simp_all add: base_handle_def)

interpretation routes: handler_contract
  "\<lambda>(r, tys, f). route_handler r tys f" "\<lambda>(r, tys, f). \<forall>args. keeps_mark (f args)"
proof unfold_locales
  fix p :: "route \<times> arg_type list \<times> (arg list \<Rightarrow> ('a \<times> conn_context, unit) hop)" and s b s'
  obtain r tys f where p: "p = (r, tys, f)" by (metis prod_cases3)
  assume "case p of (r, tys, f) \<Rightarrow> \<forall>args. keeps_mark (f args)"
    and "h_handle (case p of (r, tys, f) \<Rightarrow> route_handler r tys f) s = (Inr b, s')"
  then show "handled (snd s')"
    by (auto simp: p route_handler_def route_handle_def Let_def dest: keeps_markD [rotated]
        split: if_splits prod.splits sum.splits)
qed

interpretation plain_routes: handler_contract
  "\<lambda>(r, f). route_plain_handler r f" "\<lambda>(r, f). keeps_mark f"
proof unfold_locales
  fix p :: "route \<times> ('a \<times> conn_context, unit) hop" and s b s'
  obtain r f where p: "p = (r, f)" by force
  assume "case p of (r, f) \<Rightarrow> keeps_mark f"
    and "h_handle (case p of (r, f) \<Rightarrow> route_plain_handler r f) s = (Inr b, s')"
  then show "handled (snd s')"
    by (auto simp: p route_plain_handler_def route_plain_handle_def Let_def dest: keeps_markD
        split: if_splits prod.splits sum.splits)
qed

lemma server_handle_first:
  assumes "\<forall>h \<in> set hs. marks_handled h" "\<not> handled (snd s)"
  shows "server_handle hs s =
    (case get_handler hs (fst s) (cc_request (snd s)) of
       None \<Rightarrow> (Inr False, s)
     | Some h \<Rightarrow> server_answer (h_handle h s))"
  using assms
proof (induction hs)
  case (Cons h hs)
  obtain r s1 where r: "h_handle h s = (r, s1)" by (rule prod.exhaust)
  with Cons.prems(1) marks_handledD [of h s] have "r = Inr b \<Longrightarrow> handled (snd s1)" for b
    by auto
  with Cons r show ?case
    by (auto simp: server_answer_def split: sum.splits fault.splits)
qed simp

end
