(* ===== verification/Static_Content.thy ===== *)
theory Static_Content
  imports Server_Dispatch
begin

text \<open>
  Static files (\<open>include/rikitiki/StaticContentHandler.h\<close>,
  \<open>src/StaticContentHandler.cc\<close>): which requests the handler takes, which file it opens
  for one, and the answer it gives.
\<close>

section \<open>Static files\<close>

text \<open>
  The state of the process that the handler uses: the \<open>mime_types\<close> of the handler objects
  (by an index for the object), the static map of \<open>ContentType::FromString\<close>, the files
  that can be opened with what is in them, and the paths that have been opened.
\<close>

record world =
  w_mimes :: "nat \<Rightarrow> (string, string) std_map"
  w_types :: types_map
  w_files :: "string \<Rightarrow> string option"
  w_opened :: "string list"

record static_handler =
  sc_object :: nat
  sc_prefix :: string
  sc_path :: string

definition default_mime_types :: "(string \<times> string) list" where
  "default_mime_types =
    [(''html'', ''text/html''), (''htm'', ''text/html''), (''js'', ''application/x-javascript''),
     (''css'', ''text/css''), (''ico'', ''image/x-icon''), (''gif'', ''image/gif''),
     (''jpg'', ''image/jpeg''), (''jpeg'', ''image/jpeg''), (''png'', ''image/png''),
     (''svg'', ''image/svg+xml''), (''txt'', ''text/plain''), (''xml'', ''text/xml''),
     (''json'', ''text/json''), (''xslt'', ''application/xml''), (''xsl'', ''application/xml''),
     (''ra'', ''audio/x-pn-realaudio''), (''doc'', ''application/msword''),
     (''exe'', ''application/octet-stream''), (''zip'', ''application/x-zip-compressed''),
     (''xls'', ''application/excel''), (''tgz'', ''application/x-tar-gz''),
     (''tar'', ''application/x-tar''), (''gz'', ''application/x-gunzip''),
     (''arj'', ''application/x-arj-compressed''), (''rar'', ''application/x-arj-compressed''),
     (''rtf'', ''application/rtf''), (''pdf'', ''application/pdf''),
     (''swf'', ''application/x-shockwave-flash''), (''mpg'', ''video/mpeg''),
     (''webm'', ''video/webm''), (''mpeg'', ''video/mpeg''), (''mp4'', ''video/mp4''),
     (''m4v'', ''video/x-m4v''), (''asf'', ''video/x-ms-asf''), (''avi'', ''video/x-msvideo''),
     (''bmp'', ''image/bmp'')]"

text \<open>The constructor fills the map of the new object.\<close>

definition new_static_handler ::
  "nat \<Rightarrow> string \<Rightarrow> string \<Rightarrow> 'a world_scheme \<Rightarrow> static_handler \<times> 'a world_scheme" where
  "new_static_handler i prefix path wd =
     (\<lparr>sc_object = i, sc_prefix = prefix, sc_path = path\<rparr>,
      wd\<lparr>w_mimes := (w_mimes wd)(i := fold (\<lambda>(k, v). std_set k v) default_mime_types [])\<rparr>)"

fun has_dotdot :: "string \<Rightarrow> bool" where
  "has_dotdot (a # b # s) \<longleftrightarrow> a = CHR ''.'' \<and> b = CHR ''.'' \<or> has_dotdot (b # s)"
| "has_dotdot _ \<longleftrightarrow> False"

definition static_can_handle :: "static_handler \<Rightarrow> request \<Rightarrow> bool" where
  "static_can_handle sh rq \<longleftrightarrow>
     (let path = cstr (req_uri rq)
      in \<not> has_dotdot path \<and> length (sc_prefix sh) \<le> length path \<and>
         take (length (sc_prefix sh)) path = sc_prefix sh)"

definition file_extension :: "string \<Rightarrow> string option" where
  "file_extension relpath =
     (if CHR ''.'' \<in> set relpath then Some (rev (takeWhile (\<lambda>c. c \<noteq> CHR ''.'') (rev relpath))) else None)"

text \<open>The \<open>mime\<close> variable and the maps after it: an unknown extension is entered with an
  empty type.\<close>

definition static_mime :: "static_handler \<Rightarrow> string \<Rightarrow> 'a world_scheme \<Rightarrow> string \<times> 'a world_scheme" where
  "static_mime sh relpath wd =
     (case file_extension relpath of
        None \<Rightarrow> (''text/html'', wd)
      | Some ext \<Rightarrow>
          (let (mime, m) = std_at [] ext (w_mimes wd (sc_object sh))
           in (mime, wd\<lparr>w_mimes := (w_mimes wd)(sc_object sh := m)\<rparr>)))"

definition static_content_type ::
  "static_handler \<Rightarrow> string \<Rightarrow> 'a world_scheme \<Rightarrow> content_type \<times> 'a world_scheme" where
  "static_content_type sh relpath wd =
     (let (mime, wd1) = static_mime sh relpath wd;
          (t, types) = ct_from_string mime (w_types wd1)
      in (t, wd1\<lparr>w_types := types\<rparr>))"

text \<open>\<open>Handle\<close>: a prefix longer than the URI is a pointer past its end.\<close>

definition static_handle ::
  "(string \<Rightarrow> size_t) \<Rightarrow> static_handler \<Rightarrow> ('a world_scheme \<times> conn_context, bool) hop" where
  "static_handle sent sh s =
     (let wd = fst s; c = base_handle (snd s); uri = req_uri (cc_request c)
      in if length uri < length (sc_prefix sh) then (Inl (Fault UndefinedBehaviour), wd, c)
         else
           (let relpath = cstr (drop (length (sc_prefix sh)) uri);
                (t, wd1) = static_content_type sh relpath wd;
                file = cstr (sc_path sh @ relpath)
            in case cc_put_content_type t c of
                 (Inl e, c1) \<Rightarrow> (Inl (Fault e), wd1, c1)
               | (Inr _, c1) \<Rightarrow>
                   (let wd2 = wd1\<lparr>w_opened := w_opened wd1 @ [file]\<rparr>
                    in case w_files wd2 file of
                         None \<Rightarrow> (Inr False, wd2, c1)
                       | Some text \<Rightarrow>
                           (case on_response (oresponse_put sent text) (c1\<lparr>handled := True\<rparr>) of
                              (Inl e, c2) \<Rightarrow> (Inl (Fault e), wd2, c2)
                            | (Inr _, c2) \<Rightarrow> (Inr True, wd2, c2)))))"

definition static_file_handler :: "(string \<Rightarrow> size_t) \<Rightarrow> static_handler \<Rightarrow> 'a world_scheme handler" where
  "static_file_handler sent sh =
     \<lparr>h_name = sc_prefix sh, h_visible = False,
      h_can_handle = \<lambda>wd rq. static_can_handle sh rq,
      h_handle = static_handle sent sh\<rparr>"

lemma static_handle_marks:
  assumes "static_handle sent sh s = (r, s')"
  shows "handled (snd s')"
proof -
  have ct: "cc_put_content_type t (base_handle c) = (r1, c1) \<Longrightarrow> handled c1" for t c r1 c1
    unfolding cc_put_content_type_def by (drule handled_on_response) simp
  show ?thesis
    using assms ct
    by (auto simp: static_handle_def Let_def dest!: handled_on_response
        split: if_splits prod.splits sum.splits option.splits)
qed

interpretation static_files: handler_contract
  "\<lambda>(sent, sh). static_file_handler sent sh" "\<lambda>_. True"
  by unfold_locales (auto simp: static_file_handler_def dest!: static_handle_marks)

section \<open>Which file is opened\<close>

lemma has_dotdot_append: "has_dotdot t \<Longrightarrow> has_dotdot (s @ t)"
proof (induction s)
  case (Cons a s)
  then have "has_dotdot (s @ t)" by simp
  then show ?case by (cases "s @ t") auto
qed simp

lemma static_opened_ct: "w_opened (snd (static_content_type sh rel wd)) = w_opened wd"
    "w_files (snd (static_content_type sh rel wd)) = w_files wd"
  by (simp_all add: static_content_type_def static_mime_def split_def Let_def split: option.split)

lemma static_handle_opened:
  "w_opened (fst (snd (static_handle sent sh s))) = w_opened (fst s) \<or>
   w_opened (fst (snd (static_handle sent sh s))) =
     w_opened (fst s) @ [cstr (sc_path sh @ cstr (drop (length (sc_prefix sh)) (req_uri (cc_request (snd s)))))]"
proof -
  let ?rel = "cstr (drop (length (sc_prefix sh)) (req_uri (cc_request (snd s))))"
  obtain t wd1 where t: "static_content_type sh ?rel (fst s) = (t, wd1)" by (rule prod.exhaust)
  then have "w_opened wd1 = w_opened (fst s)" using static_opened_ct [of sh ?rel "fst s"] by simp
  then show ?thesis
    by (auto simp: static_handle_def t Let_def split: prod.split sum.split option.split)
qed

lemma cstr_split:
  "length (cstr u) \<ge> n \<Longrightarrow> cstr u = take n (cstr u) @ cstr (drop n u)"
proof (induction u arbitrary: n)
  case (Cons c u)
  then show ?case by (cases n) (auto simp: cstr_def split: if_splits)
qed (simp add: cstr_def)

lemma static_can_handle_split:
  assumes "static_can_handle sh rq"
  shows "cstr (req_uri rq) = sc_prefix sh @ cstr (drop (length (sc_prefix sh)) (req_uri rq))"
    and "\<not> has_dotdot (cstr (drop (length (sc_prefix sh)) (req_uri rq)))"
proof -
  from assms have p: "length (sc_prefix sh) \<le> length (cstr (req_uri rq))"
      "take (length (sc_prefix sh)) (cstr (req_uri rq)) = sc_prefix sh" "\<not> has_dotdot (cstr (req_uri rq))"
    by (auto simp: static_can_handle_def Let_def)
  show eq: "cstr (req_uri rq) = sc_prefix sh @ cstr (drop (length (sc_prefix sh)) (req_uri rq))"
    using cstr_split [OF p(1)] p(2) by simp
  show "\<not> has_dotdot (cstr (drop (length (sc_prefix sh)) (req_uri rq)))"
    using p(3) has_dotdot_append eq by metis
qed

section \<open>The type of a file\<close>

text \<open>What an object's \<open>mime_types\<close> answers does not change with use.\<close>

definition mime_known :: "string \<Rightarrow> string" where
  "mime_known ext = (case map_of default_mime_types ext of None \<Rightarrow> [] | Some m \<Rightarrow> m)"

definition mime_inv :: "(string, string) std_map \<Rightarrow> bool" where
  "mime_inv m \<longleftrightarrow> std_ok m \<and> (\<forall>ext. fst (std_at [] ext m) = mime_known ext)"

definition world_inv :: "static_handler \<Rightarrow> 'a world_scheme \<Rightarrow> bool" where
  "world_inv sh wd \<longleftrightarrow> mime_inv (w_mimes wd (sc_object sh)) \<and> types_inv (w_types wd)"

definition file_content_type :: "string \<Rightarrow> content_type" where
  "file_content_type rel =
     (case file_extension rel of
        None \<Rightarrow> text_html
      | Some ext \<Rightarrow> (if mime_known ext = [] then CT_DEFAULT else ct_expected (mime_known ext)))"

lemma distinct_default_mime_types: "distinct (map fst default_mime_types)"
  by code_simp

lemma fst_std_at: "fst (std_at d k m) = (case std_find k m of None \<Rightarrow> d | Some v \<Rightarrow> v)"
  by (simp add: std_at_find split: option.split)

lemma mime_inv_new: "mime_inv (fold (\<lambda>(k, v). std_set k v) default_mime_types [])"
  by (simp add: mime_inv_def fst_std_at std.find_fold_set std.ok_fold_set mime_known_def
      map_of_rev_distinct_keys distinct_default_mime_types split: option.split)

lemma std_at_again:
  "std_ok m \<Longrightarrow> fst (std_at d k (snd (std_at d k' m))) = fst (std_at d k m)"
  by (auto simp: fst_std_at std_at_find split: option.split)

lemma mime_inv_at: "mime_inv m \<Longrightarrow> mime_inv (snd (std_at [] ext m))"
  unfolding mime_inv_def by (simp add: std_at_again)

lemma new_static_handler_inv:
  "types_inv (w_types wd) \<Longrightarrow> new_static_handler i prefix path wd = (sh, wd') \<Longrightarrow> world_inv sh wd'"
  by (auto simp: new_static_handler_def world_inv_def mime_inv_new)

lemma static_content_type_run:
  assumes "world_inv sh wd"
  shows "fst (static_content_type sh rel wd) = file_content_type rel"
    and "world_inv sh (snd (static_content_type sh rel wd))"
proof -
  have html: "ct_expected ''text/html'' = text_html" by code_simp
  have m: "mime_inv (w_mimes wd (sc_object sh))" and t: "types_inv (w_types wd)"
    using assms by (auto simp: world_inv_def)
  then have at: "fst (std_at [] ext (w_mimes wd (sc_object sh))) = mime_known ext" for ext
    by (simp add: mime_inv_def)
  show "fst (static_content_type sh rel wd) = file_content_type rel"
    by (auto simp: static_content_type_def static_mime_def file_content_type_def split_def Let_def at html
        ct_from_string_filled(1) [OF t] split: option.split)
  show "world_inv sh (snd (static_content_type sh rel wd))"
    using mime_inv_at [OF m] ct_from_string_filled(2) [OF t] m
    by (auto simp: static_content_type_def static_mime_def split_def Let_def world_inv_def split: option.split)
qed

section \<open>The answer\<close>

lemma on_response_eq: "f (cc_response c) = (r, w) \<Longrightarrow> on_response f c = (r, c\<lparr>cc_response := w\<rparr>)"
  by (simp add: on_response_def)

lemma static_handle_writes:
  assumes "static_can_handle sh (cc_request c)" "world_inv sh wd" "writes (cc_response c) new_answer"
  defines "rel \<equiv> cstr (drop (length (sc_prefix sh)) (req_uri (cc_request c)))"
  shows "\<exists>b wd' c'. static_handle sent sh (wd, c) = (Inr b, wd', c') \<and> handled c' \<and> world_inv sh wd' \<and>
    w_opened wd' = w_opened wd @ [cstr (sc_path sh @ rel)] \<and> b = (w_files wd (cstr (sc_path sh @ rel)) \<noteq> None) \<and>
    writes (cc_response c') \<lparr>a_status = status_OK, a_line = Some status_OK,
      a_headers = [(''Content-Type'', ct_to_string (file_content_type rel))],
      a_body = w_files wd (cstr (sc_path sh @ rel))\<rparr>"
proof -
  let ?h = "(''Content-Type'', ct_to_string (file_content_type rel))"
  let ?a = "\<lparr>a_status = status_OK, a_line = Some status_OK, a_headers = [?h], a_body = None\<rparr>"
  have len: "\<not> length (req_uri (cc_request c)) < length (sc_prefix sh)"
    using assms(1) length_takeWhile_le [of _ "req_uri (cc_request c)"]
    by (auto simp: static_can_handle_def cstr_def Let_def not_less intro: order.trans)
  obtain t wd1 where t: "static_content_type sh rel wd = (t, wd1)" by (rule prod.exhaust)
  with static_content_type_run [OF assms(2), of rel] static_opened_ct [of sh rel wd]
  have t': "t = file_content_type rel" "world_inv sh wd1" "w_files wd1 = w_files wd" "w_opened wd1 = w_opened wd" by auto
  obtain w1 where w1: "run_call sent (Put_Header ?h) (cc_response c) = (Inr (), w1)" "writes w1 ?a"
    using writes_header [OF assms(3), of sent ?h] by (auto simp: new_answer_def fix_line_def)
  have put: "cc_put_content_type t (base_handle c) = (Inr (), (base_handle c)\<lparr>cc_response := w1\<rparr>)"
    using w1(1) unfolding cc_put_content_type_def t'(1)
    by (intro on_response_eq) (simp add: omessage_put_content_type_def new_header_def)
  show ?thesis
  proof (cases "w_files wd (cstr (sc_path sh @ rel))")
    case None
    with len t t' w1 put show ?thesis
      unfolding static_handle_def rel_def by (auto simp: Let_def world_inv_def base_handle_def)
  next
    case (Some tx)
    obtain w2 where w2: "oresponse_put sent tx w1 = (Inr (), w2)" "writes w2 (?a\<lparr>a_body := Some tx\<rparr>)"
      using writes_payload [OF w1(2), of sent tx] by (auto simp: fix_line_def)
    then have "cc_response c' = w1 \<Longrightarrow>
        on_response (oresponse_put sent tx) c' = (Inr (), c'\<lparr>cc_response := w2\<rparr>)" for c'
      by (intro on_response_eq) simp
    with Some len t t' w2 put show ?thesis
      unfolding static_handle_def rel_def by (auto simp: Let_def world_inv_def base_handle_def)
  qed
qed

section \<open>Properties\<close>

lemma get_handler_static:
  "get_handler (map (static_file_handler sent) shs) wd rq = Some h \<Longrightarrow>
     \<exists>sh \<in> set shs. h = static_file_handler sent sh \<and> static_can_handle sh rq"
  by (induction shs) (auto simp: static_file_handler_def split: if_splits)

lemma static_server:
  assumes "\<not> handled (snd s)"
  shows "server_handle (map (static_file_handler sent) shs) s =
    (case get_handler (map (static_file_handler sent) shs) (fst s) (cc_request (snd s)) of
       None \<Rightarrow> (Inr False, s)
     | Some h \<Rightarrow> server_answer (h_handle h s))"
  using static_files.marks [of "(sent, _)"] by (intro server_handle_first assms) auto

lemma fst_snd_server_answer: "fst (snd (server_answer r)) = fst (snd r)"
  by (auto simp: server_answer_def answer_exception_def split: prod.split sum.split fault.split)

text \<open>C19: a server of static file handlers opens only files under the directories it was
  given: whatever the request, a file that is opened is the directory of a handler followed by
  the part of the URI behind that handler's prefix, and that part has no two dots in a row.\<close>

theorem static_files_stay_inside:
  assumes "\<forall>sh \<in> set shs. nul_free (sc_path sh)" "\<not> handled (snd s)"
    and "file \<in> set (drop (length (w_opened (fst s)))
           (w_opened (fst (snd (server_handle (map (static_file_handler sent) shs) s)))))"
  shows "\<exists>sh \<in> set shs. \<exists>rel. file = sc_path sh @ rel \<and> \<not> has_dotdot rel \<and>
    cstr (req_uri (cc_request (snd s))) = sc_prefix sh @ rel"
proof (cases "get_handler (map (static_file_handler sent) shs) (fst s) (cc_request (snd s))")
  case None
  with assms(2,3) show ?thesis by (simp add: static_server)
next
  case (Some h)
  then obtain sh where sh: "sh \<in> set shs" "h = static_file_handler sent sh"
      "static_can_handle sh (cc_request (snd s))"
    using get_handler_static by blast
  let ?rel = "cstr (drop (length (sc_prefix sh)) (req_uri (cc_request (snd s))))"
  have "w_opened (fst (snd (server_handle (map (static_file_handler sent) shs) s))) =
      w_opened (fst (snd (static_handle sent sh s)))"
    using Some sh(2) assms(2) by (simp add: static_server fst_snd_server_answer static_file_handler_def)
  with assms(3) static_handle_opened [of sent sh s] have "file = cstr (sc_path sh @ ?rel)"
    by auto
  moreover have "cstr (sc_path sh @ ?rel) = sc_path sh @ ?rel"
    using assms(1) sh(1) by (intro cstr_nul_free) simp
  ultimately show ?thesis
    using sh(1) static_can_handle_split [OF sh(3)] by blast
qed

definition request_for :: "string \<Rightarrow> request" where
  "request_for uri = \<lparr>msg_headers = [], msg_cookies = [], msg_body = [], msg_post = [],
     req_method = RM_GET, req_uri = uri, req_query = []\<rparr>"

definition one_file :: "string \<Rightarrow> string \<Rightarrow> world" where
  "one_file f s = \<lparr>w_mimes = \<lambda>_. [], w_types = [], w_files = [f \<mapsto> s], w_opened = []\<rparr>"

lemma static_files_stay_inside_witness:
  "\<exists>sh \<in> {\<lparr>sc_object = 0, sc_prefix = ''/s/'', sc_path = ''d/''\<rparr>}. \<exists>rel. ''d/a.js'' = sc_path sh @ rel \<and>
    \<not> has_dotdot rel \<and> cstr (req_uri (request_for ''/s/a.js'')) = sc_prefix sh @ rel"
proof -
  let ?sh = "\<lparr>sc_object = 0, sc_prefix = ''/s/'', sc_path = ''d/''\<rparr>"
  let ?wd = "snd (new_static_handler 0 ''/s/'' ''d/'' (one_file ''d/a.js'' ''x''))"
  let ?s = "(?wd, new_conn_context (request_for ''/s/a.js'') new_response_writer)"
  have can: "static_can_handle ?sh (request_for ''/s/a.js'')"
    by code_simp
  have rel: "cstr (drop (length (sc_prefix ?sh)) (req_uri (request_for ''/s/a.js''))) = ''a.js''"
    by code_simp
  have nul: "cstr ''d/a.js'' = ''d/a.js''" by simp
  have "types_inv (w_types (one_file ''d/a.js'' ''x''))"
    by (simp add: one_file_def types_inv_def)
  then have inv: "world_inv ?sh ?wd"
    by (rule new_static_handler_inv) (simp add: new_static_handler_def)
  have o: "w_opened ?wd = []" by (simp add: new_static_handler_def one_file_def)
  have "w_opened (fst (snd (static_handle size_of ?sh ?s))) = [''d/a.js'']"
    using static_handle_writes [of ?sh "snd ?s" ?wd size_of] can inv rel nul o
    by (auto simp: new_conn_context_def)
  moreover have "server_handle [static_file_handler size_of ?sh] ?s = server_answer (static_handle size_of ?sh ?s)"
    using static_files.takes_over [of "(size_of, ?sh)" ?s "[]"] can
    by (simp add: static_file_handler_def new_conn_context_def del: server_handle.simps)
  ultimately have "''d/a.js'' \<in> set (drop (length (w_opened (fst ?s)))
      (w_opened (fst (snd (server_handle (map (static_file_handler size_of) [?sh]) ?s)))))"
    by (simp add: fst_snd_server_answer o del: server_handle.simps)
  then show ?thesis
    using static_files_stay_inside [of "[?sh]" ?s "''d/a.js''" size_of]
    by (simp add: new_conn_context_def del: server_handle.simps)
qed

text \<open>The answer to a request for a static file, as it stands on the connection once the
  context is cleaned up: status 200, the content type of the extension and the content of the
  file. A file that cannot be opened gets the same status and type and an empty body.\<close>

theorem static_file_answer:
  assumes "static_can_handle sh rq" "world_inv sh wd"
  defines "rel \<equiv> cstr (drop (length (sc_prefix sh)) (req_uri rq))"
  shows "\<exists>wd' c' c''.
    server_handle (static_file_handler sent sh # hs) (wd, new_conn_context rq new_response_writer) = (Inr True, wd', c') \<and>
    world_inv sh wd' \<and> clean_conn_context c' = (Inr (), c'') \<and>
    written (cc_response c'') = answer_text \<lparr>a_status = status_OK, a_line = Some status_OK,
      a_headers = [(''Content-Type'', ct_to_string (file_content_type rel))],
      a_body = w_files wd (cstr (sc_path sh @ rel))\<rparr>"
proof -
  let ?c = "new_conn_context rq new_response_writer"
  have rq: "cc_request ?c = rq" and w: "writes (cc_response ?c) new_answer"
    by (simp_all add: new_conn_context_def)
  from static_handle_writes [of sh ?c wd sent] assms w
  obtain b wd' c' where c': "static_handle sent sh (wd, ?c) = (Inr b, wd', c')" "handled c'" "world_inv sh wd'"
      "writes (cc_response c') \<lparr>a_status = status_OK, a_line = Some status_OK,
        a_headers = [(''Content-Type'', ct_to_string (file_content_type rel))],
        a_body = w_files wd (cstr (sc_path sh @ rel))\<rparr>"
    unfolding rq by auto
  have "server_handle (static_file_handler sent sh # hs) (wd, ?c) = server_answer (static_handle sent sh (wd, ?c))"
    using static_files.takes_over [of "(sent, sh)" "(wd, ?c)" hs] assms(1) rq
    by (simp add: static_file_handler_def)
  then have "server_handle (static_file_handler sent sh # hs) (wd, ?c) = (Inr True, wd', c')"
    using c'(1) by (simp add: server_answer_def)
  moreover from writes_done [OF c'(4)] obtain w'' where
    w'': "writer_done response_write_start_line (cc_response c') = (Inr (), w'')" "written w'' =
      answer_text \<lparr>a_status = status_OK, a_line = Some status_OK,
        a_headers = [(''Content-Type'', ct_to_string (file_content_type rel))],
        a_body = w_files wd (cstr (sc_path sh @ rel))\<rparr>"
    by blast
  then have "clean_conn_context c' = (Inr (), c'\<lparr>cc_response := w''\<rparr>)"
    using c'(2) by (simp add: clean_conn_context_def cc_close_def on_response_eq)
  ultimately show ?thesis using c'(3) w''(2) by auto
qed

lemma static_file_answer_witness:
  "\<exists>wd' c' c''.
    server_handle [static_file_handler size_of \<lparr>sc_object = 0, sc_prefix = ''/s/'', sc_path = ''d/''\<rparr>]
      (snd (new_static_handler 0 ''/s/'' ''d/'' (one_file ''d/a.png'' ''x'')),
       new_conn_context (request_for ''/s/a.png'') new_response_writer) = (Inr True, wd', c') \<and>
    clean_conn_context c' = (Inr (), c'') \<and>
    written (cc_response c'') =
      answer_text \<lparr>a_status = status_OK, a_line = Some status_OK,
        a_headers = [(''Content-Type'', ''image/png'')], a_body = Some ''x''\<rparr>"
proof -
  let ?sh = "\<lparr>sc_object = 0, sc_prefix = ''/s/'', sc_path = ''d/''\<rparr>"
  let ?wd = "snd (new_static_handler 0 ''/s/'' ''d/'' (one_file ''d/a.png'' ''x''))"
  have can: "static_can_handle ?sh (request_for ''/s/a.png'')"
    by code_simp
  have rel: "cstr (drop (length (sc_prefix ?sh)) (req_uri (request_for ''/s/a.png''))) = ''a.png''"
    by code_simp
  have ct: "ct_to_string (file_content_type ''a.png'') = ''image/png''"
    by code_simp
  have "types_inv (w_types (one_file ''d/a.png'' ''x''))"
    by (simp add: one_file_def types_inv_def)
  then have inv: "world_inv ?sh ?wd"
    by (rule new_static_handler_inv) (simp add: new_static_handler_def)
  have f: "w_files ?wd ''d/a.png'' = Some ''x''" "cstr ''d/a.png'' = ''d/a.png''"
    by (simp_all add: new_static_handler_def one_file_def)
  from static_file_answer [OF can inv, of size_of "[]"] show ?thesis
    unfolding rel ct using f by (auto simp del: server_handle.simps)
qed

end
