(* ===== verification/Mongoose_Adapter.thy ===== *)
theory Mongoose_Adapter
  imports Static_Content
begin

text \<open>
  The adapter to the mongoose server (\<open>src/mongoose/connContext.cc\<close>,
  \<open>src/mongoose/server.cc\<close>): the request that it builds out of mongoose's message, its
  response writer, and the event handler that runs a request through the server and cleans the
  context up. Mongoose itself is a parameter: \<open>serve hm out\<close> is what is on the connection after
  \<open>mg_serve_http\<close>, when \<open>out\<close> was there before.
\<close>

section \<open>Requests and responses\<close>

text \<open>Mongoose's \<open>struct http_message\<close>; the header arrays end at an empty name.\<close>

record http_message =
  hm_method :: string
  hm_uri :: string
  hm_query :: string
  hm_headers :: "(string \<times> string) list"
  hm_body :: string

definition mongoose_headers :: "(string \<times> string) list \<Rightarrow> header_collection" where
  "mongoose_headers hs = fold (\<lambda>(n, v). hc_add n v) (takeWhile (\<lambda>h. fst h \<noteq> []) (take 40 hs)) []"

definition mongoose_request :: "utf_lib \<Rightarrow> http_message \<Rightarrow> request" where
  "mongoose_request u hm =
     \<lparr>msg_headers = mongoose_headers (hm_headers hm), msg_cookies = [], msg_body = hm_body hm,
      msg_post = (if hm_body hm \<noteq> [] then from_query_string u (hm_body hm) [] else []),
      req_method = method_from_string (cstr (hm_method hm)), req_uri = hm_uri hm,
      req_query = (if hm_query hm \<noteq> [] then from_query_string u (hm_query hm) [] else [])\<rparr>"

definition mongoose_set_method :: "request_method \<Rightarrow> request \<Rightarrow> request result" where
  "mongoose_set_method t rq = Inl AssertFailure"

text \<open>\<open>MongooseResponse\<close>: \<open>WriteData\<close> answers with the size it was given.\<close>

definition mongoose_sent :: "string \<Rightarrow> size_t" where
  "mongoose_sent data = size_of data"

definition mongoose_done :: "(response_writer, unit) op" where
  "mongoose_done = writer_done response_write_start_line"

section \<open>Events\<close>

datatype mg_event = MG_EV_HTTP_REQUEST | MG_EV_WEBSOCKET_HANDSHAKE_REQUEST | MG_EV_OTHER

text \<open>The context goes out of scope at the end of its case, also when an exception leaves the
  server, and is cleaned up then. The result has what is on the connection.\<close>

definition mongoose_clean :: "(rt_error + bool) \<times> 'w \<times> conn_context \<Rightarrow> unit result \<times> 'w \<times> string" where
  "mongoose_clean r =
     (case r of (res, wd, c) \<Rightarrow>
       (let (done, c1) = clean_conn_context c
        in (bindE res (\<lambda>_. done), wd, written (cc_response c1))))"

definition mongoose_handler ::
  "utf_lib \<Rightarrow> (http_message \<Rightarrow> string \<Rightarrow> string) \<Rightarrow> 'w handler list \<Rightarrow> mg_event \<Rightarrow> http_message \<Rightarrow>
   'w \<Rightarrow> unit result \<times> 'w \<times> string" where
  "mongoose_handler u serve hs ev hm wd =
     (case ev of
        MG_EV_HTTP_REQUEST \<Rightarrow>
          mongoose_clean
            (case server_handle hs (wd, new_conn_context (mongoose_request u hm) new_response_writer) of
               (Inr False, wd1, c) \<Rightarrow>
                 (Inr False, wd1, c\<lparr>cc_response := (cc_response c)\<lparr>written := serve hm (written (cc_response c))\<rparr>\<rparr>)
             | r \<Rightarrow> r)
      | MG_EV_WEBSOCKET_HANDSHAKE_REQUEST \<Rightarrow>
          mongoose_clean
            (server_handle hs (wd, new_conn_context (mongoose_request u hm) new_response_writer))
      | MG_EV_OTHER \<Rightarrow> (Inr (), wd, []))"

section \<open>Application functions\<close>

text \<open>A function that makes some calls on the response of its context and then returns, or
  throws a \<open>HandlerException\<close>.\<close>

definition app_calls :: "call list \<Rightarrow> http_status option option \<Rightarrow> ('w \<times> conn_context, unit) hop" where
  "app_calls cs e s =
     (case on_response (run_calls mongoose_sent cs) (snd s) of
        (Inl er, c) \<Rightarrow> (Inl (Fault er), fst s, c)
      | (Inr _, c) \<Rightarrow> ((case e of None \<Rightarrow> Inr () | Some st \<Rightarrow> Inl (Handler_Exception st)), fst s, c))"

definition final_status :: "http_status option option \<Rightarrow> answer \<Rightarrow> answer" where
  "final_status e a =
     (case e of
        None \<Rightarrow> a
      | Some st \<Rightarrow> a\<lparr>a_status := (case st of None \<Rightarrow> status_Internal_Server_Error | Some t \<Rightarrow> t)\<rparr>)"

lemma keeps_mark_app_calls: "keeps_mark (app_calls cs e)"
  by (auto simp: keeps_mark_def app_calls_def dest!: handled_on_response split: prod.splits sum.splits)

lemma writes_put_status: "writes w a \<Longrightarrow> writes (w\<lparr>ow_status := t\<rparr>) (a\<lparr>a_status := t\<rparr>)"
  by (auto simp: writes_def answer_phase_def answer_head_def split: option.splits)

lemma ref_put_status_eq:
  "ref_put_status t c = (Inr (), c\<lparr>cc_response := (cc_response c)\<lparr>ow_status := t\<rparr>\<rparr>)"
  by (simp add: ref_put_status_def on_response_def response_writer_put_status_def)

lemma server_answer_app:
  assumes "spec_calls cs new_answer = (Inr (), a)" "writes (cc_response c) new_answer" "handled c"
  shows "\<exists>c'. server_answer (case app_calls cs e (wd, c) of (Inl x, s) \<Rightarrow> (Inl x, s) | (Inr _, s) \<Rightarrow> (Inr True, s)) =
      (Inr True, wd, c') \<and> handled c' \<and> writes (cc_response c') (final_status e a)"
proof -
  obtain w where w: "run_calls mongoose_sent cs (cc_response c) = (Inr (), w)" "writes w a"
    using writes_calls [OF assms(2), of mongoose_sent cs] assms(1) by auto
  then have run: "on_response (run_calls mongoose_sent cs) c = (Inr (), c\<lparr>cc_response := w\<rparr>)"
    by (intro on_response_eq)
  show ?thesis
    using w(2) assms(3)
    by (cases e) (auto simp: app_calls_def run server_answer_def answer_exception_def ref_put_status_eq
        final_status_def writes_put_status)
qed

lemma mongoose_clean_writes:
  assumes "handled c" "writes (cc_response c) a"
  shows "mongoose_clean (Inr b, wd, c) = (Inr (), wd, answer_text a)"
proof -
  obtain w where "writer_done response_write_start_line (cc_response c) = (Inr (), w)" "written w = answer_text a"
    using writes_done [OF assms(2)] by blast
  with assms(1) show ?thesis
    by (simp add: mongoose_clean_def clean_conn_context_def cc_close_def on_response_eq)
qed

section \<open>The handlers of the library\<close>

definition library_handler :: "'a world_scheme handler \<Rightarrow> bool" where
  "library_handler h \<longleftrightarrow>
     (\<exists>r tys f. (\<forall>args. keeps_mark (f args)) \<and> h = route_handler r tys f) \<or>
     (\<exists>r f. keeps_mark f \<and> h = route_plain_handler r f) \<or>
     (\<exists>sent sh. h = static_file_handler sent sh)"

lemma library_handler_marks: "library_handler h \<Longrightarrow> marks_handled h"
  using routes.marks [of "(_, _, _)"] plain_routes.marks [of "(_, _)"] static_files.marks [of "(_, _)"]
  by (auto simp: library_handler_def)

lemma mongoose_route_run:
  assumes "\<forall>h \<in> set hs. library_handler h"
    and "get_handler hs wd (mongoose_request u hm) =
      Some (route_handler r (piece_types ps) (\<lambda>args. app_calls (calls args) (thrown args)))"
    and "route_path r = format_text ps end_lit" "path_ok ps args end_lit"
    and "route_method_ok r (req_method (mongoose_request u hm))"
    and "hm_uri hm = path_text ps args end_lit"
    and "spec_calls (calls args) new_answer = (Inr (), a)"
  shows "mongoose_handler u serve hs MG_EV_HTTP_REQUEST hm wd =
    (Inr (), wd, answer_text (final_status (thrown args) a))"
proof -
  let ?rq = "mongoose_request u hm" and ?f = "\<lambda>args. app_calls (calls args) (thrown args)"
  let ?c = "new_conn_context ?rq new_response_writer"
  let ?h = "route_handler r (piece_types ps) ?f"
  have rq: "cc_request ?c = ?rq" "\<not> handled ?c" "req_uri ?rq = path_text ps args end_lit"
    using assms(6) by (simp_all add: new_conn_context_def mongoose_request_def)
  have scan: "route_scan r (piece_types ps) (req_uri ?rq) = (length ps + 1, args)"
    using route_scan_run [OF assms(3,4)] by (simp add: rq(3))
  then have handle: "h_handle ?h (wd, ?c) =
      (case ?f args (wd, base_handle ?c) of (Inl x, s) \<Rightarrow> (Inl x, s) | (Inr _, s) \<Rightarrow> (Inr True, s))"
    using assms(5) rq(1) by (simp add: route_handler_def route_handle_def)
  have "writes (cc_response (base_handle ?c)) new_answer" by (simp add: new_conn_context_def)
  then obtain c' where c': "server_answer (h_handle ?h (wd, ?c)) = (Inr True, wd, c')" "handled c'"
      "writes (cc_response c') (final_status (thrown args) a)"
    using server_answer_app [OF assms(7), of "base_handle ?c"] unfolding handle by force
  have "server_handle hs (wd, ?c) = (Inr True, wd, c')"
    using server_handle_first [of hs "(wd, ?c)"] assms(1,2) library_handler_marks rq(1,2) c'(1) by auto
  then show ?thesis
    using mongoose_clean_writes [OF c'(2,3)] by (simp add: mongoose_handler_def)
qed

section \<open>Properties\<close>

text \<open>C24: \<open>Server::Handle\<close> and \<open>Server::GetHandler\<close> agree: with any list of routes and
  static file handlers, whatever their application functions do to the request short of
  taking the mark away, a request runs exactly the handler that \<open>GetHandler\<close> names and no
  other; the loop then answers that it is handled, with the status of the exception put on the
  response if one was thrown. With no handler for it the request is untouched.\<close>

theorem server_runs_first_handler:
  assumes "\<forall>h \<in> set hs. library_handler h" "\<not> handled (snd s)"
  shows "server_handle hs s =
    (case get_handler hs (fst s) (cc_request (snd s)) of
       None \<Rightarrow> (Inr False, s)
     | Some h \<Rightarrow> server_answer (h_handle h s))"
  by (rule server_handle_first) (use assms library_handler_marks in auto)

definition plain_app :: "string \<Rightarrow> call list \<Rightarrow> world handler" where
  "plain_app path cs = route_plain_handler (new_route_any path) (app_calls cs None)"

lemma library_route_app: "library_handler (route_handler r tys (\<lambda>args. app_calls (calls args) (thrown args)))"
  unfolding library_handler_def
  by (rule disjI1, rule exI [of _ r], rule exI [of _ tys],
      rule exI [of _ "\<lambda>args. app_calls (calls args) (thrown args)"]) (simp add: keeps_mark_app_calls)

lemma library_plain_app: "library_handler (plain_app path cs)"
  unfolding library_handler_def plain_app_def using keeps_mark_app_calls by blast

lemma server_runs_first_handler_witness:
  "server_handle [plain_app ''/a'' [], plain_app ''/b'' [Put_Payload ''x''], plain_app ''/b'' []]
      (one_file [] [], new_conn_context (request_for ''/b'') new_response_writer) =
    server_answer (h_handle (plain_app ''/b'' [Put_Payload ''x''])
      (one_file [] [], new_conn_context (request_for ''/b'') new_response_writer))"
proof -
  let ?hs = "[plain_app ''/a'' [], plain_app ''/b'' [Put_Payload ''x''], plain_app ''/b'' []]"
  have "get_handler ?hs (one_file [] []) (request_for ''/b'') = Some (plain_app ''/b'' [Put_Payload ''x''])"
    by (simp add: plain_app_def route_plain_handler_def route_plain_can_handle_def new_route_any_def request_for_def)
  then show ?thesis
    using server_runs_first_handler [of ?hs
        "(one_file [] [], new_conn_context (request_for ''/b'') new_response_writer)"]
    by (simp add: library_plain_app new_conn_context_def del: server_handle.simps)
qed

text \<open>C2: a request over mongoose, from the URI to the bytes on the connection: when the first
  handler that takes the request is a route, and the URI is written along the route's format,
  the application function gets the arguments the URI was written with, and the connection
  ends up holding exactly the message that the calls of the function describe, with the status
  of the exception (500 if it has none) when the function throws a \<open>HandlerException\<close> before
  the start line went out. Nothing else is sent.\<close>

theorem mongoose_route_answer:
  assumes "\<forall>h \<in> set hs. library_handler h"
    and "get_handler hs wd (mongoose_request u hm) =
      Some (route_handler r (piece_types ps) (\<lambda>args. app_calls (calls args) (thrown args)))"
    and "route_path r = format_text ps end_lit" "path_ok ps args end_lit"
    and "route_method_ok r (req_method (mongoose_request u hm))"
    and "hm_uri hm = path_text ps args end_lit"
    and "spec_calls (calls args) new_answer = (Inr (), a)"
  shows "mongoose_handler u serve hs MG_EV_HTTP_REQUEST hm wd =
    (Inr (), wd, answer_text (final_status (thrown args) a))"
  by (rule mongoose_route_run [OF assms])

definition get_message :: "string \<Rightarrow> http_message" where
  "get_message uri = \<lparr>hm_method = ''GET'', hm_uri = uri, hm_query = [], hm_headers = [], hm_body = []\<rparr>"

lemma get_message_uri [simp]: "hm_uri (get_message uri) = uri"
  by (simp add: get_message_def)

lemma mongoose_get_message [simp]: "mongoose_request u (get_message uri) = request_for uri"
proof -
  have "method_from_string ''GET'' = RM_GET" by code_simp
  then show ?thesis
    by (simp add: mongoose_request_def get_message_def request_for_def mongoose_headers_def)
qed

lemma mongoose_route_answer_witness:
  "mongoose_handler latin1_utf (\<lambda>hm out. out)
      [plain_app ''/'' [], route_handler (new_route ''/i/{id}'' RM_GET) [Int_Type]
         (\<lambda>args. app_calls [Put_Payload (concat (map arg_text args))] (if args = [Int_Arg 7] then Some None else None))]
      MG_EV_HTTP_REQUEST (get_message ''/i/7'') (one_file [] []) =
    (Inr (), one_file [] [],
     answer_text \<lparr>a_status = status_Internal_Server_Error, a_line = Some status_OK, a_headers = [],
       a_body = Some ''7''\<rparr>)"
proof -
  let ?calls = "\<lambda>args. [Put_Payload (concat (map arg_text args))]"
  let ?thrown = "\<lambda>args. if args = [Int_Arg 7] then Some None else None"
  let ?r = "new_route ''/i/{id}'' RM_GET"
  let ?h = "route_handler ?r [Int_Type] (\<lambda>args. app_calls (?calls args) (?thrown args))"
  let ?hs = "[plain_app ''/'' [], ?h]" and ?ps = "[(''/i/'', Int_Type, ''id'')]"
  let ?a = "\<lparr>a_status = status_OK, a_line = Some status_OK, a_headers = [], a_body = Some ''7''\<rparr>"
  have n: "show_dec 7 = ''7''" by code_simp
  have lib: "\<forall>h \<in> set ?hs. library_handler h"
    by (simp add: library_plain_app library_route_app)
  have ok: "path_ok ?ps [Int_Arg 7] []" by (simp add: arg_stops_def)
  have path: "path_text ?ps [Int_Arg 7] [] = ''/i/7''" by (simp add: n)
  have fmt: "route_path ?r = format_text ?ps []" by (simp add: new_route_def)
  have m: "route_method_ok ?r RM_GET" by (simp add: new_route_def route_method_ok_def)
  have "route_scan ?r (piece_types ?ps) ''/i/7'' = (length ?ps + 1, [Int_Arg 7])"
    using route_scan_run [OF fmt ok] unfolding path .
  then have "get_handler ?hs (one_file [] []) (request_for ''/i/7'') = Some ?h"
    using m by (simp add: plain_app_def route_plain_handler_def route_plain_can_handle_def new_route_any_def
        request_for_def route_handler_def route_args_can_handle_def)
  then have get: "get_handler ?hs (one_file [] []) (mongoose_request latin1_utf (get_message ''/i/7'')) =
      Some (route_handler ?r (piece_types ?ps) (\<lambda>args. app_calls (?calls args) (?thrown args)))"
    by simp
  have a: "spec_calls (?calls [Int_Arg 7]) new_answer = (Inr (), ?a)"
    by (simp add: op_simps new_answer_def fix_line_def n)
  have "final_status (?thrown [Int_Arg 7]) ?a = ?a\<lparr>a_status := status_Internal_Server_Error\<rparr>"
    by (simp add: final_status_def)
  with mongoose_route_answer [OF lib get fmt ok _ _ a, of "\<lambda>hm out. out"] path m show ?thesis
    by (simp add: request_for_def del: path_text.simps)
qed

text \<open>A request over mongoose that no handler takes is left to mongoose's own file server,
  on a connection and a process state that the library has not touched; after a websocket
  handshake that no handler takes, nothing is sent at all.\<close>

theorem mongoose_leaves_unhandled:
  assumes "get_handler hs wd (mongoose_request u hm) = None" "\<forall>h \<in> set hs. library_handler h"
  shows "mongoose_handler u serve hs MG_EV_HTTP_REQUEST hm wd = (Inr (), wd, serve hm []) \<and>
    mongoose_handler u serve hs MG_EV_WEBSOCKET_HANDSHAKE_REQUEST hm wd = (Inr (), wd, [])"
proof -
  let ?s = "(wd, new_conn_context (mongoose_request u hm) new_response_writer)"
  have "server_handle hs ?s = (Inr False, ?s)"
    using server_handle_first [of hs ?s] assms library_handler_marks by (auto simp: new_conn_context_def)
  then show ?thesis
    by (simp add: mongoose_handler_def mongoose_clean_def clean_conn_context_def new_conn_context_def
        new_response_writer_def)
qed

lemma mongoose_leaves_unhandled_witness:
  "mongoose_handler latin1_utf (\<lambda>hm out. out @ hm_uri hm) [plain_app ''/a'' []] MG_EV_HTTP_REQUEST
      (get_message ''/b'') (one_file [] []) = (Inr (), one_file [] [], ''/b'')"
proof -
  have "get_handler [plain_app ''/a'' []] (one_file [] []) (request_for ''/b'') = None"
    by (simp add: plain_app_def route_plain_handler_def route_plain_can_handle_def new_route_any_def request_for_def)
  with mongoose_leaves_unhandled [of "[plain_app ''/a'' []]" "one_file [] []" latin1_utf
      "get_message ''/b''" "\<lambda>hm out. out @ hm_uri hm"]
  show ?thesis by (simp add: library_plain_app)
qed

text \<open>The headers of a mongoose request: of a message with distinct header names that are
  not empty, the first 40 are found under their names with their values, and no other name is.\<close>

theorem mongoose_request_headers:
  assumes "distinct (map fst (hm_headers hm))" "\<forall>h \<in> set (hm_headers hm). fst h \<noteq> []"
  shows "hc_get n (msg_headers (mongoose_request u hm)) = map_of (take 40 (hm_headers hm)) n"
proof -
  let ?hs = "take 40 (hm_headers hm)"
  have "\<forall>h \<in> set ?hs. fst h \<noteq> []"
    using assms(2) in_set_takeD [of _ 40 "hm_headers hm"] by blast
  then have "takeWhile (\<lambda>h. fst h \<noteq> []) ?hs = ?hs" unfolding takeWhile_eq_all_conv .
  then have hs: "msg_headers (mongoose_request u hm) = fold (\<lambda>(n, v). hc_add n v) ?hs []"
    by (simp add: mongoose_request_def mongoose_headers_def del: takeWhile_eq_all_conv)
  have d: "distinct (map fst ?hs)" using assms(1) by (simp add: take_map [symmetric])
  show ?thesis
  proof (cases "map_of ?hs n")
    case None
    then have "n \<notin> fst ` set ?hs" by (simp add: map_of_eq_None_iff)
    then show ?thesis unfolding hs None using hdr.get_adds_other [of n ?hs "[]"] by (simp add: hc_get_def)
  next
    case (Some v)
    then have "(n, v) \<in> set ?hs" by (rule map_of_SomeD)
    then show ?thesis unfolding hs Some using hdr.get_adds_distinct [OF d, of n v "[]"] by (simp add: hc_get_def)
  qed
qed

lemma mongoose_request_headers_witness:
  "hc_get ''B'' (msg_headers (mongoose_request latin1_utf
     ((get_message ''/'')\<lparr>hm_headers := [(''A'', ''1''), (''B'', ''2'')]\<rparr>))) = Some ''2''"
  using mongoose_request_headers [of "(get_message ''/'')\<lparr>hm_headers := [(''A'', ''1''), (''B'', ''2'')]\<rparr>" "''B''" latin1_utf]
  by simp

definition type_error_app :: "(content_type \<Rightarrow> bool) \<Rightarrow> ('w \<times> conn_context, unit) hop" where
  "type_error_app handlers s =
     (case type_conversion_error handlers (snd s) of (r, c) \<Rightarrow> (r, fst s, c))"

lemma type_conversion_writes:
  assumes "writes (cc_response c) new_answer"
  shows "\<exists>c'. type_conversion_error handlers c = (Inl (Handler_Exception (Some status_Not_Acceptable)), c') \<and>
    handled c' \<and> writes (cc_response c') \<lparr>a_status = status_OK, a_line = Some status_OK,
      a_headers = [(''Accept'', accept_list handlers)], a_body = None\<rparr>"
proof -
  let ?h = "(''Accept'', accept_list handlers)"
  obtain w where w: "run_call mongoose_sent (Put_Header ?h) (cc_response c) = (Inr (), w)"
      "writes w \<lparr>a_status = status_OK, a_line = Some status_OK, a_headers = [?h], a_body = None\<rparr>"
    using writes_header [OF assms, of mongoose_sent ?h] by (auto simp: new_answer_def fix_line_def)
  then have "cc_put_header (new_header ''Accept'' (accept_list handlers)) c =
      (Inr (), (mark_handled c)\<lparr>cc_response := w\<rparr>)"
    unfolding cc_put_header_def
    by (intro on_response_eq) (simp add: omessage_put_header_def new_header_def mark_handled_def)
  with w(2) show ?thesis by (simp add: type_conversion_error_def mark_handled_def)
qed

text \<open>\<open>type_conversion_error\<close> is meant to answer 406 Not Acceptable, but the header it
  writes first sends the start line: from a route over mongoose the client gets 200 OK, with the
  list of the content types that have a handler and no body.\<close>

theorem type_conversion_answers_200:
  "\<exists>rest. mongoose_handler u serve [route_plain_handler (new_route_any (hm_uri hm)) (type_error_app handlers)]
      MG_EV_HTTP_REQUEST hm wd =
    (Inr (), wd, ''HTTP/1.1 200 OK'' @ crlf @ ''Accept: '' @ accept_list handlers @ crlf @ rest)"
proof -
  let ?c = "new_conn_context (mongoose_request u hm) new_response_writer"
  let ?h = "route_plain_handler (new_route_any (hm_uri hm)) (type_error_app handlers)"
  let ?a = "\<lparr>a_status = status_Not_Acceptable, a_line = Some status_OK,
      a_headers = [(''Accept'', accept_list handlers)], a_body = None\<rparr>"
  have can: "route_plain_can_handle (new_route_any (hm_uri hm)) m (req_uri (mongoose_request u hm))" for m
    by (simp add: route_plain_can_handle_def new_route_any_def mongoose_request_def)
  have "writes (cc_response (base_handle ?c)) new_answer" by (simp add: new_conn_context_def)
  from type_conversion_writes [OF this, of handlers] obtain c' where
    c': "type_conversion_error handlers (base_handle ?c) = (Inl (Handler_Exception (Some status_Not_Acceptable)), c')"
      "handled c'" "writes (cc_response c') \<lparr>a_status = status_OK, a_line = Some status_OK,
        a_headers = [(''Accept'', accept_list handlers)], a_body = None\<rparr>"
    by blast
  let ?c2 = "c'\<lparr>cc_response := (cc_response c')\<lparr>ow_status := status_Not_Acceptable\<rparr>\<rparr>"
  have "server_handle [?h] (wd, ?c) = (Inr True, wd, ?c2)"
    using can [of "req_method (mongoose_request u hm)"] c'(1)
    by (simp add: route_plain_handler_def route_plain_handle_def type_error_app_def new_conn_context_def
        answer_exception_def ref_put_status_eq)
  moreover have "writes (cc_response ?c2) ?a" using writes_put_status [OF c'(3)] by simp
  ultimately have "mongoose_handler u serve [?h] MG_EV_HTTP_REQUEST hm wd = (Inr (), wd, answer_text ?a)"
    using mongoose_clean_writes [of ?c2 ?a True wd] c'(2) by (simp add: mongoose_handler_def)
  moreover have "show_dec 200 = ''200''" by code_simp
  then have "answer_text ?a = ''HTTP/1.1 200 OK'' @ crlf @ ''Accept: '' @ accept_list handlers @ crlf @
      header_line (''Content-Length'', show_dec 0) @ crlf"
    by (simp add: answer_text_def answer_head_def fix_line_def start_line_text_def start_string_def
        status_OK_def header_line_def)
  ultimately show ?thesis by simp
qed

end
