(* ===== verification/Post_Form.thy ===== *)
theory Post_Form
  imports Http_Header
begin

text \<open>
  Posted forms (\<open>src/connContext.cc\<close>): \<open>mapContents\<close> reads a body of fields
  \<open>name=value\<close> between ampersands into a multimap and undoes the percent escapes of the
  values (\<open>unescapeString\<close>).
\<close>

section \<open>The code\<close>

text \<open>The two characters after a percent sign are cut out as a C string for \<open>strtol\<close>;
  a \<open>long\<close> goes into a \<open>char\<close> modulo 256.\<close>

definition unescape_hex :: "char \<Rightarrow> char \<Rightarrow> char" where
  "unescape_hex a b = char_of (nat (fst (strtol 16 (cstr [a, b])) mod 256))"

fun unescape_loop :: "string \<Rightarrow> string" where
  "unescape_loop (c # a # b # s) =
     (if c = CHR ''%'' then unescape_hex a b # unescape_loop s else c # unescape_loop (a # b # s))"
| "unescape_loop s = s"

definition unescape_string :: "string \<Rightarrow> string result" where
  "unescape_string s = (if s = [] then Inl AssertFailure else Inr (unescape_loop s))"

text \<open>The loop of \<open>mapContents\<close>: \<open>seg\<close> is the text from \<open>l_it\<close> to \<open>it\<close>.\<close>

fun map_contents_loop :: "string \<Rightarrow> string \<Rightarrow> string \<Rightarrow> post_collection \<Rightarrow> post_collection result" where
  "map_contents_loop name seg [] post = Inr post"
| "map_contents_loop name seg (c # cs) post =
     (if c = CHR ''='' then map_contents_loop seg [] cs post
      else if c = CHR ''&'' then
        bindE (unescape_string seg)
          (\<lambda>val. map_contents_loop name [] cs (mm_insert (new_post_content name val) post))
      else map_contents_loop name (seg @ [c]) cs post)"

definition plus_to_space :: "string \<Rightarrow> string" where
  "plus_to_space s = map (\<lambda>c. if c = CHR ''+'' then CHR '' '' else c) s"

definition map_contents :: "string \<Rightarrow> post_collection \<Rightarrow> post_collection result" where
  "map_contents raw post =
     (if raw = [] then Inr post
      else
        (let raw1 = (if last raw \<noteq> CHR ''&'' then raw @ ''&'' else raw)
         in map_contents_loop [] [] (plus_to_space raw1) post))"

section \<open>Forms as a client writes them\<close>

definition unreserved :: "char \<Rightarrow> bool" where
  "unreserved c \<longleftrightarrow> (let n = (of_char c :: nat) in
     48 \<le> n \<and> n \<le> 57 \<or> 65 \<le> n \<and> n \<le> 90 \<or> 97 \<le> n \<and> n \<le> 122 \<or> n = 45 \<or> n = 46 \<or> n = 95)"

definition escape_char :: "char \<Rightarrow> string" where
  "escape_char c =
     (if unreserved c then [c]
      else if c = CHR '' '' then ''+''
      else [CHR ''%'', digit_char (of_char c div 16), digit_char (of_char c mod 16)])"

definition escape :: "string \<Rightarrow> string" where
  "escape s = concat (map escape_char s)"

definition field_text :: "string \<times> string \<Rightarrow> string" where
  "field_text f = fst f @ ''='' @ escape (snd f)"

definition form_text :: "(string \<times> string) list \<Rightarrow> string" where
  "form_text fs = join_with ''&'' (map field_text fs)"

definition field_name :: "string \<Rightarrow> bool" where
  "field_name n \<longleftrightarrow> (\<forall>c \<in> set n. c \<noteq> CHR ''='' \<and> c \<noteq> CHR ''&'' \<and> c \<noteq> CHR ''+'')"

section \<open>Escapes are undone\<close>

lemma digit_char_plain:
  assumes "d < 16"
  shows "digit_char d \<notin> {CHR ''='', CHR ''&'', CHR ''+'', CHR ''%'', CHR ''-'', CHR '' '', NUL}"
    and "\<not> isspace_c (digit_char d)"
proof -
  from assms have "(of_char (digit_char d) :: nat) = (if d < 10 then 48 + d else 87 + d)"
    by (simp add: of_char_digit_char)
  then have n: "(48 \<le> (of_char (digit_char d) :: nat) \<and> of_char (digit_char d) \<le> (57 :: nat)) \<or>
      (97 \<le> (of_char (digit_char d) :: nat) \<and> of_char (digit_char d) \<le> (102 :: nat))"
    using assms by auto
  then show "digit_char d \<notin> {CHR ''='', CHR ''&'', CHR ''+'', CHR ''%'', CHR ''-'', CHR '' '', NUL}"
    by auto
  from n show "\<not> isspace_c (digit_char d)" by (auto simp: isspace_c_def)
qed

lemma unescape_hex_digits:
  assumes "a < 16" "b < 16"
  shows "unescape_hex (digit_char a) (digit_char b) = char_of (a * 16 + b)"
proof -
  have "cstr [digit_char a, digit_char b] = [digit_char a, digit_char b]"
    using digit_char_plain(1) [OF assms(1)] digit_char_plain(1) [OF assms(2)] by simp
  moreover have "strtol 16 [digit_char a, digit_char b] = (int (a * 16 + b), [])"
    using assms digit_char_plain [OF assms(1)]
    by (simp add: strtol_def take_sign_def skip_0x_def clamp_long_def digits_value_def
        is_digit_in_digit_char digit_val_digit_char)
  ultimately have "unescape_hex (digit_char a) (digit_char b) = char_of (nat (int (a * 16 + b) mod 256))"
    by (simp add: unescape_hex_def)
  also have "nat (int (a * 16 + b) mod 256) = a * 16 + b"
    using assms by (simp add: nat_mod_distrib)
  finally show ?thesis .
qed

text \<open>What reaches \<open>unescapeString\<close>, after the replacement of plus signs.\<close>

definition sent_char :: "char \<Rightarrow> string" where
  "sent_char c = plus_to_space (escape_char c)"

lemma nibbles [simp]: "(of_char c :: nat) div 16 < 16"
  by (rule less_mult_imp_div_less) simp

lemma sent_char_eq:
  "sent_char c =
     (if unreserved c \<or> c = CHR '' '' then [c]
      else [CHR ''%'', digit_char (of_char c div 16), digit_char (of_char c mod 16)])"
proof -
  show ?thesis
    using digit_char_plain(1) [of "of_char c div 16"] digit_char_plain(1) [of "of_char c mod 16"]
    by (auto simp: sent_char_def escape_char_def plus_to_space_def unreserved_def)
qed

lemma unescape_loop_plain: "c \<noteq> CHR ''%'' \<Longrightarrow> unescape_loop (c # s) = c # unescape_loop s"
  by (cases s rule: unescape_loop.cases; cases "tl s") auto

lemma unescape_sent: "unescape_loop (concat (map sent_char s)) = s"
proof (induction s)
  case (Cons c s)
  have lt: "(of_char c :: nat) div 16 < 16" "(of_char c :: nat) mod 16 < 16"
    by simp_all
  have "c \<noteq> CHR ''%''" if "unreserved c \<or> c = CHR '' ''"
    using that by (auto simp: unreserved_def)
  then show ?case
    using Cons unescape_hex_digits [OF lt] by (auto simp: sent_char_eq unescape_loop_plain)
qed simp

section \<open>Fields\<close>

lemma map_contents_loop_run:
  "CHR ''='' \<notin> set w \<Longrightarrow> CHR ''&'' \<notin> set w \<Longrightarrow>
     map_contents_loop n seg (w @ cs) post = map_contents_loop n (seg @ w) cs post"
  by (induction w arbitrary: seg) auto

definition sent_value :: "string \<Rightarrow> string" where
  "sent_value v = concat (map sent_char v)"

lemma plus_to_space_simps [simp]:
  "plus_to_space (s @ t) = plus_to_space s @ plus_to_space t"
  "plus_to_space [] = []"
  "plus_to_space (c # s) = (if c = CHR ''+'' then CHR '' '' else c) # plus_to_space s"
  by (simp_all add: plus_to_space_def)

lemma plus_to_space_escape: "plus_to_space (escape v) = sent_value v"
  by (induction v) (auto simp: escape_def sent_value_def sent_char_def)

lemma plus_to_space_name: "field_name n \<Longrightarrow> plus_to_space n = n"
  by (induction n) (auto simp: field_name_def plus_to_space_def)

lemma sent_value_plain: "CHR ''='' \<notin> set (sent_value v)" "CHR ''&'' \<notin> set (sent_value v)"
proof -
  have "CHR ''='' \<notin> set (sent_char c) \<and> CHR ''&'' \<notin> set (sent_char c)" for c
    using digit_char_plain(1) [of "of_char c div 16"] digit_char_plain(1) [of "of_char c mod 16"]
    by (auto simp: sent_char_eq unreserved_def)
  then show "CHR ''='' \<notin> set (sent_value v)" "CHR ''&'' \<notin> set (sent_value v)"
    by (auto simp: sent_value_def)
qed

lemma sent_value_Nil [simp]: "sent_value v = [] \<longleftrightarrow> v = []"
  by (cases v) (auto simp: sent_value_def sent_char_eq)

lemma unescape_string_sent:
  "unescape_string (sent_value v) = (if v = [] then Inl AssertFailure else Inr v)"
  using unescape_sent [of v] by (simp add: unescape_string_def) (simp add: sent_value_def)

definition sent_field :: "string \<times> string \<Rightarrow> string" where
  "sent_field f = fst f @ ''='' @ sent_value (snd f) @ ''&''"

definition insert_fields :: "(string \<times> string) list \<Rightarrow> post_collection \<Rightarrow> post_collection" where
  "insert_fields fs post = fold mm_insert fs post"

lemma map_contents_loop_fields:
  "\<forall>f \<in> set fs. field_name (fst f) \<Longrightarrow>
     map_contents_loop n [] (concat (map sent_field fs)) post =
       (if \<exists>f \<in> set fs. snd f = [] then Inl AssertFailure else Inr (insert_fields fs post))"
proof (induction fs arbitrary: n post)
  case (Cons f fs)
  have name: "CHR ''='' \<notin> set (fst f)" "CHR ''&'' \<notin> set (fst f)"
    using Cons.prems by (auto simp: field_name_def)
  have "map_contents_loop n [] (concat (map sent_field (f # fs))) post =
      bindE (unescape_string (sent_value (snd f)))
        (\<lambda>val. map_contents_loop (fst f) [] (concat (map sent_field fs)) (mm_insert (fst f, val) post))"
    using map_contents_loop_run [OF name, of n "[]"]
      map_contents_loop_run [OF sent_value_plain, of "fst f" "[]"]
    by (simp add: sent_field_def new_post_content_def)
  with Cons show ?case
    by (cases f) (simp add: unescape_string_sent insert_fields_def)
qed (simp add: insert_fields_def)

lemma plus_to_space_field:
  "field_name (fst f) \<Longrightarrow> sent_field f = plus_to_space (field_text f) @ ''&''"
  by (simp add: field_text_def sent_field_def plus_to_space_escape plus_to_space_name)

lemma join_terminated: "xs \<noteq> [] \<Longrightarrow> join_with sep xs @ sep = concat (map (\<lambda>x. x @ sep) xs)"
  by (induction sep xs rule: join_with.induct) auto

lemma last_join: "xs \<noteq> [] \<Longrightarrow> last xs \<noteq> [] \<Longrightarrow> last (join_with sep xs) = last (last xs)"
  by (cases xs rule: rev_cases; cases "butlast xs = []") (simp_all add: join_with_snoc)

lemma last_field: "field_text f \<noteq> []" "last (field_text f) \<noteq> CHR ''&''"
proof -
  show "field_text f \<noteq> []" by (simp add: field_text_def)
  have "CHR ''&'' \<notin> set (escape_char c)" for c
    using digit_char_plain(1) [of "of_char c div 16"] digit_char_plain(1) [of "of_char c mod 16"]
    by (auto simp: escape_char_def unreserved_def)
  then have "CHR ''&'' \<notin> set (''='' @ escape (snd f))"
    by (auto simp: escape_def)
  moreover have "last (''='' @ escape (snd f)) \<in> set (''='' @ escape (snd f))"
    by (rule last_in_set) simp
  moreover have "last (field_text f) = last (''='' @ escape (snd f))"
    by (simp add: field_text_def)
  ultimately show "last (field_text f) \<noteq> CHR ''&''" by metis
qed

lemma map_contents_form:
  assumes "\<forall>f \<in> set fs. field_name (fst f)"
  shows "map_contents (form_text fs) post =
    (if \<exists>f \<in> set fs. snd f = [] then Inl AssertFailure else Inr (insert_fields fs post))"
proof (cases "fs = []")
  case True
  then show ?thesis by (simp add: map_contents_def form_text_def insert_fields_def)
next
  case False
  let ?xs = "map field_text fs"
  have last: "last (form_text fs) \<noteq> CHR ''&''"
    unfolding form_text_def using False last_field by (subst last_join) (auto simp: last_map)
  have ne: "form_text fs \<noteq> []"
  proof
    assume "form_text fs = []"
    then have "concat (map (\<lambda>x. x @ ''&'') ?xs) = ''&''"
      using join_terminated [of ?xs "''&''"] False by (simp add: form_text_def)
    then show False using False last_field(1) by (cases fs) (auto simp: append_eq_Cons_conv)
  qed
  have "form_text fs @ ''&'' = concat (map (\<lambda>x. x @ ''&'') ?xs)"
    unfolding form_text_def using False by (intro join_terminated) simp
  moreover have "plus_to_space (concat (map (\<lambda>x. x @ ''&'') ?xs)) = concat (map sent_field fs)"
    using assms by (induction fs) (auto simp: plus_to_space_field)
  ultimately have "plus_to_space (form_text fs @ ''&'') = concat (map sent_field fs)" by simp
  with last ne show ?thesis
    by (simp add: map_contents_def map_contents_loop_fields [OF assms] del: plus_to_space_simps)
qed

text \<open>Reading the fields of a name, in the order of the body.\<close>

lemma insert_fields_values:
  "mm_ok post \<Longrightarrow>
     mm_ok (insert_fields fs post) \<and>
     mm_values n (insert_fields fs post) = mm_values n post @ map snd (filter (\<lambda>f. fst f = n) fs)"
proof (induction fs arbitrary: post)
  case (Cons f fs)
  obtain k v where "f = (k, v)" by force
  with Cons show ?case
    by (auto simp: insert_fields_def mm_ok_insert mm_values_insert)
qed (simp add: insert_fields_def)

section \<open>Properties\<close>

text \<open>C33: a form whose values are escaped as the standard says, any bytes in them, comes back
  from \<open>mapContents\<close>: under each name the multimap has the values of its fields in their
  order, in addition to what it had. One field with an empty value, which every browser sends
  for an empty input, fails the assertion in \<open>unescapeString\<close> and stops the program.\<close>

theorem posted_form_roundtrip:
  assumes "\<forall>f \<in> set fs. field_name (fst f)" "mm_ok post"
  shows "map_contents (form_text fs) post = Inl AssertFailure \<and> (\<exists>f \<in> set fs. snd f = []) \<or>
    (\<exists>post'. map_contents (form_text fs) post = Inr post' \<and> (\<forall>f \<in> set fs. snd f \<noteq> []) \<and>
      (\<forall>n. mm_values n post' = mm_values n post @ map snd (filter (\<lambda>f. fst f = n) fs)))"
  using map_contents_form [OF assms(1)] insert_fields_values [OF assms(2)] by auto

lemma posted_form_roundtrip_witness:
  "\<exists>post'. map_contents (form_text [(''a'', ''1&2''), (''b'', ''x y''), (''a'', ''%'')]) [] = Inr post' \<and>
     mm_values ''a'' post' = [''1&2'', ''%'']"
proof -
  let ?fs = "[(''a'', ''1&2''), (''b'', ''x y''), (''a'', ''%'')]"
  have "\<forall>f \<in> set ?fs. field_name (fst f)" "mm_ok []"
    by (simp_all add: field_name_def mm_ok_def)
  from posted_form_roundtrip [OF this] show ?thesis
    by (auto simp: mm_values_def)
qed

end
