(* ===== verification/Template_Escapes.thy ===== *)
theory Template_Escapes
  imports Rt_Prelude
begin

text \<open>
  The escaping modifiers of the template engine in the tree
  (\<open>third/ctemplate-2.2/src/template_modifiers.cc\<close>), which the template binding of the server
  uses to put values into pages: for HTML, preformatted text, XML, CSS and JSON, the cleansing of
  attributes and style, and the prefix of lines. A modifier gets the bytes of a value and
  emits bytes; what it emits is the result here. Most of them scan for characters that need a
  replacement and emit the run before each one in a single call (\<open>EmitRun\<close>).
\<close>

section \<open>Scanning for characters to replace\<close>

abbreviation QUOT :: char where "QUOT \<equiv> CHR 0x22"
abbreviation APOS :: char where "APOS \<equiv> CHR 0x27"
abbreviation BSL :: char where "BSL \<equiv> CHR 0x5C"
abbreviation VT :: char where "VT \<equiv> CHR 0x0B"
abbreviation FF :: char where "FF \<equiv> CHR 0x0C"
abbreviation BS :: char where "BS \<equiv> CHR 0x08"

text \<open>The run from \<open>start\<close> to \<open>pos\<close> is emitted when it is not empty.\<close>

definition emit_run :: "string \<Rightarrow> string" where
  "emit_run run = (if run \<noteq> [] then run else [])"

text \<open>The loop that the modifiers share, given the cases of its switch. \<open>run\<close> is the text from
  \<open>start\<close> to \<open>pos\<close>.\<close>

fun scan_escape :: "(char \<Rightarrow> string option) \<Rightarrow> string \<Rightarrow> string \<Rightarrow> string" where
  "scan_escape f run [] = emit_run run"
| "scan_escape f run (c # s) =
     (case f c of
        None \<Rightarrow> scan_escape f (run @ [c]) s
      | Some e \<Rightarrow> emit_run run @ e @ scan_escape f [] s)"

section \<open>The modifiers\<close>

definition null_modify :: "string \<Rightarrow> string" where
  "null_modify s = s"

definition html_case :: "char \<Rightarrow> string option" where
  "html_case c =
     (if c = CHR ''&'' then Some ''&amp;''
      else if c = QUOT then Some ''&quot;''
      else if c = APOS then Some ''&#39;''
      else if c = CHR ''<'' then Some ''&lt;''
      else if c = CHR ''>'' then Some ''&gt;''
      else if c = CR \<or> c = LF \<or> c = VT \<or> c = FF \<or> c = TAB then Some '' ''
      else None)"

definition html_escape :: "string \<Rightarrow> string" where
  "html_escape s = scan_escape html_case [] s"

definition pre_case :: "char \<Rightarrow> string option" where
  "pre_case c =
     (if c = CHR ''&'' then Some ''&amp;''
      else if c = QUOT then Some ''&quot;''
      else if c = APOS then Some ''&#39;''
      else if c = CHR ''<'' then Some ''&lt;''
      else if c = CHR ''>'' then Some ''&gt;''
      else None)"

definition pre_escape :: "string \<Rightarrow> string" where
  "pre_escape s = scan_escape pre_case [] s"

text \<open>A \<open>char\<close> is signed, so a byte above 127 is not below 0x20.\<close>

definition xml_case :: "char \<Rightarrow> string option" where
  "xml_case c =
     (if 0 \<le> schar c \<and> schar c < 32 \<and> c \<noteq> TAB \<and> c \<noteq> CR \<and> c \<noteq> LF then Some '' ''
      else if c = CHR ''&'' then Some ''&amp;''
      else if c = QUOT then Some ''&quot;''
      else if c = APOS then Some ''&#39;''
      else if c = CHR ''<'' then Some ''&lt;''
      else if c = CHR ''>'' then Some ''&gt;''
      else None)"

definition xml_escape :: "string \<Rightarrow> string" where
  "xml_escape s = scan_escape xml_case [] s"

definition json_case :: "char \<Rightarrow> string option" where
  "json_case c =
     (if c = QUOT then Some [BSL, QUOT]
      else if c = BSL then Some [BSL, BSL]
      else if c = CHR ''/'' then Some [BSL, CHR ''/'']
      else if c = BS then Some [BSL, CHR ''b'']
      else if c = FF then Some [BSL, CHR ''f'']
      else if c = LF then Some [BSL, CHR ''n'']
      else if c = CR then Some [BSL, CHR ''r'']
      else if c = TAB then Some [BSL, CHR ''t'']
      else if c = CHR ''&'' then Some (BSL # ''u0026'')
      else if c = CHR ''<'' then Some (BSL # ''u003C'')
      else if c = CHR ''>'' then Some (BSL # ''u003E'')
      else None)"

definition json_escape :: "string \<Rightarrow> string" where
  "json_escape s = scan_escape json_case [] s"

definition is_alnum :: "char \<Rightarrow> bool" where
  "is_alnum c \<longleftrightarrow> (let n = (of_char c :: nat) in
     97 \<le> n \<and> n \<le> 122 \<or> 65 \<le> n \<and> n \<le> 90 \<or> 48 \<le> n \<and> n \<le> 57)"

text \<open>\<open>CleanseAttribute\<close>: the loop with its index.\<close>

fun cleanse_attribute_loop :: "nat \<Rightarrow> nat \<Rightarrow> string \<Rightarrow> string" where
  "cleanse_attribute_loop i inlen [] = []"
| "cleanse_attribute_loop i inlen (c # s) =
     (if c = CHR ''='' then (if i = 0 \<or> i = inlen - 1 then CHR ''_'' else c)
      else if c = CHR ''-'' \<or> c = CHR ''.'' \<or> c = CHR ''_'' \<or> c = CHR '':'' then c
      else if is_alnum c then c
      else CHR ''_'') # cleanse_attribute_loop (i + 1) inlen s"

definition cleanse_attribute :: "string \<Rightarrow> string" where
  "cleanse_attribute s = cleanse_attribute_loop 0 (length s) s"

fun cleanse_css :: "string \<Rightarrow> string" where
  "cleanse_css [] = []"
| "cleanse_css (c # s) =
     (if c \<in> set '' _.,!#%-'' then c # cleanse_css s
      else if is_alnum c then c # cleanse_css s
      else cleanse_css s)"

definition css_url_char :: "char \<Rightarrow> string" where
  "css_url_char c =
     (if c = LF then ''%0A''
      else if c = CR then ''%0D''
      else if c = QUOT then ''%22''
      else if c = APOS then ''%27''
      else if c = CHR ''('' then ''%28''
      else if c = CHR '')'' then ''%29''
      else if c = CHR ''*'' then ''%2A''
      else if c = CHR ''<'' then ''%3C''
      else if c = CHR ''>'' then ''%3E''
      else if c = BSL then ''%5C''
      else [c])"

fun css_url_escape :: "string \<Rightarrow> string" where
  "css_url_escape [] = []"
| "css_url_escape (c # s) = css_url_char c @ css_url_escape s"

text \<open>\<open>JavascriptNumber\<close>\<close>

definition js_hex_char :: "char \<Rightarrow> bool" where
  "js_hex_char c \<longleftrightarrow> (let n = (of_char c :: nat) in
     97 \<le> n \<and> n \<le> 102 \<or> 65 \<le> n \<and> n \<le> 70 \<or> 48 \<le> n \<and> n \<le> 57)"

definition js_decimal_char :: "char \<Rightarrow> bool" where
  "js_decimal_char c \<longleftrightarrow> (let n = (of_char c :: nat) in
     48 \<le> n \<and> n \<le> 57 \<or> c = CHR ''+'' \<or> c = CHR ''-'' \<or> c = CHR ''.'' \<or> c = CHR ''e'' \<or> c = CHR ''E'')"

definition javascript_number :: "string \<Rightarrow> string" where
  "javascript_number s =
     (if s = [] then []
      else if s = ''true'' \<or> s = ''false'' then s
      else
        (let valid =
           (if hd s = CHR ''0'' \<and> 2 < length s \<and> (s ! 1 = CHR ''x'' \<or> s ! 1 = CHR ''X'')
            then list_all js_hex_char (drop 2 s) else list_all js_decimal_char s)
         in if valid then s else ''null''))"

text \<open>\<open>PrefixLine\<close>: the next line up to and with its end, which is CR LF, LF or CR.\<close>

definition line_length :: "string \<Rightarrow> nat option" where
  "line_length s =
     (let nl = (if LF \<in> set s then Some (length (takeWhile (\<lambda>c. c \<noteq> LF) s)) else None);
          before = (case nl of Some n \<Rightarrow> take n s | None \<Rightarrow> s);
          cr = (if CR \<in> set before then Some (length (takeWhile (\<lambda>c. c \<noteq> CR) before)) else None)
      in case (nl, cr) of
           (None, None) \<Rightarrow> None
         | (Some n, None) \<Rightarrow> Some (n + 1)
         | (None, Some m) \<Rightarrow> Some (m + 1)
         | (Some n, Some m) \<Rightarrow> if n = m + 1 \<or> n < m then Some (n + 1) else Some (m + 1))"

lemma line_length_pos: "line_length s = Some n \<Longrightarrow> 0 < n"
  by (auto simp: line_length_def Let_def split: option.splits if_splits)

function prefix_line :: "string \<Rightarrow> string \<Rightarrow> string" where
  "prefix_line arg s =
     (if s = [] then []
      else case line_length s of
          None \<Rightarrow> s
        | Some n \<Rightarrow> take n s @ arg @ prefix_line arg (drop n s))"
  by pat_completeness auto
termination
  by (relation "measure (\<lambda>(arg, s). length s)") (auto dest: line_length_pos)

declare prefix_line.simps [simp del]

section \<open>The loop and the characters\<close>

text \<open>What a character becomes.\<close>

definition replaced :: "(char \<Rightarrow> string option) \<Rightarrow> char \<Rightarrow> string" where
  "replaced f c = (case f c of None \<Rightarrow> [c] | Some e \<Rightarrow> e)"

lemma emit_run_eq [simp]: "emit_run run = run"
  by (simp add: emit_run_def)

lemma scan_escape_eq: "scan_escape f run s = run @ concat (map (replaced f) s)"
  by (induction f run s rule: scan_escape.induct) (auto simp: replaced_def split: option.splits)

lemma css_url_escape_eq: "css_url_escape s = concat (map css_url_char s)"
  by (induction s) auto

lemma cleanse_css_eq: "cleanse_css s = filter (\<lambda>c. c \<in> set '' _.,!#%-'' \<or> is_alnum c) s"
  by (induction s) auto

section \<open>Escapes that can be undone\<close>

text \<open>A decoder that reads back what a modifier makes of each character, up to what the
  modifier gives up on purpose (\<open>norm\<close>, such as a line end that becomes a space).\<close>

locale escape_decoder =
  fixes esc :: "char \<Rightarrow> string option"
    and decode :: "string \<Rightarrow> string"
    and norm :: "char \<Rightarrow> char"
  assumes decode_Nil: "decode [] = []"
    and decode_step: "decode (replaced esc c @ t) = norm c # decode t"
begin

lemma decode_escape: "decode (scan_escape esc [] s) = map norm s"
proof -
  have "decode (concat (map (replaced esc) s)) = map norm s"
    by (induction s) (simp_all add: decode_Nil decode_step)
  then show ?thesis by (simp add: scan_escape_eq)
qed

lemma escape_injective: "scan_escape esc [] s = scan_escape esc [] t \<Longrightarrow> map norm s = map norm t"
  using decode_escape by metis

end

text \<open>Entities of HTML, as a browser decodes them.\<close>

definition entities :: "(string \<times> char) list" where
  "entities =
     [(''&amp;'', CHR ''&''), (''&quot;'', QUOT), (''&#39;'', APOS), (''&lt;'', CHR ''<''), (''&gt;'', CHR ''>'')]"

definition starts_with :: "string \<Rightarrow> string \<Rightarrow> bool" where
  "starts_with e s \<longleftrightarrow> take (length e) s = e"

definition entity_at :: "string \<Rightarrow> (string \<times> char) option" where
  "entity_at s = find (\<lambda>(e, _). starts_with e s) entities"

lemma entity_at_length: "entity_at s = Some (e, d) \<Longrightarrow> 0 < length e"
  by (auto simp: entity_at_def entities_def find_Some_iff less_Suc_eq nth_Cons' split: if_splits)

function entity_decode :: "string \<Rightarrow> string" where
  "entity_decode [] = []"
| "entity_decode (c # s) =
     (case entity_at (c # s) of
        Some (e, d) \<Rightarrow> d # entity_decode (drop (length e) (c # s))
      | None \<Rightarrow> c # entity_decode s)"
  by pat_completeness auto
termination
  by (relation "measure length") (auto dest: entity_at_length)

text \<open>Every ampersand begins an entity.\<close>

fun amp_ok :: "string \<Rightarrow> bool" where
  "amp_ok [] \<longleftrightarrow> True"
| "amp_ok (c # s) \<longleftrightarrow> (c = CHR ''&'' \<longrightarrow> entity_at (c # s) \<noteq> None) \<and> amp_ok s"

lemma starts_with_simps [simp]:
  "starts_with [] s"
  "starts_with (a # e) (b # s) \<longleftrightarrow> a = b \<and> starts_with e s"
  "starts_with (a # e) [] \<longleftrightarrow> False"
  by (auto simp: starts_with_def)

lemma entity_at_plain: "c \<noteq> CHR ''&'' \<Longrightarrow> entity_at (c # s) = None"
  by (simp add: entity_at_def entities_def)

lemma entity_at_simps [simp]:
  "entity_at (''&amp;'' @ s) = Some (''&amp;'', CHR ''&'')"
  "entity_at (''&quot;'' @ s) = Some (''&quot;'', QUOT)"
  "entity_at (''&#39;'' @ s) = Some (''&#39;'', APOS)"
  "entity_at (''&lt;'' @ s) = Some (''&lt;'', CHR ''<'')"
  "entity_at (''&gt;'' @ s) = Some (''&gt;'', CHR ''>'')"
  by (simp_all add: entity_at_def entities_def)

lemma entity_decode_plain: "c \<noteq> CHR ''&'' \<Longrightarrow> entity_decode (c # s) = c # entity_decode s"
  by (simp add: entity_at_plain)

definition html_norm :: "char \<Rightarrow> char" where
  "html_norm c = (if c \<in> {CR, LF, VT, FF, TAB} then CHR '' '' else c)"

definition xml_norm :: "char \<Rightarrow> char" where
  "xml_norm c = (if (of_char c :: nat) < 32 \<and> c \<notin> {TAB, CR, LF} then CHR '' '' else c)"

lemma entity_decode_eqs:
  "entity_decode (''&amp;'' @ s) = CHR ''&'' # entity_decode s"
  "entity_decode (''&quot;'' @ s) = QUOT # entity_decode s"
  "entity_decode (''&#39;'' @ s) = APOS # entity_decode s"
  "entity_decode (''&lt;'' @ s) = CHR ''<'' # entity_decode s"
  "entity_decode (''&gt;'' @ s) = CHR ''>'' # entity_decode s"
  by (simp_all add: entity_at_def entities_def)

lemmas entity_decode_all = entity_decode_eqs [unfolded append_Cons append_Nil]

interpretation html_codec: escape_decoder html_case entity_decode html_norm
  by unfold_locales
    (auto simp: replaced_def html_case_def html_norm_def entity_decode_all entity_decode_plain
      simp del: entity_decode.simps(2))

interpretation pre_codec: escape_decoder pre_case entity_decode id
  by unfold_locales
    (auto simp: replaced_def pre_case_def entity_decode_all entity_decode_plain simp del: entity_decode.simps(2))

lemma schar_range: "0 \<le> schar c \<and> schar c < 32 \<longleftrightarrow> (of_char c :: nat) < 32"
proof -
  define n where "n = (of_char c :: nat)"
  have "(of_char c :: int) = int n" unfolding n_def by (rule of_nat_of_char [symmetric])
  then have "schar c = (if int n < 128 then int n else int n - 256)"
    by (simp only: schar_def Let_def)
  moreover have "n < 256" unfolding n_def by simp
  ultimately show ?thesis unfolding n_def [symmetric] by auto
qed

lemma xml_case_eq:
  "xml_case c =
     (if (of_char c :: nat) < 32 \<and> c \<notin> {TAB, CR, LF} then Some '' '' else pre_case c)"
proof -
  have "(0 \<le> schar c \<and> schar c < 32 \<and> c \<noteq> TAB \<and> c \<noteq> CR \<and> c \<noteq> LF) =
      ((0 \<le> schar c \<and> schar c < 32) \<and> c \<notin> {TAB, CR, LF})"
    by auto
  then show ?thesis by (simp only: xml_case_def schar_range pre_case_def)
qed

interpretation xml_codec: escape_decoder xml_case entity_decode xml_norm
proof unfold_locales
  fix c t
  show "entity_decode (replaced xml_case c @ t) = xml_norm c # entity_decode t"
  proof (cases "(of_char c :: nat) < 32 \<and> c \<notin> {TAB, CR, LF}")
    case True
    then show ?thesis by (simp add: replaced_def xml_case_eq xml_norm_def entity_decode_plain del: entity_decode.simps(2))
  next
    case False
    then have "replaced xml_case c = replaced pre_case c" "xml_norm c = c"
      by (simp_all only: replaced_def xml_case_eq xml_norm_def if_False)
    then show ?thesis using pre_codec.decode_step [of c t] by simp
  qed
qed simp

text \<open>JSON strings, as a reader of JSON decodes them.\<close>

definition json_escapes :: "(string \<times> char) list" where
  "json_escapes =
     [([BSL, QUOT], QUOT), ([BSL, BSL], BSL), ([BSL, CHR ''/''], CHR ''/''), ([BSL, CHR ''b''], BS),
      ([BSL, CHR ''f''], FF), ([BSL, CHR ''n''], LF), ([BSL, CHR ''r''], CR), ([BSL, CHR ''t''], TAB),
      (BSL # ''u0026'', CHR ''&''), (BSL # ''u003C'', CHR ''<''), (BSL # ''u003E'', CHR ''>'')]"

definition json_at :: "string \<Rightarrow> (string \<times> char) option" where
  "json_at s = find (\<lambda>(e, _). starts_with e s) json_escapes"

lemma json_at_length: "json_at s = Some (e, d) \<Longrightarrow> 0 < length e"
  by (auto simp: json_at_def json_escapes_def find_Some_iff less_Suc_eq nth_Cons' split: if_splits)

function json_decode :: "string \<Rightarrow> string" where
  "json_decode [] = []"
| "json_decode (c # s) =
     (case json_at (c # s) of
        Some (e, d) \<Rightarrow> d # json_decode (drop (length e) (c # s))
      | None \<Rightarrow> c # json_decode s)"
  by pat_completeness auto
termination
  by (relation "measure length") (auto dest: json_at_length)

lemma json_decode_plain: "c \<noteq> BSL \<Longrightarrow> json_decode (c # s) = c # json_decode s"
  by (simp add: json_at_def json_escapes_def)

lemma json_decode_eqs:
  "json_decode (BSL # QUOT # s) = QUOT # json_decode s"
  "json_decode (BSL # BSL # s) = BSL # json_decode s"
  "json_decode (BSL # CHR ''/'' # s) = CHR ''/'' # json_decode s"
  "json_decode (BSL # CHR ''b'' # s) = BS # json_decode s"
  "json_decode (BSL # CHR ''f'' # s) = FF # json_decode s"
  "json_decode (BSL # CHR ''n'' # s) = LF # json_decode s"
  "json_decode (BSL # CHR ''r'' # s) = CR # json_decode s"
  "json_decode (BSL # CHR ''t'' # s) = TAB # json_decode s"
  "json_decode (BSL # ''u0026'' @ s) = CHR ''&'' # json_decode s"
  "json_decode (BSL # ''u003C'' @ s) = CHR ''<'' # json_decode s"
  "json_decode (BSL # ''u003E'' @ s) = CHR ''>'' # json_decode s"
  by (simp_all add: json_at_def json_escapes_def)

lemmas json_decode_all = json_decode_eqs [unfolded append_Cons append_Nil]

interpretation json_codec: escape_decoder json_case json_decode id
  by unfold_locales
    (auto simp: replaced_def json_case_def json_decode_all json_decode_plain simp del: json_decode.simps(2))

section \<open>Characters that do not come out\<close>

lemma scan_escape_chars:
  assumes "\<And>c e. f c = Some e \<Longrightarrow> e \<in> set es" "\<forall>e \<in> set es. \<forall>x \<in> set e. P x"
    and "\<And>c. f c = None \<Longrightarrow> P c" and "x \<in> set (scan_escape f [] s)"
  shows "P x"
proof -
  from assms(4) obtain c where "x \<in> set (replaced f c)" by (auto simp: scan_escape_eq)
  with assms(1-3) show ?thesis by (cases "f c") (auto simp: replaced_def)
qed

lemma html_chars: "c \<in> set (html_escape s) \<Longrightarrow> c \<notin> {CHR ''<'', CHR ''>'', QUOT, APOS, CR, LF, TAB, VT, FF}"
  unfolding html_escape_def
  by (erule scan_escape_chars [rotated 3, where es = "'' '' # map fst entities"])
    (auto simp: html_case_def entities_def split: if_splits)

lemma pre_chars: "c \<in> set (pre_escape s) \<Longrightarrow> c \<notin> {CHR ''<'', CHR ''>'', QUOT, APOS}"
  unfolding pre_escape_def
  by (erule scan_escape_chars [rotated 3, where es = "map fst entities"])
    (auto simp: pre_case_def entities_def split: if_splits)

lemma xml_chars: "c \<in> set (xml_escape s) \<Longrightarrow> c \<notin> {CHR ''<'', CHR ''>'', QUOT, APOS}"
  unfolding xml_escape_def
  by (erule scan_escape_chars [rotated 3, where es = "'' '' # map fst entities"])
    (auto simp: xml_case_eq pre_case_def entities_def split: if_splits)

lemma json_chars: "c \<in> set (json_escape s) \<Longrightarrow> c \<notin> {CHR ''<'', CHR ''>'', CHR ''&'', LF, CR, TAB, BS, FF}"
  unfolding json_escape_def
  by (erule scan_escape_chars [rotated 3, where es = "map fst json_escapes"])
    (auto simp: json_case_def json_escapes_def split: if_splits)

lemma amp_ok_entity: "amp_ok s \<Longrightarrow> e \<in> fst ` set entities \<Longrightarrow> amp_ok (e @ s)"
  by (auto simp: entities_def entity_at_def)

lemma amp_ok_scan:
  assumes "\<And>c e. f c = Some e \<Longrightarrow> e \<in> set ('' '' # map fst entities)" "f (CHR ''&'') \<noteq> None"
  shows "amp_ok (scan_escape f [] s)"
proof -
  have "amp_ok (concat (map (replaced f) s))"
  proof (induction s)
    case (Cons c s)
    show ?case
    proof (cases "f c")
      case None
      with assms(2) have "c \<noteq> CHR ''&''" by auto
      with None Cons show ?thesis by (simp add: replaced_def)
    next
      case (Some e)
      with assms(1) [of c e] Cons show ?thesis by (auto simp: replaced_def intro: amp_ok_entity)
    qed
  qed simp
  then show ?thesis by (simp add: scan_escape_eq)
qed

lemma amp_ok_escapes: "amp_ok (html_escape s)" "amp_ok (pre_escape s)" "amp_ok (xml_escape s)"
  unfolding html_escape_def pre_escape_def xml_escape_def
  by (rule amp_ok_scan; auto simp: html_case_def pre_case_def xml_case_eq entities_def split: if_splits)+

text \<open>The modifiers for JSON leave a quote only behind the backslash that escapes it.\<close>

fun quotes_escaped :: "string \<Rightarrow> bool" where
  "quotes_escaped [] \<longleftrightarrow> True"
| "quotes_escaped (c # s) \<longleftrightarrow>
     c \<noteq> QUOT \<and> (if c = BSL then s \<noteq> [] \<and> quotes_escaped (tl s) else quotes_escaped s)"

lemma quotes_escaped_json: "quotes_escaped (json_escape s)"
proof -
  have "quotes_escaped t \<Longrightarrow> quotes_escaped (replaced json_case c @ t)" for c t
    by (auto simp: replaced_def json_case_def)
  then have "quotes_escaped (concat (map (replaced json_case) s))"
    by (induction s) auto
  then show ?thesis by (simp add: json_escape_def scan_escape_eq)
qed

section \<open>Line prefixes, character by character\<close>

fun prefix_by_char :: "string \<Rightarrow> string \<Rightarrow> string" where
  "prefix_by_char arg [] = []"
| "prefix_by_char arg (c # s) =
     (if c = CR \<and> s \<noteq> [] \<and> hd s = LF then c # prefix_by_char arg s
      else if c = CR \<or> c = LF then c # arg @ prefix_by_char arg s
      else c # prefix_by_char arg s)"

lemma line_length_Nil: "line_length [] = None"
  by (simp add: line_length_def)

lemma line_length_Cons:
  "line_length (c # s) =
     (if c = LF then Some 1
      else if c = CR then Some (if s \<noteq> [] \<and> hd s = LF then 2 else 1)
      else map_option Suc (line_length s))"
  by (cases s) (auto simp: line_length_def Let_def split: option.splits)

lemma prefix_line_Nil: "prefix_line arg [] = []"
  by (simp add: prefix_line.simps)

lemma prefix_line_Cons:
  "prefix_line arg (c # s) =
     (if c = CR \<and> s \<noteq> [] \<and> hd s = LF then c # prefix_line arg s
      else if c = CR \<or> c = LF then c # arg @ prefix_line arg s
      else c # prefix_line arg s)"
proof (cases "c = CR \<or> c = LF")
  case True
  show ?thesis
  proof (cases "c = CR \<and> s \<noteq> [] \<and> hd s = LF")
    case True
    then obtain t where "c = CR" "s = LF # t" by (cases s) auto
    then show ?thesis
      by (simp add: prefix_line.simps [of _ "CR # LF # t"] prefix_line.simps [of _ "LF # t"] line_length_Cons)
  next
    case False
    with \<open>c = CR \<or> c = LF\<close> have "line_length (c # s) = Some 1" by (auto simp: line_length_Cons)
    with False \<open>c = CR \<or> c = LF\<close> show ?thesis by (auto simp: prefix_line.simps [of _ "c # s"])
  qed
next
  case False
  then have step: "line_length (c # s) = map_option Suc (line_length s)" by (simp add: line_length_Cons)
  show ?thesis
  proof (cases "s = []")
    case True
    with False step show ?thesis by (simp add: prefix_line.simps line_length_Nil)
  next
    case ne: False
    with False step show ?thesis
      by (cases "line_length s") (simp_all add: prefix_line.simps [of _ "c # s"] prefix_line.simps [of _ s])
  qed
qed

section \<open>Properties\<close>

text \<open>What the modifiers for HTML text, preformatted text and XML make of any value can stand
  in the text of a page or in a quoted attribute: no angle bracket and no quote comes out, every
  ampersand that comes out begins an entity, and a browser that decodes the entities reads back
  the value, with the line ends and control characters that the modifier gives up as spaces.\<close>

theorem markup_escapes_safe:
  "set (html_escape s) \<inter> {CHR ''<'', CHR ''>'', QUOT, APOS, CR, LF, TAB, VT, FF} = {} \<and>
   set (pre_escape s) \<inter> {CHR ''<'', CHR ''>'', QUOT, APOS} = {} \<and>
   set (xml_escape s) \<inter> {CHR ''<'', CHR ''>'', QUOT, APOS} = {} \<and>
   amp_ok (html_escape s) \<and> amp_ok (pre_escape s) \<and> amp_ok (xml_escape s) \<and>
   entity_decode (html_escape s) = map html_norm s \<and>
   entity_decode (pre_escape s) = s \<and>
   entity_decode (xml_escape s) = map xml_norm s"
proof -
  have "entity_decode (html_escape s) = map html_norm s" "entity_decode (pre_escape s) = s"
    "entity_decode (xml_escape s) = map xml_norm s"
    using html_codec.decode_escape [of s] pre_codec.decode_escape [of s] xml_codec.decode_escape [of s]
    by (simp_all add: html_escape_def pre_escape_def xml_escape_def)
  then show ?thesis
    using html_chars [of _ s] pre_chars [of _ s] xml_chars [of _ s] amp_ok_escapes [of s] by blast
qed

text \<open>The modifier for JSON strings loses nothing and cannot end the string it is put in: a
  reader of JSON decodes its output to the value, a quote stands in it only behind the backslash
  that escapes it, and it has no angle bracket, ampersand, line end or tab.\<close>

theorem json_escape_roundtrip:
  "json_decode (json_escape s) = s \<and> quotes_escaped (json_escape s) \<and>
   set (json_escape s) \<inter> {CHR ''<'', CHR ''>'', CHR ''&'', LF, CR, TAB, BS, FF} = {}"
  using json_codec.decode_escape [of s] quotes_escaped_json [of s] json_chars [of _ s]
  by (auto simp: json_escape_def)

text \<open>The modifier that prefixes lines, which looks for the next line feed and the next
  carriage return before it, does what a pass over the characters does: every line end, be it CR LF, a lone
  LF or a lone CR, is followed by the prefix and nothing else changes.\<close>

theorem prefix_line_by_char: "prefix_line arg s = prefix_by_char arg s"
  by (induction s) (simp_all add: prefix_line_Nil prefix_line_Cons)

text \<open>Attributes, style and numbers.\<close>

lemma cleanse_attribute_loop_nth:
  assumes "k < length s"
  shows "cleanse_attribute_loop i n s ! k =
     (if s ! k = CHR ''='' then (if i + k = 0 \<or> i + k = n - 1 then CHR ''_'' else CHR ''='')
      else if s ! k \<in> {CHR ''-'', CHR ''.'', CHR '':''} \<or> is_alnum (s ! k) then s ! k else CHR ''_'')"
  using assms by (induction i n s arbitrary: k rule: cleanse_attribute_loop.induct)
    (auto simp: nth_Cons' simp del: One_nat_def)

lemma cleanse_attribute_length: "length (cleanse_attribute s) = length s"
proof -
  have "length (cleanse_attribute_loop i n s) = length s" for i n
    by (induction i n s rule: cleanse_attribute_loop.induct) auto
  then show ?thesis by (simp add: cleanse_attribute_def)
qed

lemma cleanse_attribute_ends:
  assumes "s \<noteq> []"
  shows "hd (cleanse_attribute s) \<noteq> CHR ''='' \<and> last (cleanse_attribute s) \<noteq> CHR ''=''"
proof -
  let ?t = "cleanse_attribute_loop 0 (length s) s"
  have len: "length ?t = length s" using cleanse_attribute_length [of s] by (simp add: cleanse_attribute_def)
  then have ne: "?t \<noteq> []" using assms by auto
  have "?t ! 0 \<noteq> CHR ''=''" "?t ! (length s - 1) \<noteq> CHR ''=''"
    using assms by (simp_all add: cleanse_attribute_loop_nth)
  then show ?thesis using ne len by (simp add: cleanse_attribute_def hd_conv_nth last_conv_nth)
qed

definition attribute_char :: "char \<Rightarrow> bool" where
  "attribute_char c \<longleftrightarrow> is_alnum c \<or> c \<in> set ''-._:=''"

lemma cleanse_attribute_chars: "c \<in> set (cleanse_attribute s) \<Longrightarrow> attribute_char c"
proof -
  have "c \<in> set (cleanse_attribute_loop i n s) \<Longrightarrow> attribute_char c" for i n
    by (induction i n s rule: cleanse_attribute_loop.induct)
      (auto simp: attribute_char_def split: if_splits)
  then show "c \<in> set (cleanse_attribute s) \<Longrightarrow> attribute_char c" by (simp add: cleanse_attribute_def)
qed

definition css_url_unsafe :: "char list" where
  "css_url_unsafe = [LF, CR, QUOT, APOS, CHR ''('', CHR '')'', CHR ''*'', CHR ''<'', CHR ''>'', BSL]"

lemma css_url_char_cases:
  "css_url_char c \<in> set [''%0A'', ''%0D'', ''%22'', ''%27'', ''%28'', ''%29'', ''%2A'', ''%3C'', ''%3E'', ''%5C''] \<or>
   css_url_char c = [c] \<and> c \<notin> set css_url_unsafe"
  by (simp add: css_url_char_def css_url_unsafe_def)

lemma css_url_codes_safe:
  "\<forall>e \<in> set [''%0A'', ''%0D'', ''%22'', ''%27'', ''%28'', ''%29'', ''%2A'', ''%3C'', ''%3E'', ''%5C''].
     \<forall>x \<in> set e. x \<notin> set css_url_unsafe"
  by code_simp

lemma css_url_chars:
  assumes "x \<in> set (css_url_escape s)"
  shows "x \<notin> set css_url_unsafe"
proof -
  from assms obtain c where "x \<in> set (css_url_char c)" by (auto simp: css_url_escape_eq)
  then show ?thesis
    using css_url_char_cases [of c] css_url_codes_safe by (metis list.set_intros(1) empty_iff list.set(1) set_ConsD)
qed

definition number_char :: "char \<Rightarrow> bool" where
  "number_char c \<longleftrightarrow> is_alnum c \<or> c \<in> set ''+-.''"

lemma number_char_digits:
  "js_decimal_char c \<Longrightarrow> number_char c" "js_hex_char c \<Longrightarrow> number_char c"
proof -
  define n where "n = (of_char c :: nat)"
  have al: "is_alnum c = (97 \<le> n \<and> n \<le> 122 \<or> 65 \<le> n \<and> n \<le> 90 \<or> 48 \<le> n \<and> n \<le> 57)"
    by (simp only: is_alnum_def Let_def n_def)
  have "js_hex_char c = (97 \<le> n \<and> n \<le> 102 \<or> 65 \<le> n \<and> n \<le> 70 \<or> 48 \<le> n \<and> n \<le> 57)"
    by (simp only: js_hex_char_def Let_def n_def)
  with al show "js_hex_char c \<Longrightarrow> number_char c" unfolding number_char_def by linarith
  have e: "is_alnum (CHR ''e'')" "is_alnum (CHR ''E'')" by code_simp+
  have "js_decimal_char c =
      (48 \<le> n \<and> n \<le> 57 \<or> c = CHR ''+'' \<or> c = CHR ''-'' \<or> c = CHR ''.'' \<or> c = CHR ''e'' \<or> c = CHR ''E'')"
    by (simp only: js_decimal_char_def Let_def n_def)
  then show "js_decimal_char c \<Longrightarrow> number_char c" using al e by (auto simp: number_char_def)
qed

lemma number_char_words:
  "list_all number_char ''true''" "list_all number_char ''false''" "list_all number_char ''null''"
  "number_char (CHR ''0'')" "number_char (CHR ''x'')" "number_char (CHR ''X'')"
  by code_simp+

lemma number_char_decimal: "list_all js_decimal_char s \<Longrightarrow> list_all number_char s"
  by (auto simp: list_all_iff intro: number_char_digits)

lemma number_char_hexadecimal:
  assumes "list_all js_hex_char (drop 2 s)" "hd s = CHR ''0''" "2 < length s"
    and "s ! 1 = CHR ''x'' \<or> s ! 1 = CHR ''X''"
  shows "list_all number_char s"
proof -
  obtain a t where s1: "s = a # t" using assms(3) by (cases s) auto
  obtain b u where t: "t = b # u" using assms(3) s1 by (cases t) auto
  have "list_all number_char u" using assms(1) s1 t by (auto simp: list_all_iff intro: number_char_digits)
  moreover have "number_char a" "number_char b" using assms(2,4) s1 t number_char_words(4-6) by auto
  ultimately show ?thesis using s1 t by simp
qed

lemma javascript_number_chars: "list_all number_char (javascript_number s)"
proof -
  define h where "h \<longleftrightarrow> hd s = CHR ''0'' \<and> 2 < length s \<and> (s ! 1 = CHR ''x'' \<or> s ! 1 = CHR ''X'')"
  define v where "v \<longleftrightarrow> (if h then list_all js_hex_char (drop 2 s) else list_all js_decimal_char s)"
  define w where "w \<longleftrightarrow> s = ''true'' \<or> s = ''false''"
  have eq: "javascript_number s = (if s = [] then [] else if w then s else if v then s else ''null'')"
    unfolding javascript_number_def Let_def h_def v_def w_def ..
  have "w \<Longrightarrow> list_all number_char s" unfolding w_def using number_char_words(1,2) by metis
  moreover have "v \<Longrightarrow> list_all number_char s"
    by (cases h) (auto simp only: v_def h_def if_True if_False intro: number_char_decimal number_char_hexadecimal)
  ultimately show ?thesis using number_char_words(3) by (simp only: eq split: if_splits) simp
qed

end
