(* ===== verification/Template_Script.thy ===== *)
theory Template_Script
  imports Template_Escapes
begin

text \<open>
  The modifier of the template engine for script strings (\<open>JavascriptEscape\<close> of
  \<open>third/ctemplate-2.2/src/template_modifiers.cc\<close>), which reads its input as UTF-8, one
  code unit at a time, and escapes by code unit. Bytes that are no UTF-8 are kept
  as they are. A byte is read as a number by \<open>of_char\<close>; masks and shifts of the code are
  \<open>mod\<close>, \<open>div\<close> and multiplication by powers of two, and the 32 bits of its \<open>uint16\<close> never
  overflow, because a code unit of three bytes has sixteen bits (\<open>utf8_code_unit_bound\<close>).
\<close>

section \<open>Code units\<close>

definition k_code_lengths :: "nat list" where
  "k_code_lengths = replicate 192 1 @ replicate 32 2 @ replicate 16 3 @ replicate 16 1"

text \<open>The loop over the bytes after the first; \<open>None\<close> when one of them is no continuation byte.\<close>

fun utf8_tail :: "nat \<Rightarrow> nat \<Rightarrow> string \<Rightarrow> nat option" where
  "utf8_tail 0 unit s = Some unit"
| "utf8_tail (Suc k) unit [] = None"
| "utf8_tail (Suc k) unit (t # s) =
     (if of_char t div 64 \<noteq> (2::nat) then None else utf8_tail k (unit * 64 + of_char t mod 64) s)"

text \<open>The code unit at the start of the text and the bytes it takes.\<close>

definition utf8_code_unit :: "char \<Rightarrow> string \<Rightarrow> nat \<times> nat" where
  "utf8_code_unit c s =
     (let len = k_code_lengths ! of_char c in
      if len = 1 then (of_char c, 1)
      else if length (c # s) < len then (0xFFFD, 1)
      else case utf8_tail (len - 1) (of_char c mod 2 ^ (8 - len)) s of
             None \<Rightarrow> (0xFFFD, 1)
           | Some unit \<Rightarrow> (unit, len))"

section \<open>The modifier\<close>

definition js_case :: "nat \<Rightarrow> string option" where
  "js_case u =
     (if u div 256 mod 256 \<noteq> 0 then
        (if u = 0x2028 then Some (BSL # ''u2028'')
         else if u = 0x2029 then Some (BSL # ''u2029'')
         else None)
      else if u = 0 then Some (BSL # ''x00'')
      else if u = of_char QUOT then Some (BSL # ''x22'')
      else if u = of_char APOS then Some (BSL # ''x27'')
      else if u = of_char BSL then Some [BSL, BSL]
      else if u = of_char TAB then Some (BSL # ''t'')
      else if u = of_char CR then Some (BSL # ''r'')
      else if u = of_char LF then Some (BSL # ''n'')
      else if u = of_char BS then Some (BSL # ''b'')
      else if u = of_char FF then Some (BSL # ''f'')
      else if u = of_char (CHR ''&'') then Some (BSL # ''x26'')
      else if u = of_char (CHR ''<'') then Some (BSL # ''x3c'')
      else if u = of_char (CHR ''>'') then Some (BSL # ''x3e'')
      else if u = of_char (CHR ''='') then Some (BSL # ''x3d'')
      else if u = of_char VT then Some (BSL # ''x0b'')
      else None)"

lemma of_char_less: "(of_char c :: nat) < 256"
  by simp

lemma code_length_eq:
  "n < 256 \<Longrightarrow> k_code_lengths ! n = (if n < 192 then 1 else if n < 224 then 2 else if n < 240 then 3 else 1)"
  by (auto simp: k_code_lengths_def nth_append)

lemma utf8_code_unit_length: "utf8_code_unit c s = (u, n) \<Longrightarrow> 0 < n \<and> n \<le> length (c # s)"
  using code_length_eq [OF of_char_less [of c]]
  by (cases s) (auto simp: utf8_code_unit_def Let_def not_less split: if_splits option.splits)

function javascript_loop :: "string \<Rightarrow> string \<Rightarrow> string" where
  "javascript_loop run [] = emit_run run"
| "javascript_loop run (c # s) =
     (case utf8_code_unit c s of (u, n) \<Rightarrow>
        (case js_case u of
           None \<Rightarrow> javascript_loop (run @ take n (c # s)) (drop n (c # s))
         | Some e \<Rightarrow> emit_run run @ e @ javascript_loop [] (drop n (c # s))))"
  by pat_completeness auto
termination
  by (relation "measure (\<lambda>(run, s). length s)") (auto dest!: utf8_code_unit_length [OF sym])

declare javascript_loop.simps(2) [simp del]

definition javascript_escape :: "string \<Rightarrow> string" where
  "javascript_escape s = javascript_loop [] s"

section \<open>Reading code units\<close>

lemma utf8_tail_1: "utf8_tail (Suc 0) u (d # t) = (if of_char d div 64 \<noteq> (2::nat) then None else Some (u * 64 + of_char d mod 64))"
  by simp

lemma utf8_tail_2:
  "utf8_tail 2 u (d # t) = (if of_char d div 64 \<noteq> (2::nat) then None else utf8_tail (Suc 0) (u * 64 + of_char d mod 64) t)"
  by (simp add: numeral_2_eq_2)

text \<open>The four ways to read the text.\<close>

inductive unit_at :: "string \<Rightarrow> nat \<Rightarrow> nat \<Rightarrow> bool" where
  one: "of_char c < (192::nat) \<or> 240 \<le> (of_char c :: nat) \<Longrightarrow> unit_at (c # s) (of_char c) 1"
| two: "192 \<le> (of_char c :: nat) \<Longrightarrow> of_char c < (224::nat) \<Longrightarrow> of_char d div 64 = (2::nat) \<Longrightarrow>
     unit_at (c # d # s) ((of_char c - 192) * 64 + of_char d mod 64) 2"
| three: "224 \<le> (of_char c :: nat) \<Longrightarrow> of_char c < (240::nat) \<Longrightarrow> of_char d div 64 = (2::nat) \<Longrightarrow>
     of_char e div 64 = (2::nat) \<Longrightarrow>
     unit_at (c # d # e # s) (((of_char c - 224) * 64 + of_char d mod 64) * 64 + of_char e mod 64) 3"
| bad: "192 \<le> (of_char c :: nat) \<Longrightarrow> of_char c < (240::nat) \<Longrightarrow>
     \<not> (\<exists>d t. s = d # t \<and> of_char d div 64 = (2::nat) \<and>
         (of_char c < (224::nat) \<or> (\<exists>e w. t = e # w \<and> of_char e div 64 = (2::nat)))) \<Longrightarrow>
     unit_at (c # s) 0xFFFD 1"

lemma lead_bits:
  "192 \<le> n \<Longrightarrow> n < 224 \<Longrightarrow> n mod 2 ^ (8 - 2) = n - (192::nat)"
  "224 \<le> n \<Longrightarrow> n < 240 \<Longrightarrow> n mod 2 ^ (8 - 3) = n - (224::nat)"
proof -
  show "n mod 2 ^ (8 - 2) = n - (192::nat)" if "192 \<le> n" "n < 224"
  proof -
    have "n = (n - 192) + 3 * 64" using that by simp
    then have "n mod 64 = (n - 192) mod 64" by (metis mod_mult_self1)
    then show ?thesis using that by simp
  qed
  show "n mod 2 ^ (8 - 3) = n - (224::nat)" if "224 \<le> n" "n < 240"
  proof -
    have "n = (n - 224) + 7 * 32" using that by simp
    then have "n mod 32 = (n - 224) mod 32" by (metis mod_mult_self1)
    then show ?thesis using that by simp
  qed
qed

lemmas unit_simps = utf8_code_unit_def Let_def utf8_tail_1 utf8_tail_2

lemma unit_at_code_unit: "unit_at (c # s) (fst (utf8_code_unit c s)) (snd (utf8_code_unit c s))"
proof -
  define k where "k = (of_char c :: nat)"
  have k: "k < 256" unfolding k_def by (rule of_char_less)
  consider "k < 192 \<or> 240 \<le> k" | "192 \<le> k" "k < 224" | "224 \<le> k" "k < 240" by linarith
  then show ?thesis
  proof cases
    case 1
    then have "utf8_code_unit c s = (k, 1)"
      using k by (auto simp: utf8_code_unit_def Let_def code_length_eq k_def [symmetric])
    then show ?thesis using 1 unit_at.one [of c s] by (simp add: k_def)
  next
    case 2
    have len: "k_code_lengths ! k = 2" using 2 k by (simp add: code_length_eq)
    show ?thesis
    proof (cases "\<exists>d t. s = d # t \<and> of_char d div 64 = (2::nat)")
      case True
      then obtain d t where s: "s = d # t" "of_char d div 64 = (2::nat)" by blast
      then have "utf8_code_unit c s = ((k - 192) * 64 + of_char d mod 64, 2)"
        using len lead_bits(1) [OF 2]
        by (simp add: unit_simps k_def [symmetric] del: utf8_tail.simps)
      then show ?thesis using 2 s unit_at.two [of c d t] by (simp add: k_def)
    next
      case False
      then have "utf8_code_unit c s = (0xFFFD, 1)"
        using len by (cases s) (simp_all add: unit_simps k_def [symmetric] del: utf8_tail.simps)
      then show ?thesis using 2 False unit_at.bad [of c s] by (auto simp: k_def)
    qed
  next
    case 3
    have len: "k_code_lengths ! k = 3" using 3 k by (simp add: code_length_eq)
    show ?thesis
    proof (cases "\<exists>d e t. s = d # e # t \<and> of_char d div 64 = (2::nat) \<and> of_char e div 64 = (2::nat)")
      case True
      then obtain d e t where s: "s = d # e # t" "of_char d div 64 = (2::nat)" "of_char e div 64 = (2::nat)"
        by blast
      then have "utf8_code_unit c s = (((k - 224) * 64 + of_char d mod 64) * 64 + of_char e mod 64, 3)"
        using len lead_bits(2) [OF 3]
        by (simp add: unit_simps k_def [symmetric] del: utf8_tail.simps)
      then show ?thesis using 3 s unit_at.three [of c d e t] by (simp add: k_def)
    next
      case False
      have "utf8_code_unit c s = (0xFFFD, 1)"
      proof (cases s)
        case (Cons d t)
        then show ?thesis using len False
          by (cases t) (auto simp: unit_simps k_def [symmetric] simp del: utf8_tail.simps)
      qed (use len in \<open>simp add: unit_simps k_def [symmetric]\<close>)
      then show ?thesis using 3 False unit_at.bad [of c s] by (auto simp: k_def)
    qed
  qed
qed

lemma tail_byte:
  assumes "of_char d div 64 = (2::nat)"
  shows "128 \<le> (of_char d :: nat) \<and> of_char d < (192::nat)"
proof -
  define n where "n = (of_char d :: nat)"
  have "n div 64 = 2" using assms by (simp add: n_def)
  then have "128 \<le> n \<and> n < 192" by linarith
  then show ?thesis unfolding n_def .
qed

lemma utf8_code_unit_bound: "fst (utf8_code_unit c s) < 65536"
  using unit_at_code_unit [of c s]
proof cases
  case one
  then show ?thesis using of_char_less [of c] by linarith
next
  case (two d t)
  have "(of_char d mod 64 :: nat) < 64" by simp
  with two show ?thesis by linarith
next
  case (three d e t)
  define x where "x = (of_char d mod 64 :: nat)"
  define y where "y = (of_char e mod 64 :: nat)"
  define k where "k = (of_char c :: nat)"
  have "x < 64" "y < 64" unfolding x_def y_def by simp_all
  moreover define z where "z = k - 224"
  moreover have "z < 16" "fst (utf8_code_unit c s) = (z * 64 + x) * 64 + y"
    using three by (simp_all add: x_def y_def z_def k_def)
  moreover have "(z * 64 + x) * 64 + y = z * 4096 + x * 64 + y" by simp
  ultimately show ?thesis by linarith
qed simp

section \<open>One code unit at a time\<close>

lemma javascript_loop_run: "javascript_loop run s = run @ javascript_loop [] s"
proof (induction "length s" arbitrary: run s rule: less_induct)
  case less
  show ?case
  proof (cases s)
    case (Cons c t)
    obtain u n where un: "utf8_code_unit c t = (u, n)" by (rule prod.exhaust)
    then have "length (drop n s) < length s" using utf8_code_unit_length [OF un] Cons by simp
    note IH = less [OF this]
    show ?thesis
    proof (cases "js_case u")
      case None
      then have "javascript_loop r s = javascript_loop (r @ take n s) (drop n s)" for r
        by (simp add: javascript_loop.simps(2) un Cons)
      then show ?thesis using IH [of "run @ take n s"] IH [of "take n s"] by simp
    next
      case (Some e)
      then show ?thesis by (simp add: javascript_loop.simps(2) un Cons)
    qed
  qed simp
qed

lemma javascript_escape_Nil: "javascript_escape [] = []"
  by (simp add: javascript_escape_def)

lemma javascript_escape_Cons:
  obtains (kept) u n where "unit_at (c # s) u n" "js_case u = None"
      "javascript_escape (c # s) = take n (c # s) @ javascript_escape (drop n (c # s))"
    | (escaped) u n e where "unit_at (c # s) u n" "js_case u = Some e"
      "javascript_escape (c # s) = e @ javascript_escape (drop n (c # s))"
proof -
  obtain u n where un: "utf8_code_unit c s = (u, n)" by (rule prod.exhaust)
  have unit: "unit_at (c # s) u n" using unit_at_code_unit [of c s] un by simp
  show ?thesis
  proof (cases "js_case u")
    case None
    then have "javascript_escape (c # s) = take n (c # s) @ javascript_escape (drop n (c # s))"
      using javascript_loop_run [of "take n (c # s)"]
      by (simp add: javascript_escape_def javascript_loop.simps(2) un)
    with unit None kept show ?thesis by blast
  next
    case (Some e)
    then have "javascript_escape (c # s) = e @ javascript_escape (drop n (c # s))"
      by (simp add: javascript_escape_def javascript_loop.simps(2) un)
    with unit Some escaped show ?thesis by blast
  qed
qed

lemma unit_at_length: "unit_at s u n \<Longrightarrow> 0 < n \<and> n \<le> length s"
  by (induction rule: unit_at.induct) auto

text \<open>The code units that are escaped, what they become, and the bytes a reader of a script
  string makes of that.\<close>

definition js_table :: "(nat \<times> string) list" where
  "js_table =
     [(0x2028, BSL # ''u2028''), (0x2029, BSL # ''u2029''), (0, BSL # ''x00''), (0x22, BSL # ''x22''),
      (0x27, BSL # ''x27''), (0x5C, [BSL, BSL]), (0x09, BSL # ''t''), (0x0D, BSL # ''r''),
      (0x0A, BSL # ''n''), (0x08, BSL # ''b''), (0x0C, BSL # ''f''), (0x26, BSL # ''x26''),
      (0x3C, BSL # ''x3c''), (0x3E, BSL # ''x3e''), (0x3D, BSL # ''x3d''), (0x0B, BSL # ''x0b'')]"

definition js_escapes :: "(string \<times> string) list" where
  "js_escapes =
     [(BSL # ''u2028'', [CHR 0xE2, CHR 0x80, CHR 0xA8]), (BSL # ''u2029'', [CHR 0xE2, CHR 0x80, CHR 0xA9]),
      (BSL # ''x00'', [NUL]), (BSL # ''x22'', [QUOT]), (BSL # ''x27'', [APOS]), ([BSL, BSL], [BSL]),
      (BSL # ''t'', [TAB]), (BSL # ''r'', [CR]), (BSL # ''n'', [LF]), (BSL # ''b'', [BS]), (BSL # ''f'', [FF]),
      (BSL # ''x26'', ''&''), (BSL # ''x3c'', ''<''), (BSL # ''x3e'', ''>''), (BSL # ''x3d'', ''=''),
      (BSL # ''x0b'', [VT])]"

definition js_unsafe :: "char list" where
  "js_unsafe = [NUL, QUOT, APOS, BSL, TAB, CR, LF, BS, FF, VT, CHR ''&'', CHR ''<'', CHR ''>'', CHR ''='']"

lemma js_case_table: "js_case u = Some e \<Longrightarrow> (u, e) \<in> set js_table"
  by (simp add: js_case_def js_table_def split: if_splits)

lemma js_case_unsafe: "c \<in> set js_unsafe \<Longrightarrow> js_case (of_char c) \<noteq> None"
  by (auto simp: js_unsafe_def js_case_def)

lemma js_unsafe_ascii: "c \<in> set js_unsafe \<Longrightarrow> of_char c < (128::nat)"
  by (auto simp: js_unsafe_def)

lemma kept_bytes:
  assumes "unit_at s u n" "js_case u = None" "x \<in> set (take n s)"
  shows "x \<notin> set js_unsafe"
  using assms
proof (induction rule: unit_at.induct)
  case (one c s)
  then show ?case using js_case_unsafe [of c] by auto
next
  case (two c d s)
  then have "128 \<le> (of_char x :: nat)" using tail_byte [of d] by (auto simp: numeral_2_eq_2)
  then show ?case using js_unsafe_ascii [of x] by linarith
next
  case (three c d e s)
  then have "128 \<le> (of_char x :: nat)" using tail_byte [of d] tail_byte [of e] by (auto simp: numeral_3_eq_3)
  then show ?case using js_unsafe_ascii [of x] by linarith
next
  case (bad c s)
  then have "128 \<le> (of_char x :: nat)" by auto
  then show ?case using js_unsafe_ascii [of x] by linarith
qed

lemma escape_bytes:
  "(u, e) \<in> set js_table \<Longrightarrow> x \<in> set e \<Longrightarrow> x = BSL \<or> x \<notin> set js_unsafe \<and> of_char x < (128::nat)"
proof -
  have "\<forall>(u, e) \<in> set js_table. \<forall>x \<in> set e. x = BSL \<or> x \<notin> set js_unsafe \<and> of_char x < (128::nat)"
    by code_simp
  then show "(u, e) \<in> set js_table \<Longrightarrow> x \<in> set e \<Longrightarrow> x = BSL \<or> x \<notin> set js_unsafe \<and> of_char x < (128::nat)"
    by blast
qed

lemma escape_head: "(u, e) \<in> set js_table \<Longrightarrow> \<exists>t. e = BSL # t"
  by (auto simp: js_table_def)

text \<open>Induction over the code units of a text.\<close>

lemma javascript_escape_induct [case_names Nil kept escaped]:
  assumes "P []"
    and "\<And>c s u n. unit_at (c # s) u n \<Longrightarrow> js_case u = None \<Longrightarrow>
        javascript_escape (c # s) = take n (c # s) @ javascript_escape (drop n (c # s)) \<Longrightarrow>
        P (drop n (c # s)) \<Longrightarrow> P (c # s)"
    and "\<And>c s u n e. unit_at (c # s) u n \<Longrightarrow> (u, e) \<in> set js_table \<Longrightarrow>
        javascript_escape (c # s) = e @ javascript_escape (drop n (c # s)) \<Longrightarrow>
        P (drop n (c # s)) \<Longrightarrow> P (c # s)"
  shows "P s"
proof (induction "length s" arbitrary: s rule: less_induct)
  case less
  show ?case
  proof (cases s)
    case (Cons c t)
    have IH: "unit_at s u n \<Longrightarrow> P (drop n s)" for u n
      using less [of "drop n s"] unit_at_length [of s u n] by (metis diff_less length_drop less_le_trans)
    show ?thesis
    proof (rule javascript_escape_Cons [of c t])
      fix u n assume *: "unit_at (c # t) u n" "js_case u = None"
        "javascript_escape (c # t) = take n (c # t) @ javascript_escape (drop n (c # t))"
      show ?thesis using assms(2) [OF *] IH *(1) Cons by blast
    next
      fix u n e assume *: "unit_at (c # t) u n" "js_case u = Some e"
        "javascript_escape (c # t) = e @ javascript_escape (drop n (c # t))"
      show ?thesis using assms(3) [OF *(1) js_case_table [OF *(2)] *(3)] IH *(1) Cons by blast
    qed
  qed (use assms(1) in simp)
qed

lemma javascript_escape_chars: "x \<in> set (javascript_escape s) \<Longrightarrow> x = BSL \<or> x \<notin> set js_unsafe"
proof (induction s rule: javascript_escape_induct)
  case (kept c s u n)
  then show ?case using kept_bytes [OF kept(1,2)] by auto
next
  case (escaped c s u n e)
  then show ?case using escape_bytes [OF escaped(2), of x] by auto
qed (simp add: javascript_escape_Nil)

lemma quotes_escaped_append: "\<forall>x \<in> set xs. x \<noteq> QUOT \<and> x \<noteq> BSL \<Longrightarrow> quotes_escaped (xs @ t) = quotes_escaped t"
  by (induction xs) auto

lemma quotes_escaped_escape: "(u, e) \<in> set js_table \<Longrightarrow> quotes_escaped t \<Longrightarrow> quotes_escaped (e @ t)"
  by (auto simp: js_table_def)

lemma quotes_escaped_javascript: "quotes_escaped (javascript_escape s)"
proof (induction s rule: javascript_escape_induct)
  case (kept c s u n)
  have "\<forall>x \<in> set (take n (c # s)). x \<noteq> QUOT \<and> x \<noteq> BSL"
    using kept_bytes [OF kept(1,2)] by (auto simp: js_unsafe_def)
  then show ?case using kept by (simp add: quotes_escaped_append)
next
  case (escaped c s u n e)
  then show ?case by (simp add: quotes_escaped_escape)
qed (simp add: javascript_escape_Nil)

text \<open>The line and the paragraph separator, which end a line of script.\<close>

definition separator_tail :: "string \<Rightarrow> bool" where
  "separator_tail s \<longleftrightarrow> take 2 s = [CHR 0x80, CHR 0xA8] \<or> take 2 s = [CHR 0x80, CHR 0xA9]"

fun no_separator :: "string \<Rightarrow> bool" where
  "no_separator [] \<longleftrightarrow> True"
| "no_separator (c # s) \<longleftrightarrow> \<not> (c = CHR 0xE2 \<and> separator_tail s) \<and> no_separator s"

lemma escape_tail_byte:
  assumes "javascript_escape s = x # o'" "of_char x div 64 = (2::nat)"
  shows "\<exists>s'. s = x # s' \<and> o' = javascript_escape s'"
proof -
  obtain c t where s: "s = c # t" using assms(1) by (cases s) (auto simp: javascript_escape_Nil)
  show ?thesis
  proof (rule javascript_escape_Cons [of c t])
    fix u n assume u: "unit_at (c # t) u n" "javascript_escape (c # t) = take n (c # t) @ javascript_escape (drop n (c # t))"
    then have "x = c" using assms(1) unit_at_length [OF u(1)] s by (cases n) auto
    then have "of_char c < (192::nat)" using tail_byte assms(2) by blast
    with u(1) have "n = 1" by cases auto
    with u(2) s assms(1) \<open>x = c\<close> show ?thesis by simp
  next
    fix u n e assume e: "js_case u = Some e" "javascript_escape (c # t) = e @ javascript_escape (drop n (c # t))"
    then have "x = BSL" using assms(1) s escape_head [OF js_case_table [OF e(1)]] by auto
    then show ?thesis using assms(2) by simp
  qed
qed

lemma separator_tail_escape: "separator_tail (javascript_escape s) \<Longrightarrow> separator_tail s"
proof -
  assume sep: "separator_tail (javascript_escape s)"
  then obtain y o' where o': "javascript_escape s = CHR 0x80 # y # o'" and y: "y = CHR 0xA8 \<or> y = CHR 0xA9"
    by (cases "javascript_escape s"; cases "tl (javascript_escape s)") (auto simp: separator_tail_def)
  then obtain s' where s': "s = CHR 0x80 # s'" "y # o' = javascript_escape s'"
    using escape_tail_byte [of s "CHR 0x80" "y # o'"] by auto
  have "of_char y div 64 = (2::nat)" using y by auto
  then obtain s'' where "s' = y # s''" using escape_tail_byte [OF s'(2) [symmetric]] by blast
  then show ?thesis using s'(1) y by (auto simp: separator_tail_def)
qed

lemma no_separator_append: "\<forall>x \<in> set xs. x \<noteq> CHR 0xE2 \<Longrightarrow> no_separator (xs @ t) = no_separator t"
  by (induction xs) auto

lemma no_separator_javascript: "no_separator (javascript_escape s)"
proof (induction s rule: javascript_escape_induct)
  case (escaped c s u n e)
  have "\<forall>x \<in> set e. x \<noteq> CHR 0xE2" using escape_bytes [OF escaped(2)] by fastforce
  then show ?case using escaped by (simp add: no_separator_append)
next
  case (kept c s u n)
  from kept(1) show ?case
  proof cases
    case one
    then have "c \<noteq> CHR 0xE2" by auto
    with one kept show ?thesis by simp
  next
    case (two d t)
    then have "c \<noteq> CHR 0xE2" "d \<noteq> CHR 0xE2" using tail_byte [of d] by auto
    with two kept show ?thesis by simp
  next
    case (three d e t)
    then have "d \<noteq> CHR 0xE2" "e \<noteq> CHR 0xE2" using tail_byte [of d] tail_byte [of e] by auto
    moreover have "\<not> (c = CHR 0xE2 \<and> separator_tail (d # e # javascript_escape t))"
      using three kept(2) by (auto simp: separator_tail_def js_case_def)
    ultimately show ?thesis using three kept by simp
  next
    case bad
    have "\<not> (c = CHR 0xE2 \<and> separator_tail (javascript_escape s))"
    proof
      assume asm: "c = CHR 0xE2 \<and> separator_tail (javascript_escape s)"
      then have "separator_tail s" using separator_tail_escape by blast
      then obtain y t where "s = CHR 0x80 # y # t" "y = CHR 0xA8 \<or> y = CHR 0xA9"
        by (cases s; cases "tl s") (auto simp: separator_tail_def)
      with bad(5) show False by auto
    qed
    with bad kept show ?thesis by simp
  qed
qed (simp add: javascript_escape_Nil)

section \<open>Reading the script string back\<close>

definition js_at :: "string \<Rightarrow> (string \<times> string) option" where
  "js_at s = find (\<lambda>(e, _). starts_with e s) js_escapes"

lemma js_at_length: "js_at s = Some (e, d) \<Longrightarrow> 0 < length e"
proof -
  assume "js_at s = Some (e, d)"
  then have "(e, d) \<in> set js_escapes" unfolding js_at_def by (auto simp: find_Some_iff in_set_conv_nth)
  then show "0 < length e" using escape_head by (auto simp: js_escapes_def)
qed

lemma js_at_eqs:
  "js_at (BSL # ''u2028'' @ t) = Some (BSL # ''u2028'', [CHR 0xE2, CHR 0x80, CHR 0xA8])"
  "js_at (BSL # ''u2029'' @ t) = Some (BSL # ''u2029'', [CHR 0xE2, CHR 0x80, CHR 0xA9])"
  "js_at (BSL # ''x00'' @ t) = Some (BSL # ''x00'', [NUL])"
  "js_at (BSL # ''x22'' @ t) = Some (BSL # ''x22'', [QUOT])"
  "js_at (BSL # ''x27'' @ t) = Some (BSL # ''x27'', [APOS])"
  "js_at (BSL # BSL # t) = Some ([BSL, BSL], [BSL])"
  "js_at (BSL # ''t'' @ t) = Some (BSL # ''t'', [TAB])"
  "js_at (BSL # ''r'' @ t) = Some (BSL # ''r'', [CR])"
  "js_at (BSL # ''n'' @ t) = Some (BSL # ''n'', [LF])"
  "js_at (BSL # ''b'' @ t) = Some (BSL # ''b'', [BS])"
  "js_at (BSL # ''f'' @ t) = Some (BSL # ''f'', [FF])"
  "js_at (BSL # ''x26'' @ t) = Some (BSL # ''x26'', ''&'')"
  "js_at (BSL # ''x3c'' @ t) = Some (BSL # ''x3c'', ''<'')"
  "js_at (BSL # ''x3e'' @ t) = Some (BSL # ''x3e'', ''>'')"
  "js_at (BSL # ''x3d'' @ t) = Some (BSL # ''x3d'', ''='')"
  "js_at (BSL # ''x0b'' @ t) = Some (BSL # ''x0b'', [VT])"
  by (simp_all add: js_at_def js_escapes_def)

lemma js_at_escape: "(e, d) \<in> set js_escapes \<Longrightarrow> js_at (e @ t) = Some (e, d)"
  using js_at_eqs [of t] by (simp only: js_escapes_def list.set insert_iff empty_iff prod.inject append_Cons append_Nil) (elim disjE conjE; simp only: append_Cons append_Nil)

text \<open>What a reader of the string literal makes of it, byte by byte.\<close>

function js_decode :: "string \<Rightarrow> string" where
  "js_decode [] = []"
| "js_decode (c # s) =
     (case js_at (c # s) of
        Some (e, d) \<Rightarrow> d @ js_decode (drop (length e) (c # s))
      | None \<Rightarrow> c # js_decode s)"
  by pat_completeness auto
termination
  by (relation "measure length") (auto dest: js_at_length)

declare js_decode.simps(2) [simp del]

lemma js_decode_plain: "c \<noteq> BSL \<Longrightarrow> js_decode (c # s) = c # js_decode s"
  by (simp add: js_decode.simps(2) js_at_def js_escapes_def js_table_def)

lemma js_decode_append: "\<forall>x \<in> set xs. x \<noteq> BSL \<Longrightarrow> js_decode (xs @ t) = xs @ js_decode t"
  by (induction xs) (auto simp: js_decode_plain)

lemma js_decode_escape:
  assumes "(e, d) \<in> set js_escapes"
  shows "js_decode (e @ t) = d @ js_decode t"
proof -
  have "js_at (e @ t) = Some (e, d)" by (rule js_at_escape [OF assms])
  moreover from this have "e \<noteq> []" using js_at_length by fastforce
  ultimately show ?thesis by (cases e) (auto simp: js_decode.simps(2))
qed

text \<open>The bytes of a code unit in its shortest encoding.\<close>

definition unit_bytes :: "nat \<Rightarrow> nat list" where
  "unit_bytes u = (if u < 256 then [u] else [224 + u div 4096, 128 + u div 64 mod 64, 128 + u mod 64])"

lemma js_table_escapes: "list_all2 (\<lambda>(u, e) (e', b). e = e' \<and> map of_char b = unit_bytes u) js_table js_escapes"
  by (simp add: js_table_def js_escapes_def unit_bytes_def)

lemma char_eqI: "of_char c = (of_char d :: nat) \<Longrightarrow> c = d"
  by (metis char_of_char)

lemma map_of_char_inj: "map of_char s = (map of_char t :: nat list) \<Longrightarrow> s = t"
  by (rule injD [OF inj_mapI [OF injI [OF char_eqI]]])

lemma js_table_bytes:
  assumes "(u, e) \<in> set js_table" "map of_char b = unit_bytes u"
  shows "(e, b) \<in> set js_escapes"
proof -
  obtain x where "x \<in> set js_escapes" "(\<lambda>(u, e) (e', b). e = e' \<and> map of_char b = unit_bytes u) (u, e) x"
    using js_table_escapes assms(1) by (metis (no_types, lifting) in_set_conv_nth list_all2_conv_all_nth)
  moreover obtain e' b' where "x = (e', b')" by (rule prod.exhaust)
  ultimately have "(e, b') \<in> set js_escapes" "map of_char b' = unit_bytes u" by simp_all
  then show ?thesis using assms(2) map_of_char_inj by metis
qed

text \<open>No lead byte of a longer encoding than the code point needs, as in every text that is
  UTF-8 by the standard.\<close>

fun overlong_free :: "string \<Rightarrow> bool" where
  "overlong_free [] \<longleftrightarrow> True"
| "overlong_free (c # s) \<longleftrightarrow>
     c \<noteq> CHR 0xC0 \<and> c \<noteq> CHR 0xC1 \<and> (c = CHR 0xE0 \<longrightarrow> (case s of [] \<Rightarrow> True | d # _ \<Rightarrow> 160 \<le> (of_char d :: nat))) \<and>
     overlong_free s"

lemma overlong_free_drop: "overlong_free s \<Longrightarrow> overlong_free (drop n s)"
proof (induction n arbitrary: s)
  case (Suc n)
  then show ?case by (cases s) auto
qed simp

lemma js_table_units: "(u, e) \<in> set js_table \<Longrightarrow> u < 128 \<or> u div 4096 = 2 \<and> 4096 \<le> u \<and> u \<noteq> 0xFFFD"
  unfolding js_table_def by auto

lemma escaped_two:
  assumes "192 \<le> (of_char c :: nat)" "of_char c < (224::nat)" "c \<noteq> CHR 0xC0" "c \<noteq> CHR 0xC1"
  shows "128 \<le> (of_char c - 192) * 64 + (of_char d mod 64 :: nat) \<and> (of_char c - 192) * 64 + (of_char d mod 64 :: nat) < 2048"
proof -
  have "of_char c \<noteq> (192::nat)" using assms(3) char_eqI [of c "CHR 0xC0"] by auto
  moreover have "of_char c \<noteq> (193::nat)" using assms(4) char_eqI [of c "CHR 0xC1"] by auto
  moreover define y where "y = (of_char d mod 64 :: nat)"
  moreover define z where "z = (of_char c :: nat) - 192"
  ultimately have "y < 64" "2 \<le> z" "z < 32" using assms(1,2) by auto
  then show ?thesis unfolding y_def [symmetric] z_def [symmetric] by linarith
qed

lemma three_parts:
  assumes "y < 64" "x < (64::nat)"
  shows "((z * 64 + x) * 64 + y) mod 64 = y" "((z * 64 + x) * 64 + y) div 64 mod 64 = x"
    "((z * 64 + x) * 64 + y) div 4096 = z"
proof -
  show "((z * 64 + x) * 64 + y) mod 64 = y"
    using assms by (simp only: mod_mult_self3 mod_less)
  have "((z * 64 + x) * 64 + y) div 64 = z * 64 + x"
    using assms by (simp only: div_mult_self3 div_less)
  then show "((z * 64 + x) * 64 + y) div 64 mod 64 = x"
    using assms by (simp only: mod_mult_self3 mod_less)
  have "(z * 64 + x) * 64 + y = z * 4096 + (x * 64 + y)" "x * 64 + y < 4096" using assms by simp_all
  then show "((z * 64 + x) * 64 + y) div 4096 = z" by simp
qed

lemma tail_value: "of_char d div 64 = (2::nat) \<Longrightarrow> of_char d = 128 + (of_char d mod 64 :: nat)"
  using mult_div_mod_eq [of 64 "of_char d :: nat"] by simp

lemma escaped_bytes:
  assumes "unit_at (c # s) u n" "(u, e) \<in> set js_table" "overlong_free (c # s)"
  shows "(e, take n (c # s)) \<in> set js_escapes"
proof (rule js_table_bytes [OF assms(2)])
  from assms(1) show "map of_char (take n (c # s)) = unit_bytes u"
  proof cases
    case one
    then have "u < 256" using of_char_less [of c] by simp
    then show ?thesis using one by (simp add: unit_bytes_def)
  next
    case (two d t)
    have "c \<noteq> CHR 0xC0" "c \<noteq> CHR 0xC1" using assms(3) by auto
    from escaped_two [OF two(4,5) this, of d] have "128 \<le> u \<and> u < 2048" unfolding two(2) .
    with js_table_units [OF assms(2)] have False by linarith
    then show ?thesis ..
  next
    case (three d e' t)
    define x y z where xyz: "x = (of_char d mod 64 :: nat)" "y = (of_char e' mod 64 :: nat)" "z = (of_char c :: nat) - 224"
    have u: "u = (z * 64 + x) * 64 + y" and "y < 64" "x < 64" using three by (simp_all add: xyz)
    have parts: "u mod 64 = y" "u div 64 mod 64 = x" "u div 4096 = z"
      unfolding u by (rule three_parts [OF \<open>y < 64\<close> \<open>x < 64\<close>])+
    have "\<not> u < 128"
    proof
      assume small: "u < 128"
      then have "z = 0" using parts(3) by simp
      then have "c = CHR 0xE0" using three(4) char_eqI [of c "CHR 0xE0"] by (simp add: xyz)
      then have "160 \<le> (of_char d :: nat)" using assms(3) three(1) by simp
      then have "32 \<le> x" using tail_value [OF three(6)] unfolding xyz by linarith
      then have "128 \<le> u" unfolding u by simp
      with small show False by simp
    qed
    with js_table_units [OF assms(2)] have "\<not> u < 256" by linarith
    then have "unit_bytes u = [224 + z, 128 + x, 128 + y]" by (simp only: unit_bytes_def parts if_False)
    moreover have "of_char c = 224 + z" using three(4) by (simp add: xyz)
    ultimately show ?thesis
      using three(1,3) tail_value [OF three(6)] tail_value [OF three(7)]
      by (simp add: xyz [symmetric] numeral_3_eq_3)
  next
    case bad
    with js_table_units [OF assms(2)] show ?thesis by simp
  qed
qed

lemma disjoint_avoid: "A \<subseteq> insert b (- U) \<Longrightarrow> V \<subseteq> U \<Longrightarrow> b \<notin> V \<Longrightarrow> A \<inter> V = {}"
  by blast

section \<open>Properties\<close>


text \<open>A script that reads the string the modifier made gets the value back, byte by byte, for
  every value without overlong encodings (which UTF-8 forbids), truncated and stray bytes
  included.\<close>

theorem javascript_escape_roundtrip:
  assumes "overlong_free s"
  shows "js_decode (javascript_escape s) = s"
  using assms
proof (induction s rule: javascript_escape_induct)
  case (kept c s u n)
  have "\<forall>x \<in> set (take n (c # s)). x \<noteq> BSL"
    using kept_bytes [OF kept(1,2)] by (auto simp: js_unsafe_def)
  then show ?case
    using kept overlong_free_drop [OF kept(5), of n] by (simp add: js_decode_append del: overlong_free.simps)
next
  case (escaped c s u n e)
  have "js_decode (javascript_escape (c # s)) = take n (c # s) @ js_decode (javascript_escape (drop n (c # s)))"
    unfolding escaped(3) by (rule js_decode_escape [OF escaped_bytes [OF escaped(1,2,5)]])
  also have "\<dots> = take n (c # s) @ drop n (c # s)"
    by (simp only: escaped(4) [OF overlong_free_drop [OF escaped(5)]])
  finally show ?case by (simp only: append_take_drop_id)
qed (simp add: javascript_escape_Nil)

theorem javascript_escape_roundtrip_witness:
  "js_decode (javascript_escape [CHR ''a'', QUOT, LF, CHR 0xE2, CHR 0x80, CHR 0xA8, CHR 0xE0, CHR 0xA4, CHR 0xC3]) =
     [CHR ''a'', QUOT, LF, CHR 0xE2, CHR 0x80, CHR 0xA8, CHR 0xE0, CHR 0xA4, CHR 0xC3]"
  by (rule javascript_escape_roundtrip) simp

end
