(* ===== verification/Template_Urls.thy ===== *)
theory Template_Urls
  imports Template_Script Post_Form
begin

text \<open>
  The modifiers of the template engine for URLs
  (\<open>third/ctemplate-2.2/src/template_modifiers.cc\<close>): the query escape
  (\<open>UrlQueryEscape\<close>), whose output the server's own reader of forms (\<open>Post_Form\<close>) reads back,
  and the check of the protocol (\<open>HasInsecureProtocol\<close>, \<open>ValidateUrl\<close>), which hands the
  URL or a harmless one to the modifier it is chained to. Lengths are below $2^{31}$, where the
  conversion of a length to the \<open>int\<close> parameter of \<open>HasInsecureProtocol\<close> keeps it.
\<close>

section \<open>Query escape\<close>

definition safe_characters :: "nat list" where
  "safe_characters = [0x00000000, 0x03fff702, 0x87fffffe, 0x47fffffe, 0, 0, 0, 0]"

definition is_url_query_escape_safe_char :: "char \<Rightarrow> bool" where
  "is_url_query_escape_safe_char c \<longleftrightarrow>
     (let n = of_char c in odd (safe_characters ! (n div 32) div 2 ^ (n mod 32)))"

definition hex_upper :: "nat \<Rightarrow> char" where
  "hex_upper d = (if d < 10 then char_of (d + 48) else char_of (d - 10 + 65))"

function url_query_loop :: "string \<Rightarrow> string" where
  "url_query_loop pos =
     (let start = pos; run = takeWhile is_url_query_escape_safe_char start;
          rest = dropWhile is_url_query_escape_safe_char start
      in emit_run run @
         (case rest of
            [] \<Rightarrow> []
          | c # s \<Rightarrow>
              (if c = CHR '' '' then ''+''
               else [CHR ''%'', hex_upper (of_char c div 16), hex_upper (of_char c mod 16)]) @ url_query_loop s))"
  by pat_completeness auto
termination
proof (relation "measure length")
  fix pos start run rest c and s :: string
  assume "start = pos" "rest = dropWhile is_url_query_escape_safe_char start" "rest = c # s"
  then have "length (c # s) \<le> length pos" by (metis length_dropWhile_le)
  then show "(s, pos) \<in> measure length" by simp
qed simp

declare url_query_loop.simps [simp del]

definition url_query_escape :: "string \<Rightarrow> string" where
  "url_query_escape s = url_query_loop s"

section \<open>Protocols\<close>

definition tolower_c :: "char \<Rightarrow> char" where
  "tolower_c c = (let n = (of_char c :: nat) in if 65 \<le> n \<and> n \<le> 90 then char_of (n + 32) else c)"

text \<open>\<open>strncasecmp\<close> of a literal with a text that is longer: does it return 0?\<close>

fun strncasecmp_0 :: "string \<Rightarrow> string \<Rightarrow> bool" where
  "strncasecmp_0 [] s \<longleftrightarrow> True"
| "strncasecmp_0 (c # lit) [] \<longleftrightarrow> False"
| "strncasecmp_0 (c # lit) (d # s) \<longleftrightarrow> tolower_c d = tolower_c c \<and> strncasecmp_0 lit s"

definition has_insecure_protocol :: "string \<Rightarrow> bool" where
  "has_insecure_protocol s =
     (if length s > length ''http://'' \<and> strncasecmp_0 ''http://'' s then False
      else if length s > length ''https://'' \<and> strncasecmp_0 ''https://'' s then False
      else if length s > length ''ftp://'' \<and> strncasecmp_0 ''ftp://'' s then False
      else True)"

definition k_unsafe_url_replacement :: string where
  "k_unsafe_url_replacement = ''#''"

definition k_unsafe_img_src_url_replacement :: string where
  "k_unsafe_img_src_url_replacement = ''/images/cleardot.gif''"

definition validate_url :: "(string \<Rightarrow> string) \<Rightarrow> string \<Rightarrow> string \<Rightarrow> string" where
  "validate_url chained_modifier unsafe_url_replacement s =
     (let colon = (CHR '':'' \<in> set (takeWhile (\<lambda>c. c \<noteq> CHR ''/'') s)) in
      if colon \<and> has_insecure_protocol s then chained_modifier unsafe_url_replacement
      else chained_modifier s)"

section \<open>Query escape, character by character\<close>

definition query_char :: "char \<Rightarrow> string" where
  "query_char c =
     (if is_url_query_escape_safe_char c then [c]
      else if c = CHR '' '' then ''+''
      else [CHR ''%'', hex_upper (of_char c div 16), hex_upper (of_char c mod 16)])"

lemma url_query_Nil: "url_query_loop [] = []"
  by (simp add: url_query_loop.simps)

lemma url_query_Cons: "url_query_loop (c # s) = query_char c @ url_query_loop s"
  by (cases "is_url_query_escape_safe_char c")
    (simp_all add: url_query_loop.simps [of "c # s"] url_query_loop.simps [of s] query_char_def)

lemma url_query_escape_eq: "url_query_escape s = concat (map query_char s)"
  unfolding url_query_escape_def by (induction s) (simp_all add: url_query_Nil url_query_Cons)

text \<open>The bit table says what the comment above it says.\<close>

definition query_safe :: "char \<Rightarrow> bool" where
  "query_safe c \<longleftrightarrow> is_alnum c \<or> c \<in> set ''.,_*/~!()-''"

definition safe_code :: "nat \<Rightarrow> bool" where
  "safe_code n \<longleftrightarrow> odd (safe_characters ! (n div 32) div 2 ^ (n mod 32))"

definition alnum_code :: "nat \<Rightarrow> bool" where
  "alnum_code n \<longleftrightarrow> 97 \<le> n \<and> n \<le> 122 \<or> 65 \<le> n \<and> n \<le> 90 \<or> 48 \<le> n \<and> n \<le> 57"

definition safe_code_spec :: "nat \<Rightarrow> bool" where
  "safe_code_spec n \<longleftrightarrow> alnum_code n \<or> n \<in> set [46, 44, 95, 42, 47, 126, 33, 40, 41, 45]"

lemma safe_code_table: "list_all (\<lambda>n. safe_code n = safe_code_spec n) [2..<256]"
  by (simp add: safe_code_def safe_code_spec_def alnum_code_def safe_characters_def)

lemma safe_code_small: "safe_code 0 = safe_code_spec 0" "safe_code 1 = safe_code_spec 1"
  by (simp_all add: safe_code_def safe_code_spec_def alnum_code_def safe_characters_def)

lemma safe_code_eq: "n < 256 \<Longrightarrow> safe_code n = safe_code_spec n"
proof -
  assume "n < 256"
  then have "n = 0 \<or> n = 1 \<or> n \<in> set [2..<256]"
    unfolding set_upt atLeastLessThan_iff by linarith
  then show "safe_code n = safe_code_spec n"
    using safe_code_small safe_code_table [unfolded list_all_iff] by blast
qed

lemma safe_marks: "of_char c \<in> set [46, 44, 95, 42, 47, 126, 33, 40, 41, 45::nat] \<longleftrightarrow> c \<in> set ''.,_*/~!()-''"
proof -
  have "of_char c = (of_char d :: nat) \<longleftrightarrow> c = d" for d using char_eqI by blast
  from this [of "CHR ''.''"] this [of "CHR '',''"] this [of "CHR ''_''"] this [of "CHR ''*''"]
    this [of "CHR ''/''"] this [of "CHR ''~''"] this [of "CHR ''!''"] this [of "CHR ''(''"]
    this [of "CHR '')''"] this [of "CHR ''-''"]
  show ?thesis by simp
qed

lemma safe_char: "is_url_query_escape_safe_char c = query_safe c"
  using safe_code_eq [OF of_char_less [of c]] safe_marks [of c]
  by (simp only: safe_code_def safe_code_spec_def alnum_code_def is_url_query_escape_safe_char_def
      query_safe_def is_alnum_def Let_def)

lemma of_char_hex_upper: "d < 16 \<Longrightarrow> of_char (hex_upper d) = (if d < 10 then 48 + d else 55 + d)"
  by (simp add: hex_upper_def)

lemma hex_upper_digit: "d < 16 \<Longrightarrow> digit_val (hex_upper d) = Some d" "d < 16 \<Longrightarrow> is_alnum (hex_upper d)"
  by (simp_all add: digit_val_def is_alnum_def of_char_hex_upper)

lemma alnum_plain:
  "is_alnum c \<Longrightarrow> c \<notin> {CHR ''='', CHR ''&'', CHR ''+'', CHR ''%'', CHR ''-'', CHR '' '', NUL}"
  "is_alnum c \<Longrightarrow> \<not> isspace_c c"
  by (auto simp: is_alnum_def isspace_c_def)

lemma unescape_hex_upper:
  assumes "a < 16" "b < 16"
  shows "unescape_hex (hex_upper a) (hex_upper b) = char_of (a * 16 + b)"
proof -
  note dig = hex_upper_digit [OF assms(1)] hex_upper_digit [OF assms(2)]
  have "cstr [hex_upper a, hex_upper b] = [hex_upper a, hex_upper b]"
    using alnum_plain(1) [OF dig(2)] alnum_plain(1) [OF dig(4)] by simp
  moreover have "strtol 16 [hex_upper a, hex_upper b] = (int (a * 16 + b), [])"
    using assms alnum_plain [OF dig(2)] dig
    by (simp add: strtol_def take_sign_def skip_0x_def clamp_long_def digits_value_def is_digit_in_def)
  ultimately have "unescape_hex (hex_upper a) (hex_upper b) = char_of (nat (int (a * 16 + b) mod 256))"
    by (simp add: unescape_hex_def)
  also have "nat (int (a * 16 + b) mod 256) = a * 16 + b"
    using assms by (simp add: nat_mod_distrib)
  finally show ?thesis .
qed

lemma query_char_plus:
  "plus_to_space (query_char c) =
     (if query_safe c \<or> c = CHR '' '' then [c]
      else [CHR ''%'', hex_upper (of_char c div 16), hex_upper (of_char c mod 16)])"
proof -
  have "hex_upper (of_char c div 16) \<noteq> CHR ''+''" "hex_upper (of_char c mod 16) \<noteq> CHR ''+''"
    using alnum_plain(1) [OF hex_upper_digit(2)] by auto
  moreover have "c = CHR ''+'' \<Longrightarrow> \<not> query_safe c" by (simp add: query_safe_def is_alnum_def)
  ultimately show ?thesis by (auto simp: query_char_def safe_char)
qed

lemma unescape_query: "unescape_loop (plus_to_space (url_query_escape s)) = s"
  unfolding url_query_escape_eq
proof (induction s)
  case (Cons c s)
  have lt: "(of_char c :: nat) div 16 < 16" "(of_char c :: nat) mod 16 < 16" by simp_all
  have "c \<noteq> CHR ''%''" if "query_safe c \<or> c = CHR '' ''"
    using that by (auto simp: query_safe_def is_alnum_def)
  then show ?case
    using Cons unescape_hex_upper [OF lt] by (simp add: query_char_plus unescape_loop_plain)
qed (simp add: plus_to_space_def)

definition query_out :: "char \<Rightarrow> bool" where
  "query_out c \<longleftrightarrow> query_safe c \<or> c = CHR ''+'' \<or> c = CHR ''%''"

lemma query_chars: "x \<in> set (url_query_escape s) \<Longrightarrow> query_out x"
proof -
  have "x \<in> set (query_char c) \<Longrightarrow> query_out x" for c
    using hex_upper_digit(2) by (auto simp: query_char_def safe_char query_out_def query_safe_def split: if_splits)
  then show "x \<in> set (url_query_escape s) \<Longrightarrow> query_out x" by (auto simp: url_query_escape_eq)
qed

lemma query_no_separator:
  assumes "x \<in> set (plus_to_space (url_query_escape s))"
  shows "x \<noteq> CHR ''='' \<and> x \<noteq> CHR ''&''"
proof -
  obtain y where "y \<in> set (url_query_escape s)" "x = y \<or> x = CHR '' ''"
    using assms by (auto simp: plus_to_space_def split: if_splits)
  moreover have "query_out y \<Longrightarrow> y \<noteq> CHR ''='' \<and> y \<noteq> CHR ''&''"
    by (auto simp: query_out_def query_safe_def is_alnum_def)
  ultimately show ?thesis using query_chars by auto
qed

lemma query_char_nonempty: "query_char c \<noteq> []"
  by (simp add: query_char_def)

section \<open>Schemes\<close>

text \<open>The scheme a browser reads in a link: what stands before the first colon when that comes
  before the path, the query and the fragment; the case of letters does not matter, and spaces and control
  characters are dropped.\<close>

definition visible :: "char \<Rightarrow> bool" where
  "visible c \<longleftrightarrow> 32 < (of_char c :: nat)"

definition scheme_of :: "string \<Rightarrow> string option" where
  "scheme_of s =
     (let p = takeWhile (\<lambda>c. c \<noteq> CHR '':'') s in
      if CHR '':'' \<in> set s \<and> set p \<inter> {CHR ''/'', CHR ''?'', CHR ''#''} = {}
      then Some (map tolower_c (filter visible p)) else None)"

definition web_schemes :: "string set" where
  "web_schemes = {''http'', ''https'', ''ftp''}"

definition relative_url :: "string \<Rightarrow> bool" where
  "relative_url s \<longleftrightarrow> CHR '':'' \<notin> set (takeWhile (\<lambda>c. c \<noteq> CHR ''/'') s)"

definition web_url :: "string \<Rightarrow> bool" where
  "web_url s \<longleftrightarrow> (\<exists>p t. s = p @ CHR '':'' # t \<and> map tolower_c p \<in> web_schemes)"

lemma relative_url_scheme: "relative_url s \<Longrightarrow> scheme_of s = None"
proof -
  assume rel: "relative_url s"
  have "CHR ''/'' \<in> set (takeWhile (\<lambda>c. c \<noteq> CHR '':'') s)" if "CHR '':'' \<in> set s"
    using that rel unfolding relative_url_def by (induction s) auto
  then show ?thesis by (auto simp: scheme_of_def Let_def)
qed

text \<open>What the letters of a scheme can come from.\<close>

definition letter :: "char \<Rightarrow> bool" where
  "letter c \<longleftrightarrow> (let n = (of_char c :: nat) in 97 \<le> n \<and> n \<le> 122 \<or> 65 \<le> n \<and> n \<le> 90)"

lemma of_char_tolower:
  "(of_char (tolower_c c) :: nat) = (if 65 \<le> (of_char c :: nat) \<and> (of_char c :: nat) \<le> 90 then of_char c + 32 else of_char c)"
  by (simp add: tolower_c_def Let_def)

lemma tolower_letter: "letter (tolower_c x) \<Longrightarrow> letter x"
  by (simp add: letter_def of_char_tolower split: if_splits)

definition url_marks :: "char list" where
  "url_marks = [CHR '':'', CHR ''/'', CHR ''?'', CHR ''#'', CR, LF, VT, FF, TAB, QUOT, APOS, CHR ''('', CHR '')'',
     CHR ''*'', CHR ''<'', CHR ''>'', BSL]"

lemma url_marks_no_letter: "\<forall>d \<in> set url_marks. \<not> letter d"
  by (simp add: url_marks_def letter_def)

lemma letter_no_mark: "letter c \<Longrightarrow> c \<notin> set url_marks"
  using url_marks_no_letter by blast

lemma letter_plain:
  "letter c \<Longrightarrow> visible c" "letter c \<Longrightarrow> c \<notin> {CHR '':'', CHR ''/'', CHR ''?'', CHR ''#''}"
  "letter c \<Longrightarrow> html_norm c = c" "letter c \<Longrightarrow> css_url_char c = [c]"
proof -
  assume "letter c"
  then show "visible c" unfolding letter_def visible_def Let_def by linarith
  from letter_no_mark [OF \<open>letter c\<close>] show "c \<notin> {CHR '':'', CHR ''/'', CHR ''?'', CHR ''#''}"
    "html_norm c = c" "css_url_char c = [c]"
    by (simp_all add: url_marks_def html_norm_def css_url_char_def)
qed

lemma web_scheme_letters: "map tolower_c p \<in> web_schemes \<Longrightarrow> list_all letter p"
proof -
  assume "map tolower_c p \<in> web_schemes"
  moreover have "list_all letter ''http''" "list_all letter ''https''" "list_all letter ''ftp''"
    by (simp_all add: letter_def)
  ultimately have "list_all letter (map tolower_c p)" unfolding web_schemes_def by auto
  then show ?thesis using tolower_letter by (simp add: list_all_iff)
qed

lemma web_url_scheme:
  assumes "web_url s"
  shows "\<exists>w \<in> web_schemes. scheme_of s = Some w"
proof -
  from assms obtain p t where s: "s = p @ CHR '':'' # t" "map tolower_c p \<in> web_schemes"
    by (auto simp: web_url_def)
  have letters: "\<forall>c \<in> set p. letter c" using web_scheme_letters [OF s(2)] by (simp add: list_all_iff)
  then have "takeWhile (\<lambda>c. c \<noteq> CHR '':'') s = p"
    using letter_plain(2) by (subst s(1), subst takeWhile_append2) auto
  moreover have "set p \<inter> {CHR ''/'', CHR ''?'', CHR ''#''} = {}" using letters letter_plain(2) by blast
  moreover have "filter visible p = p" using letters letter_plain(1) by (simp add: filter_id_conv)
  ultimately show ?thesis using s by (simp add: scheme_of_def)
qed

lemma strncasecmp_prefix:
  "strncasecmp_0 lit s \<Longrightarrow> length lit < length s \<Longrightarrow> \<exists>p t. s = p @ t \<and> map tolower_c p = map tolower_c lit"
proof (induction lit s rule: strncasecmp_0.induct)
  case (3 c lit d s)
  then obtain p t where "s = p @ t" "map tolower_c p = map tolower_c lit" by auto
  then have "d # s = (d # p) @ t" "map tolower_c (d # p) = map tolower_c (c # lit)" using 3 by simp_all
  then show ?case by blast
qed auto

lemma tolower_colon: "tolower_c x = CHR '':'' \<Longrightarrow> x = CHR '':''"
  using of_char_tolower [of x] by (intro char_eqI) (simp split: if_splits)

lemma protocol_web_url:
  assumes "strncasecmp_0 (w @ ''://'') s" "length (w @ ''://'') < length s" "map tolower_c w \<in> web_schemes"
  shows "web_url s"
proof -
  obtain p t where s: "s = p @ t" "map tolower_c p = map tolower_c (w @ ''://'')"
    using strncasecmp_prefix [OF assms(1,2)] by blast
  then obtain q r where p: "p = q @ r" "map tolower_c q = map tolower_c w" "map tolower_c r = map tolower_c ''://''"
    by (auto simp: map_eq_append_conv append_eq_map_conv)
  then obtain x u where "r = x # u" "tolower_c x = CHR '':''" by (cases r) (auto simp: tolower_c_def)
  with s p assms(3) tolower_colon have "s = q @ CHR '':'' # u @ t" "map tolower_c q \<in> web_schemes" by auto
  then show ?thesis unfolding web_url_def by blast
qed

lemma secure_web_url: "\<not> has_insecure_protocol s \<Longrightarrow> web_url s"
  using protocol_web_url [of "''http''" s] protocol_web_url [of "''https''" s] protocol_web_url [of "''ftp''" s]
  by (auto simp: has_insecure_protocol_def web_schemes_def tolower_c_def split: if_splits)

text \<open>The URL that the check lets through, and what escaping does to its scheme.\<close>

definition url_ok :: "string \<Rightarrow> bool" where
  "url_ok u \<longleftrightarrow> relative_url u \<or> web_url u"

definition safe_scheme :: "string option \<Rightarrow> bool" where
  "safe_scheme w \<longleftrightarrow> w = None \<or> w = Some ''http'' \<or> w = Some ''https'' \<or> w = Some ''ftp''"

lemma url_ok_scheme: "url_ok u \<Longrightarrow> safe_scheme (scheme_of u)"
  using relative_url_scheme web_url_scheme by (fastforce simp: url_ok_def web_schemes_def safe_scheme_def)

lemma relative_url_simps:
  "relative_url []"
  "relative_url (c # s) \<longleftrightarrow> c \<noteq> CHR '':'' \<and> (c = CHR ''/'' \<or> relative_url s)"
  by (auto simp: relative_url_def)

lemma relative_url_norm: "relative_url (map html_norm s) = relative_url s"
  by (induction s) (auto simp: relative_url_simps html_norm_def)

lemma css_url_mark: "c \<notin> {CHR '':'', CHR ''/''} \<Longrightarrow> relative_url (css_url_char c @ t) = relative_url t"
  by (auto simp: css_url_char_def relative_url_simps)

lemma relative_url_css: "relative_url (css_url_escape s) = relative_url s"
proof (induction s)
  case (Cons c s)
  show ?case
  proof (cases "c \<in> {CHR '':'', CHR ''/''}")
    case True
    then have "css_url_char c = [c]" by (auto simp: css_url_char_def)
    with Cons show ?thesis by (simp add: relative_url_simps)
  next
    case False
    with Cons css_url_mark [OF False] show ?thesis by (simp add: relative_url_simps)
  qed
qed (simp add: relative_url_simps)

lemma web_url_norm: "web_url s \<Longrightarrow> web_url (map html_norm s)"
proof -
  assume "web_url s"
  then obtain p t where s: "s = p @ CHR '':'' # t" "map tolower_c p \<in> web_schemes" by (auto simp: web_url_def)
  then have "map html_norm p = p"
    using web_scheme_letters [OF s(2)] letter_plain(3) by (simp add: list_all_iff map_idI)
  then have "map html_norm s = p @ CHR '':'' # map html_norm t" using s(1) by (simp add: html_norm_def)
  then show "web_url (map html_norm s)" using s(2) unfolding web_url_def by blast
qed

lemma css_url_letters: "list_all letter p \<Longrightarrow> css_url_escape (p @ t) = p @ css_url_escape t"
  using letter_plain(4) by (induction p) auto

lemma web_url_css: "web_url s \<Longrightarrow> web_url (css_url_escape s)"
proof -
  assume "web_url s"
  then obtain p t where s: "s = p @ CHR '':'' # t" "map tolower_c p \<in> web_schemes" by (auto simp: web_url_def)
  then have "css_url_escape s = p @ CHR '':'' # css_url_escape t"
    using css_url_letters [OF web_scheme_letters [OF s(2)]] by (simp add: css_url_char_def)
  then show "web_url (css_url_escape s)" using s(2) unfolding web_url_def by blast
qed

lemma url_ok_escaped: "url_ok s \<Longrightarrow> url_ok (map html_norm s) \<and> url_ok (css_url_escape s)"
  unfolding url_ok_def relative_url_norm relative_url_css using web_url_norm web_url_css by blast

lemma validate_url_cases:
  assumes "r = k_unsafe_url_replacement \<or> r = k_unsafe_img_src_url_replacement"
  obtains u where "validate_url f r s = f u" "url_ok u" "u = s \<or> u = r"
proof (cases "\<not> relative_url s \<and> has_insecure_protocol s")
  case True
  moreover have "relative_url r"
    using assms by (auto simp: k_unsafe_url_replacement_def k_unsafe_img_src_url_replacement_def relative_url_simps)
  ultimately show ?thesis using that [of r] by (simp add: validate_url_def relative_url_def url_ok_def)
next
  case False
  then have "url_ok s" using secure_web_url by (auto simp: url_ok_def)
  then show ?thesis using that [of s] False by (auto simp: validate_url_def relative_url_def)
qed

lemma overlong_free_ascii: "\<forall>c \<in> set s. of_char c < (128::nat) \<Longrightarrow> overlong_free s"
  by (induction s) auto

lemma validate_url_html:
  assumes "r = k_unsafe_url_replacement \<or> r = k_unsafe_img_src_url_replacement"
  shows "safe_scheme (scheme_of (entity_decode (validate_url html_escape r s)))"
proof -
  obtain u where u: "validate_url html_escape r s = html_escape u" "url_ok u" by (rule validate_url_cases [OF assms])
  then show ?thesis
    using url_ok_scheme [of "map html_norm u"] url_ok_escaped [OF u(2)] html_codec.decode_escape [of u]
    by (simp add: html_escape_def)
qed

lemma validate_url_css:
  assumes "r = k_unsafe_url_replacement \<or> r = k_unsafe_img_src_url_replacement"
  shows "safe_scheme (scheme_of (validate_url css_url_escape r s))"
proof -
  obtain u where "validate_url css_url_escape r s = css_url_escape u" "url_ok u" by (rule validate_url_cases [OF assms])
  then show ?thesis using url_ok_scheme url_ok_escaped by simp
qed

section \<open>Properties\<close>

text \<open>C23: a link built from a value that the URL modifiers checked leads to the web: whatever the
  value, the scheme that a browser reads in the attribute after decoding it, or in the style sheet, is none (a
  relative link), http, https or ftp in any case of letters, and never javascript or another one,
  for both replacements of refused URLs.\<close>

theorem validated_url_scheme:
  assumes "r = k_unsafe_url_replacement \<or> r = k_unsafe_img_src_url_replacement"
  shows "safe_scheme (scheme_of (entity_decode (validate_url html_escape r s))) \<and>
    safe_scheme (scheme_of (validate_url css_url_escape r s)) \<and>
    set (validate_url css_url_escape r s) \<inter> set css_url_unsafe = {}"
proof -
  obtain u where "validate_url css_url_escape r s = css_url_escape u" by (rule validate_url_cases [OF assms])
  then have "set (validate_url css_url_escape r s) \<inter> set css_url_unsafe = {}" using css_url_chars by auto
  then show ?thesis using validate_url_html [OF assms] validate_url_css [OF assms] by simp
qed

theorem validated_url_scheme_witness:
  "safe_scheme (scheme_of (entity_decode (validate_url html_escape k_unsafe_url_replacement ''JaVaScript:alert(1)''))) \<and>
   validate_url html_escape k_unsafe_url_replacement ''JaVaScript:alert(1)'' = ''#'' \<and>
   \<not> safe_scheme (scheme_of ''JaVaScript:alert(1)'')"
proof -
  have "has_insecure_protocol ''JaVaScript:alert(1)''"
    by (simp add: has_insecure_protocol_def tolower_c_def)
  then have "validate_url html_escape k_unsafe_url_replacement ''JaVaScript:alert(1)'' = ''#''"
    by (simp add: validate_url_def k_unsafe_url_replacement_def html_escape_def html_case_def)
  moreover have "tolower_c (CHR ''J'') = CHR ''j''" "tolower_c (CHR ''V'') = CHR ''v''" "tolower_c (CHR ''S'') = CHR ''s''"
    by code_simp+
  then have "scheme_of ''JaVaScript:alert(1)'' = Some ''javascript''"
    by (simp add: scheme_of_def visible_def) (simp add: tolower_c_def)
  ultimately show ?thesis
    using validated_url_scheme [of k_unsafe_url_replacement "''JaVaScript:alert(1)''"]
    by (simp add: safe_scheme_def)
qed



end
