(* ===== verification/Template_Snippet.thy ===== *)
theory Template_Snippet
  imports Template_Escapes
begin

text \<open>
  The modifier of the template engine for snippets of HTML
  (\<open>UnclosedSnippetTags\<close> and \<open>SnippetEscape\<close> of
  \<open>third/ctemplate-2.2/src/template_modifiers.cc\<close>): a few tags may pass, everything
  else is escaped, and the tags that were left open are closed at the end. The open tags
  are kept in an array of five characters that is used as a C string; an access outside
  of it is \<open>UndefinedBehaviour\<close>.
\<close>

section \<open>Open tags\<close>

record unclosed_snippet_tags =
  tags :: "char list"
  tag_length :: nat

abbreviation TAG_B :: char where "TAG_B \<equiv> CHR ''b''"
abbreviation TAG_I :: char where "TAG_I \<equiv> CHR ''i''"
abbreviation TAG_EM :: char where "TAG_EM \<equiv> CHR ''e''"
abbreviation TAG_SPAN :: char where "TAG_SPAN \<equiv> CHR ''s''"

definition new_unclosed_snippet_tags :: unclosed_snippet_tags where
  "new_unclosed_snippet_tags = \<lparr>tags = replicate 5 NUL, tag_length = 0\<rparr>"

text \<open>\<open>strchr\<close>: is the tag in the string? Without a NUL it runs out of the array.\<close>

definition strchr_tag :: "char list \<Rightarrow> char \<Rightarrow> bool result" where
  "strchr_tag ts tag =
     (if tag \<in> set (cstr ts) then Inr True
      else if NUL \<in> set ts then Inr False
      else Inl UndefinedBehaviour)"

definition maybe_add :: "char \<Rightarrow> unclosed_snippet_tags \<Rightarrow> (bool \<times> unclosed_snippet_tags) result" where
  "maybe_add tag u =
     bindE (strchr_tag (tags u) tag) (\<lambda>found.
       if found then Inr (False, u)
       else if tag_length u < length (tags u)
         then Inr (True, u\<lparr>tags := (tags u)[tag_length u := tag], tag_length := tag_length u + 1\<rparr>)
         else Inl UndefinedBehaviour)"

text \<open>The loop that copies every later tag down by one, from the place of the tag.\<close>

fun copy_down :: "char list \<Rightarrow> char list result" where
  "copy_down [] = Inl UndefinedBehaviour"
| "copy_down [c] = (if c = NUL then Inr [c] else Inl UndefinedBehaviour)"
| "copy_down (c # d # s) =
     (if c = NUL then Inr (c # d # s) else bindE (copy_down (d # s)) (\<lambda>r. Inr (d # r)))"

definition maybe_remove :: "char \<Rightarrow> unclosed_snippet_tags \<Rightarrow> (bool \<times> unclosed_snippet_tags) result" where
  "maybe_remove tag u =
     bindE (strchr_tag (tags u) tag) (\<lambda>found.
       if found then
         bindE (copy_down (dropWhile (\<lambda>c. c \<noteq> tag) (tags u))) (\<lambda>r.
           Inr (True, u\<lparr>tags := takeWhile (\<lambda>c. c \<noteq> tag) (tags u) @ r, tag_length := tag_length u - 1\<rparr>))
       else Inr (False, u))"

definition closing_tag :: "char \<Rightarrow> string" where
  "closing_tag c =
     (if c = TAG_B then ''</b>''
      else if c = TAG_I then ''</i>''
      else if c = TAG_EM then ''</em>''
      else if c = TAG_SPAN then ''</span>''
      else [])"

fun closing_loop :: "char list \<Rightarrow> nat \<Rightarrow> string" where
  "closing_loop ts 0 = closing_tag (ts ! 0)"
| "closing_loop ts (Suc i) = closing_tag (ts ! Suc i) @ closing_loop ts i"

definition print_closing_tags :: "unclosed_snippet_tags \<Rightarrow> string result" where
  "print_closing_tags u =
     (if tag_length u < length (tags u) then Inr (closing_loop (tags u) (tag_length u))
      else Inl UndefinedBehaviour)"

section \<open>The modifier\<close>

text \<open>One branch of the chain behind an opening bracket: when it is taken, its tag stays in the run
  and the position moves past it.\<close>

type_synonym tag_step = "(nat option \<times> unclosed_snippet_tags) result"

definition try_tag ::
  "bool \<Rightarrow> (unclosed_snippet_tags \<Rightarrow> (bool \<times> unclosed_snippet_tags) result) \<Rightarrow> string \<Rightarrow>
   (unclosed_snippet_tags \<Rightarrow> tag_step) \<Rightarrow> unclosed_snippet_tags \<Rightarrow> tag_step" where
  "try_tag here act literal next_case u =
     (if here then bindE (act u) (\<lambda>(ok, u'). if ok then Inr (Some (length literal), u') else next_case u')
      else next_case u)"

definition snippet_tag :: "string \<Rightarrow> unclosed_snippet_tags \<Rightarrow> tag_step" where
  "snippet_tag s =
     try_tag (starts_with ''b>'' s) (maybe_add TAG_B) ''<b>'' (
     try_tag (starts_with ''i>'' s) (maybe_add TAG_I) ''<i>'' (
     try_tag (starts_with ''em>'' s) (maybe_add TAG_EM) ''<em>'' (
     try_tag (starts_with ''span dir='' s \<and> (starts_with ''ltr>'' (drop 9 s) \<or> starts_with ''rtl>'' (drop 9 s)))
       (maybe_add TAG_SPAN) ''<span dir=ltr>'' (
     try_tag (starts_with ''/b>'' s) (maybe_remove TAG_B) ''</b>'' (
     try_tag (starts_with ''/i>'' s) (maybe_remove TAG_I) ''</i>'' (
     try_tag (starts_with ''/em>'' s) (maybe_remove TAG_EM) ''</em>'' (
     try_tag (starts_with ''/span>'' s) (maybe_remove TAG_SPAN) ''</span>'' (
     try_tag (starts_with ''br>'' s) (\<lambda>u. Inr (True, u)) ''<br>'' (
     try_tag (starts_with ''wbr>'' s) (\<lambda>u. Inr (True, u)) ''<wbr>'' (
       \<lambda>u. Inr (None, u)))))))))))"

text \<open>The other cases of the switch.\<close>

definition snippet_case :: "char \<Rightarrow> string \<Rightarrow> string option" where
  "snippet_case c s =
     (if c = CHR ''&'' then (if s \<noteq> [] \<and> hd s = CHR ''{'' then Some ''&amp;'' else Some ''&'')
      else if c = QUOT then Some ''&quot;''
      else if c = APOS then Some ''&#39;''
      else if c = CHR ''>'' then Some ''&gt;''
      else if c = CR \<or> c = LF \<or> c = VT \<or> c = FF \<or> c = TAB then Some '' ''
      else None)"

definition advances :: "(unclosed_snippet_tags \<Rightarrow> tag_step) \<Rightarrow> bool" where
  "advances f \<longleftrightarrow> (\<forall>u n u'. f u = Inr (Some n, u') \<longrightarrow> 0 < n)"

lemma advances_try: "advances f \<Longrightarrow> literal \<noteq> [] \<Longrightarrow> advances (try_tag here act literal f)"
  unfolding advances_def try_tag_def by (auto simp: result_simps split: if_splits)

lemma advances_end: "advances (\<lambda>u. Inr (None, u))"
  by (simp add: advances_def)

lemma snippet_tag_advances: "advances (snippet_tag s)"
  unfolding snippet_tag_def by (intro advances_try advances_end; simp)

lemma snippet_tag_length: "snippet_tag s u = Inr (Some n, u') \<Longrightarrow> 0 < n"
  using snippet_tag_advances [of s] unfolding advances_def by blast

text \<open>The loop; it ends with the open tags. \<open>run\<close> is the text from \<open>start\<close> to \<open>pos\<close>.\<close>

function snippet_loop ::
  "unclosed_snippet_tags \<Rightarrow> string \<Rightarrow> string \<Rightarrow> (string \<times> unclosed_snippet_tags) result" where
  "snippet_loop u run [] = Inr (emit_run run, u)"
| "snippet_loop u run (c # s) =
     (if c = CHR ''<'' then
        (case snippet_tag s u of
           Inl e \<Rightarrow> Inl e
         | Inr (Some n, u') \<Rightarrow> snippet_loop u' (run @ take n (c # s)) (drop n (c # s))
         | Inr (None, u') \<Rightarrow> bindE (snippet_loop u' [] s) (\<lambda>(out, v). Inr (emit_run run @ ''&lt;'' @ out, v)))
      else
        (case snippet_case c s of
           None \<Rightarrow> snippet_loop u (run @ [c]) s
         | Some e \<Rightarrow> bindE (snippet_loop u [] s) (\<lambda>(out, v). Inr (emit_run run @ e @ out, v))))"
  by pat_completeness auto
termination
  by (relation "measure (\<lambda>(u, run, s). length s)") (auto dest!: snippet_tag_length)

declare snippet_loop.simps(2) [simp del]

definition snippet_escape :: "string \<Rightarrow> string result" where
  "snippet_escape s =
     bindE (snippet_loop new_unclosed_snippet_tags [] s) (\<lambda>(out, u).
     bindE (print_closing_tags u) (\<lambda>closing. Inr (out @ closing)))"

section \<open>The array as a list of open tags\<close>

definition tags_ok :: "char list \<Rightarrow> bool" where
  "tags_ok w \<longleftrightarrow> distinct w \<and> set w \<subseteq> {TAG_B, TAG_I, TAG_EM, TAG_SPAN}"

definition tag_array :: "char list \<Rightarrow> unclosed_snippet_tags" where
  "tag_array w = \<lparr>tags = w @ replicate (5 - length w) NUL, tag_length = length w\<rparr>"

lemma tags_ok_length: "tags_ok w \<Longrightarrow> length w \<le> 4"
proof -
  assume "tags_ok w"
  then have "length w = card (set w)" "set w \<subseteq> {TAG_B, TAG_I, TAG_EM, TAG_SPAN}"
    by (auto simp: tags_ok_def distinct_card)
  moreover have "card {TAG_B, TAG_I, TAG_EM, TAG_SPAN} = 4" by simp
  ultimately show ?thesis using card_mono [of "{TAG_B, TAG_I, TAG_EM, TAG_SPAN}" "set w"] by simp
qed

lemma tags_ok_nul: "tags_ok w \<Longrightarrow> NUL \<notin> set w"
  by (auto simp: tags_ok_def)

lemma tags_ok_snoc: "tags_ok (w @ [t]) \<longleftrightarrow> tags_ok w \<and> t \<notin> set w \<and> t \<in> {TAG_B, TAG_I, TAG_EM, TAG_SPAN}"
  by (auto simp: tags_ok_def)

lemma tags_ok_remove: "tags_ok w \<Longrightarrow> tags_ok (remove1 t w)"
  by (auto simp: tags_ok_def dest: notin_set_remove1)

lemma new_tags: "new_unclosed_snippet_tags = tag_array []"
  by (simp add: new_unclosed_snippet_tags_def tag_array_def)

lemma cstr_tags: "tags_ok w \<Longrightarrow> cstr (w @ replicate (Suc n) NUL) = w"
  using tags_ok_nul [of w] by (simp add: cstr_def takeWhile_until)

lemma array_pad: "tags_ok w \<Longrightarrow> \<exists>n. 5 - length w = Suc n \<and> n = 4 - length w"
  using tags_ok_length [of w] by auto

lemma strchr_array: "tags_ok w \<Longrightarrow> strchr_tag (tags (tag_array w)) t = Inr (t \<in> set w)"
  using array_pad [of w] cstr_tags [of w] by (auto simp: strchr_tag_def tag_array_def)

lemma maybe_add_array:
  assumes "tags_ok w"
  shows "maybe_add t (tag_array w) = Inr (if t \<in> set w then (False, tag_array w) else (True, tag_array (w @ [t])))"
proof -
  obtain n where n: "5 - length w = Suc n" using array_pad [OF assms] by blast
  then have "5 - length (w @ [t]) = n" by simp
  with n show ?thesis
    using strchr_array [OF assms, of t] tags_ok_length [OF assms]
    by (simp add: maybe_add_def tag_array_def list_update_append)
qed

lemma copy_down_list: "NUL \<notin> set w \<Longrightarrow> copy_down (c # w @ replicate (Suc n) NUL) =
    Inr (if c = NUL then c # w @ replicate (Suc n) NUL else w @ replicate (Suc (Suc n)) NUL)"
proof (induction w arbitrary: c)
  case Nil
  show ?case by (cases n) auto
qed (auto simp: replicate_append_same)

lemma remove1_split: "t \<in> set w \<Longrightarrow> remove1 t w = takeWhile (\<lambda>c. c \<noteq> t) w @ tl (dropWhile (\<lambda>c. c \<noteq> t) w)"
  by (induction w) auto

lemma maybe_remove_array:
  assumes "tags_ok w"
  shows "maybe_remove t (tag_array w) = Inr (if t \<in> set w then (True, tag_array (remove1 t w)) else (False, tag_array w))"
proof (cases "t \<in> set w")
  case True
  obtain n where n: "5 - length w = Suc n" "n = 4 - length w" using array_pad [OF assms] by blast
  obtain p q where w: "w = p @ t # q" "t \<notin> set p" using split_list_first [OF True] by blast
  have take: "takeWhile (\<lambda>c. c \<noteq> t) (w @ replicate (Suc n) NUL) = p"
    using w(2) unfolding w(1) by (simp add: takeWhile_until)
  have drop: "dropWhile (\<lambda>c. c \<noteq> t) (w @ replicate (Suc n) NUL) = t # q @ replicate (Suc n) NUL"
    using w(2) unfolding w(1) by (simp add: dropWhile_until)
  have "NUL \<notin> set q" "t \<noteq> NUL" using tags_ok_nul [OF assms] w by auto
  then have copy: "copy_down (t # q @ replicate (Suc n) NUL) = Inr (q @ replicate (Suc (Suc n)) NUL)"
    using copy_down_list [of q t n] by simp
  have "remove1 t w = p @ q" using w by (simp add: remove1_append)
  moreover have "5 - length (p @ q) = Suc (Suc n)" using n w tags_ok_length [OF assms] by simp
  ultimately show ?thesis
    using True strchr_array [OF assms, of t] take drop copy n w
    by (simp add: maybe_remove_def tag_array_def)
next
  case False
  then show ?thesis using strchr_array [OF assms, of t] by (simp add: maybe_remove_def)
qed

section \<open>Well-tagged text\<close>

datatype tag_kind = OpenTag char | CloseTag char | VoidTag

definition snippet_tags :: "(string \<times> tag_kind) list" where
  "snippet_tags =
     [(''<b>'', OpenTag TAG_B), (''<i>'', OpenTag TAG_I), (''<em>'', OpenTag TAG_EM),
      (''<span dir=ltr>'', OpenTag TAG_SPAN), (''<span dir=rtl>'', OpenTag TAG_SPAN),
      (''</b>'', CloseTag TAG_B), (''</i>'', CloseTag TAG_I), (''</em>'', CloseTag TAG_EM),
      (''</span>'', CloseTag TAG_SPAN), (''<br>'', VoidTag), (''<wbr>'', VoidTag)]"

definition tag_at :: "string \<Rightarrow> (string \<times> tag_kind) option" where
  "tag_at s = find (\<lambda>(e, _). starts_with e s) snippet_tags"

lemma tag_at_member: "tag_at s = Some (e, k) \<Longrightarrow> (e, k) \<in> set snippet_tags \<and> starts_with e s"
  by (auto simp: tag_at_def find_Some_iff in_set_conv_nth)

lemma tag_at_length: "tag_at s = Some (e, k) \<Longrightarrow> 0 < length e"
  using tag_at_member [of s e k] by (auto simp: snippet_tags_def)

text \<open>Text a browser reads with the given tags open: every angle bracket belongs to one of the
  permitted tags, no tag is opened twice or closed unopened, none is open at the end, there is no
  quote and no script entity.\<close>

function well_tagged :: "char list \<Rightarrow> string \<Rightarrow> bool" where
  "well_tagged w [] \<longleftrightarrow> w = []"
| "well_tagged w (c # s) \<longleftrightarrow>
     (case tag_at (c # s) of
        Some (e, OpenTag t) \<Rightarrow> t \<notin> set w \<and> well_tagged (w @ [t]) (drop (length e) (c # s))
      | Some (e, CloseTag t) \<Rightarrow> t \<in> set w \<and> well_tagged (remove1 t w) (drop (length e) (c # s))
      | Some (e, VoidTag) \<Rightarrow> well_tagged w (drop (length e) (c # s))
      | None \<Rightarrow> c \<notin> {CHR ''<'', CHR ''>'', QUOT, APOS, CR, LF, VT, FF, TAB} \<and>
          (c = CHR ''&'' \<longrightarrow> s = [] \<or> hd s \<noteq> CHR ''{'') \<and> well_tagged w s)"
  by pat_completeness auto
termination
  by (relation "measure (\<lambda>(w, s). length s)") (auto dest: tag_at_length)

declare well_tagged.simps(2) [simp del]

lemma starts_with_append: "starts_with e s \<longleftrightarrow> (\<exists>t. s = e @ t)"
  by (auto simp: starts_with_def) (metis append_take_drop_id)

lemma tag_at_plain: "c \<noteq> CHR ''<'' \<Longrightarrow> tag_at (c # s) = None"
  by (simp add: tag_at_def snippet_tags_def)

lemma tag_at_eqs:
  "tag_at (''<b>'' @ s) = Some (''<b>'', OpenTag TAG_B)"
  "tag_at (''<i>'' @ s) = Some (''<i>'', OpenTag TAG_I)"
  "tag_at (''<em>'' @ s) = Some (''<em>'', OpenTag TAG_EM)"
  "tag_at (''<span dir=ltr>'' @ s) = Some (''<span dir=ltr>'', OpenTag TAG_SPAN)"
  "tag_at (''<span dir=rtl>'' @ s) = Some (''<span dir=rtl>'', OpenTag TAG_SPAN)"
  "tag_at (''</b>'' @ s) = Some (''</b>'', CloseTag TAG_B)"
  "tag_at (''</i>'' @ s) = Some (''</i>'', CloseTag TAG_I)"
  "tag_at (''</em>'' @ s) = Some (''</em>'', CloseTag TAG_EM)"
  "tag_at (''</span>'' @ s) = Some (''</span>'', CloseTag TAG_SPAN)"
  "tag_at (''<br>'' @ s) = Some (''<br>'', VoidTag)"
  "tag_at (''<wbr>'' @ s) = Some (''<wbr>'', VoidTag)"
  by (simp_all add: tag_at_def snippet_tags_def)

lemma tag_at_append: "(e, k) \<in> set snippet_tags \<Longrightarrow> tag_at (e @ s) = Some (e, k)"
  using tag_at_eqs [of s]
  by (simp only: snippet_tags_def list.set insert_iff empty_iff prod.inject) (elim disjE conjE; simp only:)

lemma well_tagged_plain:
  "c \<notin> {CHR ''<'', CHR ''>'', QUOT, APOS, CR, LF, VT, FF, TAB} \<Longrightarrow>
   c = CHR ''&'' \<longrightarrow> s = [] \<or> hd s \<noteq> CHR ''{'' \<Longrightarrow> well_tagged w (c # s) = well_tagged w s"
  by (simp add: well_tagged.simps(2) tag_at_plain)

text \<open>What the chain of cases does with the tag at the position.\<close>

definition permitted_step :: "string \<Rightarrow> char list \<Rightarrow> (nat \<times> char list) option" where
  "permitted_step s w =
     (case tag_at s of
        Some (e, OpenTag t) \<Rightarrow> if t \<in> set w then None else Some (length e, w @ [t])
      | Some (e, CloseTag t) \<Rightarrow> if t \<in> set w then Some (length e, remove1 t w) else None
      | Some (e, VoidTag) \<Rightarrow> Some (length e, w)
      | None \<Rightarrow> None)"

definition step_result :: "char list \<Rightarrow> (nat \<times> char list) option \<Rightarrow> tag_step" where
  "step_result w r = (case r of None \<Rightarrow> Inr (None, tag_array w) | Some (n, w') \<Rightarrow> Inr (Some n, tag_array w'))"

lemma span_starts:
  "starts_with ''span dir='' s \<and> (starts_with ''ltr>'' (drop 9 s) \<or> starts_with ''rtl>'' (drop 9 s)) \<longleftrightarrow>
   starts_with ''span dir=ltr>'' s \<or> starts_with ''span dir=rtl>'' s"
  by (auto simp: starts_with_append)

lemma snippet_tag_known:
  assumes "tags_ok w"
  shows
    "snippet_tag (''b>'' @ t) (tag_array w) = step_result w (permitted_step (''<b>'' @ t) w)"
    "snippet_tag (''i>'' @ t) (tag_array w) = step_result w (permitted_step (''<i>'' @ t) w)"
    "snippet_tag (''em>'' @ t) (tag_array w) = step_result w (permitted_step (''<em>'' @ t) w)"
    "snippet_tag (''span dir=ltr>'' @ t) (tag_array w) = step_result w (permitted_step (''<span dir=ltr>'' @ t) w)"
    "snippet_tag (''span dir=rtl>'' @ t) (tag_array w) = step_result w (permitted_step (''<span dir=rtl>'' @ t) w)"
    "snippet_tag (''/b>'' @ t) (tag_array w) = step_result w (permitted_step (''</b>'' @ t) w)"
    "snippet_tag (''/i>'' @ t) (tag_array w) = step_result w (permitted_step (''</i>'' @ t) w)"
    "snippet_tag (''/em>'' @ t) (tag_array w) = step_result w (permitted_step (''</em>'' @ t) w)"
    "snippet_tag (''/span>'' @ t) (tag_array w) = step_result w (permitted_step (''</span>'' @ t) w)"
    "snippet_tag (''br>'' @ t) (tag_array w) = step_result w (permitted_step (''<br>'' @ t) w)"
    "snippet_tag (''wbr>'' @ t) (tag_array w) = step_result w (permitted_step (''<wbr>'' @ t) w)"
  unfolding snippet_tag_def permitted_step_def tag_at_eqs option.case prod.case tag_kind.case
  by (simp_all add: try_tag_def maybe_add_array [OF assms] maybe_remove_array [OF assms] step_result_def)

lemma snippet_tag_unknown:
  assumes "tag_at (CHR ''<'' # s) = None"
  shows "snippet_tag s u = Inr (None, u)"
proof -
  have none: "\<not> starts_with e (CHR ''<'' # s)" if "(e, k) \<in> set snippet_tags" for e k
    using assms that by (fastforce simp: tag_at_def find_None_iff)
  show ?thesis
    using none [of "''<span dir=ltr>''" "OpenTag TAG_SPAN"] none [of "''<span dir=rtl>''" "OpenTag TAG_SPAN"]
      none [of "''<b>''" "OpenTag TAG_B"] none [of "''<i>''" "OpenTag TAG_I"] none [of "''<em>''" "OpenTag TAG_EM"]
      none [of "''</b>''" "CloseTag TAG_B"] none [of "''</i>''" "CloseTag TAG_I"] none [of "''</em>''" "CloseTag TAG_EM"]
      none [of "''</span>''" "CloseTag TAG_SPAN"] none [of "''<br>''" VoidTag] none [of "''<wbr>''" VoidTag]
    by (simp add: snippet_tag_def try_tag_def snippet_tags_def span_starts)
qed

lemma snippet_tag_array:
  assumes "tags_ok w"
  shows "snippet_tag s (tag_array w) = step_result w (permitted_step (CHR ''<'' # s) w)"
proof (cases "tag_at (CHR ''<'' # s)")
  case None
  then show ?thesis by (simp add: snippet_tag_unknown step_result_def permitted_step_def)
next
  case (Some ek)
  obtain e k where "ek = (e, k)" by (rule prod.exhaust)
  with Some tag_at_member have ek: "(e, k) \<in> set snippet_tags" "starts_with e (CHR ''<'' # s)" by blast+
  then obtain t where t: "CHR ''<'' # s = e @ t" by (auto simp: starts_with_append)
  then have "s = tl e @ t" using ek(1) by (cases e) (auto simp: snippet_tags_def)
  with t ek(1) show ?thesis
    using snippet_tag_known [OF assms, of t]
    by (simp only: snippet_tags_def list.set insert_iff empty_iff prod.inject) (elim disjE conjE; simp only: list.sel)
qed

section \<open>The loop makes well-tagged text\<close>

lemma snippet_loop_run:
  "tags_ok w \<Longrightarrow> snippet_loop (tag_array w) run s =
     bindE (snippet_loop (tag_array w) [] s) (\<lambda>(out, v). Inr (run @ out, v))"
proof (induction "length s" arbitrary: w run s rule: less_induct)
  case less
  show ?case
  proof (cases s)
    case (Cons c t)
    have plain: "snippet_loop (tag_array w) (r @ [c]) t =
        bindE (snippet_loop (tag_array w) [] t) (\<lambda>(out, v). Inr (r @ c # out, v))" for r
      using less(1) [of t w "r @ [c]"] less(2) Cons by simp
    show ?thesis
    proof (cases "c = CHR ''<''")
      case True
      show ?thesis
      proof (cases "permitted_step s w")
        case None
        then show ?thesis using snippet_tag_array [OF less(2), of t] Cons True
          by (cases "snippet_loop (tag_array w) [] t") (auto simp: snippet_loop.simps(2) step_result_def)
      next
        case (Some nw)
        then obtain n w' where nw: "permitted_step s w = Some (n, w')" by (cases nw) auto
        then have tag: "snippet_tag t (tag_array w) = Inr (Some n, tag_array w')"
          using snippet_tag_array [OF less(2), of t] Cons True by (simp add: step_result_def)
        have ok: "tags_ok w'" "0 < n"
          using nw less(2) tag_at_length tag_at_member [of s]
          by (auto simp: permitted_step_def snippet_tags_def tags_ok_snoc tags_ok_remove split: option.splits tag_kind.splits if_splits)
        then have "length (drop n s) < length s" using Cons by simp
        note IH = less(1) [OF this ok(1)]
        have "snippet_loop (tag_array w) r s = snippet_loop (tag_array w') (r @ take n s) (drop n s)" for r
          using Cons True tag by (simp add: snippet_loop.simps(2))
        then show ?thesis using IH [of "run @ take n s"] IH [of "take n s"]
          by (cases "snippet_loop (tag_array w') [] (drop n s)") auto
      qed
    next
      case False
      then show ?thesis using Cons plain [of run] plain [of "[]"]
        by (cases "snippet_loop (tag_array w) [] t") (auto simp: snippet_loop.simps(2) split: option.splits)
    qed
  qed simp
qed

text \<open>One step of the loop: what comes out and the tags open after it.\<close>

lemma permitted_step_cases:
  assumes "permitted_step s w = Some (n, w')" "tags_ok w"
  shows "tags_ok w' \<and> 0 < n \<and> n \<le> length s \<and> hd (take n s) = CHR ''<'' \<and>
    (well_tagged w' t \<longrightarrow> well_tagged w (take n s @ t))"
proof -
  obtain e k where ek: "tag_at s = Some (e, k)"
    using assms(1) by (auto simp: permitted_step_def split: option.splits)
  note mem = tag_at_member [OF ek]
  then obtain r where r: "s = e @ r" by (auto simp: starts_with_append)
  have e: "e \<noteq> []" "hd e = CHR ''<''" using mem by (auto simp: snippet_tags_def)
  then obtain c u where cu: "e = c # u" by (cases e) auto
  have n: "n = length e" and w': "w' = (case k of OpenTag t \<Rightarrow> w @ [t] | CloseTag t \<Rightarrow> remove1 t w | VoidTag \<Rightarrow> w)"
    and k: "case k of OpenTag t \<Rightarrow> t \<notin> set w | CloseTag t \<Rightarrow> t \<in> set w | VoidTag \<Rightarrow> True"
    using assms(1) ek by (auto simp: permitted_step_def split: tag_kind.splits if_splits)
  have tag: "tag_at (c # u @ t) = Some (c # u, k)" using tag_at_append [of e k t] mem cu by simp
  have "tags_ok w'"
    using assms(2) w' k mem by (auto simp: snippet_tags_def tags_ok_snoc tags_ok_remove)
  moreover have "well_tagged w' t \<longrightarrow> well_tagged w (take n s @ t)"
    using tag k w' n r cu by (simp add: well_tagged.simps(2) split: tag_kind.splits)
  ultimately show ?thesis using n r e by simp
qed

lemma snippet_case_None:
  "snippet_case c s = None \<Longrightarrow> c \<noteq> CHR ''<'' \<Longrightarrow>
     c \<notin> {CHR ''<'', CHR ''>'', QUOT, APOS, CR, LF, VT, FF, TAB} \<and> c \<noteq> CHR ''&''"
  by (simp add: snippet_case_def split: if_splits)

lemma snippet_entities:
  "well_tagged w (''&amp;'' @ s) = well_tagged w s" "well_tagged w (''&quot;'' @ s) = well_tagged w s"
  "well_tagged w (''&#39;'' @ s) = well_tagged w s" "well_tagged w (''&gt;'' @ s) = well_tagged w s"
  "well_tagged w ('' '' @ s) = well_tagged w s"
  by (simp_all add: well_tagged_plain)

lemma snippet_case_values:
  "snippet_case c s = Some p \<Longrightarrow>
     p = ''&'' \<and> \<not> (s \<noteq> [] \<and> hd s = CHR ''{'') \<or> p \<in> {''&amp;'', ''&quot;'', ''&#39;'', ''&gt;'', '' ''}"
  unfolding snippet_case_def by (simp only: option.inject option.distinct split: if_splits; blast)

lemma snippet_case_head: "snippet_case c s = Some p \<Longrightarrow> p \<noteq> [] \<and> hd p \<noteq> CHR ''{''"
  by (drule snippet_case_values, elim disjE conjE insertE) simp_all

lemma well_tagged_amp: "x = [] \<or> hd x \<noteq> CHR ''{'' \<Longrightarrow> well_tagged w (''&'' @ x) = well_tagged w x"
  by (simp add: well_tagged_plain)

lemma snippet_case_out:
  assumes "snippet_case c s = Some p"
    and "x \<noteq> [] \<longrightarrow> hd x = CHR ''{'' \<longrightarrow> s \<noteq> [] \<and> hd s = CHR ''{''"
  shows "well_tagged w (p @ x) = well_tagged w x"
  using snippet_case_values [OF assms(1)] assms(2) snippet_entities [of w x] well_tagged_amp [of x w] by blast

lemma snippet_lt: "well_tagged w (''&lt;'' @ tail) = well_tagged w tail"
  by (simp add: well_tagged_plain)

lemma snippet_loop_well_tagged:
  assumes "tags_ok w"
  shows "\<exists>out w'. snippet_loop (tag_array w) [] s = Inr (out, tag_array w') \<and> tags_ok w' \<and>
    (out = [] \<longrightarrow> s = []) \<and> (s = [] \<longrightarrow> out = []) \<and> (hd out = CHR ''{'' \<and> s \<noteq> [] \<longrightarrow> hd s = CHR ''{'') \<and>
    (\<forall>tail. (tail = [] \<or> hd tail \<noteq> CHR ''{'') \<and> well_tagged w' tail \<longrightarrow> well_tagged w (out @ tail))"
  using assms
proof (induction "length s" arbitrary: w s rule: less_induct)
  case less
  show ?case
  proof (cases s)
    case (Cons c t)
    obtain out w' where IH: "snippet_loop (tag_array w) [] t = Inr (out, tag_array w')" "tags_ok w'"
      "out = [] \<longleftrightarrow> t = []" "hd out = CHR ''{'' \<and> t \<noteq> [] \<longrightarrow> hd t = CHR ''{''"
      "\<And>tail. (tail = [] \<or> hd tail \<noteq> CHR ''{'') \<Longrightarrow> well_tagged w' tail \<Longrightarrow> well_tagged w (out @ tail)"
      using less(1) [of t w] less(2) Cons by auto
    have front: "(out @ tail \<noteq> [] \<longrightarrow> hd (out @ tail) = CHR ''{'' \<longrightarrow> t \<noteq> [] \<and> hd t = CHR ''{'')"
      if "tail = [] \<or> hd tail \<noteq> CHR ''{''" for tail
      using that IH(3,4) by (cases "out = []") auto
    show ?thesis
    proof (cases "c = CHR ''<''")
      case lt: True
      show ?thesis
      proof (cases "permitted_step s w")
        case None
        then have "snippet_loop (tag_array w) [] s = Inr (''&lt;'' @ out, tag_array w')"
          using snippet_tag_array [OF less(2), of t] Cons lt IH(1) by (simp add: snippet_loop.simps(2) step_result_def)
        then show ?thesis using IH snippet_lt [of w] Cons by (intro exI [of _ "''&lt;'' @ out"] exI [of _ w']) simp
      next
        case (Some nw)
        obtain n v where nw: "nw = (n, v)" by (rule prod.exhaust)
        note step = permitted_step_cases [OF Some [unfolded nw] less(2)]
        then have "length (drop n s) < length s" using Cons by simp
        then obtain out2 v' where IH2: "snippet_loop (tag_array v) [] (drop n s) = Inr (out2, tag_array v')" "tags_ok v'"
          "\<And>tail. (tail = [] \<or> hd tail \<noteq> CHR ''{'') \<Longrightarrow> well_tagged v' tail \<Longrightarrow> well_tagged v (out2 @ tail)"
          using less(1) [of "drop n s" v] step by blast
        have tag: "snippet_tag t (tag_array w) = Inr (Some n, tag_array v)"
          using snippet_tag_array [OF less(2), of t] Cons lt Some nw by (simp add: step_result_def)
        have "snippet_loop (tag_array w) [] s = snippet_loop (tag_array v) (take n s) (drop n s)"
          using Cons lt tag by (simp add: snippet_loop.simps(2))
        also have "\<dots> = Inr (take n s @ out2, tag_array v')"
          using snippet_loop_run [of v "take n s" "drop n s"] step IH2(1) by simp
        finally have run: "snippet_loop (tag_array w) [] s = Inr (take n s @ out2, tag_array v')" .
        have "hd (take n s @ out2) = CHR ''<''" "take n s \<noteq> []" using step Cons by (auto simp: hd_append)
        then show ?thesis
          using run IH2(2,3) step Cons by (intro exI [of _ "take n s @ out2"] exI [of _ v']) auto
      qed
    next
      case other: False
      show ?thesis
      proof (cases "snippet_case c t")
        case None
        then have run: "snippet_loop (tag_array w) [] s = Inr (c # out, tag_array w')"
          using snippet_loop_run [OF less(2), of "[c]" t] IH(1) Cons other by (simp add: snippet_loop.simps(2))
        then have plain: "well_tagged w (c # x) = well_tagged w x" for x
          using snippet_case_None [OF None other] by (intro well_tagged_plain) simp_all
        have "c = CHR ''{'' \<longrightarrow> hd s = CHR ''{''" using Cons by simp
        with run plain IH(2,5) Cons show ?thesis by (intro exI [of _ "c # out"] exI [of _ w']) simp
      next
        case (Some p)
        then have run: "snippet_loop (tag_array w) [] s = Inr (p @ out, tag_array w')"
          using IH(1) Cons other by (simp add: snippet_loop.simps(2))
        have p: "p \<noteq> []" "hd p \<noteq> CHR ''{''" using snippet_case_head [OF Some] by simp_all
        have "well_tagged w (p @ out @ tail)" if "tail = [] \<or> hd tail \<noteq> CHR ''{''" "well_tagged w' tail" for tail
          using snippet_case_out [OF Some front [OF that(1)]] IH(5) [OF that] by simp
        with run p IH(2) Cons show ?thesis by (intro exI [of _ "p @ out"] exI [of _ w']) auto
      qed
    qed
  qed (use less(2) in \<open>auto intro!: exI [of _ "[]"] exI [of _ w]\<close>)
qed

section \<open>Closing what is open\<close>

lemma closing_loop_eq: "i < length ts \<Longrightarrow> closing_loop ts i = concat (map closing_tag (rev (take (Suc i) ts)))"
  by (induction i) (simp_all add: take_Suc_conv_app_nth)

lemma print_closing_array:
  assumes "tags_ok w"
  shows "print_closing_tags (tag_array w) = Inr (concat (map closing_tag (rev w)))"
proof -
  obtain n where n: "5 - length w = Suc n" using array_pad [OF assms] by blast
  then have "take (Suc (length w)) (w @ replicate (5 - length w) NUL) = w @ [NUL]" by simp
  then show ?thesis using n closing_loop_eq [of "length w" "w @ replicate (5 - length w) NUL"]
    by (simp add: print_closing_tags_def tag_array_def closing_tag_def)
qed

lemma closing_tag_well_tagged:
  assumes "t \<in> {TAG_B, TAG_I, TAG_EM, TAG_SPAN}" "t \<in> set w" "well_tagged (remove1 t w) x"
  shows "well_tagged w (closing_tag t @ x)"
proof -
  have "(closing_tag t, CloseTag t) \<in> set snippet_tags"
    using assms(1) by (auto simp: closing_tag_def snippet_tags_def)
  then have tag: "tag_at (closing_tag t @ x) = Some (closing_tag t, CloseTag t)" by (rule tag_at_append)
  obtain c u where "closing_tag t = c # u" using assms(1) by (auto simp: closing_tag_def)
  with tag assms(2,3) show ?thesis by (simp add: well_tagged.simps(2))
qed

lemma closing_well_tagged: "tags_ok w \<Longrightarrow> well_tagged w (concat (map closing_tag (rev w)))"
proof (induction w rule: rev_induct)
  case (snoc t w)
  then show ?case
    using closing_tag_well_tagged [of t "w @ [t]" "concat (map closing_tag (rev w))"]
    by (auto simp: tags_ok_snoc remove1_append)
qed simp

lemma closing_front: "hd (concat (map closing_tag ws)) \<noteq> CHR ''{'' \<or> concat (map closing_tag ws) = []"
  by (induction ws) (auto simp: closing_tag_def)

section \<open>Properties\<close>

text \<open>C25: the snippet modifier returns text for every input, without an access outside the array of
  five characters in which it keeps the open tags: at most four tags are open at a time, each
  of them once. The text is well tagged: its only angle brackets are those of bold, italic,
  emphasis and direction tags and of the two breaks, every tag it opens is closed, also when the input leaves it
  open, none is closed that is not open, and it has no quote, line end or script entity.\<close>

theorem snippet_escape_well_tagged:
  "(\<exists>text'. snippet_escape s = Inr text' \<and> well_tagged [] text') \<and>
   (\<exists>text' u. snippet_loop new_unclosed_snippet_tags [] s = Inr (text', u) \<and> length (tags u) = 5 \<and>
      tag_length u \<le> 4 \<and> distinct (take (tag_length u) (tags u)) \<and>
      list_all (\<lambda>c. c = NUL) (drop (tag_length u) (tags u)))"
proof -
  have "tags_ok []" by (simp add: tags_ok_def)
  from snippet_loop_well_tagged [OF this, of s] obtain out w where
    run: "snippet_loop (tag_array []) [] s = Inr (out, tag_array w)" and w: "tags_ok w"
    and wt: "\<And>tail. (tail = [] \<or> hd tail \<noteq> CHR ''{'') \<Longrightarrow> well_tagged w tail \<Longrightarrow> well_tagged [] (out @ tail)"
    by blast
  have "snippet_escape s = Inr (out @ concat (map closing_tag (rev w)))"
    using run print_closing_array [OF w] by (simp add: snippet_escape_def new_tags)
  moreover have "well_tagged [] (out @ concat (map closing_tag (rev w)))"
    using wt closing_front closing_well_tagged [OF w] by blast
  moreover have "length (tags (tag_array w)) = 5 \<and> tag_length (tag_array w) \<le> 4 \<and>
      distinct (take (tag_length (tag_array w)) (tags (tag_array w))) \<and>
      list_all (\<lambda>c. c = NUL) (drop (tag_length (tag_array w)) (tags (tag_array w)))"
    using tags_ok_length [OF w] w by (simp add: tag_array_def tags_ok_def list_all_iff)
  ultimately show ?thesis using run unfolding new_tags by blast
qed

end
