(* ===== verification/Html_States.thy ===== *)
theory Html_States
  imports Rt_Prelude
begin

text \<open>
  What the HTML parser of the template engine tells about the place it is at
  (\<open>third/ctemplate-2.2/src/htmlparser/htmlparser.h\<close>, \<open>jsparser.h\<close>): its external states, the type of
  the attribute, and the external states of the javascript parser.
\<close>

datatype html_state =
    STATE_TEXT | STATE_TAG | STATE_ATTR | STATE_VALUE | STATE_COMMENT | STATE_JS_FILE | STATE_CSS_FILE | STATE_ERROR

datatype attribute_type = ATTR_NONE | ATTR_REGULAR | ATTR_URI | ATTR_JS | ATTR_STYLE

datatype js_state = JSPARSER_STATE_TEXT | JSPARSER_STATE_Q | JSPARSER_STATE_DQ | JSPARSER_STATE_REGEXP | JSPARSER_STATE_COMMENT

text \<open>The modes of the parser, and what the content of a \<open>meta\<close> tag is (\<open>htmlparser.cc\<close>).\<close>

datatype html_mode = MODE_HTML | MODE_JS | MODE_CSS | MODE_HTML_IN_TAG

datatype redirect_type = META_REDIRECT_TYPE_NONE | META_REDIRECT_TYPE_URL_START | META_REDIRECT_TYPE_URL

end
