(* ===== verification/Template_Registry.thy ===== *)
theory Template_Registry
  imports Template_Urls Template_Snippet Html_States
begin

text \<open>
  The modifiers of the template engine by name
  (\<open>third/ctemplate-2.2/src/template_modifiers.cc\<close> and \<open>template_modifiers_internal.h\<close>): the
  table of built-in modifiers with their safe replacements, the registration and look-up of
  modifiers, and the choice of a modifier from the place in the page where a value goes. The HTML parser is
  not part of it: what the choice asks of it is a record of observations. A pointer into
  the table of modifiers is an index or the entry itself; a pointer to a modifier is a value of
  \<open>template_modifier\<close>.
\<close>

section \<open>Modifiers\<close>

datatype template_modifier =
    Mod_null_modifier | Mod_html_escape | Mod_pre_escape | Mod_snippet_escape | Mod_cleanse_attribute
  | Mod_cleanse_css | Mod_validate_url_and_html_escape | Mod_validate_url_and_javascript_escape
  | Mod_validate_url_and_css_escape | Mod_validate_img_src_url_and_html_escape
  | Mod_validate_img_src_url_and_javascript_escape | Mod_validate_img_src_url_and_css_escape
  | Mod_xml_escape | Mod_javascript_escape | Mod_javascript_number | Mod_url_query_escape
  | Mod_json_escape | Mod_prefix_line | Mod_custom nat

text \<open>The virtual call \<open>Modify\<close>. Modifiers of the application are a parameter.\<close>

fun modify :: "(nat \<Rightarrow> string \<Rightarrow> string \<Rightarrow> string) \<Rightarrow> template_modifier \<Rightarrow> string \<Rightarrow> string \<Rightarrow> string result" where
  "modify app Mod_null_modifier s arg = Inr (null_modify s)"
| "modify app Mod_html_escape s arg = Inr (html_escape s)"
| "modify app Mod_pre_escape s arg = Inr (pre_escape s)"
| "modify app Mod_snippet_escape s arg = snippet_escape s"
| "modify app Mod_cleanse_attribute s arg = Inr (cleanse_attribute s)"
| "modify app Mod_cleanse_css s arg = Inr (cleanse_css s)"
| "modify app Mod_validate_url_and_html_escape s arg = Inr (validate_url html_escape k_unsafe_url_replacement s)"
| "modify app Mod_validate_url_and_javascript_escape s arg = Inr (validate_url javascript_escape k_unsafe_url_replacement s)"
| "modify app Mod_validate_url_and_css_escape s arg = Inr (validate_url css_url_escape k_unsafe_url_replacement s)"
| "modify app Mod_validate_img_src_url_and_html_escape s arg =
     Inr (validate_url html_escape k_unsafe_img_src_url_replacement s)"
| "modify app Mod_validate_img_src_url_and_javascript_escape s arg =
     Inr (validate_url javascript_escape k_unsafe_img_src_url_replacement s)"
| "modify app Mod_validate_img_src_url_and_css_escape s arg =
     Inr (validate_url css_url_escape k_unsafe_img_src_url_replacement s)"
| "modify app Mod_xml_escape s arg = Inr (xml_escape s)"
| "modify app Mod_javascript_escape s arg = Inr (javascript_escape s)"
| "modify app Mod_javascript_number s arg = Inr (javascript_number s)"
| "modify app Mod_url_query_escape s arg = Inr (url_query_escape s)"
| "modify app Mod_json_escape s arg = Inr (json_escape s)"
| "modify app Mod_prefix_line s arg = Inr (prefix_line arg s)"
| "modify app (Mod_custom n) s arg = Inr (app n s arg)"

datatype xss_class = XSS_UNUSED | XSS_WEB_STANDARD | XSS_UNIQUE | XSS_SAFE

record modifier_info =
  long_name :: string
  short_name :: char
  modval_required :: bool
  is_registered :: bool
  xss_cl :: xss_class
  modifier :: template_modifier

text \<open>The constructor; \<open>None\<close> is a null pointer. A name is a C string.\<close>

definition new_modifier_info :: "string \<Rightarrow> char \<Rightarrow> xss_class \<Rightarrow> template_modifier option \<Rightarrow> modifier_info" where
  "new_modifier_info ln sn xc m =
     \<lparr>long_name = ln, short_name = sn, modval_required = (CHR ''='' \<in> set (cstr ln)),
      is_registered = (m \<noteq> None), xss_cl = xc,
      modifier = (case m of None \<Rightarrow> Mod_null_modifier | Some p \<Rightarrow> p)\<rparr>"

section \<open>The table\<close>

record modifier_with_alternatives =
  info :: modifier_info
  safe_alt_mods :: "nat list"

abbreviation builtin :: "string \<Rightarrow> char \<Rightarrow> xss_class \<Rightarrow> template_modifier \<Rightarrow> nat list \<Rightarrow> modifier_with_alternatives" where
  "builtin ln sn xc m alts \<equiv> \<lparr>info = new_modifier_info ln sn xc (Some m), safe_alt_mods = alts\<rparr>"

definition g_modifiers :: "modifier_with_alternatives list" where
  "g_modifiers =
     [builtin ''cleanse_css'' (CHR ''c'') XSS_WEB_STANDARD Mod_cleanse_css [16, 19],
      builtin ''html_escape'' (CHR ''h'') XSS_WEB_STANDARD Mod_html_escape [2, 3, 4, 5, 8, 9, 11, 12, 18],
      builtin ''html_escape_with_arg=snippet'' (CHR ''H'') XSS_WEB_STANDARD Mod_snippet_escape [1, 3, 4, 8, 9, 12],
      builtin ''html_escape_with_arg=pre'' (CHR ''H'') XSS_WEB_STANDARD Mod_pre_escape [1, 2, 4, 8, 9, 12],
      builtin ''html_escape_with_arg=attribute'' (CHR ''H'') XSS_WEB_STANDARD Mod_cleanse_attribute [],
      builtin ''html_escape_with_arg=url'' (CHR ''H'') XSS_WEB_STANDARD Mod_validate_url_and_html_escape [18],
      builtin ''javascript_escape'' (CHR ''j'') XSS_WEB_STANDARD Mod_javascript_escape [7, 10, 17],
      builtin ''json_escape'' (CHR ''o'') XSS_WEB_STANDARD Mod_json_escape [6],
      builtin ''pre_escape'' (CHR ''p'') XSS_WEB_STANDARD Mod_pre_escape [1, 2, 3, 4, 9, 12],
      builtin ''url_query_escape'' (CHR ''u'') XSS_WEB_STANDARD Mod_url_query_escape [],
      builtin ''url_escape_with_arg=javascript'' (CHR ''U'') XSS_WEB_STANDARD Mod_validate_url_and_javascript_escape [17],
      builtin ''url_escape_with_arg=html'' (CHR ''U'') XSS_WEB_STANDARD Mod_validate_url_and_html_escape [18],
      builtin ''url_escape_with_arg=query'' (CHR ''U'') XSS_WEB_STANDARD Mod_url_query_escape [],
      builtin ''none'' NUL XSS_SAFE Mod_null_modifier [],
      builtin ''xml_escape'' NUL XSS_WEB_STANDARD Mod_xml_escape [1, 4],
      builtin ''javascript_escape_with_arg=number'' (CHR ''J'') XSS_WEB_STANDARD Mod_javascript_number [],
      builtin ''url_escape_with_arg=css'' (CHR ''U'') XSS_WEB_STANDARD Mod_validate_url_and_css_escape [],
      builtin ''img_src_url_escape_with_arg=javascript'' (CHR ''I'') XSS_WEB_STANDARD
        Mod_validate_img_src_url_and_javascript_escape [],
      builtin ''img_src_url_escape_with_arg=html'' (CHR ''I'') XSS_WEB_STANDARD
        Mod_validate_img_src_url_and_html_escape [],
      builtin ''img_src_url_escape_with_arg=css'' (CHR ''I'') XSS_WEB_STANDARD
        Mod_validate_img_src_url_and_css_escape []]"

definition is_safe_xss_alternative :: "modifier_info \<Rightarrow> modifier_info \<Rightarrow> bool" where
  "is_safe_xss_alternative our candidate =
     (if modifier our = modifier candidate then True
      else list_ex (\<lambda>m. long_name (info m) = long_name our \<and>
          list_ex (\<lambda>i. long_name (info (g_modifiers ! i)) = long_name candidate) (safe_alt_mods m)) g_modifiers)"

section \<open>Registration and look-up\<close>

record registry =
  g_extension_modifiers :: "modifier_info list"
  g_unknown_modifiers :: "modifier_info list"

definition is_extension_modifier :: "string \<Rightarrow> bool" where
  "is_extension_modifier ln \<longleftrightarrow> starts_with ''x-'' ln"

text \<open>The part of a name before the equal sign, and from it on.\<close>

definition name_part :: "string \<Rightarrow> string" where
  "name_part ln = takeWhile (\<lambda>c. c \<noteq> CHR ''='') ln"

definition value_part :: "string \<Rightarrow> string" where
  "value_part ln = dropWhile (\<lambda>c. c \<noteq> CHR ''='') ln"

definition names_collide :: "string \<Rightarrow> string \<Rightarrow> bool" where
  "names_collide ln existing \<longleftrightarrow>
     name_part ln = name_part existing \<and>
     \<not> (value_part ln \<noteq> [] \<and> value_part existing \<noteq> [] \<and> existing \<noteq> ln)"

definition add_modifier_common :: "string \<Rightarrow> template_modifier option \<Rightarrow> bool \<Rightarrow> registry \<Rightarrow> bool \<times> registry" where
  "add_modifier_common ln m xss_safe r =
     (if \<not> is_extension_modifier ln then (False, r)
      else if list_ex (\<lambda>e. names_collide ln (long_name e)) (g_extension_modifiers r) then (False, r)
      else (True, r\<lparr>g_extension_modifiers :=
             g_extension_modifiers r @ [new_modifier_info ln NUL (if xss_safe then XSS_SAFE else XSS_UNIQUE) m]\<rparr>))"

definition add_modifier :: "string \<Rightarrow> template_modifier option \<Rightarrow> registry \<Rightarrow> bool \<times> registry" where
  "add_modifier ln m r = add_modifier_common ln m False r"

definition add_xss_safe_modifier :: "string \<Rightarrow> template_modifier option \<Rightarrow> registry \<Rightarrow> bool \<times> registry" where
  "add_xss_safe_modifier ln m r = add_modifier_common ln m True r"

definition update_best_match ::
  "string \<Rightarrow> string \<Rightarrow> modifier_info \<Rightarrow> modifier_info option \<Rightarrow> modifier_info option result" where
  "update_best_match modname modval cand best =
     (if modval_required cand then
        (let equals = value_part (long_name cand) in
         if equals = [] then Inl AssertFailure
         else if modval \<noteq> [] \<and>
            (length modname = 1 \<and> hd modname = short_name cand \<or> modname = name_part (long_name cand)) \<and>
            (tl equals = [] \<or> modval = equals)
         then (case best of
                 None \<Rightarrow> Inr (Some cand)
               | Some b \<Rightarrow> Inr (if length (long_name cand) > length (long_name b) then Some cand else best))
         else Inr best)
      else if modval = [] \<and> (length modname = 1 \<and> hd modname = short_name cand \<or> modname = long_name cand)
      then (if best = None then Inr (Some cand) else Inl AssertFailure)
      else Inr best)"

fun best_match_loop ::
  "string \<Rightarrow> string \<Rightarrow> modifier_info list \<Rightarrow> modifier_info option \<Rightarrow> modifier_info option result" where
  "best_match_loop modname modval [] best = Inr best"
| "best_match_loop modname modval (m # ms) best =
     bindE (update_best_match modname modval m best) (best_match_loop modname modval ms)"

definition find_modifier :: "string \<Rightarrow> string \<Rightarrow> registry \<Rightarrow> (modifier_info option \<times> registry) result" where
  "find_modifier modname modval r =
     (if length modname \<ge> 2 \<and> is_extension_modifier modname then
        bindE (best_match_loop modname modval (g_extension_modifiers r) None) (\<lambda>best.
        case best of
          Some m \<Rightarrow> Inr (Some m, r)
        | None \<Rightarrow>
            bindE (best_match_loop modname modval (g_unknown_modifiers r) None) (\<lambda>best2.
            case best2 of
              Some m \<Rightarrow> Inr (Some m, r)
            | None \<Rightarrow>
                let fullname = modname @ modval; m = new_modifier_info fullname NUL XSS_UNIQUE None
                in Inr (Some m, r\<lparr>g_unknown_modifiers := g_unknown_modifiers r @ [m]\<rparr>)))
      else bindE (best_match_loop modname modval (map info g_modifiers) None) (\<lambda>best. Inr (best, r)))"

section \<open>The modifier for a place in the page\<close>

datatype auto_modify_directive =
    AM_EMPTY | AM_HTML | AM_HTML_UNQUOTED | AM_JS | AM_JS_NUMBER | AM_URL_HTML | AM_URL_QUERY | AM_STYLE | AM_XML

record modifier_and_value =
  modifier_index :: nat
  mod_value :: string

text \<open>The arrays \<open>g_am_...\<close> without the null entry at their end.\<close>

fun g_am_dirs :: "auto_modify_directive \<Rightarrow> modifier_and_value list" where
  "g_am_dirs AM_EMPTY = []"
| "g_am_dirs AM_HTML = [\<lparr>modifier_index = 1, mod_value = ''''\<rparr>]"
| "g_am_dirs AM_HTML_UNQUOTED = [\<lparr>modifier_index = 4, mod_value = ''=attribute''\<rparr>]"
| "g_am_dirs AM_JS = [\<lparr>modifier_index = 6, mod_value = ''''\<rparr>]"
| "g_am_dirs AM_JS_NUMBER = [\<lparr>modifier_index = 15, mod_value = ''=number''\<rparr>]"
| "g_am_dirs AM_URL_HTML = [\<lparr>modifier_index = 11, mod_value = ''=html''\<rparr>]"
| "g_am_dirs AM_URL_QUERY = [\<lparr>modifier_index = 9, mod_value = ''''\<rparr>]"
| "g_am_dirs AM_STYLE = [\<lparr>modifier_index = 0, mod_value = ''''\<rparr>]"
| "g_am_dirs AM_XML = [\<lparr>modifier_index = 14, mod_value = ''''\<rparr>]"

text \<open>What the code asks of the HTML parser.\<close>

record html_parser =
  in_javascript :: bool
  state :: html_state
  is_javascript_quoted :: bool
  attribute :: string
  attr_type :: attribute_type
  is_attribute_quoted :: bool
  is_url_start :: bool
  in_css :: bool

text \<open>The choice: the directives, the error message after it, and whether the parser was told
  about inserted text. A failed assertion stops the program.\<close>

type_synonym modifier_choice = "(auto_modify_directive list \<times> string \<times> bool) result"

definition must_be_quoted :: "string \<Rightarrow> string \<Rightarrow> string" where
  "must_be_quoted kind attr = ''Value of '' @ kind @ '' attribute '' @ [QUOT] @ attr @ [QUOT] @ '' must be enclosed in quotes.''"

definition get_modifier_for_html_js :: "html_parser \<Rightarrow> string \<Rightarrow> modifier_choice" where
  "get_modifier_for_html_js p error_msg =
     (if in_javascript p \<and> state p \<noteq> STATE_VALUE then
        (if is_javascript_quoted p then Inr ([AM_JS], error_msg, False) else Inr ([AM_JS_NUMBER], error_msg, False))
      else case state p of
        STATE_VALUE \<Rightarrow>
          (case attr_type p of
             ATTR_URI \<Rightarrow>
               (if \<not> is_attribute_quoted p then
                  (if is_url_start p then Inr ([], error_msg @ must_be_quoted ''URL'' (attribute p), False)
                   else Inr ([AM_URL_QUERY], error_msg, True))
                else if is_url_start p then Inr ([AM_URL_HTML], error_msg, True)
                else Inr ([AM_HTML], error_msg, True))
           | ATTR_REGULAR \<Rightarrow>
               (if is_attribute_quoted p then Inr ([AM_HTML], error_msg, True)
                else Inr ([AM_HTML_UNQUOTED], error_msg, True))
           | ATTR_STYLE \<Rightarrow>
               (if is_attribute_quoted p then Inr ([AM_STYLE], error_msg, True)
                else Inr ([], error_msg @ must_be_quoted ''style'' (attribute p), False))
           | ATTR_JS \<Rightarrow>
               (if \<not> is_attribute_quoted p then Inr ([], error_msg @ must_be_quoted ''javascript'' (attribute p), False)
                else if is_javascript_quoted p then Inr ([AM_JS], error_msg, True)
                else Inr ([AM_JS_NUMBER], error_msg, True))
           | ATTR_NONE \<Rightarrow> Inl AssertFailure)
      | STATE_TAG \<Rightarrow> Inr ([AM_HTML_UNQUOTED], error_msg, False)
      | STATE_ATTR \<Rightarrow> Inr ([AM_HTML_UNQUOTED], error_msg, False)
      | STATE_COMMENT \<Rightarrow> Inr ([if in_css p then AM_STYLE else AM_HTML], error_msg, False)
      | STATE_TEXT \<Rightarrow> Inr ([if in_css p then AM_STYLE else AM_HTML], error_msg, False)
      | _ \<Rightarrow> Inl AssertFailure)"

definition get_modifier_for_css :: "auto_modify_directive list" where "get_modifier_for_css = [AM_STYLE]"
definition get_modifier_for_xml :: "auto_modify_directive list" where "get_modifier_for_xml = [AM_XML]"
definition get_modifier_for_json :: "auto_modify_directive list" where "get_modifier_for_json = [AM_JS]"
definition get_default_modifier_for_html :: "auto_modify_directive list" where "get_default_modifier_for_html = [AM_HTML]"
definition get_default_modifier_for_js :: "auto_modify_directive list" where "get_default_modifier_for_js = [AM_JS]"
definition get_default_modifier_for_css :: "auto_modify_directive list" where
  "get_default_modifier_for_css = get_modifier_for_css"
definition get_default_modifier_for_xml :: "auto_modify_directive list" where
  "get_default_modifier_for_xml = get_modifier_for_xml"
definition get_default_modifier_for_json :: "auto_modify_directive list" where
  "get_default_modifier_for_json = get_modifier_for_json"

text \<open>Printing a chain of modifiers.\<close>

definition pretty_print_one_modifier :: "modifier_info \<Rightarrow> string \<Rightarrow> string" where
  "pretty_print_one_modifier m val =
     '':'' @ (if short_name m \<noteq> NUL then [short_name m] else long_name m) @ (if length val \<noteq> 0 then val else [])"

fun pretty_print_loop :: "string \<Rightarrow> (modifier_info \<times> string) list \<Rightarrow> bool \<Rightarrow> string" where
  "pretty_print_loop sep [] first = []"
| "pretty_print_loop sep (mv # mvs) first =
     (if first then [] else sep) @ pretty_print_one_modifier (fst mv) (snd mv) @ pretty_print_loop sep mvs False"

definition pretty_print_modifiers :: "(modifier_info \<times> string) list \<Rightarrow> string \<Rightarrow> string" where
  "pretty_print_modifiers modvals sep = pretty_print_loop sep modvals True"

section \<open>What may stand where\<close>

text \<open>The modifiers of the directives, applied one after the other.\<close>

fun escaped_with :: "(nat \<Rightarrow> string \<Rightarrow> string \<Rightarrow> string) \<Rightarrow> modifier_and_value list \<Rightarrow> string \<Rightarrow> string result" where
  "escaped_with app [] s = Inr s"
| "escaped_with app (mv # mvs) s =
     bindE (modify app (modifier (info (g_modifiers ! modifier_index mv))) s (mod_value mv)) (escaped_with app mvs)"

definition text_safe :: "string \<Rightarrow> bool" where
  "text_safe out \<longleftrightarrow> set out \<inter> {CHR ''<'', CHR ''>'', QUOT, APOS} = {} \<and> amp_ok out"

definition script_string_safe :: "string \<Rightarrow> bool" where
  "script_string_safe out \<longleftrightarrow>
     set out \<inter> {QUOT, APOS, CHR ''<'', CHR ''>'', CHR ''&'', CR, LF} = {} \<and> quotes_escaped out \<and> no_separator out"

definition style_safe :: "string \<Rightarrow> bool" where
  "style_safe out \<longleftrightarrow> list_all (\<lambda>c. c \<in> set '' _.,!#%-'' \<or> is_alnum c) out"

definition place_safe :: "html_parser \<Rightarrow> string \<Rightarrow> bool" where
  "place_safe p out =
     (if in_javascript p \<and> state p \<noteq> STATE_VALUE then
        (if is_javascript_quoted p then script_string_safe out else list_all number_char out)
      else case state p of
        STATE_VALUE \<Rightarrow>
          (case attr_type p of
             ATTR_URI \<Rightarrow>
               (if is_attribute_quoted p
                then text_safe out \<and> (if is_url_start p then safe_scheme (scheme_of (entity_decode out)) else True)
                else list_all query_out out)
           | ATTR_REGULAR \<Rightarrow> if is_attribute_quoted p then text_safe out else list_all attribute_char out
           | ATTR_STYLE \<Rightarrow> style_safe out
           | ATTR_JS \<Rightarrow> if is_javascript_quoted p then script_string_safe out else list_all number_char out
           | ATTR_NONE \<Rightarrow> False)
      | STATE_TAG \<Rightarrow> list_all attribute_char out
      | STATE_ATTR \<Rightarrow> list_all attribute_char out
      | STATE_COMMENT \<Rightarrow> if in_css p then style_safe out else text_safe out
      | STATE_TEXT \<Rightarrow> if in_css p then style_safe out else text_safe out
      | _ \<Rightarrow> False)"

lemma text_safe_html: "text_safe (html_escape s)"
  using html_chars [of _ s] amp_ok_escapes(1) [of s] by (auto simp: text_safe_def)

lemma text_safe_url: "text_safe (validate_url html_escape k_unsafe_url_replacement s)"
proof -
  obtain u where "validate_url html_escape k_unsafe_url_replacement s = html_escape u"
    by (rule validate_url_cases [of k_unsafe_url_replacement]) simp_all
  then show ?thesis using text_safe_html by simp
qed

lemma script_string_safe_javascript: "script_string_safe (javascript_escape s)"
proof -
  have "{QUOT, APOS, CHR ''<'', CHR ''>'', CHR ''&'', CR, LF} \<subseteq> set js_unsafe" "BSL \<notin> {QUOT, APOS, CHR ''<'', CHR ''>'', CHR ''&'', CR, LF}"
    by (simp_all add: js_unsafe_def)
  moreover have "set (javascript_escape s) \<subseteq> insert BSL (- set js_unsafe)"
    using javascript_escape_chars by blast
  ultimately have "set (javascript_escape s) \<inter> {QUOT, APOS, CHR ''<'', CHR ''>'', CHR ''&'', CR, LF} = {}"
    by (intro disjoint_avoid)
  then show ?thesis using quotes_escaped_javascript no_separator_javascript by (simp add: script_string_safe_def)
qed

lemma style_safe_css: "style_safe (cleanse_css s)"
  by (simp add: style_safe_def cleanse_css_eq list_all_iff)

text \<open>What the modifier of each directive makes.\<close>

lemma directive_modifiers:
  "escaped_with app (g_am_dirs AM_HTML) s = Inr (html_escape s)"
  "escaped_with app (g_am_dirs AM_HTML_UNQUOTED) s = Inr (cleanse_attribute s)"
  "escaped_with app (g_am_dirs AM_JS) s = Inr (javascript_escape s)"
  "escaped_with app (g_am_dirs AM_JS_NUMBER) s = Inr (javascript_number s)"
  "escaped_with app (g_am_dirs AM_URL_HTML) s = Inr (validate_url html_escape k_unsafe_url_replacement s)"
  "escaped_with app (g_am_dirs AM_URL_QUERY) s = Inr (url_query_escape s)"
  "escaped_with app (g_am_dirs AM_STYLE) s = Inr (cleanse_css s)"
  "escaped_with app (g_am_dirs AM_XML) s = Inr (xml_escape s)"
  by (simp_all add: g_modifiers_def new_modifier_info_def)

lemmas directive_output =
  text_safe_html text_safe_url script_string_safe_javascript style_safe_css javascript_number_chars

lemma attribute_out: "list_all attribute_char (cleanse_attribute s)"
  using cleanse_attribute_chars by (simp add: list_all_iff)

lemma query_out_all: "list_all query_out (url_query_escape s)"
  using query_chars by (simp add: list_all_iff)

section \<open>Looking up\<close>

definition plain_match :: "string \<Rightarrow> modifier_info \<Rightarrow> bool" where
  "plain_match modname m \<longleftrightarrow>
     \<not> modval_required m \<and> (length modname = 1 \<and> hd modname = short_name m \<or> modname = long_name m)"

definition value_match :: "string \<Rightarrow> string \<Rightarrow> modifier_info \<Rightarrow> bool" where
  "value_match modname modval m \<longleftrightarrow>
     modval_required m \<and> (length modname = 1 \<and> hd modname = short_name m \<or> modname = name_part (long_name m)) \<and>
     (tl (value_part (long_name m)) = [] \<or> modval = value_part (long_name m))"

definition info_ok :: "modifier_info \<Rightarrow> bool" where
  "info_ok m \<longleftrightarrow> modval_required m = (value_part (long_name m) \<noteq> [])"

lemma best_match_plain:
  assumes "\<forall>m \<in> set ms. info_ok m" "length (filter (plain_match modname) ms) \<le> 1"
    and "best \<noteq> None \<longrightarrow> filter (plain_match modname) ms = []"
  shows "best_match_loop modname [] ms best =
    Inr (case filter (plain_match modname) ms of [] \<Rightarrow> best | m # _ \<Rightarrow> Some m)"
  using assms
proof (induction ms arbitrary: best)
  case (Cons m ms)
  show ?case
  proof (cases "plain_match modname m")
    case True
    then have none: "filter (plain_match modname) ms = []" "best = None" using Cons.prems by auto
    have "update_best_match modname [] m best = Inr (Some m)"
      using True none(2) by (simp add: update_best_match_def plain_match_def)
    then show ?thesis using Cons True none by simp
  next
    case False
    then have "update_best_match modname [] m best = Inr best"
      using Cons.prems(1) by (auto simp: update_best_match_def plain_match_def info_ok_def Let_def)
    then show ?thesis using Cons False by simp
  qed
qed simp

text \<open>With a value, the longest name among the matches wins, the first of them when several have it.\<close>

definition longer :: "modifier_info option \<Rightarrow> modifier_info \<Rightarrow> modifier_info option" where
  "longer best m =
     (case best of None \<Rightarrow> Some m | Some b \<Rightarrow> if length (long_name m) > length (long_name b) then Some m else best)"

lemma best_match_value:
  assumes "\<forall>m \<in> set ms. info_ok m" "modval \<noteq> []"
  shows "best_match_loop modname modval ms best = Inr (foldl longer best (filter (value_match modname modval) ms))"
  using assms
proof (induction ms arbitrary: best)
  case (Cons m ms)
  have "update_best_match modname modval m best =
      Inr (if value_match modname modval m then longer best m else best)"
    using Cons.prems by (auto simp: update_best_match_def value_match_def info_ok_def longer_def Let_def split: option.splits)
  with Cons show ?case by simp
qed simp

lemma foldl_longer:
  "foldl longer best ms = Some m \<Longrightarrow> (best = Some m \<or> m \<in> set ms) \<and>
     (\<forall>x \<in> set ms. length (long_name x) \<le> length (long_name m)) \<and> (\<forall>b. best = Some b \<longrightarrow> length (long_name b) \<le> length (long_name m))"
proof (induction ms arbitrary: best)
  case (Cons x ms)
  then have "foldl longer (longer best x) ms = Some m" by simp
  from Cons.IH [OF this] show ?case
    by (auto simp: longer_def split: option.splits if_splits)
qed auto

lemma foldl_longer_None: "foldl longer best ms = None \<longleftrightarrow> best = None \<and> ms = []"
  by (induction ms arbitrary: best) (auto simp: longer_def split: option.splits)

section \<open>The registry\<close>

definition entry_ok :: "modifier_info \<Rightarrow> bool" where
  "entry_ok m \<longleftrightarrow> info_ok m \<and> is_extension_modifier (long_name m)"

definition registry_ok :: "registry \<Rightarrow> bool" where
  "registry_ok r \<longleftrightarrow>
     list_all entry_ok (g_extension_modifiers r) \<and> list_all entry_ok (g_unknown_modifiers r) \<and>
     sorted_wrt (\<lambda>a b. \<not> names_collide (long_name b) (long_name a)) (g_extension_modifiers r) \<and>
     distinct (map long_name (g_unknown_modifiers r))"

lemma name_value: "name_part ln @ value_part ln = ln"
  by (simp add: name_part_def value_part_def)

lemma parts_append:
  "CHR ''='' \<notin> set n \<Longrightarrow> v = [] \<or> hd v = CHR ''='' \<Longrightarrow> name_part (n @ v) = n"
  "CHR ''='' \<notin> set n \<Longrightarrow> v = [] \<or> hd v = CHR ''='' \<Longrightarrow> value_part (n @ v) = v"
  by (induction n; cases v; auto simp: name_part_def value_part_def)+

lemma value_part_Nil: "value_part ln = [] \<longleftrightarrow> CHR ''='' \<notin> set ln"
  by (auto simp: value_part_def dropWhile_eq_Nil_conv)

lemma hd_value_part: "value_part ln \<noteq> [] \<Longrightarrow> hd (value_part ln) = CHR ''=''"
  using hd_dropWhile [of "\<lambda>c. c \<noteq> CHR ''=''" ln] by (simp add: value_part_def)

lemma names_collide_same: "names_collide ln ln"
  by (simp add: names_collide_def)

lemma new_info_ok: "nul_free ln \<Longrightarrow> info_ok (new_modifier_info ln sn xc m)"
  by (simp add: info_ok_def new_modifier_info_def value_part_Nil)

lemma filter_distinct: "distinct (map f ms) \<Longrightarrow> (\<And>m. P m \<Longrightarrow> f m = k) \<Longrightarrow> length (filter P ms) \<le> 1"
proof (induction ms)
  case (Cons m ms)
  show ?case
  proof (cases "P m")
    case True
    have "filter P ms = []"
    proof (rule ccontr)
      assume "filter P ms \<noteq> []"
      then obtain x where "x \<in> set ms" "P x" by (auto simp: filter_empty_conv)
      with True Cons.prems have "f x = f m" "f m \<notin> f ` set ms" by auto
      with \<open>x \<in> set ms\<close> show False by (metis imageI)
    qed
    then show ?thesis using True by simp
  next
    case False
    with Cons show ?thesis by simp
  qed
qed simp

lemma extensions_distinct:
  "sorted_wrt (\<lambda>a b. \<not> names_collide (long_name b) (long_name a)) ms \<Longrightarrow> distinct (map long_name ms)"
proof (induction ms)
  case (Cons m ms)
  then have "long_name m \<notin> long_name ` set ms" using names_collide_same by force
  with Cons show ?case by simp
qed simp

text \<open>A look-up in a list whose names differ never fails, and tells what it found.\<close>

definition found :: "string \<Rightarrow> string \<Rightarrow> modifier_info list \<Rightarrow> modifier_info option" where
  "found n v ms =
     (if v = [] then (case filter (plain_match n) ms of [] \<Rightarrow> None | m # _ \<Rightarrow> Some m)
      else foldl longer None (filter (value_match n v) ms))"

lemma best_match_found:
  assumes "list_all info_ok ms" "distinct (map long_name ms)" "2 \<le> length n"
  shows "best_match_loop n v ms None = Inr (found n v ms)"
proof (cases "v = []")
  case True
  have "length (filter (plain_match n) ms) \<le> 1"
    by (rule filter_distinct [OF assms(2), where k = n]) (use assms(3) in \<open>auto simp: plain_match_def\<close>)
  then show ?thesis using best_match_plain [of ms n None] assms(1) True by (simp add: found_def list_all_iff)
next
  case False
  then show ?thesis using best_match_value [of ms v n None] assms(1) by (simp add: found_def list_all_iff)
qed

lemma registry_lists:
  assumes "registry_ok r"
  shows "list_all info_ok (g_extension_modifiers r)" "distinct (map long_name (g_extension_modifiers r))"
    "list_all info_ok (g_unknown_modifiers r)" "distinct (map long_name (g_unknown_modifiers r))"
  using assms extensions_distinct by (auto simp: registry_ok_def entry_ok_def list_all_iff)

definition name_ok :: "string \<Rightarrow> string \<Rightarrow> bool" where
  "name_ok n v \<longleftrightarrow> nul_free (n @ v) \<and> CHR ''='' \<notin> set n \<and> (v = [] \<or> hd v = CHR ''='')"

definition unknown_info :: "string \<Rightarrow> string \<Rightarrow> modifier_info" where
  "unknown_info n v = new_modifier_info (n @ v) NUL XSS_UNIQUE None"

lemma found_unknown:
  assumes "name_ok n v" "found n v ms = None"
  shows "found n v (ms @ [unknown_info n v]) = Some (unknown_info n v)"
    and "n @ v \<notin> long_name ` set ms \<or> \<not> list_all info_ok ms"
proof -
  have parts: "name_part (n @ v) = n" "value_part (n @ v) = v"
    using assms(1) by (auto simp: name_ok_def intro: parts_append)
  have req: "modval_required (unknown_info n v) = (v \<noteq> [])" "long_name (unknown_info n v) = n @ v"
    using assms(1) by (cases v; simp add: name_ok_def unknown_info_def new_modifier_info_def)+
  show "found n v (ms @ [unknown_info n v]) = Some (unknown_info n v)"
    using assms(2) req parts
    by (auto simp: found_def foldl_longer_None plain_match_def value_match_def longer_def split: list.splits if_splits)
  show "n @ v \<notin> long_name ` set ms \<or> \<not> list_all info_ok ms"
  proof (rule disjCI)
    assume ok: "\<not> \<not> list_all info_ok ms"
    show "n @ v \<notin> long_name ` set ms"
    proof
      assume "n @ v \<in> long_name ` set ms"
      then obtain m where m: "m \<in> set ms" "long_name m = n @ v" by auto
      with ok have "modval_required m = (v \<noteq> [])" by (simp add: list_all_iff info_ok_def parts)
      then have "if v = [] then plain_match n m else value_match n v m"
        using m parts by (simp add: plain_match_def value_match_def)
      with m(1) assms(2) show False
        by (auto simp: found_def foldl_longer_None filter_empty_conv split: list.splits if_splits)
    qed
  qed
qed

lemma find_extension:
  assumes "registry_ok r" "is_extension_modifier n"
  shows "find_modifier n v r =
    (case found n v (g_extension_modifiers r) of
       Some m \<Rightarrow> Inr (Some m, r)
     | None \<Rightarrow>
         (case found n v (g_unknown_modifiers r) of
            Some m \<Rightarrow> Inr (Some m, r)
          | None \<Rightarrow> Inr (Some (unknown_info n v),
              r\<lparr>g_unknown_modifiers := g_unknown_modifiers r @ [unknown_info n v]\<rparr>)))"
proof -
  have "2 \<le> length n" using assms(2) by (auto simp: is_extension_modifier_def starts_with_append)
  note best = best_match_found [OF registry_lists(1,2) [OF assms(1)] this]
    best_match_found [OF registry_lists(3,4) [OF assms(1)] this]
  show ?thesis using assms(2) \<open>2 \<le> length n\<close>
    by (simp add: find_modifier_def best unknown_info_def Let_def split: option.splits)
qed

lemma registry_ok_unknown:
  assumes "registry_ok r" "name_ok n v" "is_extension_modifier n" "found n v (g_unknown_modifiers r) = None"
  shows "registry_ok (r\<lparr>g_unknown_modifiers := g_unknown_modifiers r @ [unknown_info n v]\<rparr>)"
proof -
  have "is_extension_modifier (n @ v)" using assms(3) by (auto simp: is_extension_modifier_def starts_with_append)
  moreover have "info_ok (unknown_info n v)"
    unfolding unknown_info_def using assms(2) by (intro new_info_ok) (simp add: name_ok_def)
  ultimately have "entry_ok (unknown_info n v)"
    by (simp add: entry_ok_def unknown_info_def new_modifier_info_def)
  moreover have "n @ v \<notin> long_name ` set (g_unknown_modifiers r)"
    using found_unknown(2) [OF assms(2,4)] registry_lists(3) [OF assms(1)] by blast
  moreover have "long_name (unknown_info n v) = n @ v" by (simp add: unknown_info_def new_modifier_info_def)
  ultimately show ?thesis using assms(1) by (simp add: registry_ok_def)
qed

text \<open>The built-in table.\<close>

definition plain_builtins :: "(string \<times> char) list" where
  "plain_builtins =
     map (\<lambda>m. (long_name (info m), short_name (info m))) (filter (\<lambda>m. \<not> modval_required (info m)) g_modifiers)"

lemma cstr_names: "nul_free ln \<Longrightarrow> modval_required (new_modifier_info ln sn xc m) = (CHR ''='' \<in> set ln)"
  by (simp add: new_modifier_info_def)

lemma builtin_infos: "list_all info_ok (map info g_modifiers)"
  unfolding g_modifiers_def by (simp add: new_info_ok)

lemma plain_builtins_eq:
  "plain_builtins =
     [(''cleanse_css'', CHR ''c''), (''html_escape'', CHR ''h''), (''javascript_escape'', CHR ''j''),
      (''json_escape'', CHR ''o''), (''pre_escape'', CHR ''p''), (''url_query_escape'', CHR ''u''),
      (''none'', NUL), (''xml_escape'', NUL)]"
  by (simp add: plain_builtins_def g_modifiers_def new_modifier_info_def)

lemma plain_match_builtin:
  "length (filter (plain_match n) (map info g_modifiers)) =
   length (filter (\<lambda>(ln, sn). n = [sn] \<or> n = ln) plain_builtins)"
proof -
  have "(length n = 1 \<and> hd n = c) = (n = [c])" for c by (cases n) auto
  then have "plain_match n (info m) = (\<not> modval_required (info m) \<and> (n = [short_name (info m)] \<or> n = long_name (info m)))" for m :: modifier_with_alternatives
    by (simp add: plain_match_def)
  then show ?thesis
    by (simp add: plain_builtins_def filter_map comp_def split_def conj_commute)
qed

lemma plain_builtin_unique: "n \<noteq> [NUL] \<Longrightarrow> length (filter (plain_match n) (map info g_modifiers)) \<le> 1"
  unfolding plain_match_builtin plain_builtins_eq by (simp split: if_splits)

lemma find_builtin:
  assumes "name_ok n v" "\<not> is_extension_modifier n"
  shows "\<exists>m. find_modifier n v r = Inr (m, r)"
proof -
  have "n \<noteq> [NUL]" using assms(1) by (auto simp: name_ok_def)
  have "\<exists>m. best_match_loop n v (map info g_modifiers) None = Inr m"
  proof (cases "v = []")
    case True
    then show ?thesis
      using best_match_plain [of "map info g_modifiers" n None] builtin_infos plain_builtin_unique [OF \<open>n \<noteq> [NUL]\<close>]
      by (simp add: list_all_iff del: length_filter_map)
  next
    case False
    then show ?thesis
      using best_match_value [of "map info g_modifiers" v n None] builtin_infos by (simp add: list_all_iff)
  qed
  then show ?thesis using assms(2) by (auto simp: find_modifier_def)
qed

section \<open>Properties\<close>


text \<open>A look-up of a modifier by name, with or without a value, never trips an assertion and
  never ends without a result for the name of an extension, known or not: an unknown one is
  noted, so that the next look-up finds the same entry, and the registry keeps its invariant (no
  two extensions of one name except as specialisations by value, no unknown name twice).\<close>

theorem find_modifier_total:
  assumes "registry_ok r" "name_ok n v"
  shows "\<exists>m r'. find_modifier n v r = Inr (m, r') \<and> registry_ok r' \<and> find_modifier n v r' = Inr (m, r') \<and>
    g_extension_modifiers r' = g_extension_modifiers r \<and> (m = None \<longrightarrow> \<not> is_extension_modifier n)"
proof (cases "is_extension_modifier n")
  case True
  note find = find_extension [OF assms(1) True, of v]
  show ?thesis
  proof (cases "found n v (g_extension_modifiers r) = None \<and> found n v (g_unknown_modifiers r) = None")
    case new: True
    define r' where "r' = r\<lparr>g_unknown_modifiers := g_unknown_modifiers r @ [unknown_info n v]\<rparr>"
    have ok: "registry_ok r'" unfolding r'_def using registry_ok_unknown [OF assms True] new by simp
    have "found n v (g_unknown_modifiers r') = Some (unknown_info n v)"
      using found_unknown(1) [OF assms(2)] new by (simp add: r'_def)
    then have "find_modifier n v r' = Inr (Some (unknown_info n v), r')"
      using find_extension [OF ok True, of v] new by (simp add: r'_def)
    moreover have "find_modifier n v r = Inr (Some (unknown_info n v), r')" using find new by (simp add: r'_def)
    moreover have "g_extension_modifiers r' = g_extension_modifiers r" by (simp add: r'_def)
    ultimately show ?thesis using ok by blast
  next
    case False
    then obtain m where "find_modifier n v r = Inr (Some m, r)" using find by (auto split: option.splits)
    then show ?thesis using assms(1) by blast
  qed
next
  case False
  then show ?thesis using find_builtin [OF assms(2) False, of r] assms(1) by blast
qed

theorem find_modifier_total_witness:
  "\<exists>m r'. find_modifier ''x-unit'' ''=mm'' \<lparr>g_extension_modifiers = [], g_unknown_modifiers = []\<rparr> = Inr (m, r') \<and>
     find_modifier ''x-unit'' ''=mm'' r' = Inr (m, r')"
proof -
  have "registry_ok \<lparr>g_extension_modifiers = [], g_unknown_modifiers = []\<rparr>" "name_ok ''x-unit'' ''=mm''"
    by (simp_all add: registry_ok_def name_ok_def)
  from find_modifier_total [OF this] show ?thesis by blast
qed

lemma found_added:
  assumes "registry_ok r" "nul_free ln" "\<not> list_ex (\<lambda>e. names_collide ln (long_name e)) (g_extension_modifiers r)"
    and "is_extension_modifier ln"
  shows "found (name_part ln) (value_part ln) (g_extension_modifiers r @ [new_modifier_info ln NUL c m]) =
     Some (new_modifier_info ln NUL c m)"
proof -
  let ?n = "new_modifier_info ln NUL c m" and ?ms = "g_extension_modifiers r"
  have fields: "long_name ?n = ln" "modval_required ?n = (value_part ln \<noteq> [])"
    using assms(2) by (simp_all add: new_modifier_info_def value_part_Nil)
  have apart: "name_part ln = name_part (long_name x) \<Longrightarrow>
      value_part ln \<noteq> [] \<and> value_part (long_name x) \<noteq> [] \<and> long_name x \<noteq> ln" if "x \<in> set ?ms" for x
    using assms(3) that by (auto simp: list_ex_iff names_collide_def)
  show ?thesis
  proof (cases "value_part ln = []")
    case True
    then have "name_part ln = ln" using name_value [of ln] by simp
    have "length ln \<noteq> 1" using assms(4) by (auto simp: is_extension_modifier_def starts_with_append)
    have "filter (plain_match ln) ?ms = []"
    proof (rule ccontr)
      assume "filter (plain_match ln) ?ms \<noteq> []"
      then obtain x where "x \<in> set ?ms" "plain_match ln x" by (auto simp: filter_empty_conv)
      with apart [of x] \<open>length ln \<noteq> 1\<close> True show False by (auto simp: plain_match_def)
    qed
    then show ?thesis using True fields \<open>name_part ln = ln\<close> by (simp add: found_def plain_match_def)
  next
    case False
    have shorter: "length (long_name x) < length ln" if "x \<in> set ?ms" "value_match (name_part ln) (value_part ln) x" for x
    proof -
      have "length (name_part ln) \<noteq> 1"
        using assms(4) by (auto simp: is_extension_modifier_def starts_with_append name_part_def)
      then have n: "name_part ln = name_part (long_name x)" and v: "tl (value_part (long_name x)) = []"
        using that(2) apart [OF that(1)] name_value [of ln] name_value [of "long_name x"]
        by (auto simp: value_match_def)
      have ne: "value_part (long_name x) \<noteq> []" "long_name x \<noteq> ln" using apart [OF that(1) n] by auto
      then have "value_part (long_name x) = ''=''" using v hd_value_part [of "long_name x"]
        by (cases "value_part (long_name x)") auto
      moreover have "hd (value_part ln) = CHR ''=''" using hd_value_part False by blast
      ultimately have "length (value_part (long_name x)) < length (value_part ln)"
        using n ne(2) False name_value [of ln] name_value [of "long_name x"]
        by (cases "value_part ln"; cases "tl (value_part ln)") auto
      then show ?thesis
        using n name_value [of ln] name_value [of "long_name x"] by (metis length_append nat_add_left_cancel_less)
    qed
    have "longer (foldl longer None (filter (value_match (name_part ln) (value_part ln)) ?ms)) ?n = Some ?n"
    proof (cases "foldl longer None (filter (value_match (name_part ln) (value_part ln)) ?ms)")
      case (Some b)
      then have "b \<in> set ?ms" "value_match (name_part ln) (value_part ln) b" using foldl_longer [OF Some] by auto
      then show ?thesis using shorter Some fields by (simp add: longer_def)
    qed (simp add: longer_def)
    then show ?thesis using False fields by (simp add: found_def value_match_def)
  qed
qed

lemma added_registry_ok:
  assumes "registry_ok r" "nul_free ln" "add_modifier_common ln m safe r = (True, r')"
  shows "registry_ok r'"
  using assms new_info_ok [OF assms(2)]
  by (auto simp: add_modifier_common_def registry_ok_def entry_ok_def sorted_wrt_append list_ex_iff list_all_iff
      new_modifier_info_def split: if_splits)

text \<open>A modifier that the application adds, plain or as a specialisation by value, is the one that
  a template using its name and value gets from then on, with the class it was added with; the
  registry keeps its invariant. A name that does not start with x- or that collides is refused
  and nothing changes.\<close>

theorem added_modifier_found:
  assumes "registry_ok r" "nul_free ln" "add_modifier_common ln m safe r = (ok, r')"
  shows "if ok then registry_ok r' \<and>
      find_modifier (name_part ln) (value_part ln) r' =
        Inr (Some (new_modifier_info ln NUL (if safe then XSS_SAFE else XSS_UNIQUE) m), r')
    else r' = r \<and> (is_extension_modifier ln = False \<or>
      (\<exists>e \<in> set (g_extension_modifiers r). names_collide ln (long_name e)))"
proof (cases ok)
  case True
  let ?n = "new_modifier_info ln NUL (if safe then XSS_SAFE else XSS_UNIQUE) m"
  have add: "is_extension_modifier ln" "\<not> list_ex (\<lambda>e. names_collide ln (long_name e)) (g_extension_modifiers r)"
    and r': "r' = r\<lparr>g_extension_modifiers := g_extension_modifiers r @ [?n]\<rparr>"
    using assms(3) True by (auto simp: add_modifier_common_def split: if_splits)
  have ok': "registry_ok r'" using added_registry_ok assms True by simp
  have "is_extension_modifier (name_part ln)"
    using add(1) by (auto simp: is_extension_modifier_def starts_with_append name_part_def)
  then show ?thesis
    using find_extension [OF ok', of "name_part ln" "value_part ln"] found_added [OF assms(1,2) add(2,1)] ok' True
    by (simp add: r')
next
  case False
  then show ?thesis using assms(3) by (auto simp: add_modifier_common_def list_ex_iff split: if_splits)
qed

theorem added_modifier_found_witness:
  "find_modifier ''x-unit'' ''=mm''
     (snd (add_modifier ''x-unit=mm'' (Some (Mod_custom 7)) \<lparr>g_extension_modifiers = [], g_unknown_modifiers = []\<rparr>)) =
   Inr (Some (new_modifier_info ''x-unit=mm'' NUL XSS_UNIQUE (Some (Mod_custom 7))),
     snd (add_modifier ''x-unit=mm'' (Some (Mod_custom 7)) \<lparr>g_extension_modifiers = [], g_unknown_modifiers = []\<rparr>))"
proof -
  let ?r = "\<lparr>g_extension_modifiers = [], g_unknown_modifiers = []\<rparr>"
  have ok: "registry_ok ?r" "nul_free ''x-unit=mm''" by (simp_all add: registry_ok_def)
  have parts: "name_part ''x-unit=mm'' = ''x-unit''" "value_part ''x-unit=mm'' = ''=mm''"
    by (simp_all add: name_part_def value_part_def)
  have "fst (add_modifier_common ''x-unit=mm'' (Some (Mod_custom 7)) False ?r) = True"
    by (simp add: add_modifier_common_def is_extension_modifier_def)
  then have "add_modifier_common ''x-unit=mm'' (Some (Mod_custom 7)) False ?r =
      (True, snd (add_modifier ''x-unit=mm'' (Some (Mod_custom 7)) ?r))"
    by (simp add: add_modifier_def prod_eq_iff)
  from added_modifier_found [OF ok this] show ?thesis by (simp add: parts)
qed

text \<open>A name of one zero byte, which a template can hold behind a colon, matches the missing short
  names of two built-in modifiers and fails the assertion.\<close>

theorem nul_modifier_name_asserts: "find_modifier [NUL] [] r = Inl AssertFailure"
  by (simp add: find_modifier_def g_modifiers_def new_modifier_info_def update_best_match_def value_part_def Let_def)

text \<open>The escape for JSON is listed as a safe replacement of the one for script strings, but it
  leaves the quote that ends a string in single quotes.\<close>

theorem json_is_no_safe_alternative:
  "is_safe_xss_alternative (info (g_modifiers ! 6)) (info (g_modifiers ! 7)) \<and>
   modify app (modifier (info (g_modifiers ! 7))) [APOS] [] = Inr [APOS] \<and>
   script_string_safe [APOS] = False"
  by (simp add: is_safe_xss_alternative_def g_modifiers_def new_modifier_info_def json_escape_def json_case_def
      script_string_safe_def)

end
