(* ===== verification/Html_Statemachine.thy ===== *)
theory Html_Statemachine
  imports Rt_Prelude
begin

text \<open>
  The state machine under the HTML parser of the template engine
  (\<open>third/ctemplate-2.2/src/htmlparser/statemachine.cc\<close>) and the event functions of the parser that
  record names and values (\<open>htmlparser.cc\<close>). A machine is a transition table and, for every
  state, functions that are called when it is left, entered and when a character is read in it; while it
  reads it can record the text in a buffer of 256 characters. The data of the layer above,
  a \<open>void*\<close> in the code, is the type parameter. An access outside a table, an array or
  the buffer is \<open>UndefinedBehaviour\<close>. Line and column numbers stay below $2^{31}$.
\<close>

section \<open>Machine and context\<close>

definition STATEMACHINE_ERROR :: int where "STATEMACHINE_ERROR = 127"
definition STATEMACHINE_RECORD_BUFFER_SIZE :: nat where "STATEMACHINE_RECORD_BUFFER_SIZE = 256"
definition STATEMACHINE_MAX_STR_ERROR :: nat where "STATEMACHINE_MAX_STR_ERROR = 80"

record 'u statemachine_ctx =
  current_state :: int
  next_state :: int
  current_char :: char
  line_number :: int
  column_number :: int
  record_buffer :: "char list"
  record_pos :: nat
  recording :: bool
  error_msg :: string
  user :: 'u

type_synonym 'u state_event_function =
  "'u statemachine_ctx \<Rightarrow> int \<Rightarrow> char \<Rightarrow> int \<Rightarrow> 'u statemachine_ctx result"

record 'u statemachine_definition =
  num_states :: int
  transition_table :: "int list list"
  state_names :: "string list option"
  in_state_events :: "'u state_event_function option list"
  enter_state_events :: "'u state_event_function option list"
  exit_state_events :: "'u state_event_function option list"

text \<open>\<open>statemachine_definition_new\<close> allocates the arrays of events with null pointers; the table is
  not set yet.\<close>

definition statemachine_definition_new :: "int \<Rightarrow> 'u statemachine_definition" where
  "statemachine_definition_new states =
     \<lparr>num_states = states, transition_table = [], state_names = None,
      in_state_events = replicate (nat states) None, enter_state_events = replicate (nat states) None,
      exit_state_events = replicate (nat states) None\<rparr>"

definition statemachine_definition_populate ::
  "'u statemachine_definition \<Rightarrow> int list list \<Rightarrow> string list option \<Rightarrow> 'u statemachine_definition" where
  "statemachine_definition_populate def tab names = def\<lparr>transition_table := tab, state_names := names\<rparr>"

definition set_event ::
  "'u state_event_function option list \<Rightarrow> int \<Rightarrow> 'u state_event_function \<Rightarrow> 'u state_event_function option list result" where
  "set_event evs st func =
     (if 0 \<le> st \<and> nat st < length evs then Inr (evs[nat st := Some func]) else Inl UndefinedBehaviour)"

definition statemachine_in_state ::
  "'u statemachine_definition \<Rightarrow> int \<Rightarrow> 'u state_event_function \<Rightarrow> 'u statemachine_definition result" where
  "statemachine_in_state def st func =
     (if st < num_states def then
        bindE (set_event (in_state_events def) st func) (\<lambda>e. Inr (def\<lparr>in_state_events := e\<rparr>))
      else Inl AssertFailure)"

definition statemachine_enter_state ::
  "'u statemachine_definition \<Rightarrow> int \<Rightarrow> 'u state_event_function \<Rightarrow> 'u statemachine_definition result" where
  "statemachine_enter_state def st func =
     (if st < num_states def then
        bindE (set_event (enter_state_events def) st func) (\<lambda>e. Inr (def\<lparr>enter_state_events := e\<rparr>))
      else Inl AssertFailure)"

definition statemachine_exit_state ::
  "'u statemachine_definition \<Rightarrow> int \<Rightarrow> 'u state_event_function \<Rightarrow> 'u statemachine_definition result" where
  "statemachine_exit_state def st func =
     (if st < num_states def then
        bindE (set_event (exit_state_events def) st func) (\<lambda>e. Inr (def\<lparr>exit_state_events := e\<rparr>))
      else Inl AssertFailure)"

definition statemachine_reset :: "'u statemachine_ctx \<Rightarrow> 'u statemachine_ctx" where
  "statemachine_reset ctx =
     ctx\<lparr>current_state := 0, next_state := 0, record_buffer := (record_buffer ctx)[0 := NUL], record_pos := 0,
       recording := False, line_number := 1, column_number := 1\<rparr>"

text \<open>\<open>statemachine_new\<close> resets memory that holds anything, here the argument \<open>raw\<close>.\<close>

definition statemachine_new :: "'u statemachine_ctx \<Rightarrow> 'u \<Rightarrow> 'u statemachine_ctx" where
  "statemachine_new raw u = (statemachine_reset raw)\<lparr>user := u\<rparr>"

definition statemachine_copy :: "'u statemachine_ctx \<Rightarrow> 'u statemachine_ctx \<Rightarrow> 'u \<Rightarrow> 'u statemachine_ctx" where
  "statemachine_copy dst src u = src\<lparr>user := u\<rparr>"

definition statemachine_duplicate :: "'u statemachine_ctx \<Rightarrow> 'u statemachine_ctx \<Rightarrow> 'u \<Rightarrow> 'u statemachine_ctx" where
  "statemachine_duplicate raw src u = statemachine_copy (statemachine_new raw u) src u"

section \<open>Recording\<close>

definition statemachine_start_record :: "'u statemachine_ctx \<Rightarrow> 'u statemachine_ctx" where
  "statemachine_start_record ctx =
     ctx\<lparr>record_buffer := (record_buffer ctx)[0 := NUL], record_pos := 0, recording := True\<rparr>"

text \<open>It returns the buffer, a C string.\<close>

definition statemachine_stop_record :: "'u statemachine_ctx \<Rightarrow> (string \<times> 'u statemachine_ctx) result" where
  "statemachine_stop_record ctx =
     (if \<not> recording ctx then Inl AssertFailure
      else if record_pos ctx < length (record_buffer ctx) then
        (let buf = (record_buffer ctx)[record_pos ctx := NUL]
         in Inr (cstr buf, ctx\<lparr>record_buffer := buf, recording := False\<rparr>))
      else Inl UndefinedBehaviour)"

definition statemachine_record_buffer :: "'u statemachine_ctx \<Rightarrow> string" where
  "statemachine_record_buffer ctx = cstr (record_buffer ctx)"

definition statemachine_record_length :: "'u statemachine_ctx \<Rightarrow> nat" where
  "statemachine_record_length ctx = record_pos ctx + 1"

definition record_char :: "char \<Rightarrow> 'u statemachine_ctx \<Rightarrow> 'u statemachine_ctx result" where
  "record_char c ctx =
     (if recording ctx \<and> STATEMACHINE_RECORD_BUFFER_SIZE - 1 > record_pos ctx then
        (if record_pos ctx + 1 < length (record_buffer ctx) then
           Inr (ctx\<lparr>record_buffer := (record_buffer ctx)[record_pos ctx := c, record_pos ctx + 1 := NUL],
             record_pos := record_pos ctx + 1\<rparr>)
         else Inl UndefinedBehaviour)
      else Inr ctx)"

section \<open>Errors\<close>

text \<open>The C string in the output of \<open>len\<close> characters.\<close>

definition statemachine_encode_char :: "char \<Rightarrow> nat \<Rightarrow> string" where
  "statemachine_encode_char c len =
     (let n = (of_char c :: nat) in
      take (len - 1)
        (if c = CHR 0x27 then [CHR 0x5C, CHR 0x27]
         else if c = CHR 0x5C then [CHR 0x5C, CHR 0x5C]
         else if 32 \<le> n \<and> n \<le> 126 then [c]
         else if c = LF then [CHR 0x5C, CHR ''n'']
         else if c = CR then [CHR 0x5C, CHR ''r'']
         else if c = TAB then [CHR 0x5C, CHR ''t'']
         else [CHR 0x5C, CHR ''x'', digit_char (n div 16), digit_char (n mod 16)]))"

definition set_transition_error_message ::
  "'u statemachine_definition \<Rightarrow> 'u statemachine_ctx \<Rightarrow> 'u statemachine_ctx result" where
  "set_transition_error_message def ctx =
     (let encoded = statemachine_encode_char (current_char ctx) 10;
          start = ''Unexpected character '' @ [CHR 0x27] @ encoded @ [CHR 0x27]
      in case state_names def of
           None \<Rightarrow> Inr (ctx\<lparr>error_msg := take (STATEMACHINE_MAX_STR_ERROR - 1) start\<rparr>)
         | Some names \<Rightarrow>
             (if 0 \<le> current_state ctx \<and> nat (current_state ctx) < length names then
                Inr (ctx\<lparr>error_msg := take (STATEMACHINE_MAX_STR_ERROR - 1)
                  (start @ '' in state '' @ [CHR 0x27] @ names ! nat (current_state ctx) @ [CHR 0x27])\<rparr>)
              else Inl UndefinedBehaviour))"

definition statemachine_get_error_msg :: "'u statemachine_ctx \<Rightarrow> string option" where
  "statemachine_get_error_msg ctx = (if next_state ctx = STATEMACHINE_ERROR then Some (error_msg ctx) else None)"

section \<open>Running\<close>

definition lookup_event :: "'a list \<Rightarrow> int \<Rightarrow> 'a result" where
  "lookup_event evs st = (if 0 \<le> st \<and> nat st < length evs then Inr (evs ! nat st) else Inl UndefinedBehaviour)"

definition fire ::
  "'u state_event_function option list \<Rightarrow> int \<Rightarrow> char \<Rightarrow> 'u statemachine_ctx \<Rightarrow> 'u statemachine_ctx result" where
  "fire evs st c ctx =
     bindE (lookup_event evs st) (\<lambda>ev.
       case ev of None \<Rightarrow> Inr ctx | Some func \<Rightarrow> func ctx (current_state ctx) c (next_state ctx))"

definition statemachine_set_state ::
  "'u statemachine_definition \<Rightarrow> int \<Rightarrow> 'u statemachine_ctx \<Rightarrow> 'u statemachine_ctx result" where
  "statemachine_set_state def st ctx =
     (if \<not> st < num_states def then Inl AssertFailure
      else
        (let ctx1 = ctx\<lparr>next_state := st\<rparr> in
         if current_state ctx1 \<noteq> next_state ctx1 then
           bindE (fire (exit_state_events def) (current_state ctx1) NUL ctx1) (\<lambda>ctx2.
           bindE (fire (enter_state_events def) (next_state ctx2) NUL ctx2) (\<lambda>ctx3.
           Inr (ctx3\<lparr>current_state := st\<rparr>)))
         else Inr (ctx1\<lparr>current_state := st\<rparr>)))"

definition transition :: "'u statemachine_definition \<Rightarrow> int \<Rightarrow> char \<Rightarrow> int result" where
  "transition def st c = bindE (lookup_event (transition_table def) st) (\<lambda>row. lookup_event row (int (of_char c)))"

text \<open>After the events: the character is recorded, the state changes, the position moves on.\<close>

definition finish_char :: "char \<Rightarrow> 'u statemachine_ctx \<Rightarrow> 'u statemachine_ctx result" where
  "finish_char c ctx =
     bindE (record_char c ctx) (\<lambda>ctx1.
       let ctx2 = ctx1\<lparr>current_state := next_state ctx1, column_number := column_number ctx1 + 1\<rparr>
       in Inr (if c = LF then ctx2\<lparr>line_number := line_number ctx2 + 1, column_number := 1\<rparr> else ctx2))"

definition parse_char ::
  "'u statemachine_definition \<Rightarrow> char \<Rightarrow> 'u statemachine_ctx \<Rightarrow> (bool \<times> 'u statemachine_ctx) result" where
  "parse_char def c ctx =
     bindE (transition def (current_state ctx) c) (\<lambda>nxt.
       let ctx1 = ctx\<lparr>current_char := c, next_state := nxt\<rparr> in
       if nxt = STATEMACHINE_ERROR then
         bindE (set_transition_error_message def ctx1) (\<lambda>ctx2. Inr (False, ctx2))
       else
         bindE (if current_state ctx1 \<noteq> next_state ctx1
                then fire (exit_state_events def) (current_state ctx1) c ctx1 else Inr ctx1) (\<lambda>ctx2.
         bindE (if current_state ctx2 \<noteq> next_state ctx2
                then fire (enter_state_events def) (next_state ctx2) c ctx2 else Inr ctx2) (\<lambda>ctx3.
         bindE (fire (in_state_events def) (next_state ctx3) c ctx3) (\<lambda>ctx4.
         bindE (finish_char c ctx4) (\<lambda>ctx5. Inr (True, ctx5))))))"

fun parse_chars ::
  "'u statemachine_definition \<Rightarrow> string \<Rightarrow> 'u statemachine_ctx \<Rightarrow> (int \<times> 'u statemachine_ctx) result" where
  "parse_chars def [] ctx = Inr (current_state ctx, ctx)"
| "parse_chars def (c # s) ctx =
     bindE (parse_char def c ctx) (\<lambda>(go, ctx').
       if go then parse_chars def s ctx' else Inr (STATEMACHINE_ERROR, ctx'))"

definition statemachine_parse ::
  "'u statemachine_definition \<Rightarrow> string \<Rightarrow> int \<Rightarrow> 'u statemachine_ctx \<Rightarrow> (int \<times> 'u statemachine_ctx) result" where
  "statemachine_parse def str len ctx =
     (if len < 0 then
        Inr (STATEMACHINE_ERROR, ctx\<lparr>error_msg := ''Negative size in statemachine_parse().''\<rparr>)
      else if nat len > length str then Inl UndefinedBehaviour
      else parse_chars def (take (nat len) str) ctx)"

section \<open>The parser's recording events\<close>

text \<open>The data of the HTML parser that its recording events use; the parser has more. The arrays
  for the names and the value hold C strings and are as long as the buffer.\<close>

record html_record =
  tag :: string
  attr :: string
  val :: string
  in_js :: bool

definition HTMLPARSER_STATE_INT_CDATA_TEXT :: int where "HTMLPARSER_STATE_INT_CDATA_TEXT = 26"
definition HTMLPARSER_MAX_STRING :: nat where "HTMLPARSER_MAX_STRING = STATEMACHINE_RECORD_BUFFER_SIZE"

definition nopad_strncpy :: "string \<Rightarrow> string \<Rightarrow> nat \<Rightarrow> nat \<Rightarrow> string" where
  "nopad_strncpy dst src dst_size src_size =
     (let n = (if dst_size > src_size then src_size else dst_size)
      in if n > 0 then take (n - 1) (cstr src) else dst)"

definition tolower_chr :: "char \<Rightarrow> char" where
  "tolower_chr c = (let n = (of_char c :: nat) in if 65 \<le> n \<and> n \<le> 90 then char_of (n + 32) else c)"

definition tolower_str :: "string \<Rightarrow> string" where
  "tolower_str s = map tolower_chr s"

definition html_isspace :: "char \<Rightarrow> bool" where
  "html_isspace c \<longleftrightarrow> c = CHR '' '' \<or> c = TAB \<or> c = LF \<or> c = CR"

definition enter_tag_name :: "'a html_record_scheme state_event_function" where
  "enter_tag_name ctx st c nx = Inr (statemachine_start_record (ctx\<lparr>user := (user ctx)\<lparr>tag := []\<rparr>\<rparr>))"

definition exit_tag_name :: "'a html_record_scheme state_event_function" where
  "exit_tag_name ctx st c nx =
     bindE (statemachine_stop_record ctx) (\<lambda>(rec, ctx1).
       let t = tolower_str (nopad_strncpy (tag (user ctx1)) rec HTMLPARSER_MAX_STRING (statemachine_record_length ctx1))
       in Inr (ctx1\<lparr>user := (user ctx1)\<lparr>tag := (if t \<noteq> [] \<and> hd t = CHR ''/'' then [] else t)\<rparr>\<rparr>))"

definition enter_attr :: "'a html_record_scheme state_event_function" where
  "enter_attr ctx st c nx = Inr (statemachine_start_record (ctx\<lparr>user := (user ctx)\<lparr>attr := []\<rparr>\<rparr>))"

definition exit_attr :: "'a html_record_scheme state_event_function" where
  "exit_attr ctx st c nx =
     bindE (statemachine_stop_record ctx) (\<lambda>(rec, ctx1).
       Inr (ctx1\<lparr>user := (user ctx1)\<lparr>attr :=
         tolower_str (nopad_strncpy (attr (user ctx1)) rec HTMLPARSER_MAX_STRING (statemachine_record_length ctx1))\<rparr>\<rparr>))"

definition enter_value_content :: "'a html_record_scheme state_event_function" where
  "enter_value_content ctx st c nx = Inr (statemachine_start_record (ctx\<lparr>user := (user ctx)\<lparr>val := []\<rparr>\<rparr>))"

definition exit_value_content :: "'a html_record_scheme state_event_function" where
  "exit_value_content ctx st c nx =
     bindE (statemachine_stop_record ctx) (\<lambda>(rec, ctx1).
       Inr (ctx1\<lparr>user := (user ctx1)\<lparr>
         val := nopad_strncpy (val (user ctx1)) rec HTMLPARSER_MAX_STRING (statemachine_record_length ctx1),
         in_js := False\<rparr>\<rparr>))"

definition enter_state_cdata_may_close :: "'a html_record_scheme state_event_function" where
  "enter_state_cdata_may_close ctx st c nx = Inr (statemachine_start_record ctx)"

definition exit_state_cdata_may_close :: "'a html_record_scheme state_event_function" where
  "exit_state_cdata_may_close ctx st c nx =
     bindE (statemachine_stop_record ctx) (\<lambda>(rec, ctx1).
       if rec = [] \<or> hd rec \<noteq> CHR ''/'' then Inl AssertFailure
       else if tolower_str (tl rec) = tolower_str (tag (user ctx1)) \<and> (c = CHR ''>'' \<or> html_isspace c)
       then Inr (ctx1\<lparr>user := (user ctx1)\<lparr>tag := [], in_js := False\<rparr>\<rparr>)
       else Inr (ctx1\<lparr>next_state := HTMLPARSER_STATE_INT_CDATA_TEXT\<rparr>))"

section \<open>The contract of an event function\<close>

text \<open>The buffer holds a C string up to the position, which leaves room for its end.\<close>

definition buffer_ok :: "'u statemachine_ctx \<Rightarrow> bool" where
  "buffer_ok ctx \<longleftrightarrow>
     length (record_buffer ctx) = STATEMACHINE_RECORD_BUFFER_SIZE \<and>
     record_pos ctx < STATEMACHINE_RECORD_BUFFER_SIZE \<and>
     (recording ctx \<longrightarrow> record_buffer ctx ! record_pos ctx = NUL)"

definition ctx_ok :: "int \<Rightarrow> ('u \<Rightarrow> bool) \<Rightarrow> 'u statemachine_ctx \<Rightarrow> bool" where
  "ctx_ok n U ctx \<longleftrightarrow>
     buffer_ok ctx \<and> 0 \<le> current_state ctx \<and> current_state ctx < n \<and> 0 \<le> next_state ctx \<and> next_state ctx < n \<and>
     U (user ctx)"

text \<open>What the machine relies on: an event function leaves the context in order, with the data of
  the layer above, and fails at most in the given ways.\<close>

locale event_function =
  fixes n :: int
    and U :: "'u \<Rightarrow> bool"
    and E :: "rt_error set"
    and func :: "'u state_event_function"
  assumes keeps_ctx: "ctx_ok n U ctx \<Longrightarrow> func ctx st c nx = Inr ctx' \<Longrightarrow> ctx_ok n U ctx'"
    and in_bounds: "ctx_ok n U ctx \<Longrightarrow> func ctx st c nx = Inl e \<Longrightarrow> e \<in> E"
begin

text \<open>Firing it for a state of the machine.\<close>

lemma fire_registered:
  assumes "ctx_ok n U ctx" "0 \<le> s" "nat s < length evs" "evs ! nat s = Some func"
  shows "fire evs s c ctx = Inl e \<Longrightarrow> e \<in> E" "fire evs s c ctx = Inr ctx' \<Longrightarrow> ctx_ok n U ctx'"
  using assms keeps_ctx in_bounds by (simp_all add: fire_def lookup_event_def)

lemma more_failures: "E \<subseteq> E' \<Longrightarrow> event_function n U E' func"
  by (unfold_locales) (use keeps_ctx in_bounds in \<open>auto\<close>)

end

lemma start_record_ok: "ctx_ok n U ctx \<Longrightarrow> ctx_ok n U (statemachine_start_record ctx)"
  by (simp add: ctx_ok_def buffer_ok_def statemachine_start_record_def STATEMACHINE_RECORD_BUFFER_SIZE_def)

lemma stop_record_ok:
  assumes "ctx_ok n U ctx"
  shows "statemachine_stop_record ctx = Inl e \<Longrightarrow> e = AssertFailure"
    and "statemachine_stop_record ctx = Inr (rec, ctx') \<Longrightarrow> ctx_ok n U ctx'"
  using assms by (auto simp: ctx_ok_def buffer_ok_def statemachine_stop_record_def Let_def split: if_splits)

abbreviation any_user :: "'u \<Rightarrow> bool" where "any_user \<equiv> \<lambda>_. True"

lemma user_ok: "ctx_ok n any_user (ctx\<lparr>user := u\<rparr>) = ctx_ok n any_user ctx"
  by (simp add: ctx_ok_def buffer_ok_def)

lemma recording_end:
  assumes "\<And>ctx st c nx. func ctx st c nx = bindE (statemachine_stop_record ctx) (\<lambda>(rec, ctx1). f c rec ctx1)"
    and "\<And>c rec ctx e. ctx_ok n U ctx \<Longrightarrow> f c rec ctx = Inl e \<Longrightarrow> e = AssertFailure"
    and "\<And>c rec ctx ctx'. ctx_ok n U ctx \<Longrightarrow> f c rec ctx = Inr ctx' \<Longrightarrow> ctx_ok n U ctx'"
  shows "event_function n U {AssertFailure} func"
proof
  fix ctx ctx' :: "'a statemachine_ctx" and st nx c e
  assume ok: "ctx_ok n U ctx"
  show "func ctx st c nx = Inl e \<Longrightarrow> e \<in> {AssertFailure}"
    using stop_record_ok [OF ok] assms(2) by (cases "statemachine_stop_record ctx") (auto simp: assms(1))
  assume "func ctx st c nx = Inr ctx'"
  then obtain rec ctx1 where "statemachine_stop_record ctx = Inr (rec, ctx1)" "f c rec ctx1 = Inr ctx'"
    by (auto simp: assms(1) result_simps)
  then show "ctx_ok n U ctx'" using stop_record_ok(2) [OF ok] assms(3) by blast
qed

lemma recording_events:
  "event_function n any_user E enter_tag_name" "event_function n any_user E enter_attr"
  "event_function n any_user E enter_value_content" "event_function n any_user E enter_state_cdata_may_close"
  by (unfold_locales; auto simp: enter_tag_name_def enter_attr_def enter_value_content_def
      enter_state_cdata_may_close_def start_record_ok user_ok)+

lemma recording_end_events:
  "event_function n any_user {AssertFailure} exit_tag_name" "event_function n any_user {AssertFailure} exit_attr"
  "event_function n any_user {AssertFailure} exit_value_content"
proof -
  show "event_function n any_user {AssertFailure} exit_tag_name"
    by (rule recording_end, rule exit_tag_name_def) (auto simp: Let_def user_ok)
  show "event_function n any_user {AssertFailure} exit_attr"
    by (rule recording_end, rule exit_attr_def) (auto simp: user_ok)
  show "event_function n any_user {AssertFailure} exit_value_content"
    by (rule recording_end, rule exit_value_content_def) (auto simp: user_ok)
qed

interpretation tag_name_start: event_function 32 any_user "{AssertFailure}" enter_tag_name by (rule recording_events)
interpretation attr_start: event_function 32 any_user "{AssertFailure}" enter_attr by (rule recording_events)
interpretation value_start: event_function 32 any_user "{AssertFailure}" enter_value_content by (rule recording_events)
interpretation cdata_close_start: event_function 32 any_user "{AssertFailure}" enter_state_cdata_may_close by (rule recording_events)
interpretation tag_name_end: event_function 32 any_user "{AssertFailure}" exit_tag_name by (rule recording_end_events)
interpretation attr_end: event_function 32 any_user "{AssertFailure}" exit_attr by (rule recording_end_events)
interpretation value_end: event_function 32 any_user "{AssertFailure}" exit_value_content by (rule recording_end_events)
interpretation cdata_close_end: event_function 32 any_user "{AssertFailure}" exit_state_cdata_may_close
  by (rule recording_end, rule exit_state_cdata_may_close_def)
    (auto simp: user_ok ctx_ok_def buffer_ok_def HTMLPARSER_STATE_INT_CDATA_TEXT_def split: if_splits)

section \<open>The machine stays in bounds\<close>

definition events_ok :: "int \<Rightarrow> ('u \<Rightarrow> bool) \<Rightarrow> rt_error set \<Rightarrow> 'u state_event_function option list \<Rightarrow> bool" where
  "events_ok n U E evs \<longleftrightarrow> nat n \<le> length evs \<and> (\<forall>f. Some f \<in> set evs \<longrightarrow> event_function n U E f)"

text \<open>A definition whose states are those below \<open>n\<close>. Its arrays may be longer, as those of the HTML
  parser are: they have 33 places for 32 states.\<close>

definition def_ok :: "int \<Rightarrow> ('u \<Rightarrow> bool) \<Rightarrow> rt_error set \<Rightarrow> 'u statemachine_definition \<Rightarrow> bool" where
  "def_ok n U E def \<longleftrightarrow>
     0 < n \<and> n \<le> num_states def \<and> n \<le> STATEMACHINE_ERROR \<and> nat n \<le> length (transition_table def) \<and>
     (\<forall>row \<in> set (transition_table def). \<forall>x \<in> set row. 0 \<le> x \<and> x < n \<or> x = STATEMACHINE_ERROR) \<and>
     (case state_names def of None \<Rightarrow> True | Some names \<Rightarrow> nat n \<le> length names) \<and>
     events_ok n U E (in_state_events def) \<and> events_ok n U E (enter_state_events def) \<and> events_ok n U E (exit_state_events def)"

text \<open>The rows for a byte; those of the parsers end before the byte 255.\<close>

definition char_fits :: "'u statemachine_definition \<Rightarrow> char \<Rightarrow> bool" where
  "char_fits def c \<longleftrightarrow> (\<forall>row \<in> set (transition_table def). of_char c < length row)"

text \<open>An outcome that fails at most in the given ways, with a property of its result.\<close>

definition outcome :: "rt_error set \<Rightarrow> ('a \<Rightarrow> bool) \<Rightarrow> 'a result \<Rightarrow> bool" where
  "outcome E P r \<longleftrightarrow> (case r of Inl e \<Rightarrow> e \<in> E | Inr x \<Rightarrow> P x)"

lemma outcome_simps [simp]: "outcome E P (Inr x) = P x" "outcome E P (Inl e) \<longleftrightarrow> e \<in> E"
  by (simp_all add: outcome_def)

lemma outcome_bind: "outcome E P m \<Longrightarrow> (\<And>x. P x \<Longrightarrow> outcome E Q (f x)) \<Longrightarrow> outcome E Q (bindE m f)"
  by (cases m) auto

lemma lookup_outcome:
  assumes "0 \<le> i" "nat i < length xs \<or> UndefinedBehaviour \<in> E" "\<And>x. x \<in> set xs \<Longrightarrow> P x"
  shows "outcome E P (lookup_event xs i)"
  using assms by (auto simp: lookup_event_def)

lemma fire_outcome:
  assumes "events_ok n U E evs" "ctx_ok n U ctx" "0 \<le> s" "s < n"
  shows "outcome E (ctx_ok n U) (fire evs s c ctx)"
proof -
  have "nat s < nat n" "nat n \<le> length evs" using assms by (simp_all add: events_ok_def nat_less_iff)
  then have len: "nat s < length evs" by linarith
  show ?thesis
  proof (cases "evs ! nat s")
    case None
    then show ?thesis using len assms by (simp add: fire_def lookup_event_def)
  next
    case (Some f)
    then have "event_function n U E f" using assms(1) len nth_mem [OF len] by (simp add: events_ok_def)
    from event_function.fire_registered [OF this assms(2,3) len Some, of c]
    show ?thesis by (cases "fire evs s c ctx") auto
  qed
qed

lemma transition_outcome:
  assumes "def_ok n U E def" "0 \<le> st" "st < n" "char_fits def c \<or> UndefinedBehaviour \<in> E"
  shows "outcome E (\<lambda>x. 0 \<le> x \<and> x < n \<or> x = STATEMACHINE_ERROR) (transition def st c)"
  unfolding transition_def
proof (rule outcome_bind)
  show "outcome E (\<lambda>row. row \<in> set (transition_table def)) (lookup_event (transition_table def) st)"
    using assms by (intro lookup_outcome) (auto simp: def_ok_def)
  fix row assume "row \<in> set (transition_table def)"
  then show "outcome E (\<lambda>x. 0 \<le> x \<and> x < n \<or> x = STATEMACHINE_ERROR) (lookup_event row (int (of_char c)))"
    using assms(1,4) by (intro lookup_outcome) (auto simp: def_ok_def char_fits_def)
qed

lemma record_char_outcome: "ctx_ok n U ctx \<Longrightarrow> outcome E (ctx_ok n U) (record_char c ctx)"
  by (auto simp: record_char_def ctx_ok_def buffer_ok_def STATEMACHINE_RECORD_BUFFER_SIZE_def)

lemma finish_char_outcome: "ctx_ok n U ctx \<Longrightarrow> outcome E (ctx_ok n U) (finish_char c ctx)"
  unfolding finish_char_def
  by (rule outcome_bind [OF record_char_outcome [of n U]]) (auto simp: Let_def ctx_ok_def buffer_ok_def)

lemma parse_char_outcome:
  assumes "def_ok n U E def" "ctx_ok n U ctx" "char_fits def c \<or> UndefinedBehaviour \<in> E"
  shows "outcome E (\<lambda>(go, ctx'). buffer_ok ctx' \<and> U (user ctx') \<and> (go \<longrightarrow> ctx_ok n U ctx')) (parse_char def c ctx)"
  unfolding parse_char_def
proof (rule outcome_bind [OF transition_outcome [OF assms(1) _ _ assms(3)]])
  show "0 \<le> current_state ctx" "current_state ctx < n" using assms(2) by (simp_all add: ctx_ok_def)
  fix nxt assume nxt: "0 \<le> nxt \<and> nxt < n \<or> nxt = STATEMACHINE_ERROR"
  let ?ctx1 = "ctx\<lparr>current_char := c, next_state := nxt\<rparr>"
  have ev: "events_ok n U E (exit_state_events def)" "events_ok n U E (enter_state_events def)" "events_ok n U E (in_state_events def)"
    using assms(1) by (simp_all add: def_ok_def)
  have range: "0 \<le> current_state x \<and> current_state x < n \<and> 0 \<le> next_state x \<and> next_state x < n"
    if "ctx_ok n U x" for x
    using that by (simp add: ctx_ok_def)
  show "outcome E (\<lambda>(go, ctx'). buffer_ok ctx' \<and> U (user ctx') \<and> (go \<longrightarrow> ctx_ok n U ctx'))
     (let ctx1 = ?ctx1 in
       if nxt = STATEMACHINE_ERROR then
         bindE (set_transition_error_message def ctx1) (\<lambda>ctx2. Inr (False, ctx2))
       else
         bindE (if current_state ctx1 \<noteq> next_state ctx1
                then fire (exit_state_events def) (current_state ctx1) c ctx1 else Inr ctx1) (\<lambda>ctx2.
         bindE (if current_state ctx2 \<noteq> next_state ctx2
                then fire (enter_state_events def) (next_state ctx2) c ctx2 else Inr ctx2) (\<lambda>ctx3.
         bindE (fire (in_state_events def) (next_state ctx3) c ctx3) (\<lambda>ctx4.
         bindE (finish_char c ctx4) (\<lambda>ctx5. Inr (True, ctx5))))))"
  proof (cases "nxt = STATEMACHINE_ERROR")
    case True
    have "outcome E (\<lambda>x. buffer_ok x \<and> U (user x)) (set_transition_error_message def ?ctx1)"
      using assms by (auto simp: set_transition_error_message_def Let_def def_ok_def ctx_ok_def buffer_ok_def split: option.splits)
    then show ?thesis using True by (simp add: Let_def) (erule outcome_bind, simp)
  next
    case False
    then have ok1: "ctx_ok n U ?ctx1" using assms(2) nxt by (simp add: ctx_ok_def buffer_ok_def)
    have ok2: "outcome E (ctx_ok n U) (if current_state ?ctx1 \<noteq> next_state ?ctx1
                then fire (exit_state_events def) (current_state ?ctx1) c ?ctx1 else Inr ?ctx1)"
      using fire_outcome [OF ev(1) ok1] range [OF ok1] ok1 by simp
    have ok3: "outcome E (ctx_ok n U) (if current_state x \<noteq> next_state x
                then fire (enter_state_events def) (next_state x) c x else Inr x)" if "ctx_ok n U x" for x
      using fire_outcome [OF ev(2) that] range [OF that] that by simp
    have ok4: "outcome E (ctx_ok n U) (fire (in_state_events def) (next_state x) c x)" if "ctx_ok n U x" for x
      using fire_outcome [OF ev(3) that] range [OF that] by simp
    have ok5: "outcome E (\<lambda>(go, ctx'). buffer_ok ctx' \<and> U (user ctx') \<and> (go \<longrightarrow> ctx_ok n U ctx'))
        (bindE (finish_char c x) (\<lambda>y. Inr (True, y)))" if "ctx_ok n U x" for x
      by (rule outcome_bind [OF finish_char_outcome [OF that]]) (simp add: ctx_ok_def)
    show ?thesis unfolding Let_def if_not_P [OF False]
      by (rule outcome_bind [OF ok2], rule outcome_bind [OF ok3], assumption, rule outcome_bind [OF ok4], assumption, rule ok5)
  qed
qed

lemma parse_chars_outcome:
  assumes "def_ok n U E def"
  shows "ctx_ok n U ctx \<Longrightarrow> list_all (char_fits def) s \<or> UndefinedBehaviour \<in> E \<Longrightarrow>
    outcome E (\<lambda>(st, ctx'). buffer_ok ctx' \<and> U (user ctx') \<and>
      (st \<noteq> STATEMACHINE_ERROR \<longrightarrow> ctx_ok n U ctx' \<and> st = current_state ctx')) (parse_chars def s ctx)"
proof (induction s arbitrary: ctx)
  case (Cons c s)
  have fits: "char_fits def c \<or> UndefinedBehaviour \<in> E" "list_all (char_fits def) s \<or> UndefinedBehaviour \<in> E"
    using Cons.prems(2) by auto
  show ?case unfolding parse_chars.simps
    by (rule outcome_bind [OF parse_char_outcome [OF assms Cons.prems(1) fits(1)]]) (use Cons.IH [OF _ fits(2)] in auto)
qed (simp add: ctx_ok_def)

lemma def_ok_more:
  assumes "def_ok n U E def" "E \<subseteq> E'" shows "def_ok n U E' def"
proof -
  have "events_ok n U E evs \<Longrightarrow> events_ok n U E' evs" for evs
    using event_function.more_failures [OF _ assms(2)] by (auto simp: events_ok_def)
  then show ?thesis using assms(1) by (simp add: def_ok_def)
qed

lemma parse_char_goes_on:
  assumes "def_ok n U E def" "ctx_ok n U ctx" "parse_char def c ctx = Inr (True, ctx')"
  shows "ctx_ok n U ctx'"
  using parse_char_outcome [OF def_ok_more [OF assms(1) subset_insertI [of E UndefinedBehaviour]] assms(2), of c] assms(3) by simp

section \<open>Pieces, positions and recordings\<close>

lemma statemachine_parse_all: "statemachine_parse def s (int (length s)) ctx = parse_chars def s ctx"
  by (simp add: statemachine_parse_def)

text \<open>A machine that stopped at an error is in no state, so its return value tells.\<close>

lemma parse_chars_append:
  assumes "def_ok n U E def"
  shows "ctx_ok n U ctx \<Longrightarrow> parse_chars def (s @ t) ctx =
    bindE (parse_chars def s ctx) (\<lambda>(st, ctx').
      if st = STATEMACHINE_ERROR then Inr (STATEMACHINE_ERROR, ctx') else parse_chars def t ctx')"
proof (induction s arbitrary: ctx)
  case Nil
  have "current_state ctx \<noteq> STATEMACHINE_ERROR" using Nil assms by (auto simp: ctx_ok_def def_ok_def)
  then show ?case by simp
next
  case (Cons c s)
  show ?case
  proof (cases "parse_char def c ctx")
    case (Inr r)
    obtain go ctx' where r: "r = (go, ctx')" by (rule prod.exhaust)
    show ?thesis
    proof (cases go)
      case True
      have "ctx_ok n U ctx'" using parse_char_goes_on [OF assms Cons.prems, of c] Inr r True by simp
      from Cons.IH [OF this] show ?thesis using Inr r True by simp
    next
      case False
      then show ?thesis using Inr r by simp
    qed
  qed simp
qed

text \<open>A machine without events.\<close>

definition no_events :: "'u statemachine_definition \<Rightarrow> bool" where
  "no_events def \<longleftrightarrow>
     list_all (\<lambda>e. e = None) (in_state_events def) \<and> list_all (\<lambda>e. e = None) (enter_state_events def) \<and>
     list_all (\<lambda>e. e = None) (exit_state_events def)"

text \<open>What is recorded: the text so far, cut to the buffer.\<close>

definition recorded :: "'u statemachine_ctx \<Rightarrow> string" where
  "recorded ctx = take (record_pos ctx) (record_buffer ctx)"

lemma fire_none: "list_all (\<lambda>e. e = None) evs \<Longrightarrow> fire evs st c ctx = Inr ctx' \<Longrightarrow> ctx' = ctx"
  by (auto simp: fire_def lookup_event_def result_simps list_all_iff split: if_splits option.splits)
    (metis nth_mem option.distinct(1))

lemma record_char_recorded:
  assumes "buffer_ok ctx" "recording ctx" "record_char c ctx = Inr ctx'" "recorded ctx = take 255 s"
  shows "recorded ctx' = take 255 (s @ [c]) \<and> recording ctx' \<and> buffer_ok ctx' \<and>
    line_number ctx' = line_number ctx \<and> column_number ctx' = column_number ctx \<and> next_state ctx' = next_state ctx"
proof (cases "record_pos ctx < 255")
  case True
  have len: "length (take 255 s) = record_pos ctx"
    using assms(1,4) by (metis recorded_def buffer_ok_def length_take min.absorb2 less_imp_le)
  then have short: "length s = record_pos ctx" using True by auto
  have ctx': "ctx' = ctx\<lparr>record_buffer := (record_buffer ctx)[record_pos ctx := c, record_pos ctx + 1 := NUL],
      record_pos := record_pos ctx + 1\<rparr>"
    using assms(1-3) True by (simp add: record_char_def buffer_ok_def STATEMACHINE_RECORD_BUFFER_SIZE_def split: if_splits)
  have "recorded ctx' = recorded ctx @ [c]"
    using assms(1) True by (simp add: ctx' recorded_def buffer_ok_def STATEMACHINE_RECORD_BUFFER_SIZE_def take_Suc_conv_app_nth)
  then show ?thesis using assms True short
    by (simp add: ctx' buffer_ok_def STATEMACHINE_RECORD_BUFFER_SIZE_def)
next
  case False
  then have "ctx' = ctx" using assms(3) by (simp add: record_char_def STATEMACHINE_RECORD_BUFFER_SIZE_def split: if_splits)
  moreover have "255 \<le> length s"
  proof -
    have "length (recorded ctx) = record_pos ctx" using assms(1) by (simp add: recorded_def buffer_ok_def)
    then have "255 \<le> length (take 255 s)" using False assms(4) by simp
    then show ?thesis by simp
  qed
  ultimately show ?thesis using assms by simp
qed

text \<open>What is left of a context after a character: all but the record, the state and the position.\<close>

lemma finish_char_run:
  assumes "buffer_ok ctx"
  shows "\<exists>ctx'. finish_char c ctx = Inr ctx' \<and> buffer_ok ctx' \<and> current_state ctx' = next_state ctx \<and>
    next_state ctx' = next_state ctx \<and> user ctx' = user ctx \<and> recording ctx' = recording ctx \<and>
    recorded ctx' = (if recording ctx then take 255 (recorded ctx @ [c]) else recorded ctx)"
proof -
  have "\<exists>ctx1. record_char c ctx = Inr ctx1 \<and> buffer_ok ctx1 \<and> next_state ctx1 = next_state ctx \<and> user ctx1 = user ctx \<and>
      recording ctx1 = recording ctx \<and>
      recorded ctx1 = (if recording ctx then take 255 (recorded ctx @ [c]) else recorded ctx)"
  proof (cases "recording ctx")
    case True
    have "outcome {} (\<lambda>x. user x = user ctx) (record_char c ctx)"
      using assms by (simp add: record_char_def buffer_ok_def STATEMACHINE_RECORD_BUFFER_SIZE_def)
    then obtain ctx1 where r: "record_char c ctx = Inr ctx1" "user ctx1 = user ctx"
      by (cases "record_char c ctx") simp_all
    have "recorded ctx = take 255 (recorded ctx)"
      using assms by (intro take_all [symmetric]) (simp add: recorded_def buffer_ok_def STATEMACHINE_RECORD_BUFFER_SIZE_def)
    from record_char_recorded [OF assms True r(1) this] r True show ?thesis by auto
  next
    case False
    then show ?thesis using assms by (simp add: record_char_def)
  qed
  then obtain ctx1 where "record_char c ctx = Inr ctx1" "buffer_ok ctx1" "next_state ctx1 = next_state ctx" "user ctx1 = user ctx"
    "recording ctx1 = recording ctx" "recorded ctx1 = (if recording ctx then take 255 (recorded ctx @ [c]) else recorded ctx)"
    by blast
  then show ?thesis by (simp add: finish_char_def Let_def buffer_ok_def recorded_def)
qed

lemma parse_char_events:
  assumes "transition def (current_state ctx) c = Inr nx" "nx \<noteq> STATEMACHINE_ERROR"
    and "(if current_state ctx \<noteq> nx then fire (exit_state_events def) (current_state ctx) c (ctx\<lparr>current_char := c, next_state := nx\<rparr>)
          else Inr (ctx\<lparr>current_char := c, next_state := nx\<rparr>)) = Inr ctx2"
    and "(if current_state ctx2 \<noteq> next_state ctx2 then fire (enter_state_events def) (next_state ctx2) c ctx2
          else Inr ctx2) = Inr ctx3"
    and "fire (in_state_events def) (next_state ctx3) c ctx3 = Inr ctx4" "buffer_ok ctx4"
  shows "\<exists>ctx5. parse_char def c ctx = Inr (True, ctx5) \<and> buffer_ok ctx5 \<and> current_state ctx5 = next_state ctx4 \<and>
    next_state ctx5 = next_state ctx4 \<and> user ctx5 = user ctx4 \<and> recording ctx5 = recording ctx4 \<and>
    recorded ctx5 = (if recording ctx4 then take 255 (recorded ctx4 @ [c]) else recorded ctx4)"
proof -
  obtain ctx5 where "finish_char c ctx4 = Inr ctx5" "buffer_ok ctx5 \<and> current_state ctx5 = next_state ctx4 \<and>
    next_state ctx5 = next_state ctx4 \<and> user ctx5 = user ctx4 \<and> recording ctx5 = recording ctx4 \<and>
    recorded ctx5 = (if recording ctx4 then take 255 (recorded ctx4 @ [c]) else recorded ctx4)"
    using finish_char_run [OF assms(6)] by blast
  moreover from this have "parse_char def c ctx = Inr (True, ctx5)"
    by (cases "current_state ctx = nx"; cases "current_state ctx2 = next_state ctx2")
      (use assms in \<open>auto simp: parse_char_def Let_def\<close>)
  ultimately show ?thesis by blast
qed

definition lines_in :: "string \<Rightarrow> int" where
  "lines_in s = int (length (filter (\<lambda>c. c = LF) s))"

text \<open>The column after a text that began in the given column.\<close>

fun column_after :: "int \<Rightarrow> string \<Rightarrow> int" where
  "column_after k [] = k"
| "column_after k (c # s) = column_after (if c = LF then 1 else k + 1) s"

lemma parse_char_plain:
  assumes "def_ok n U E def" "no_events def" "ctx_ok n U ctx" "parse_char def c ctx = Inr (True, ctx')"
    and "recording ctx" "recorded ctx = take 255 s"
  shows "ctx_ok n U ctx' \<and> recording ctx' \<and> recorded ctx' = take 255 (s @ [c]) \<and>
    line_number ctx' = line_number ctx + (if c = LF then 1 else 0) \<and>
    column_number ctx' = (if c = LF then 1 else column_number ctx + 1)"
proof -
  have ok: "ctx_ok n U ctx'" by (rule parse_char_goes_on [OF assms(1,3,4)])
  from assms(4) obtain nxt where nxt: "transition def (current_state ctx) c = Inr nxt" "nxt \<noteq> STATEMACHINE_ERROR"
    by (auto simp: parse_char_def result_simps Let_def split: if_splits)
  let ?ctx1 = "ctx\<lparr>current_char := c, next_state := nxt\<rparr>"
  have "finish_char c ?ctx1 = Inr ctx'"
    using assms(2,4) nxt fire_none
    by (auto simp: parse_char_def result_simps Let_def no_events_def split: if_splits dest!: fire_none [rotated])
  then obtain ctx2 where rc: "record_char c ?ctx1 = Inr ctx2" and fin: "ctx' =
      (let ctx3 = ctx2\<lparr>current_state := next_state ctx2, column_number := column_number ctx2 + 1\<rparr>
       in if c = LF then ctx3\<lparr>line_number := line_number ctx3 + 1, column_number := 1\<rparr> else ctx3)"
    by (auto simp: finish_char_def result_simps Let_def)
  have "buffer_ok ?ctx1" "recording ?ctx1" "recorded ?ctx1 = take 255 s"
    using assms(3,5,6) by (simp_all add: ctx_ok_def buffer_ok_def recorded_def)
  from record_char_recorded [OF this(1,2) rc this(3)] show ?thesis
    using ok fin by (auto simp: Let_def recorded_def)
qed

lemma parse_chars_plain:
  assumes "def_ok n U E def" "no_events def"
  shows "ctx_ok n U ctx \<Longrightarrow> recording ctx \<Longrightarrow> recorded ctx = take 255 r \<Longrightarrow>
    parse_chars def s ctx = Inr (st, ctx') \<Longrightarrow> st \<noteq> STATEMACHINE_ERROR \<Longrightarrow>
    recording ctx' \<and> recorded ctx' = take 255 (r @ s) \<and> line_number ctx' = line_number ctx + lines_in s \<and>
      column_number ctx' = column_after (column_number ctx) s \<and> ctx_ok n U ctx'"
proof (induction s arbitrary: ctx r)
  case (Cons c s)
  then obtain ctx1 where step: "parse_char def c ctx = Inr (True, ctx1)" "parse_chars def s ctx1 = Inr (st, ctx')"
    by (auto simp: result_simps split: if_splits)
  note p = parse_char_plain [OF assms Cons.prems(1) step(1) Cons.prems(2,3)]
  from Cons.IH [of ctx1 "r @ [c]"] p step(2) Cons.prems(5) show ?case by (auto simp: lines_in_def)
qed (simp add: lines_in_def)

section \<open>Properties\<close>

text \<open>A small machine for the witnesses: text and tag names.\<close>

definition no_record :: html_record where
  "no_record = \<lparr>tag = [], attr = [], val = [], in_js = False\<rparr>"

definition tag_machine :: "html_record statemachine_definition" where
  "tag_machine =
     \<lparr>num_states = 2, transition_table = [(replicate 256 0)[60 := 1], (replicate 256 1)[62 := 0]], state_names = None,
      in_state_events = [None, None], enter_state_events = [None, Some enter_tag_name],
      exit_state_events = [None, Some exit_tag_name]\<rparr>"

definition fresh_ctx :: "html_record statemachine_ctx" where
  "fresh_ctx =
     statemachine_new
       \<lparr>current_state = 9, next_state = 9, current_char = NUL, line_number = 0, column_number = 0,
        record_buffer = replicate 256 NUL, record_pos = 7, recording = True, error_msg = [], user = no_record\<rparr>
       no_record"

lemma tag_machine_ok: "def_ok 2 any_user {AssertFailure} tag_machine"
proof -
  have row: "set ((replicate 256 a)[i := b]) \<subseteq> {a, b}" for a b :: int and i
    using set_update_subset_insert [of "replicate 256 a" i b] by auto
  show ?thesis
    using recording_events(1) recording_end_events(1) row [of 0 60 1] row [of 1 62 0]
    by (auto simp: def_ok_def tag_machine_def STATEMACHINE_ERROR_def events_ok_def)
qed

lemma fresh_ctx_ok: "0 < n \<Longrightarrow> ctx_ok n any_user fresh_ctx"
  by (simp add: ctx_ok_def buffer_ok_def fresh_ctx_def statemachine_new_def statemachine_reset_def STATEMACHINE_RECORD_BUFFER_SIZE_def)

text \<open>C28: the state machine stays in bounds: with a transition table for its states and events that
  keep its contract, reading any text whose bytes the rows of the table cover makes no access outside the table,
  the arrays of events, the state names or the record buffer, whatever events fire on the way:
  it fails only as its events may. It leaves the position of the record at most at the last
  place of the buffer, the data of the layer above in order, and the machine
  in one of its states unless it reports an error.\<close>

theorem statemachine_in_bounds:
  assumes "def_ok n U E def" "ctx_ok n U ctx" "0 \<le> len" "nat len \<le> length s"
    and "list_all (char_fits def) s" "UndefinedBehaviour \<notin> E"
  shows "case statemachine_parse def s len ctx of
      Inl e \<Rightarrow> e \<in> E \<and> e \<noteq> UndefinedBehaviour
    | Inr (st, ctx') \<Rightarrow> record_pos ctx' \<le> 255 \<and> length (record_buffer ctx') = 256 \<and> U (user ctx') \<and>
        (st = STATEMACHINE_ERROR \<or> st = current_state ctx' \<and> 0 \<le> st \<and> st < n)"
proof -
  have "list_all (char_fits def) (take (nat len) s)"
    using assms(5) by (auto simp: list_all_iff dest: in_set_takeD)
  then have "outcome E (\<lambda>(st, ctx'). buffer_ok ctx' \<and> U (user ctx') \<and>
      (st \<noteq> STATEMACHINE_ERROR \<longrightarrow> ctx_ok n U ctx' \<and> st = current_state ctx')) (statemachine_parse def s len ctx)"
    using assms(3,4) parse_chars_outcome [OF assms(1,2)] by (simp add: statemachine_parse_def)
  then show ?thesis using assms(6)
    by (auto simp: outcome_def buffer_ok_def ctx_ok_def STATEMACHINE_RECORD_BUFFER_SIZE_def split: sum.splits)
qed

lemma tag_machine_fits: "list_all (char_fits tag_machine) s"
  by (auto simp: list_all_iff char_fits_def tag_machine_def)

theorem statemachine_in_bounds_witness:
  "case statemachine_parse tag_machine ''a <br> b'' 8 fresh_ctx of
      Inl e \<Rightarrow> e \<in> {AssertFailure} \<and> e \<noteq> UndefinedBehaviour
    | Inr (st, ctx') \<Rightarrow> record_pos ctx' \<le> 255 \<and> length (record_buffer ctx') = 256 \<and> any_user (user ctx') \<and>
        (st = STATEMACHINE_ERROR \<or> st = current_state ctx' \<and> 0 \<le> st \<and> st < 2)"
  by (rule statemachine_in_bounds [OF tag_machine_ok fresh_ctx_ok _ _ tag_machine_fits]) simp_all

text \<open>Feeding a text to the machine in two calls, as the template parser does at every variable,
  is the same as one call, unless the first call already stops with an error.\<close>

theorem statemachine_parse_pieces:
  assumes "def_ok n U E def" "ctx_ok n U ctx"
  shows "statemachine_parse def (s @ t) (int (length s) + int (length t)) ctx =
    bindE (statemachine_parse def s (int (length s)) ctx) (\<lambda>(st, ctx').
      if st = STATEMACHINE_ERROR then Inr (STATEMACHINE_ERROR, ctx')
      else statemachine_parse def t (int (length t)) ctx')"
proof -
  have whole: "statemachine_parse def (s @ t) (int (length s) + int (length t)) ctx = parse_chars def (s @ t) ctx"
    using statemachine_parse_all [of def "s @ t" ctx] by simp
  show ?thesis unfolding whole statemachine_parse_all by (rule parse_chars_append [OF assms])
qed

theorem statemachine_parse_pieces_witness:
  "statemachine_parse tag_machine (''a <b'' @ ''r> b'') (int (length ''a <b'') + int (length ''r> b'')) fresh_ctx =
    bindE (statemachine_parse tag_machine ''a <b'' (int (length ''a <b'')) fresh_ctx) (\<lambda>(st, ctx').
      if st = STATEMACHINE_ERROR then Inr (STATEMACHINE_ERROR, ctx')
      else statemachine_parse tag_machine ''r> b'' (int (length ''r> b'')) ctx')"
  by (rule statemachine_parse_pieces [OF tag_machine_ok fresh_ctx_ok]) simp

text \<open>A machine without events records the text it reads from the start of the recording, the first
  255 characters of it, and counts lines by line feeds and columns from the last one.\<close>

theorem recording_holds_text:
  assumes "def_ok n U E def" "no_events def" "ctx_ok n U ctx"
    and "statemachine_parse def s (int (length s)) (statemachine_start_record ctx) = Inr (st, ctx')"
    and "st \<noteq> STATEMACHINE_ERROR" "nul_free s"
  shows "\<exists>ctx''. statemachine_stop_record ctx' = Inr (take 255 s, ctx'') \<and>
    line_number ctx' = line_number ctx + lines_in s \<and> column_number ctx' = column_after (column_number ctx) s"
proof -
  let ?ctx0 = "statemachine_start_record ctx"
  have ok0: "ctx_ok n U ?ctx0" "recording ?ctx0" "recorded ?ctx0 = take 255 []"
    using start_record_ok [OF assms(3)] by (simp_all add: statemachine_start_record_def recorded_def)
  have "parse_chars def s ?ctx0 = Inr (st, ctx')" using assms(4) by (simp add: statemachine_parse_def)
  from parse_chars_plain [OF assms(1,2) ok0 this assms(5)]
  have res: "recording ctx'" "recorded ctx' = take 255 s" "ctx_ok n U ctx'"
    "line_number ctx' = line_number ctx + lines_in s" "column_number ctx' = column_after (column_number ctx) s"
    by (simp_all add: statemachine_start_record_def)
  have pos: "record_pos ctx' < length (record_buffer ctx')" using res(3) by (simp add: ctx_ok_def buffer_ok_def)
  have "cstr ((record_buffer ctx')[record_pos ctx' := NUL]) = recorded ctx'"
  proof -
    have "(record_buffer ctx')[record_pos ctx' := NUL] = recorded ctx' @ NUL # drop (Suc (record_pos ctx')) (record_buffer ctx')"
      using pos by (simp add: recorded_def upd_conv_take_nth_drop)
    moreover have "nul_free (recorded ctx')"
      using assms(6) res(2) by (simp add: nul_free_def) (meson in_set_takeD)
    ultimately show ?thesis by (simp add: cstr_def nul_free_def takeWhile_until)
  qed
  then show ?thesis using res pos by (simp add: statemachine_stop_record_def Let_def)
qed

text \<open>One state that reads everything.\<close>

definition plain_machine :: "html_record statemachine_definition" where
  "plain_machine =
     \<lparr>num_states = 1, transition_table = [replicate 256 0], state_names = None,
      in_state_events = [None], enter_state_events = [None], exit_state_events = [None]\<rparr>"

theorem recording_holds_text_witness:
  "\<exists>st ctx' ctx''. statemachine_parse plain_machine [CHR ''a'', LF, CHR ''b''] 3 (statemachine_start_record fresh_ctx) = Inr (st, ctx') \<and>
     statemachine_stop_record ctx' = Inr ([CHR ''a'', LF, CHR ''b''], ctx'') \<and> line_number ctx' = 2 \<and> column_number ctx' = 2"
proof -
  let ?s = "[CHR ''a'', LF, CHR ''b'']"
  have def: "def_ok 1 any_user {} plain_machine" "no_events plain_machine"
    by (auto simp: def_ok_def plain_machine_def STATEMACHINE_ERROR_def events_ok_def no_events_def)
  have ctx: "ctx_ok 1 any_user fresh_ctx" by (rule fresh_ctx_ok) simp
  have line: "line_number fresh_ctx = 1" "column_number fresh_ctx = 1"
    by (simp_all add: fresh_ctx_def statemachine_new_def statemachine_reset_def)
  obtain st ctx' where run: "statemachine_parse plain_machine ?s (int (length ?s)) (statemachine_start_record fresh_ctx) = Inr (st, ctx')"
    and st: "st \<noteq> STATEMACHINE_ERROR"
    by (simp add: statemachine_parse_def parse_char_def transition_def lookup_event_def plain_machine_def fresh_ctx_def
        statemachine_new_def statemachine_reset_def statemachine_start_record_def fire_def finish_char_def record_char_def
        STATEMACHINE_RECORD_BUFFER_SIZE_def STATEMACHINE_ERROR_def Let_def)
  have "nul_free ?s" by simp
  from recording_holds_text [OF def ctx run st this] run line show ?thesis
    by (auto simp: lines_in_def)
qed

end
