(* ===== verification/Html_Tables.thy ===== *)
theory Html_Tables
  imports Html_Statemachine Html_States
begin

text \<open>
  The tables of the HTML parser and of the javascript parser of the template engine
  (\<open>third/ctemplate-2.2/src/htmlparser/htmlparser_fsm.h\<close>, \<open>jsparser_fsm.h\<close>): the internal states, the
  next state for every state and byte, the external states and the names. A row is written as the most
  frequent state and the ranges of bytes that lead elsewhere. The rows have 255 entries, so the byte 255 is
  read beyond the end of its row.
\<close>

section \<open>Rows\<close>

fun fsm_entry :: "int \<Rightarrow> (nat \<times> nat \<times> int) list \<Rightarrow> nat \<Rightarrow> int" where
  "fsm_entry d [] n = d"
| "fsm_entry d ((lo, hi, st) # rs) n = (if lo \<le> n \<and> n \<le> hi then st else fsm_entry d rs n)"

definition fsm_row :: "int \<Rightarrow> (nat \<times> nat \<times> int) list \<Rightarrow> int list" where
  "fsm_row d rs = map (fsm_entry d rs) [0..<255]"

lemma length_fsm_row [simp]: "length (fsm_row d rs) = 255"
  by (simp add: fsm_row_def)

lemma fsm_row_lookup:
  "lookup_event (fsm_row d rs) (int n) = (if n < 255 then Inr (fsm_entry d rs n) else Inl UndefinedBehaviour)"
  by (simp add: lookup_event_def fsm_row_def)

lemma fsm_row_nth: "n < 255 \<Longrightarrow> fsm_row d rs ! n = fsm_entry d rs n"
  by (simp add: fsm_row_def)

lemma fsm_entry_mem: "fsm_entry d rs n \<in> insert d (set (map (snd \<circ> snd) rs))"
  by (induction d rs n rule: fsm_entry.induct) auto

lemma set_fsm_row: "set (fsm_row d rs) \<subseteq> insert d (set (map (snd \<circ> snd) rs))"
  using fsm_entry_mem by (force simp: fsm_row_def)

section \<open>HTML states\<close>

abbreviation (input) INT_TEXT :: int where "INT_TEXT \<equiv> 0"
abbreviation (input) INT_TAG_START :: int where "INT_TAG_START \<equiv> 1"
abbreviation (input) INT_TAG_NAME :: int where "INT_TAG_NAME \<equiv> 2"
abbreviation (input) INT_DECLARATION_START :: int where "INT_DECLARATION_START \<equiv> 3"
abbreviation (input) INT_DECLARATION_BODY :: int where "INT_DECLARATION_BODY \<equiv> 4"
abbreviation (input) INT_COMMENT_OPEN :: int where "INT_COMMENT_OPEN \<equiv> 5"
abbreviation (input) INT_COMMENT_BODY :: int where "INT_COMMENT_BODY \<equiv> 6"
abbreviation (input) INT_COMMENT_DASH :: int where "INT_COMMENT_DASH \<equiv> 7"
abbreviation (input) INT_COMMENT_DASH_DASH :: int where "INT_COMMENT_DASH_DASH \<equiv> 8"
abbreviation (input) INT_PI :: int where "INT_PI \<equiv> 9"
abbreviation (input) INT_PI_MAY_END :: int where "INT_PI_MAY_END \<equiv> 10"
abbreviation (input) INT_TAG_SPACE :: int where "INT_TAG_SPACE \<equiv> 11"
abbreviation (input) INT_TAG_CLOSE :: int where "INT_TAG_CLOSE \<equiv> 12"
abbreviation (input) INT_ATTR :: int where "INT_ATTR \<equiv> 13"
abbreviation (input) INT_ATTR_SPACE :: int where "INT_ATTR_SPACE \<equiv> 14"
abbreviation (input) INT_VALUE :: int where "INT_VALUE \<equiv> 15"
abbreviation (input) INT_VALUE_TEXT :: int where "INT_VALUE_TEXT \<equiv> 16"
abbreviation (input) INT_VALUE_Q_START :: int where "INT_VALUE_Q_START \<equiv> 17"
abbreviation (input) INT_VALUE_Q :: int where "INT_VALUE_Q \<equiv> 18"
abbreviation (input) INT_VALUE_DQ_START :: int where "INT_VALUE_DQ_START \<equiv> 19"
abbreviation (input) INT_VALUE_DQ :: int where "INT_VALUE_DQ \<equiv> 20"
abbreviation (input) INT_CDATA_COMMENT_START :: int where "INT_CDATA_COMMENT_START \<equiv> 21"
abbreviation (input) INT_CDATA_COMMENT_START_DASH :: int where "INT_CDATA_COMMENT_START_DASH \<equiv> 22"
abbreviation (input) INT_CDATA_COMMENT_BODY :: int where "INT_CDATA_COMMENT_BODY \<equiv> 23"
abbreviation (input) INT_CDATA_COMMENT_DASH :: int where "INT_CDATA_COMMENT_DASH \<equiv> 24"
abbreviation (input) INT_CDATA_COMMENT_DASH_DASH :: int where "INT_CDATA_COMMENT_DASH_DASH \<equiv> 25"
abbreviation (input) INT_CDATA_TEXT :: int where "INT_CDATA_TEXT \<equiv> 26"
abbreviation (input) INT_CDATA_LT :: int where "INT_CDATA_LT \<equiv> 27"
abbreviation (input) INT_CDATA_MAY_CLOSE :: int where "INT_CDATA_MAY_CLOSE \<equiv> 28"
abbreviation (input) INT_JS_FILE :: int where "INT_JS_FILE \<equiv> 29"
abbreviation (input) INT_CSS_FILE :: int where "INT_CSS_FILE \<equiv> 30"
abbreviation (input) INT_NULL :: int where "INT_NULL \<equiv> 31"

definition HTMLPARSER_NUM_STATES :: int where "HTMLPARSER_NUM_STATES = 33"

definition htmlparser_transition_row_text :: "int list" where
  "htmlparser_transition_row_text = fsm_row INT_TEXT
     [(60, 60, INT_TAG_START)]"

definition htmlparser_transition_row_tag_start :: "int list" where
  "htmlparser_transition_row_tag_start = fsm_row INT_TEXT
     [(33, 33, INT_DECLARATION_START), (45, 58, INT_TAG_NAME), (60, 60, INT_TAG_START), (63, 63, INT_PI),
      (65, 90, INT_TAG_NAME), (95, 95, INT_TAG_NAME), (97, 122, INT_TAG_NAME)]"

definition htmlparser_transition_row_tag_name :: "int list" where
  "htmlparser_transition_row_tag_name = fsm_row STATEMACHINE_ERROR
     [(9, 10, INT_TAG_SPACE), (13, 13, INT_TAG_SPACE), (32, 32, INT_TAG_SPACE), (45, 58, INT_TAG_NAME),
      (62, 62, INT_TAG_CLOSE), (65, 90, INT_TAG_NAME), (95, 95, INT_TAG_NAME), (97, 122, INT_TAG_NAME)]"

definition htmlparser_transition_row_declaration_start :: "int list" where
  "htmlparser_transition_row_declaration_start = fsm_row INT_DECLARATION_BODY
     [(45, 45, INT_COMMENT_OPEN), (62, 62, INT_TEXT)]"

definition htmlparser_transition_row_declaration_body :: "int list" where
  "htmlparser_transition_row_declaration_body = fsm_row INT_DECLARATION_BODY
     [(62, 62, INT_TEXT)]"

definition htmlparser_transition_row_comment_open :: "int list" where
  "htmlparser_transition_row_comment_open = fsm_row INT_TEXT
     [(45, 45, INT_COMMENT_BODY)]"

definition htmlparser_transition_row_comment_body :: "int list" where
  "htmlparser_transition_row_comment_body = fsm_row INT_COMMENT_BODY
     [(45, 45, INT_COMMENT_DASH)]"

definition htmlparser_transition_row_comment_dash :: "int list" where
  "htmlparser_transition_row_comment_dash = fsm_row INT_COMMENT_BODY
     [(45, 45, INT_COMMENT_DASH_DASH)]"

definition htmlparser_transition_row_comment_dash_dash :: "int list" where
  "htmlparser_transition_row_comment_dash_dash = fsm_row INT_COMMENT_BODY
     [(45, 45, INT_COMMENT_DASH_DASH), (62, 62, INT_TEXT)]"

definition htmlparser_transition_row_pi :: "int list" where
  "htmlparser_transition_row_pi = fsm_row INT_PI
     [(63, 63, INT_PI_MAY_END)]"

definition htmlparser_transition_row_pi_may_end :: "int list" where
  "htmlparser_transition_row_pi_may_end = fsm_row INT_PI
     [(62, 62, INT_TEXT)]"

definition htmlparser_transition_row_tag_space :: "int list" where
  "htmlparser_transition_row_tag_space = fsm_row STATEMACHINE_ERROR
     [(9, 10, INT_TAG_SPACE), (13, 13, INT_TAG_SPACE), (32, 32, INT_TAG_SPACE), (45, 46, INT_ATTR),
      (47, 47, INT_TAG_SPACE), (48, 58, INT_ATTR), (62, 62, INT_TAG_CLOSE), (65, 90, INT_ATTR),
      (95, 95, INT_ATTR), (97, 122, INT_ATTR)]"

definition htmlparser_transition_row_tag_close :: "int list" where
  "htmlparser_transition_row_tag_close = fsm_row INT_TEXT
     [(60, 60, INT_TAG_START)]"

definition htmlparser_transition_row_attr :: "int list" where
  "htmlparser_transition_row_attr = fsm_row STATEMACHINE_ERROR
     [(9, 10, INT_ATTR_SPACE), (13, 13, INT_ATTR_SPACE), (32, 32, INT_ATTR_SPACE), (45, 46, INT_ATTR),
      (47, 47, INT_TAG_SPACE), (48, 58, INT_ATTR), (61, 61, INT_VALUE), (62, 62, INT_TAG_CLOSE),
      (65, 90, INT_ATTR), (95, 95, INT_ATTR), (97, 122, INT_ATTR)]"

definition htmlparser_transition_row_attr_space :: "int list" where
  "htmlparser_transition_row_attr_space = fsm_row STATEMACHINE_ERROR
     [(9, 10, INT_ATTR_SPACE), (13, 13, INT_ATTR_SPACE), (32, 32, INT_ATTR_SPACE), (45, 46, INT_ATTR),
      (47, 47, INT_TAG_SPACE), (48, 58, INT_ATTR), (61, 61, INT_VALUE), (62, 62, INT_TAG_CLOSE),
      (65, 90, INT_ATTR), (95, 95, INT_ATTR), (97, 122, INT_ATTR)]"

definition htmlparser_transition_row_value :: "int list" where
  "htmlparser_transition_row_value = fsm_row INT_VALUE_TEXT
     [(9, 10, INT_VALUE), (13, 13, INT_VALUE), (32, 32, INT_VALUE), (34, 34, INT_VALUE_DQ_START),
      (39, 39, INT_VALUE_Q_START), (62, 62, INT_TAG_CLOSE)]"

definition htmlparser_transition_row_value_text :: "int list" where
  "htmlparser_transition_row_value_text = fsm_row INT_VALUE_TEXT
     [(9, 10, INT_TAG_SPACE), (13, 13, INT_TAG_SPACE), (32, 32, INT_TAG_SPACE), (62, 62, INT_TAG_CLOSE)]"

definition htmlparser_transition_row_value_q_start :: "int list" where
  "htmlparser_transition_row_value_q_start = fsm_row INT_VALUE_Q
     [(39, 39, INT_TAG_SPACE)]"

definition htmlparser_transition_row_value_q :: "int list" where
  "htmlparser_transition_row_value_q = fsm_row INT_VALUE_Q
     [(39, 39, INT_TAG_SPACE)]"

definition htmlparser_transition_row_value_dq_start :: "int list" where
  "htmlparser_transition_row_value_dq_start = fsm_row INT_VALUE_DQ
     [(34, 34, INT_TAG_SPACE)]"

definition htmlparser_transition_row_value_dq :: "int list" where
  "htmlparser_transition_row_value_dq = fsm_row INT_VALUE_DQ
     [(34, 34, INT_TAG_SPACE)]"

definition htmlparser_transition_row_cdata_comment_start :: "int list" where
  "htmlparser_transition_row_cdata_comment_start = fsm_row INT_CDATA_TEXT
     [(45, 45, INT_CDATA_COMMENT_START_DASH)]"

definition htmlparser_transition_row_cdata_comment_start_dash :: "int list" where
  "htmlparser_transition_row_cdata_comment_start_dash = fsm_row INT_CDATA_TEXT
     [(45, 45, INT_CDATA_COMMENT_BODY)]"

definition htmlparser_transition_row_cdata_comment_body :: "int list" where
  "htmlparser_transition_row_cdata_comment_body = fsm_row INT_CDATA_COMMENT_BODY
     [(45, 45, INT_CDATA_COMMENT_DASH)]"

definition htmlparser_transition_row_cdata_comment_dash :: "int list" where
  "htmlparser_transition_row_cdata_comment_dash = fsm_row INT_CDATA_COMMENT_BODY
     [(45, 45, INT_CDATA_COMMENT_DASH_DASH)]"

definition htmlparser_transition_row_cdata_comment_dash_dash :: "int list" where
  "htmlparser_transition_row_cdata_comment_dash_dash = fsm_row INT_CDATA_COMMENT_BODY
     [(45, 45, INT_CDATA_COMMENT_DASH_DASH), (62, 62, INT_CDATA_TEXT)]"

definition htmlparser_transition_row_cdata_text :: "int list" where
  "htmlparser_transition_row_cdata_text = fsm_row INT_CDATA_TEXT
     [(60, 60, INT_CDATA_LT)]"

definition htmlparser_transition_row_cdata_lt :: "int list" where
  "htmlparser_transition_row_cdata_lt = fsm_row INT_CDATA_TEXT
     [(33, 33, INT_CDATA_COMMENT_START), (47, 47, INT_CDATA_MAY_CLOSE)]"

definition htmlparser_transition_row_cdata_may_close :: "int list" where
  "htmlparser_transition_row_cdata_may_close = fsm_row INT_CDATA_TEXT
     [(9, 10, INT_TAG_SPACE), (13, 13, INT_TAG_SPACE), (32, 32, INT_TAG_SPACE),
      (45, 58, INT_CDATA_MAY_CLOSE), (62, 62, INT_TEXT), (65, 90, INT_CDATA_MAY_CLOSE),
      (95, 95, INT_CDATA_MAY_CLOSE), (97, 122, INT_CDATA_MAY_CLOSE)]"

definition htmlparser_transition_row_js_file :: "int list" where
  "htmlparser_transition_row_js_file = fsm_row INT_JS_FILE
     []"

definition htmlparser_transition_row_css_file :: "int list" where
  "htmlparser_transition_row_css_file = fsm_row INT_CSS_FILE
     []"

definition htmlparser_transition_row_null :: "int list" where
  "htmlparser_transition_row_null = fsm_row INT_NULL
     []"

definition htmlparser_state_transitions :: "int list list" where
  "htmlparser_state_transitions =
     [htmlparser_transition_row_text,
      htmlparser_transition_row_tag_start,
      htmlparser_transition_row_tag_name,
      htmlparser_transition_row_declaration_start,
      htmlparser_transition_row_declaration_body,
      htmlparser_transition_row_comment_open,
      htmlparser_transition_row_comment_body,
      htmlparser_transition_row_comment_dash,
      htmlparser_transition_row_comment_dash_dash,
      htmlparser_transition_row_pi,
      htmlparser_transition_row_pi_may_end,
      htmlparser_transition_row_tag_space,
      htmlparser_transition_row_tag_close,
      htmlparser_transition_row_attr,
      htmlparser_transition_row_attr_space,
      htmlparser_transition_row_value,
      htmlparser_transition_row_value_text,
      htmlparser_transition_row_value_q_start,
      htmlparser_transition_row_value_q,
      htmlparser_transition_row_value_dq_start,
      htmlparser_transition_row_value_dq,
      htmlparser_transition_row_cdata_comment_start,
      htmlparser_transition_row_cdata_comment_start_dash,
      htmlparser_transition_row_cdata_comment_body,
      htmlparser_transition_row_cdata_comment_dash,
      htmlparser_transition_row_cdata_comment_dash_dash,
      htmlparser_transition_row_cdata_text,
      htmlparser_transition_row_cdata_lt,
      htmlparser_transition_row_cdata_may_close,
      htmlparser_transition_row_js_file,
      htmlparser_transition_row_css_file,
      htmlparser_transition_row_null]"

definition htmlparser_states_external :: "html_state list" where
  "htmlparser_states_external =
     [STATE_TEXT, STATE_TAG, STATE_TAG, STATE_TEXT, STATE_TEXT, STATE_TEXT, STATE_COMMENT,
      STATE_COMMENT, STATE_COMMENT, STATE_TEXT, STATE_TEXT, STATE_TAG, STATE_TEXT, STATE_ATTR,
      STATE_ATTR, STATE_VALUE, STATE_VALUE, STATE_VALUE, STATE_VALUE, STATE_VALUE, STATE_VALUE,
      STATE_TEXT, STATE_TEXT, STATE_TEXT, STATE_TEXT, STATE_TEXT, STATE_TEXT, STATE_TEXT, STATE_TEXT,
      STATE_JS_FILE, STATE_CSS_FILE, STATE_TEXT]"

definition htmlparser_states_internal_names :: "string list" where
  "htmlparser_states_internal_names =
     [''text'', ''tag_start'', ''tag_name'', ''declaration_start'', ''declaration_body'',
      ''comment_open'', ''comment_body'', ''comment_dash'', ''comment_dash_dash'', ''pi'',
      ''pi_may_end'', ''tag_space'', ''tag_close'', ''attr'', ''attr_space'', ''value'', ''value_text'',
      ''value_q_start'', ''value_q'', ''value_dq_start'', ''value_dq'', ''cdata_comment_start'',
      ''cdata_comment_start_dash'', ''cdata_comment_body'', ''cdata_comment_dash'',
      ''cdata_comment_dash_dash'', ''cdata_text'', ''cdata_lt'', ''cdata_may_close'', ''js_file'',
      ''css_file'', ''null'']"

section \<open>Javascript states\<close>

abbreviation (input) JS_TEXT :: int where "JS_TEXT \<equiv> 0"
abbreviation (input) JS_Q :: int where "JS_Q \<equiv> 1"
abbreviation (input) JS_Q_E :: int where "JS_Q_E \<equiv> 2"
abbreviation (input) JS_DQ :: int where "JS_DQ \<equiv> 3"
abbreviation (input) JS_DQ_E :: int where "JS_DQ_E \<equiv> 4"
abbreviation (input) JS_SLASH :: int where "JS_SLASH \<equiv> 5"
abbreviation (input) JS_REGEXP_SLASH :: int where "JS_REGEXP_SLASH \<equiv> 6"
abbreviation (input) JS_REGEXP :: int where "JS_REGEXP \<equiv> 7"
abbreviation (input) JS_REGEXP_BRACKET :: int where "JS_REGEXP_BRACKET \<equiv> 8"
abbreviation (input) JS_REGEXP_BRACKET_E :: int where "JS_REGEXP_BRACKET_E \<equiv> 9"
abbreviation (input) JS_REGEXP_E :: int where "JS_REGEXP_E \<equiv> 10"
abbreviation (input) JS_COMMENT_LN :: int where "JS_COMMENT_LN \<equiv> 11"
abbreviation (input) JS_COMMENT_ML :: int where "JS_COMMENT_ML \<equiv> 12"
abbreviation (input) JS_COMMENT_ML_CLOSE :: int where "JS_COMMENT_ML_CLOSE \<equiv> 13"
abbreviation (input) JS_COMMENT_AFTER :: int where "JS_COMMENT_AFTER \<equiv> 14"

definition JSPARSER_NUM_STATES :: int where "JSPARSER_NUM_STATES = 16"

definition jsparser_transition_row_js_text :: "int list" where
  "jsparser_transition_row_js_text = fsm_row JS_TEXT
     [(34, 34, JS_DQ), (39, 39, JS_Q), (47, 47, JS_SLASH)]"

definition jsparser_transition_row_js_q :: "int list" where
  "jsparser_transition_row_js_q = fsm_row JS_Q
     [(39, 39, JS_TEXT), (92, 92, JS_Q_E)]"

definition jsparser_transition_row_js_q_e :: "int list" where
  "jsparser_transition_row_js_q_e = fsm_row JS_Q
     []"

definition jsparser_transition_row_js_dq :: "int list" where
  "jsparser_transition_row_js_dq = fsm_row JS_DQ
     [(34, 34, JS_TEXT), (92, 92, JS_DQ_E)]"

definition jsparser_transition_row_js_dq_e :: "int list" where
  "jsparser_transition_row_js_dq_e = fsm_row JS_DQ
     []"

definition jsparser_transition_row_js_slash :: "int list" where
  "jsparser_transition_row_js_slash = fsm_row JS_TEXT
     [(42, 42, JS_COMMENT_ML), (47, 47, JS_COMMENT_LN)]"

definition jsparser_transition_row_js_regexp_slash :: "int list" where
  "jsparser_transition_row_js_regexp_slash = fsm_row JS_REGEXP
     [(42, 42, JS_COMMENT_ML), (47, 47, JS_COMMENT_LN), (91, 91, JS_REGEXP_BRACKET), (92, 92, JS_REGEXP_E)]"

definition jsparser_transition_row_js_regexp :: "int list" where
  "jsparser_transition_row_js_regexp = fsm_row JS_REGEXP
     [(47, 47, JS_TEXT), (91, 91, JS_REGEXP_BRACKET), (92, 92, JS_REGEXP_E)]"

definition jsparser_transition_row_js_regexp_bracket :: "int list" where
  "jsparser_transition_row_js_regexp_bracket = fsm_row JS_REGEXP_BRACKET
     [(92, 92, JS_REGEXP_BRACKET_E), (93, 93, JS_REGEXP)]"

definition jsparser_transition_row_js_regexp_bracket_e :: "int list" where
  "jsparser_transition_row_js_regexp_bracket_e = fsm_row JS_REGEXP_BRACKET
     []"

definition jsparser_transition_row_js_regexp_e :: "int list" where
  "jsparser_transition_row_js_regexp_e = fsm_row JS_REGEXP
     []"

definition jsparser_transition_row_js_comment_ln :: "int list" where
  "jsparser_transition_row_js_comment_ln = fsm_row JS_COMMENT_LN
     [(10, 10, JS_COMMENT_AFTER)]"

definition jsparser_transition_row_js_comment_ml :: "int list" where
  "jsparser_transition_row_js_comment_ml = fsm_row JS_COMMENT_ML
     [(42, 42, JS_COMMENT_ML_CLOSE)]"

definition jsparser_transition_row_js_comment_ml_close :: "int list" where
  "jsparser_transition_row_js_comment_ml_close = fsm_row JS_COMMENT_ML
     [(47, 47, JS_COMMENT_AFTER)]"

definition jsparser_transition_row_js_comment_after :: "int list" where
  "jsparser_transition_row_js_comment_after = fsm_row JS_TEXT
     [(34, 34, JS_DQ), (39, 39, JS_Q), (47, 47, JS_SLASH)]"

definition jsparser_state_transitions :: "int list list" where
  "jsparser_state_transitions =
     [jsparser_transition_row_js_text,
      jsparser_transition_row_js_q,
      jsparser_transition_row_js_q_e,
      jsparser_transition_row_js_dq,
      jsparser_transition_row_js_dq_e,
      jsparser_transition_row_js_slash,
      jsparser_transition_row_js_regexp_slash,
      jsparser_transition_row_js_regexp,
      jsparser_transition_row_js_regexp_bracket,
      jsparser_transition_row_js_regexp_bracket_e,
      jsparser_transition_row_js_regexp_e,
      jsparser_transition_row_js_comment_ln,
      jsparser_transition_row_js_comment_ml,
      jsparser_transition_row_js_comment_ml_close,
      jsparser_transition_row_js_comment_after]"

definition jsparser_states_external :: "js_state list" where
  "jsparser_states_external =
     [JSPARSER_STATE_TEXT, JSPARSER_STATE_Q, JSPARSER_STATE_Q, JSPARSER_STATE_DQ, JSPARSER_STATE_DQ,
      JSPARSER_STATE_TEXT, JSPARSER_STATE_TEXT, JSPARSER_STATE_REGEXP, JSPARSER_STATE_REGEXP,
      JSPARSER_STATE_REGEXP, JSPARSER_STATE_REGEXP, JSPARSER_STATE_COMMENT, JSPARSER_STATE_COMMENT,
      JSPARSER_STATE_COMMENT, JSPARSER_STATE_TEXT]"

definition jsparser_states_internal_names :: "string list" where
  "jsparser_states_internal_names =
     [''js_text'', ''js_q'', ''js_q_e'', ''js_dq'', ''js_dq_e'', ''js_slash'', ''js_regexp_slash'',
      ''js_regexp'', ''js_regexp_bracket'', ''js_regexp_bracket_e'', ''js_regexp_e'', ''js_comment_ln'',
      ''js_comment_ml'', ''js_comment_ml_close'', ''js_comment_after'']"

section \<open>The tables\<close>

lemmas html_rows =
  htmlparser_transition_row_text_def htmlparser_transition_row_tag_start_def
  htmlparser_transition_row_tag_name_def htmlparser_transition_row_declaration_start_def
  htmlparser_transition_row_declaration_body_def htmlparser_transition_row_comment_open_def
  htmlparser_transition_row_comment_body_def htmlparser_transition_row_comment_dash_def
  htmlparser_transition_row_comment_dash_dash_def htmlparser_transition_row_pi_def
  htmlparser_transition_row_pi_may_end_def htmlparser_transition_row_tag_space_def
  htmlparser_transition_row_tag_close_def htmlparser_transition_row_attr_def
  htmlparser_transition_row_attr_space_def htmlparser_transition_row_value_def
  htmlparser_transition_row_value_text_def htmlparser_transition_row_value_q_start_def
  htmlparser_transition_row_value_q_def htmlparser_transition_row_value_dq_start_def
  htmlparser_transition_row_value_dq_def htmlparser_transition_row_cdata_comment_start_def
  htmlparser_transition_row_cdata_comment_start_dash_def htmlparser_transition_row_cdata_comment_body_def
  htmlparser_transition_row_cdata_comment_dash_def htmlparser_transition_row_cdata_comment_dash_dash_def
  htmlparser_transition_row_cdata_text_def htmlparser_transition_row_cdata_lt_def
  htmlparser_transition_row_cdata_may_close_def htmlparser_transition_row_js_file_def
  htmlparser_transition_row_css_file_def htmlparser_transition_row_null_def

lemmas js_rows =
  jsparser_transition_row_js_text_def jsparser_transition_row_js_q_def jsparser_transition_row_js_q_e_def
  jsparser_transition_row_js_dq_def jsparser_transition_row_js_dq_e_def jsparser_transition_row_js_slash_def
  jsparser_transition_row_js_regexp_slash_def jsparser_transition_row_js_regexp_def
  jsparser_transition_row_js_regexp_bracket_def jsparser_transition_row_js_regexp_bracket_e_def
  jsparser_transition_row_js_regexp_e_def jsparser_transition_row_js_comment_ln_def
  jsparser_transition_row_js_comment_ml_def jsparser_transition_row_js_comment_ml_close_def
  jsparser_transition_row_js_comment_after_def

lemma html_table:
  "length htmlparser_state_transitions = 32"
  "row \<in> set htmlparser_state_transitions \<Longrightarrow> length row = 255 \<and> (\<forall>x \<in> set row. 0 \<le> x \<and> x < 32 \<or> x = STATEMACHINE_ERROR)"
proof -
  show "length htmlparser_state_transitions = 32" by (simp add: htmlparser_state_transitions_def)
  assume "row \<in> set htmlparser_state_transitions"
  then obtain d rs where row: "row = fsm_row d rs" "\<forall>x \<in> insert d (set (map (snd \<circ> snd) rs)). 0 \<le> x \<and> x < 32 \<or> x = STATEMACHINE_ERROR"
    unfolding htmlparser_state_transitions_def list.set html_rows
    by (elim insertE emptyE) (erule that, simp add: STATEMACHINE_ERROR_def)+
  then show "length row = 255 \<and> (\<forall>x \<in> set row. 0 \<le> x \<and> x < 32 \<or> x = STATEMACHINE_ERROR)"
    using set_fsm_row [of d rs] by auto
qed

lemma js_table:
  "length jsparser_state_transitions = 15"
  "row \<in> set jsparser_state_transitions \<Longrightarrow> length row = 255 \<and> (\<forall>x \<in> set row. 0 \<le> x \<and> x < 15)"
proof -
  show "length jsparser_state_transitions = 15" by (simp add: jsparser_state_transitions_def)
  assume "row \<in> set jsparser_state_transitions"
  then obtain d rs where row: "row = fsm_row d rs" "\<forall>x \<in> insert d (set (map (snd \<circ> snd) rs)). 0 \<le> x \<and> x < 15"
    unfolding jsparser_state_transitions_def list.set js_rows
    by (elim insertE emptyE) (erule that, simp)+
  then show "length row = 255 \<and> (\<forall>x \<in> set row. 0 \<le> x \<and> x < 15)"
    using set_fsm_row [of d rs] by auto
qed

end
