(* ===== verification/Js_Parser.thy ===== *)
theory Js_Parser
  imports Html_Tables
begin

text \<open>
  The javascript parser of the template engine (\<open>third/ctemplate-2.2/src/htmlparser/jsparser.cc\<close>): a
  machine over the table of the theory \<open>Html_Tables\<close> that tells whether a place in a script is inside
  a string, a regular expression or a comment. To tell a division from a regular expression, it
  keeps the last characters of the script text in a ring of 18. An access outside of the ring is
  \<open>UndefinedBehaviour\<close>. The ring holds at most 17 characters, so the copies of an identifier
  fit the buffers that the code gives for them.
\<close>

section \<open>The ring\<close>

definition JSPARSER_RING_BUFFER_SIZE :: int where "JSPARSER_RING_BUFFER_SIZE = 18"

record js_ring =
  ring_start :: int
  ring_end :: int
  ring_buffer :: "char list"

text \<open>The remainder of C, which has the sign of the dividend.\<close>

definition c_rem :: "int \<Rightarrow> int \<Rightarrow> int" where
  "c_rem a b = (if a < 0 then - ((- a) mod b) else a mod b)"

definition js_is_whitespace :: "char \<Rightarrow> bool" where
  "js_is_whitespace c \<longleftrightarrow>
     c = TAB \<or> c = CHR 0x0B \<or> c = CHR 0x0C \<or> c = CHR '' '' \<or> c = CHR 0xA0 \<or> c = LF \<or> c = CR"

definition js_is_identifier :: "char \<Rightarrow> bool" where
  "js_is_identifier c \<longleftrightarrow>
     (let n = (of_char c :: nat) in
      97 \<le> n \<and> n \<le> 122 \<or> 65 \<le> n \<and> n \<le> 90 \<or> 48 \<le> n \<and> n \<le> 57 \<or> c = CHR ''_'' \<or> c = CHR ''$'')"

definition jsparser_buffer_absolute_pos :: "js_ring \<Rightarrow> int \<Rightarrow> int result" where
  "jsparser_buffer_absolute_pos js pos =
     (if \<not> pos < 0 then Inl AssertFailure
      else if pos \<le> - JSPARSER_RING_BUFFER_SIZE then Inr (- 1)
      else
        (let d = ring_end js - ring_start js;
             buffer_len = (if d < 0 then d + JSPARSER_RING_BUFFER_SIZE else d)
         in if pos < - buffer_len then Inr (- 1)
            else
              (let a = c_rem (pos + ring_end js) JSPARSER_RING_BUFFER_SIZE
               in Inr (if a < 0 then a + JSPARSER_RING_BUFFER_SIZE else a))))"

definition jsparser_buffer_get :: "js_ring \<Rightarrow> int \<Rightarrow> char result" where
  "jsparser_buffer_get js pos =
     bindE (jsparser_buffer_absolute_pos js pos) (\<lambda>a.
       if a < 0 then Inr NUL else lookup_event (ring_buffer js) a)"

definition jsparser_buffer_set :: "js_ring \<Rightarrow> int \<Rightarrow> char \<Rightarrow> (bool \<times> js_ring) result" where
  "jsparser_buffer_set js pos v =
     bindE (jsparser_buffer_absolute_pos js pos) (\<lambda>a.
       if a < 0 then Inr (False, js)
       else if nat a < length (ring_buffer js) then Inr (True, js\<lparr>ring_buffer := (ring_buffer js)[nat a := v]\<rparr>)
       else Inl UndefinedBehaviour)"

definition jsparser_buffer_append_chr :: "js_ring \<Rightarrow> char \<Rightarrow> js_ring result" where
  "jsparser_buffer_append_chr js c =
     bindE (if js_is_whitespace c then bindE (jsparser_buffer_get js (- 1)) (\<lambda>l. Inr (js_is_whitespace l)) else Inr False)
       (\<lambda>folded.
          if folded then Inr js
          else if 0 \<le> ring_end js \<and> nat (ring_end js) < length (ring_buffer js) then
            (let e = c_rem (ring_end js + 1) JSPARSER_RING_BUFFER_SIZE
             in Inr (js\<lparr>ring_buffer := (ring_buffer js)[nat (ring_end js) := c], ring_end := e,
                  ring_start := (if e = ring_start js then c_rem (e + 1) JSPARSER_RING_BUFFER_SIZE else ring_start js)\<rparr>))
          else Inl UndefinedBehaviour)"

fun jsparser_buffer_append_str :: "js_ring \<Rightarrow> string \<Rightarrow> js_ring result" where
  "jsparser_buffer_append_str js [] = Inr js"
| "jsparser_buffer_append_str js (c # s) =
     bindE (jsparser_buffer_append_chr js c) (\<lambda>js1. jsparser_buffer_append_str js1 s)"

definition jsparser_buffer_pop :: "js_ring \<Rightarrow> (char \<times> js_ring) result" where
  "jsparser_buffer_pop js =
     (if ring_start js = ring_end js then Inr (NUL, js)
      else
        (let d = ring_end js - 1;
             e = (if d < 0 then d + JSPARSER_RING_BUFFER_SIZE else d)
         in bindE (lookup_event (ring_buffer js) e) (\<lambda>c. Inr (c, js\<lparr>ring_end := e\<rparr>))))"

function slice_loop :: "js_ring \<Rightarrow> int \<Rightarrow> int \<Rightarrow> string result" where
  "slice_loop js pos last_pos =
     (if pos \<le> last_pos then
        bindE (jsparser_buffer_get js pos) (\<lambda>c.
        bindE (slice_loop js (pos + 1) last_pos) (\<lambda>rest. Inr (if c \<noteq> NUL then c # rest else rest)))
      else Inr [])"
  by pat_completeness auto
termination by (relation "measure (\<lambda>(js, pos, last_pos). nat (last_pos + 1 - pos))") auto

declare slice_loop.simps [simp del]

definition jsparser_buffer_slice :: "js_ring \<Rightarrow> int \<Rightarrow> int \<Rightarrow> string result" where
  "jsparser_buffer_slice js start_pos last_pos =
     (if start_pos \<le> last_pos \<and> start_pos < 0 \<and> last_pos < 0 then slice_loop js start_pos last_pos
      else Inl AssertFailure)"

text \<open>The search for the start of the identifier before a position ends at the end of the ring.\<close>

lemma get_far: "pos \<le> - 18 \<Longrightarrow> jsparser_buffer_get js pos = Inr NUL"
  by (simp add: jsparser_buffer_get_def jsparser_buffer_absolute_pos_def JSPARSER_RING_BUFFER_SIZE_def)

lemma not_identifier_NUL: "\<not> js_is_identifier NUL"
  by (simp add: js_is_identifier_def)

function identifier_start :: "js_ring \<Rightarrow> int \<Rightarrow> int result" where
  "identifier_start js pos =
     (case jsparser_buffer_get js pos of
        Inl e \<Rightarrow> Inl e
      | Inr c \<Rightarrow> if js_is_identifier c then identifier_start js (pos - 1) else Inr pos)"
  by pat_completeness auto
termination
proof (relation "measure (\<lambda>(js, pos). nat (pos + 18))")
  fix js pos c
  assume "jsparser_buffer_get js pos = Inr c" "js_is_identifier c"
  then have "- 18 < pos" using get_far [of pos js] not_identifier_NUL by (cases "pos \<le> - 18") auto
  then show "((js, pos - 1), (js, pos)) \<in> measure (\<lambda>(js, pos). nat (pos + 18))" by simp
qed simp

declare identifier_start.simps [simp del]

text \<open>\<open>None\<close> is the answer 0, with an empty identifier.\<close>

definition jsparser_buffer_last_identifier :: "js_ring \<Rightarrow> string option result" where
  "jsparser_buffer_last_identifier js =
     bindE (jsparser_buffer_get js (- 1)) (\<lambda>l.
       let last_pos = (if js_is_whitespace l then - 2 else - 1)
       in bindE (identifier_start js last_pos) (\<lambda>pos.
            if pos + 1 \<ge> last_pos then Inr None
            else bindE (jsparser_buffer_slice js (pos + 1) last_pos) (\<lambda>identifier. Inr (Some identifier))))"

section \<open>Keywords\<close>

definition regexp_token_prefix :: "string list" where
  "regexp_token_prefix =
     [''abstract'', ''break'', ''case'', ''catch'', ''class'', ''const'', ''continue'', ''debugger'', ''default'',
      ''delete'', ''do'', ''else'', ''enum'', ''eval'', ''export'', ''extends'', ''field'', ''final'', ''finally'',
      ''for'', ''function'', ''goto'', ''if'', ''implements'', ''import'', ''in'', ''instanceof'', ''native'', ''new'',
      ''package'', ''private'', ''protected'', ''public'', ''return'', ''static'', ''switch'', ''synchronized'',
      ''throw'', ''throws'', ''transient'', ''try'', ''typeof'', ''var'', ''void'', ''volatile'', ''while'', ''with'']"

text \<open>\<open>bsearch\<close> finds a key in a sorted array, which the list is.\<close>

definition is_regexp_token_prefix :: "string \<Rightarrow> bool" where
  "is_regexp_token_prefix token \<longleftrightarrow> token \<in> set regexp_token_prefix"

section \<open>Events\<close>

definition in_state_js_text :: "js_ring state_event_function" where
  "in_state_js_text ctx st c nx =
     bindE (jsparser_buffer_append_chr (user ctx) c) (\<lambda>js. Inr (ctx\<lparr>user := js\<rparr>))"

text \<open>Whether a slash after the given character opens a regular expression.\<close>

definition slash_opens_regexp :: "js_ring \<Rightarrow> int \<Rightarrow> char \<Rightarrow> bool result" where
  "slash_opens_regexp js pos c =
     (if c = CHR ''+'' then bindE (jsparser_buffer_get js (pos - 1)) (\<lambda>d. Inr (d \<noteq> CHR ''+''))
      else if c = CHR ''-'' then bindE (jsparser_buffer_get js (pos - 1)) (\<lambda>d. Inr (d \<noteq> CHR ''-''))
      else if c \<in> set (NUL # ''=<>&|!%*/,;?:^~{([}'') then Inr True
      else bindE (jsparser_buffer_last_identifier js) (\<lambda>w.
        Inr (case w of None \<Rightarrow> False | Some token \<Rightarrow> is_regexp_token_prefix token)))"

definition enter_state_js_slash :: "js_ring state_event_function" where
  "enter_state_js_slash ctx st c nx =
     bindE (jsparser_buffer_get (user ctx) (- 1)) (\<lambda>l.
       let pos = (if js_is_whitespace l then - 2 else - 1)
       in bindE (jsparser_buffer_get (user ctx) pos) (\<lambda>d.
          bindE (slash_opens_regexp (user ctx) pos d) (\<lambda>rx.
          bindE (jsparser_buffer_append_chr (user ctx) c) (\<lambda>js.
            Inr (ctx\<lparr>next_state := (if rx then JS_REGEXP_SLASH else next_state ctx), user := js\<rparr>)))))"

definition enter_state_js_comment_after :: "js_ring state_event_function" where
  "enter_state_js_comment_after ctx st c nx =
     bindE (jsparser_buffer_get (user ctx) (- 2)) (\<lambda>d.
       if js_is_whitespace d
       then bindE (jsparser_buffer_pop (user ctx)) (\<lambda>(_, js). Inr (ctx\<lparr>user := js\<rparr>))
       else bindE (jsparser_buffer_set (user ctx) (- 1) (CHR '' '')) (\<lambda>(_, js). Inr (ctx\<lparr>user := js\<rparr>)))"

section \<open>The parser\<close>

text \<open>\<open>create_statemachine_definition\<close> of \<open>jsparser.cc\<close>\<close>

definition js_create_definition :: "js_ring statemachine_definition result" where
  "js_create_definition =
     (let def = statemachine_definition_populate (statemachine_definition_new JSPARSER_NUM_STATES)
                  jsparser_state_transitions (Some jsparser_states_internal_names)
      in bindE (statemachine_in_state def JS_TEXT in_state_js_text) (\<lambda>def1.
         bindE (statemachine_enter_state def1 JS_SLASH enter_state_js_slash) (\<lambda>def2.
         statemachine_enter_state def2 JS_COMMENT_AFTER enter_state_js_comment_after)))"

type_synonym jsparser_ctx = "js_ring statemachine_ctx"

definition jsparser_reset :: "jsparser_ctx \<Rightarrow> jsparser_ctx" where
  "jsparser_reset ctx = ctx\<lparr>current_state := 0, user := (user ctx)\<lparr>ring_start := 0, ring_end := 0\<rparr>\<rparr>"

text \<open>The ring is allocated with zeros, the context is not.\<close>

definition jsparser_new :: "jsparser_ctx \<Rightarrow> jsparser_ctx" where
  "jsparser_new raw =
     jsparser_reset (statemachine_new raw \<lparr>ring_start = 0, ring_end = 0, ring_buffer = replicate 18 NUL\<rparr>)"

definition jsparser_copy :: "jsparser_ctx \<Rightarrow> jsparser_ctx \<Rightarrow> jsparser_ctx" where
  "jsparser_copy dst src = statemachine_copy dst src (user src)"

definition jsparser_duplicate :: "jsparser_ctx \<Rightarrow> jsparser_ctx \<Rightarrow> jsparser_ctx" where
  "jsparser_duplicate raw src = jsparser_copy (jsparser_new raw) src"

definition js_state_external :: "int \<Rightarrow> js_state result" where
  "js_state_external st =
     (if st < JSPARSER_NUM_STATES \<and> 0 \<le> st then lookup_event jsparser_states_external st else Inl AssertFailure)"

definition jsparser_state :: "jsparser_ctx \<Rightarrow> js_state result" where
  "jsparser_state ctx = js_state_external (current_state ctx)"

definition jsparser_parse :: "jsparser_ctx \<Rightarrow> string \<Rightarrow> int \<Rightarrow> (js_state \<times> jsparser_ctx) result" where
  "jsparser_parse ctx str len =
     bindE js_create_definition (\<lambda>def.
     bindE (statemachine_parse def str len ctx) (\<lambda>(st, ctx1).
     bindE (js_state_external st) (\<lambda>ext. Inr (ext, ctx1))))"

definition jsparser_parse_chr :: "jsparser_ctx \<Rightarrow> char \<Rightarrow> jsparser_ctx result" where
  "jsparser_parse_chr ctx c = bindE (jsparser_parse ctx [c] 1) (\<lambda>(_, ctx1). Inr ctx1)"

definition jsparser_parse_str :: "jsparser_ctx \<Rightarrow> string \<Rightarrow> jsparser_ctx result" where
  "jsparser_parse_str ctx s = bindE (jsparser_parse ctx s (int (length s))) (\<lambda>(_, ctx1). Inr ctx1)"

section \<open>The ring as a list\<close>

definition ring_ok :: "js_ring \<Rightarrow> bool" where
  "ring_ok js \<longleftrightarrow>
     length (ring_buffer js) = 18 \<and> 0 \<le> ring_start js \<and> ring_start js < 18 \<and> 0 \<le> ring_end js \<and> ring_end js < 18"

definition ring_length :: "js_ring \<Rightarrow> nat" where
  "ring_length js = nat ((ring_end js - ring_start js) mod 18)"

definition contents :: "js_ring \<Rightarrow> string" where
  "contents js = map (\<lambda>i. ring_buffer js ! nat ((ring_start js + int i) mod 18)) [0..<ring_length js]"

lemma length_contents [simp]: "length (contents js) = ring_length js"
  by (simp add: contents_def)

lemma contents_nth: "i < ring_length js \<Longrightarrow> contents js ! i = ring_buffer js ! nat ((ring_start js + int i) mod 18)"
  by (simp add: contents_def)

lemma ring_length_less: "ring_length js \<le> 17"
  by (simp add: ring_length_def nat_le_iff)

lemma ring_length_cases:
  assumes "ring_ok js"
  shows "int (ring_length js) =
    (if ring_end js < ring_start js then ring_end js - ring_start js + 18 else ring_end js - ring_start js)"
proof (cases "ring_end js < ring_start js")
  case True
  have "(ring_end js - ring_start js) mod 18 = (ring_end js - ring_start js + 18) mod 18" by simp
  also have "\<dots> = ring_end js - ring_start js + 18" using assms True by (intro mod_pos_pos_trivial) (simp_all add: ring_ok_def)
  finally show ?thesis using True assms by (simp add: ring_length_def ring_ok_def)
next
  case False
  then have "(ring_end js - ring_start js) mod 18 = ring_end js - ring_start js"
    using assms by (intro mod_pos_pos_trivial) (simp_all add: ring_ok_def)
  then show ?thesis using False by (simp add: ring_length_def)
qed

text \<open>An index in the ring, by the number of characters after it.\<close>

lemma absolute_pos_length:
  assumes "ring_ok js" "pos < 0"
  shows "jsparser_buffer_absolute_pos js pos =
    (if pos \<le> - 18 \<or> pos < - int (ring_length js) then Inr (- 1)
     else Inr (let a = c_rem (pos + ring_end js) 18 in if a < 0 then a + 18 else a))"
proof -
  have "(if ring_end js - ring_start js < 0 then ring_end js - ring_start js + 18 else ring_end js - ring_start js) =
      int (ring_length js)"
    using ring_length_cases [OF assms(1)] by simp
  then show ?thesis
    using assms(2) unfolding jsparser_buffer_absolute_pos_def JSPARSER_RING_BUFFER_SIZE_def Let_def by simp
qed

lemma c_rem_wrap:
  assumes "0 \<le> e" "e < 18" "k < 17"
  shows "(let a = c_rem (- int k - 1 + e) 18 in if a < 0 then a + 18 else a) = (e - int k - 1) mod 18"
proof (cases "- int k - 1 + e < 0")
  case True
  have "(int k + 1 - e) mod 18 = int k + 1 - e" using True assms by (intro mod_pos_pos_trivial) linarith+
  moreover have "(e - int k - 1) mod 18 = (e - int k - 1 + 18) mod 18" by (rule mod_add_self2 [symmetric])
  moreover have "(e - int k - 1 + 18) mod 18 = e - int k - 1 + 18" using True assms by (intro mod_pos_pos_trivial) linarith+
  ultimately show ?thesis using True by (simp add: c_rem_def Let_def)
next
  case False
  then have "c_rem (- int k - 1 + e) 18 = (e - int k - 1) mod 18" by (simp add: c_rem_def algebra_simps)
  then show ?thesis by (simp add: Let_def)
qed

lemma absolute_pos:
  assumes "ring_ok js"
  shows "jsparser_buffer_absolute_pos js (- int k - 1) =
    Inr (if k < ring_length js then (ring_end js - int k - 1) mod 18 else - 1)"
proof (cases "k < ring_length js")
  case True
  then have k: "k < 17" using ring_length_less [of js] by linarith
  have "(let a = c_rem (- int k - 1 + ring_end js) 18 in if a < 0 then a + 18 else a) = (ring_end js - int k - 1) mod 18"
    using assms by (intro c_rem_wrap [OF _ _ k]) (simp_all add: ring_ok_def)
  then show ?thesis using True k absolute_pos_length [OF assms, of "- int k - 1"] by simp
next
  case False
  then show ?thesis using absolute_pos_length [OF assms, of "- int k - 1"] by simp
qed

lemma ring_index:
  assumes "ring_ok js" "k < ring_length js"
  shows "(ring_end js - int k - 1) mod 18 = (ring_start js + int (ring_length js - 1 - k)) mod 18"
proof -
  have "ring_start js + int (ring_length js - 1 - k) =
      (ring_end js - int k - 1) + (if ring_end js < ring_start js then 18 else 0)"
    using assms(2) ring_length_cases [OF assms(1)] by (simp add: of_nat_diff split: if_splits)
  then show ?thesis using mod_add_self2 [of "ring_end js - int k - 1" 18] by (cases "ring_end js < ring_start js") simp_all
qed

text \<open>Reading counts from the end; outside of the contents it gives a NUL.\<close>

definition from_end :: "string \<Rightarrow> nat \<Rightarrow> char" where
  "from_end s k = (if k < length s then rev s ! k else NUL)"

lemma ring_get:
  assumes "ring_ok js"
  shows "jsparser_buffer_get js (- int k - 1) = Inr (from_end (contents js) k)"
proof (cases "k < ring_length js")
  case True
  let ?i = "(ring_end js - int k - 1) mod 18"
  have i: "0 \<le> ?i" "nat ?i < length (ring_buffer js)"
    using assms by (simp_all add: ring_ok_def nat_less_iff)
  have "rev (contents js) ! k = ring_buffer js ! nat ?i"
    using True ring_index [OF assms True] by (simp add: rev_nth contents_def)
  then show ?thesis using True i leD [OF i(1)]
    by (simp add: jsparser_buffer_get_def absolute_pos [OF assms] lookup_event_def from_end_def)
next
  case False
  then show ?thesis by (simp add: jsparser_buffer_get_def absolute_pos [OF assms] from_end_def)
qed

lemma ring_get_last:
  assumes "ring_ok js"
  shows "jsparser_buffer_get js (- 1) = Inr (from_end (contents js) 0)"
    "jsparser_buffer_get js (- 2) = Inr (from_end (contents js) 1)"
    "jsparser_buffer_get js (- 3) = Inr (from_end (contents js) 2)"
  using ring_get [OF assms, of 0] ring_get [OF assms, of 1] ring_get [OF assms, of 2] by simp_all

text \<open>Appending: white space is folded, and the first character goes when there are 17.\<close>

definition ring_add :: "string \<Rightarrow> char \<Rightarrow> string" where
  "ring_add s c =
     (if js_is_whitespace c \<and> js_is_whitespace (from_end s 0) then s
      else drop (length s + 1 - 17) (s @ [c]))"

lemma ring_places:
  assumes "(s + int i) mod 18 = (s + int j) mod 18" "i < 18" "j < 18"
  shows "i = j"
proof -
  have d: "18 dvd (int i - int j)" using assms(1) by (simp add: mod_eq_dvd_iff)
  show ?thesis
  proof (rule ccontr)
    assume "i \<noteq> j"
    then have "18 \<le> \<bar>int i - int j\<bar>" using dvd_imp_le_int [OF _ d] by simp
    then show False using assms(2,3) by linarith
  qed
qed

lemma ring_end_place:
  assumes "ring_ok js" shows "(ring_start js + int (ring_length js)) mod 18 = ring_end js"
proof -
  have "ring_start js + int (ring_length js) = ring_end js + (if ring_end js < ring_start js then 18 else 0)"
    using ring_length_cases [OF assms] by (simp split: if_splits)
  moreover have "ring_end js mod 18 = ring_end js" using assms by (simp add: ring_ok_def)
  ultimately show ?thesis by (cases "ring_end js < ring_start js") simp_all
qed

lemma ring_write:
  assumes "ring_ok js" "i < 18"
  shows "(ring_buffer js)[nat (ring_end js) := c] ! nat ((ring_start js + int i) mod 18) =
    (if i = ring_length js then c else ring_buffer js ! nat ((ring_start js + int i) mod 18))"
proof -
  have "ring_length js < 18" using ring_length_less [of js] by linarith
  then have "nat ((ring_start js + int i) mod 18) = nat (ring_end js) \<longleftrightarrow> i = ring_length js"
    using assms ring_end_place [OF assms(1)] ring_places [of "ring_start js" i "ring_length js"]
    by (auto simp: ring_ok_def)
  moreover have "nat (ring_end js) < length (ring_buffer js)" using assms(1) by (simp add: ring_ok_def nat_less_iff)
  ultimately show ?thesis by (auto simp: nth_list_update)
qed

lemma ring_append:
  assumes "ring_ok js"
  shows "\<exists>js'. jsparser_buffer_append_chr js c = Inr js' \<and> ring_ok js' \<and> contents js' = ring_add (contents js) c"
proof (cases "js_is_whitespace c \<and> js_is_whitespace (from_end (contents js) 0)")
  case True
  then have "jsparser_buffer_append_chr js c = Inr js"
    by (simp add: jsparser_buffer_append_chr_def ring_get_last [OF assms])
  then show ?thesis using True assms by (simp add: ring_add_def)
next
  case False
  let ?b = "(ring_buffer js)[nat (ring_end js) := c]"
  let ?e = "(ring_end js + 1) mod 18"
  let ?js = "js\<lparr>ring_buffer := ?b, ring_end := ?e, ring_start := (if ?e = ring_start js then (?e + 1) mod 18 else ring_start js)\<rparr>"
  have range: "0 \<le> ring_end js" "ring_end js < 18" "0 \<le> ring_start js" "ring_start js < 18" "length (ring_buffer js) = 18"
    using assms by (simp_all add: ring_ok_def)
  have unfolded: "jsparser_buffer_append_chr js c = Inr ?js"
    using False range
    by (auto simp: jsparser_buffer_append_chr_def ring_get_last [OF assms] Let_def c_rem_def JSPARSER_RING_BUFFER_SIZE_def)
  have ok: "ring_ok ?js" using range by (simp add: ring_ok_def)
  let ?n = "ring_length js"
  have n: "?n \<le> 17" by (rule ring_length_less)
  have e: "?e = (ring_start js + int (Suc ?n)) mod 18"
    using ring_end_place [OF assms] by (metis add.assoc mod_add_left_eq of_nat_Suc add.commute)
  have s0: "ring_start js = (ring_start js + int 0) mod 18" using range by simp
  have full: "?e = ring_start js \<longleftrightarrow> ?n = 17"
  proof
    assume "?e = ring_start js"
    then have eq: "(ring_start js + int (Suc ?n)) mod 18 = (ring_start js + int 0) mod 18" using e s0 by simp
    show "?n = 17"
    proof (rule ccontr)
      assume "?n \<noteq> 17"
      then have "Suc ?n < 18" using n by linarith
      from ring_places [OF eq this] show False by simp
    qed
  next
    assume "?n = 17"
    then show "?e = ring_start js" using e s0 by simp
  qed
  have "contents ?js = drop (?n + 1 - 17) (contents js @ [c])"
  proof (cases "?n = 17")
    case True
    then have start: "ring_start ?js = (ring_start js + 1) mod 18" using full by simp
    have len: "ring_length ?js = 17"
    proof -
      have "(ring_end ?js - ring_start ?js) mod 18 = (?e - (?e + 1)) mod 18"
        using True full by (simp add: mod_diff_right_eq)
      then show ?thesis by (simp add: ring_length_def)
    qed
    have place: "(ring_start ?js + int i) mod 18 = (ring_start js + int (Suc i)) mod 18" for i
    proof -
      have "(ring_start ?js + int i) mod 18 = ((ring_start js + 1) mod 18 + int i) mod 18"
        by (rule arg_cong [OF start])
      also have "\<dots> = (ring_start js + 1 + int i) mod 18" by (rule mod_add_left_eq)
      finally show ?thesis by (simp add: add.assoc)
    qed
    have "contents ?js ! i = drop 1 (contents js @ [c]) ! i" if i: "i < 17" for i
    proof -
      have "contents ?js ! i = ?b ! nat ((ring_start ?js + int i) mod 18)"
        unfolding contents_def len using i by simp
      also have "\<dots> = ?b ! nat ((ring_start js + int (Suc i)) mod 18)" by (simp only: place)
      also have "\<dots> = (if Suc i = ?n then c else ring_buffer js ! nat ((ring_start js + int (Suc i)) mod 18))"
        using i by (intro ring_write [OF assms]) simp
      also have "\<dots> = (contents js @ [c]) ! Suc i"
        using i True by (simp add: contents_def nth_append del: of_nat_Suc)
      also have "\<dots> = drop 1 (contents js @ [c]) ! i" by (subst nth_drop) simp_all
      finally show ?thesis .
    qed
    then show ?thesis using len True by (intro nth_equalityI) simp_all
  next
    case False
    then have start: "ring_start ?js = ring_start js" using full by simp
    have len: "ring_length ?js = Suc ?n"
    proof -
      have "int (Suc ?n) mod 18 = int (Suc ?n)" using False n by (intro mod_pos_pos_trivial) linarith+
      moreover have "(ring_end ?js - ring_start ?js) mod 18 = int (Suc ?n) mod 18"
        using e start by (simp add: mod_diff_left_eq del: of_nat_Suc)
      ultimately show ?thesis by (simp add: ring_length_def del: of_nat_Suc)
    qed
    have "contents ?js ! i = (contents js @ [c]) ! i" if i: "i < Suc ?n" for i
    proof -
      have "contents ?js ! i = ?b ! nat ((ring_start js + int i) mod 18)"
        using contents_nth [of i ?js] i unfolding len start by simp
      also have "\<dots> = (if i = ?n then c else ring_buffer js ! nat ((ring_start js + int i) mod 18))"
        using i n False by (intro ring_write [OF assms]) linarith
      also have "\<dots> = (contents js @ [c]) ! i" using i by (auto simp: contents_def nth_append)
      finally show ?thesis .
    qed
    then show ?thesis using len False n by (intro nth_equalityI) simp_all
  qed
  then show ?thesis using unfolded ok False by (auto simp: ring_add_def)
qed

lemma ring_pop:
  assumes "ring_ok js"
  shows "\<exists>c js'. jsparser_buffer_pop js = Inr (c, js') \<and> ring_ok js' \<and> contents js' = butlast (contents js)"
proof (cases "ring_start js = ring_end js")
  case True
  then have "ring_length js = 0" by (simp add: ring_length_def)
  then show ?thesis using True assms by (simp add: jsparser_buffer_pop_def contents_def)
next
  case False
  let ?e = "if ring_end js = 0 then 17 else ring_end js - 1"
  let ?js = "js\<lparr>ring_end := ?e\<rparr>"
  have range: "0 \<le> ring_end js" "ring_end js < 18" "0 \<le> ring_start js" "ring_start js < 18" "length (ring_buffer js) = 18"
    using assms by (simp_all add: ring_ok_def)
  have ok: "ring_ok ?js" using range by (auto simp: ring_ok_def)
  have "jsparser_buffer_pop js = Inr (ring_buffer js ! nat ?e, ?js)"
    using False range by (cases "ring_end js = 0")
      (auto simp: jsparser_buffer_pop_def Let_def JSPARSER_RING_BUFFER_SIZE_def lookup_event_def)
  moreover have "contents ?js = butlast (contents js)"
  proof -
    have "ring_length ?js = ring_length js - 1"
      using False range ring_length_cases [OF assms] ring_length_cases [OF ok] by (auto split: if_splits)
    then show ?thesis by (simp add: contents_def butlast_conv_take take_map)
  qed
  ultimately show ?thesis using ok by blast
qed

lemma ring_set_last:
  assumes "ring_ok js"
  shows "\<exists>b js'. jsparser_buffer_set js (- 1) c = Inr (b, js') \<and> ring_ok js' \<and>
    contents js' = (if contents js = [] then [] else butlast (contents js) @ [c])"
proof (cases "ring_length js = 0")
  case True
  then have "jsparser_buffer_set js (- 1) c = Inr (False, js)"
    using absolute_pos [OF assms, of 0] by (simp add: jsparser_buffer_set_def)
  then show ?thesis using True assms by (auto simp: contents_def)
next
  case False
  let ?n = "ring_length js" and ?i = "(ring_end js - 1) mod 18"
  let ?js = "js\<lparr>ring_buffer := (ring_buffer js)[nat ?i := c]\<rparr>"
  have "nat ?i < length (ring_buffer js)" using assms by (simp add: ring_ok_def nat_less_iff)
  then have "jsparser_buffer_set js (- 1) c = Inr (True, ?js)"
    using False absolute_pos [OF assms, of 0] by (simp add: jsparser_buffer_set_def leD [OF pos_mod_sign])
  moreover have ok: "ring_ok ?js" using assms by (simp add: ring_ok_def)
  moreover have "contents ?js = butlast (contents js) @ [c]"
  proof -
    have len: "ring_length ?js = ?n" by (simp add: ring_length_def)
    have last: "?i = (ring_start js + int (?n - 1)) mod 18"
      using ring_index [OF assms, of 0] False by simp
    have "contents ?js ! i = (butlast (contents js) @ [c]) ! i" if i: "i < ?n" for i
    proof -
      have "i < 18" "?n - 1 < 18" using i ring_length_less [of js] by linarith+
      then have "(ring_start js + int i) mod 18 = ?i \<longleftrightarrow> i = ?n - 1"
        using ring_places [of "ring_start js" i "?n - 1"] by (metis last)
      then have "nat ((ring_start js + int i) mod 18) = nat ?i \<longleftrightarrow> i = ?n - 1"
        by (simp only: eq_nat_nat_iff [OF pos_mod_sign pos_mod_sign] zero_less_numeral)
      then show ?thesis using i len \<open>nat ?i < length (ring_buffer js)\<close>
        by (auto simp: contents_def nth_append nth_butlast nth_list_update)
    qed
    then show ?thesis using len False by (intro nth_equalityI) simp_all
  qed
  moreover have "contents js \<noteq> []" using False by (simp flip: length_0_conv)
  ultimately show ?thesis by auto
qed

text \<open>The last identifier, of at least two characters, before one white space.\<close>

definition text_before :: "string \<Rightarrow> string" where
  "text_before s = (if js_is_whitespace (from_end s 0) then butlast s else s)"

definition last_identifier :: "string \<Rightarrow> string option" where
  "last_identifier s =
     (let w = rev (takeWhile js_is_identifier (rev (text_before s)))
      in if 2 \<le> length w then Some w else None)"

lemma not_whitespace_NUL: "\<not> js_is_whitespace NUL"
  by (simp add: js_is_whitespace_def)

lemma from_end_before:
  "from_end (text_before s) k = from_end s (if js_is_whitespace (from_end s 0) then Suc k else k)"
proof (cases s rule: rev_cases)
  case Nil
  then show ?thesis by (simp add: text_before_def from_end_def)
next
  case (snoc t c)
  then show ?thesis by (auto simp: text_before_def from_end_def nth_Cons)
qed

lemma identifier_start_run:
  assumes "ring_ok js"
  shows "identifier_start js (- int k - 1) =
    Inr (- int (k + length (takeWhile js_is_identifier (drop k (rev (contents js))))) - 1)"
proof (induction "18 - k" arbitrary: k)
  case 0
  then have "from_end (contents js) k = NUL" "drop k (rev (contents js)) = []"
    using ring_length_less [of js] by (simp_all add: from_end_def)
  then show ?case using not_identifier_NUL by (subst identifier_start.simps) (simp add: ring_get [OF assms])
next
  case (Suc m)
  show ?case
  proof (cases "js_is_identifier (from_end (contents js) k)")
    case True
    then have k: "k < ring_length js" using not_identifier_NUL by (auto simp: from_end_def split: if_splits)
    then have "drop k (rev (contents js)) = from_end (contents js) k # drop (Suc k) (rev (contents js))"
      by (simp add: from_end_def Cons_nth_drop_Suc)
    moreover have "m = 18 - Suc k" using Suc.hyps(2) by simp
    moreover have "- int k - 1 - 1 = - int (Suc k) - 1" by simp
    ultimately show ?thesis using True Suc.hyps(1) [of "Suc k"]
      by (subst identifier_start.simps) (simp add: ring_get [OF assms])
  next
    case False
    have "takeWhile js_is_identifier (drop k (rev (contents js))) = []"
    proof (cases "k < ring_length js")
      case True
      then have "drop k (rev (contents js)) = from_end (contents js) k # drop (Suc k) (rev (contents js))"
        by (simp add: from_end_def Cons_nth_drop_Suc)
      then show ?thesis using False by simp
    qed simp
    then show ?thesis using False by (subst identifier_start.simps) (simp add: ring_get [OF assms])
  qed
qed

lemma slice_loop_Suc:
  assumes "k \<le> n"
  shows "slice_loop js (- int (Suc n)) (- int k - 1) =
    bindE (jsparser_buffer_get js (- int (Suc n))) (\<lambda>c.
    bindE (slice_loop js (- int n) (- int k - 1)) (\<lambda>rest. Inr (if c \<noteq> NUL then c # rest else rest)))"
proof -
  have "- int (Suc n) \<le> - int k - 1" "- int (Suc n) + 1 = - int n" using assms by simp_all
  then show ?thesis by (subst slice_loop.simps) (simp only: if_True)
qed

lemma slice_run:
  assumes "ring_ok js"
  shows "k + m \<le> ring_length js \<Longrightarrow> NUL \<notin> set (take m (drop k (rev (contents js)))) \<Longrightarrow>
    slice_loop js (- int (k + m)) (- int k - 1) = Inr (rev (take m (drop k (rev (contents js)))))"
proof (induction m)
  case 0
  show ?case by (subst slice_loop.simps) simp
next
  case (Suc m)
  let ?d = "drop k (rev (contents js))" and ?c = "from_end (contents js) (k + m)"
  have snoc: "take (Suc m) ?d = take m ?d @ [?c]"
    using Suc.prems(1) by (simp add: take_Suc_conv_app_nth from_end_def)
  have "jsparser_buffer_get js (- int (k + Suc m)) = Inr ?c"
  proof -
    have "- int (k + Suc m) = - int (k + m) - 1" by simp
    then show ?thesis using ring_get [OF assms, of "k + m"] by (simp only:)
  qed
  moreover have "slice_loop js (- int (k + m)) (- int k - 1) = Inr (rev (take m ?d))" "?c \<noteq> NUL"
    using Suc snoc by auto
  ultimately show ?case using slice_loop_Suc [of k "k + m" js] by (simp add: snoc del: of_nat_Suc of_nat_add)
qed

lemma rev_text_before:
  "rev (text_before s) = drop (if js_is_whitespace (from_end s 0) then 1 else 0) (rev s)"
  by (cases s rule: rev_cases) (auto simp: text_before_def)

theorem last_identifier_refines:
  assumes "ring_ok js"
  shows "jsparser_buffer_last_identifier js = Inr (last_identifier (contents js))"
proof -
  define k where "k = (if js_is_whitespace (from_end (contents js) 0) then 1 else (0::nat))"
  define w where "w = takeWhile js_is_identifier (drop k (rev (contents js)))"
  have before: "rev (text_before (contents js)) = drop k (rev (contents js))"
    by (simp add: rev_text_before k_def)
  have last_pos: "(if js_is_whitespace (from_end (contents js) 0) then - 2 else - 1) = - int k - 1"
    by (simp add: k_def)
  have start: "identifier_start js (- int k - 1) = Inr (- int (k + length w) - 1)"
    using identifier_start_run [OF assms, of k] by (simp add: w_def)
  have w: "w = take (length w) (drop k (rev (contents js)))"
    unfolding w_def by (rule takeWhile_eq_take)
  show ?thesis
  proof (cases "2 \<le> length w")
    case True
    have "length w \<le> length (drop k (rev (contents js)))" unfolding w_def by (rule length_takeWhile_le)
    then have "k + length w \<le> ring_length js" using True by simp
    moreover have "NUL \<notin> set w" using not_identifier_NUL by (auto simp: w_def dest: set_takeWhileD)
    ultimately have "slice_loop js (- int (k + length w)) (- int k - 1) = Inr (rev w)"
      using slice_run [OF assms, of k "length w"] w by simp
    moreover have "- int (k + length w) - 1 + 1 = - int (k + length w)" by simp
    moreover have "\<not> - int (k + length w) - 1 + 1 \<ge> - int k - 1" "w \<noteq> []" using True by auto
    ultimately show ?thesis using True start
      by (simp add: jsparser_buffer_last_identifier_def ring_get_last [OF assms] last_pos jsparser_buffer_slice_def
          last_identifier_def before w_def Let_def del: of_nat_add)
  next
    case False
    then have "- int (k + length w) - 1 + 1 \<ge> - int k - 1" by linarith
    then show ?thesis using False start
      by (simp add: jsparser_buffer_last_identifier_def ring_get_last [OF assms] last_pos
          last_identifier_def before w_def Let_def del: of_nat_add)
  qed
qed

section \<open>The machine over lists\<close>

text \<open>What the parser is meant to do, over the last characters of the script as a list: a slash
  opens a regular expression after an operator, an opening bracket or a keyword, or at the start.\<close>

definition slash_starts_regexp :: "string \<Rightarrow> bool" where
  "slash_starts_regexp h =
     (let t = text_before h; c = from_end t 0
      in if c = CHR ''+'' then from_end t 1 \<noteq> CHR ''+''
         else if c = CHR ''-'' then from_end t 1 \<noteq> CHR ''-''
         else if c \<in> set (NUL # ''=<>&|!%*/,;?:^~{([}'') then True
         else case last_identifier h of None \<Rightarrow> False | Some w \<Rightarrow> is_regexp_token_prefix w)"

definition comment_to_space :: "string \<Rightarrow> string" where
  "comment_to_space h =
     (if js_is_whitespace (from_end h 1) then butlast h else if h = [] then [] else butlast h @ '' '')"

definition js_next :: "int \<Rightarrow> char \<Rightarrow> int" where
  "js_next st c = jsparser_state_transitions ! nat st ! of_char c"

definition js_step :: "int \<times> string \<Rightarrow> char \<Rightarrow> int \<times> string" where
  "js_step s c =
     (let (st, h) = s; nx = js_next st c in
      if nx = JS_SLASH \<and> st \<noteq> nx then ((if slash_starts_regexp h then JS_REGEXP_SLASH else JS_SLASH), ring_add h c)
      else if nx = JS_COMMENT_AFTER \<and> st \<noteq> nx then (JS_COMMENT_AFTER, comment_to_space h)
      else (nx, if nx = JS_TEXT then ring_add h c else h))"

definition js_run :: "int \<times> string \<Rightarrow> string \<Rightarrow> int \<times> string" where
  "js_run s t = foldl js_step s t"

lemma slash_opens_regexp_run:
  assumes "ring_ok js"
    and "pos = (if js_is_whitespace (from_end (contents js) 0) then - 2 else - 1)"
  shows "jsparser_buffer_get js pos = Inr (from_end (text_before (contents js)) 0)"
    "slash_opens_regexp js pos (from_end (text_before (contents js)) 0) = Inr (slash_starts_regexp (contents js))"
proof -
  have get: "jsparser_buffer_get js pos = Inr (from_end (text_before (contents js)) 0)"
    "jsparser_buffer_get js (pos - 1) = Inr (from_end (text_before (contents js)) 1)"
    using ring_get_last [OF assms(1)] by (simp_all add: assms(2) from_end_before numeral_2_eq_2)
  show "jsparser_buffer_get js pos = Inr (from_end (text_before (contents js)) 0)" by (rule get(1))
  show "slash_opens_regexp js pos (from_end (text_before (contents js)) 0) = Inr (slash_starts_regexp (contents js))"
    unfolding slash_opens_regexp_def slash_starts_regexp_def Let_def get(2) last_identifier_refines [OF assms(1)]
    by simp
qed

lemma js_events:
  assumes "ring_ok (user ctx)"
  shows "\<exists>js. in_state_js_text ctx st c nx = Inr (ctx\<lparr>user := js\<rparr>) \<and> ring_ok js \<and>
      contents js = ring_add (contents (user ctx)) c"
    and "\<exists>js. enter_state_js_slash ctx st c nx =
        Inr (ctx\<lparr>next_state := (if slash_starts_regexp (contents (user ctx)) then JS_REGEXP_SLASH else next_state ctx),
          user := js\<rparr>) \<and> ring_ok js \<and> contents js = ring_add (contents (user ctx)) c"
    and "\<exists>js. enter_state_js_comment_after ctx st c nx = Inr (ctx\<lparr>user := js\<rparr>) \<and> ring_ok js \<and>
      contents js = comment_to_space (contents (user ctx))"
proof -
  obtain js where add: "jsparser_buffer_append_chr (user ctx) c = Inr js" "ring_ok js"
    "contents js = ring_add (contents (user ctx)) c"
    using ring_append [OF assms] by blast
  then show "\<exists>js. in_state_js_text ctx st c nx = Inr (ctx\<lparr>user := js\<rparr>) \<and> ring_ok js \<and>
      contents js = ring_add (contents (user ctx)) c"
    by (intro exI [of _ js]) (simp add: in_state_js_text_def)
  show "\<exists>js. enter_state_js_slash ctx st c nx =
        Inr (ctx\<lparr>next_state := (if slash_starts_regexp (contents (user ctx)) then JS_REGEXP_SLASH else next_state ctx),
          user := js\<rparr>) \<and> ring_ok js \<and> contents js = ring_add (contents (user ctx)) c"
    using add slash_opens_regexp_run [OF assms refl]
    by (intro exI [of _ js]) (simp add: enter_state_js_slash_def ring_get_last [OF assms] Let_def split del: if_split)
  show "\<exists>js. enter_state_js_comment_after ctx st c nx = Inr (ctx\<lparr>user := js\<rparr>) \<and> ring_ok js \<and>
      contents js = comment_to_space (contents (user ctx))"
    using ring_pop [OF assms] ring_set_last [OF assms, of "CHR '' ''"]
    by (auto simp: enter_state_js_comment_after_def ring_get_last [OF assms] comment_to_space_def)
qed

text \<open>The events keep the contract of the machine, and never fail.\<close>

lemma js_contract:
  assumes "\<And>ctx st c nx. ring_ok (user ctx) \<Longrightarrow>
    \<exists>js n'. func ctx st c nx = Inr (ctx\<lparr>next_state := n', user := js\<rparr>) \<and> ring_ok js \<and> (n' = next_state ctx \<or> n' = JS_REGEXP_SLASH)"
  shows "event_function 15 ring_ok {} func"
proof
  fix ctx ctx' :: "js_ring statemachine_ctx" and st nx c e
  assume ok: "ctx_ok 15 ring_ok ctx"
  then obtain js n' where r: "func ctx st c nx = Inr (ctx\<lparr>next_state := n', user := js\<rparr>)" "ring_ok js"
    "n' = next_state ctx \<or> n' = JS_REGEXP_SLASH"
    using assms [of ctx st c nx] by (auto simp: ctx_ok_def)
  then show "func ctx st c nx = Inl e \<Longrightarrow> e \<in> {}" by simp
  assume "func ctx st c nx = Inr ctx'"
  then show "ctx_ok 15 ring_ok ctx'" using r ok by (auto simp: ctx_ok_def buffer_ok_def)
qed

interpretation js_text: event_function 15 ring_ok "{}" in_state_js_text
proof (rule js_contract)
  fix ctx :: jsparser_ctx and st c nx
  assume "ring_ok (user ctx)"
  from js_events(1) [OF this, of st c nx]
  show "\<exists>js n'. in_state_js_text ctx st c nx = Inr (ctx\<lparr>next_state := n', user := js\<rparr>) \<and> ring_ok js \<and>
      (n' = next_state ctx \<or> n' = JS_REGEXP_SLASH)"
    by (metis statemachine_ctx.surjective statemachine_ctx.update_convs(2))
qed

interpretation js_slash: event_function 15 ring_ok "{}" enter_state_js_slash
proof (rule js_contract)
  fix ctx :: jsparser_ctx and st c nx
  assume "ring_ok (user ctx)"
  from js_events(2) [OF this, of st c nx]
  show "\<exists>js n'. enter_state_js_slash ctx st c nx = Inr (ctx\<lparr>next_state := n', user := js\<rparr>) \<and> ring_ok js \<and>
      (n' = next_state ctx \<or> n' = JS_REGEXP_SLASH)"
    by (metis (mono_tags))
qed

interpretation js_comment: event_function 15 ring_ok "{}" enter_state_js_comment_after
proof (rule js_contract)
  fix ctx :: jsparser_ctx and st c nx
  assume "ring_ok (user ctx)"
  from js_events(3) [OF this, of st c nx]
  show "\<exists>js n'. enter_state_js_comment_after ctx st c nx = Inr (ctx\<lparr>next_state := n', user := js\<rparr>) \<and> ring_ok js \<and>
      (n' = next_state ctx \<or> n' = JS_REGEXP_SLASH)"
    by (metis statemachine_ctx.surjective statemachine_ctx.update_convs(2))
qed

text \<open>The definition that the parser creates.\<close>

definition js_def :: "js_ring statemachine_definition" where
  "js_def =
     \<lparr>num_states = 16, transition_table = jsparser_state_transitions, state_names = Some jsparser_states_internal_names,
      in_state_events = (replicate 16 None)[0 := Some in_state_js_text],
      enter_state_events = (replicate 16 None)[5 := Some enter_state_js_slash, 14 := Some enter_state_js_comment_after],
      exit_state_events = replicate 16 None\<rparr>"

lemma js_created: "js_create_definition = Inr js_def"
  by (simp add: js_create_definition_def js_def_def statemachine_definition_new_def statemachine_definition_populate_def
      statemachine_in_state_def statemachine_enter_state_def set_event_def JSPARSER_NUM_STATES_def Let_def)

lemma set_update_events: "Some f \<in> set (xs[i := y]) \<Longrightarrow> Some f \<in> set xs \<or> Some f = y"
  using set_update_subset_insert [of xs i y] by auto

lemma js_def_ok: "def_ok 15 ring_ok {} js_def"
proof -
  have "events_ok 15 ring_ok {} (in_state_events js_def)"
    using js_text.event_function_axioms by (auto simp: events_ok_def js_def_def dest!: set_update_events)
  moreover have "events_ok 15 ring_ok {} (enter_state_events js_def)"
    using js_slash.event_function_axioms js_comment.event_function_axioms
    by (auto simp: events_ok_def js_def_def dest!: set_update_events)
  moreover have "events_ok 15 ring_ok {} (exit_state_events js_def)" by (simp add: events_ok_def js_def_def)
  ultimately show ?thesis
    using js_table by (auto simp: def_ok_def js_def_def STATEMACHINE_ERROR_def jsparser_states_internal_names_def)
qed

definition plain_byte :: "char \<Rightarrow> bool" where
  "plain_byte c \<longleftrightarrow> (of_char c :: nat) < 255"

lemma js_transition:
  assumes "0 \<le> st" "st < 15" "plain_byte c"
  shows "transition js_def st c = Inr (js_next st c)" "0 \<le> js_next st c" "js_next st c < 15"
proof -
  have n: "nat st < length jsparser_state_transitions" using assms js_table(1) by simp
  from js_table(2) [OF nth_mem [OF this]]
  have row: "length (jsparser_state_transitions ! nat st) = 255"
    "\<forall>x \<in> set (jsparser_state_transitions ! nat st). 0 \<le> x \<and> x < 15" by auto
  have i: "of_char c < length (jsparser_state_transitions ! nat st)" using assms(3) row(1) by (simp add: plain_byte_def)
  show "transition js_def st c = Inr (js_next st c)"
    using assms n i by (simp add: transition_def lookup_event_def js_def_def js_next_def)
  show "0 \<le> js_next st c" "js_next st c < 15" using row(2) nth_mem [OF i] by (auto simp: js_next_def)
qed

lemma js_fire:
  assumes "0 \<le> st" "st < 15"
  shows "fire (exit_state_events js_def) st c ctx = Inr ctx"
    "fire (in_state_events js_def) st c ctx = (if st = JS_TEXT then in_state_js_text ctx (current_state ctx) c (next_state ctx) else Inr ctx)"
    "fire (enter_state_events js_def) st c ctx =
      (if st = JS_SLASH then enter_state_js_slash ctx (current_state ctx) c (next_state ctx)
       else if st = JS_COMMENT_AFTER then enter_state_js_comment_after ctx (current_state ctx) c (next_state ctx) else Inr ctx)"
  using assms by (auto simp: fire_def lookup_event_def js_def_def nth_list_update nat_eq_iff)

definition js_view :: "jsparser_ctx \<Rightarrow> int \<times> string" where
  "js_view ctx = (current_state ctx, contents (user ctx))"

definition js_ok :: "jsparser_ctx \<Rightarrow> bool" where
  "js_ok ctx \<longleftrightarrow> buffer_ok ctx \<and> 0 \<le> current_state ctx \<and> current_state ctx < 15 \<and> ring_ok (user ctx)"

lemma js_step_run:
  assumes "js_ok ctx" "plain_byte c"
  shows "\<exists>ctx'. parse_char js_def c ctx = Inr (True, ctx') \<and> js_ok ctx' \<and> js_view ctx' = js_step (js_view ctx) c"
proof -
  let ?st = "current_state ctx"
  define nx where "nx = js_next ?st c"
  let ?ctx1 = "ctx\<lparr>current_char := c, next_state := nx\<rparr>"
  have st: "0 \<le> ?st" "?st < 15" "ring_ok (user ctx)" "buffer_ok ctx" using assms(1) by (simp_all add: js_ok_def)
  note tr = js_transition [OF st(1,2) assms(2), folded nx_def]
  have noerr: "nx \<noteq> STATEMACHINE_ERROR" using tr(3) by (simp add: STATEMACHINE_ERROR_def)
  have exit: "(if ?st \<noteq> nx then fire (exit_state_events js_def) ?st c ?ctx1 else Inr ?ctx1) = Inr ?ctx1"
    using js_fire(1) [OF st(1,2)] by simp
  have same: "buffer_ok (ctx\<lparr>current_char := c, next_state := n, user := js\<rparr>)" for n js
    using st(4) by (simp add: buffer_ok_def)
  have view: "parse_char js_def c ctx = Inr (True, ctx') \<and> js_ok ctx' \<and> js_view ctx' = js_step (js_view ctx) c"
    if "parse_char js_def c ctx = Inr (True, ctx')" "buffer_ok ctx'" "current_state ctx' = n" "user ctx' = js"
      "ring_ok js" "0 \<le> n" "n < 15" "(n, contents js) = js_step (?st, contents (user ctx)) c" for ctx' n js
    using that by (simp add: js_ok_def js_view_def)
  consider (slash) "nx = JS_SLASH" "?st \<noteq> nx" | (comment) "nx = JS_COMMENT_AFTER" "?st \<noteq> nx"
    | (plain) "(nx \<noteq> JS_SLASH \<and> nx \<noteq> JS_COMMENT_AFTER) \<or> ?st = nx" by blast
  then show ?thesis
  proof cases
    case slash
    let ?n = "if slash_starts_regexp (contents (user ctx)) then JS_REGEXP_SLASH else JS_SLASH"
    obtain js where js: "enter_state_js_slash ?ctx1 ?st c nx = Inr (ctx\<lparr>current_char := c, next_state := ?n, user := js\<rparr>)"
      "ring_ok js" "contents js = ring_add (contents (user ctx)) c"
      using js_events(2) [of ?ctx1 ?st c nx] st(3) slash(1) by (auto split: if_splits)
    let ?ctx3 = "ctx\<lparr>current_char := c, next_state := ?n, user := js\<rparr>"
    have enter: "(if current_state ?ctx1 \<noteq> next_state ?ctx1 then fire (enter_state_events js_def) (next_state ?ctx1) c ?ctx1
        else Inr ?ctx1) = Inr ?ctx3"
      using slash js(1) js_fire(3) [OF tr(2,3), of c ?ctx1] by simp
    have ins: "fire (in_state_events js_def) (next_state ?ctx3) c ?ctx3 = Inr ?ctx3"
      using js_fire(2) [of ?n c ?ctx3] by simp
    have "(?n, contents js) = js_step (?st, contents (user ctx)) c"
      using slash js(3) by (simp add: js_step_def nx_def [symmetric])
    then show ?thesis
      using parse_char_events [OF tr(1) noerr exit enter ins same] view [of _ ?n js] js(2) by fastforce
  next
    case comment
    obtain js where js: "enter_state_js_comment_after ?ctx1 ?st c nx = Inr (?ctx1\<lparr>user := js\<rparr>)"
      "ring_ok js" "contents js = comment_to_space (contents (user ctx))"
      using js_events(3) [of ?ctx1 ?st c nx] st(3) by auto
    let ?ctx3 = "ctx\<lparr>current_char := c, next_state := nx, user := js\<rparr>"
    have enter: "(if current_state ?ctx1 \<noteq> next_state ?ctx1 then fire (enter_state_events js_def) (next_state ?ctx1) c ?ctx1
        else Inr ?ctx1) = Inr ?ctx3"
      using comment js(1) js_fire(3) [OF tr(2,3), of c ?ctx1] by simp
    have ins: "fire (in_state_events js_def) (next_state ?ctx3) c ?ctx3 = Inr ?ctx3"
      using comment js_fire(2) [of nx c ?ctx3] by simp
    have "(nx, contents js) = js_step (?st, contents (user ctx)) c"
      using comment js(3) by (simp add: js_step_def nx_def [symmetric])
    then show ?thesis
      using parse_char_events [OF tr(1) noerr exit enter ins same] view [of _ nx js] js(2) tr(2,3) by fastforce
  next
    case plain
    have enter: "(if current_state ?ctx1 \<noteq> next_state ?ctx1 then fire (enter_state_events js_def) (next_state ?ctx1) c ?ctx1
        else Inr ?ctx1) = Inr ?ctx1"
      using plain js_fire(3) [OF tr(2,3), of c ?ctx1] by auto
    obtain js where js: "in_state_js_text ?ctx1 ?st c nx = Inr (?ctx1\<lparr>user := js\<rparr>)"
      "ring_ok js" "contents js = ring_add (contents (user ctx)) c"
      using js_events(1) [of ?ctx1 ?st c nx] st(3) by auto
    let ?js = "if nx = JS_TEXT then js else user ctx"
    let ?ctx4 = "ctx\<lparr>current_char := c, next_state := nx, user := ?js\<rparr>"
    have ins: "fire (in_state_events js_def) (next_state ?ctx1) c ?ctx1 = Inr ?ctx4"
      using js(1) js_fire(2) [OF tr(2,3), of c ?ctx1] by (cases "nx = JS_TEXT") auto
    have "(nx, contents ?js) = js_step (?st, contents (user ctx)) c"
      using plain js(3) by (auto simp: js_step_def nx_def [symmetric])
    moreover have "ring_ok ?js" using js(2) st(3) by simp
    ultimately show ?thesis
      using parse_char_events [OF tr(1) noerr exit enter ins same] view [of _ nx ?js] tr(2,3) by fastforce
  qed
qed

lemma js_chars_run:
  "js_ok ctx \<Longrightarrow> list_all plain_byte s \<Longrightarrow>
    \<exists>ctx'. parse_chars js_def s ctx = Inr (fst (js_run (js_view ctx) s), ctx') \<and> js_ok ctx' \<and>
      js_view ctx' = js_run (js_view ctx) s"
proof (induction s arbitrary: ctx)
  case Nil
  then show ?case by (simp add: js_run_def js_view_def)
next
  case (Cons c s)
  then obtain ctx1 where 1: "parse_char js_def c ctx = Inr (True, ctx1)" "js_ok ctx1" "js_view ctx1 = js_step (js_view ctx) c"
    using js_step_run [of ctx c] by auto
  from Cons.IH [OF 1(2)] Cons.prems(2) 1 show ?case by (auto simp: js_run_def)
qed

text \<open>The external states, by the states of the table.\<close>

definition js_external :: "int \<Rightarrow> js_state" where
  "js_external st = jsparser_states_external ! nat st"

lemma js_external_run: "0 \<le> st \<Longrightarrow> st < 15 \<Longrightarrow> js_state_external st = Inr (js_external st)"
  by (simp add: js_state_external_def JSPARSER_NUM_STATES_def lookup_event_def js_external_def jsparser_states_external_def)

text \<open>C26: the javascript parser never fails on text without the byte 255, and what it computes with its
  ring of 18 characters is what a machine over the list of the last characters computes: after the
  text, the state is the state of that machine and the ring holds its list, which decides for every
  slash whether it starts a regular expression (after an operator, an opening
  bracket, or a keyword from the table) or divides.\<close>

theorem js_parser_refines:
  assumes "js_ok ctx" "list_all plain_byte s"
  shows "\<exists>ctx'. jsparser_parse ctx s (int (length s)) = Inr (js_external (fst (js_run (js_view ctx) s)), ctx') \<and>
    js_ok ctx' \<and> js_view ctx' = js_run (js_view ctx) s"
proof -
  obtain ctx' where run: "parse_chars js_def s ctx = Inr (fst (js_run (js_view ctx) s), ctx')" "js_ok ctx'"
    "js_view ctx' = js_run (js_view ctx) s"
    using js_chars_run [OF assms] by blast
  then have "fst (js_run (js_view ctx) s) = current_state ctx'" by (metis js_view_def fst_conv)
  then show ?thesis
    using run js_external_run [of "current_state ctx'"]
    by (auto simp: jsparser_parse_def js_created statemachine_parse_all js_ok_def)
qed

definition js_memory :: jsparser_ctx where
  "js_memory =
     \<lparr>current_state = 9, next_state = 9, current_char = NUL, line_number = 0, column_number = 0,
      record_buffer = replicate 256 NUL, record_pos = 7, recording = True, error_msg = [],
      user = \<lparr>ring_start = 5, ring_end = 5, ring_buffer = []\<rparr>\<rparr>"

lemma jsparser_new_ok:
  "length (record_buffer raw) = 256 \<Longrightarrow> js_ok (jsparser_new raw)" "js_view (jsparser_new raw) = (0, [])"
  by (simp_all add: js_ok_def jsparser_new_def jsparser_reset_def statemachine_new_def statemachine_reset_def
      buffer_ok_def STATEMACHINE_RECORD_BUFFER_SIZE_def ring_ok_def js_view_def contents_def ring_length_def)

text \<open>A slash after a sign of equality starts a regular expression.\<close>

lemma slash_after_equals: "js_external (fst (js_run (0, []) ''x = /a'')) = JSPARSER_STATE_REGEXP"
  by (simp add: js_run_def js_step_def js_next_def jsparser_state_transitions_def js_rows fsm_row_nth ring_add_def
      js_is_whitespace_def from_end_def slash_starts_regexp_def text_before_def js_external_def
      jsparser_states_external_def)

theorem js_parser_refines_witness:
  "\<exists>ctx'. jsparser_parse (jsparser_new js_memory) ''x = /a'' 6 = Inr (JSPARSER_STATE_REGEXP, ctx') \<and> js_ok ctx'"
proof -
  have "js_ok (jsparser_new js_memory)" by (rule jsparser_new_ok(1)) (simp add: js_memory_def)
  from js_parser_refines [OF this, of "''x = /a''"] show ?thesis
    by (auto simp: jsparser_new_ok(2) slash_after_equals plain_byte_def)
qed

lemma js_text_next:
  assumes "plain_byte c" "c \<notin> {CHR 0x22, CHR 0x27, CHR ''/''}"
  shows "js_next 0 c = 0"
proof -
  define k where "k = (of_char c :: nat)"
  have inj: "of_char c = (of_char d :: nat) \<Longrightarrow> c = d" for d by (metis char_of_char)
  have n: "k < 255" using assms(1) by (simp add: plain_byte_def k_def)
  have codes: "k \<noteq> 34" "k \<noteq> 39" "k \<noteq> 47"
    using inj [of "CHR 0x22"] inj [of "CHR 0x27"] inj [of "CHR ''/''"] assms(2) by (auto simp: k_def)
  have point: "a \<le> k \<and> k \<le> a \<longleftrightarrow> k = a" for a by auto
  show ?thesis
    by (simp add: js_next_def jsparser_state_transitions_def js_rows fsm_row_nth [OF n] k_def [symmetric] point codes)
qed

lemma js_text_kept:
  "list_all plain_byte s \<Longrightarrow> set s \<inter> {CHR 0x22, CHR 0x27, CHR ''/''} = {} \<Longrightarrow> fst (js_run (0, h) s) = 0"
proof (induction s arbitrary: h)
  case (Cons c s)
  then have "js_next 0 c = 0" by (intro js_text_next) auto
  then have "\<exists>h'. js_step (0, h) c = (0, h')" by (simp add: js_step_def)
  then show ?case using Cons by (auto simp: js_run_def)
qed (simp add: js_run_def)

text \<open>C36: after a division sign the javascript parser overlooks a quote: a string that directly follows the slash is
  read as text and its closing quote as the start of a string, so that what comes after the
  string is taken for its inside.\<close>

theorem string_after_division:
  assumes "js_ok ctx" "current_state ctx = JS_TEXT" "\<not> slash_starts_regexp (contents (user ctx))"
    and "list_all plain_byte s" "set s \<inter> {CHR 0x22, CHR 0x27, CHR ''/''} = {}"
  shows "\<exists>ctx'. jsparser_parse ctx (''/'' @ [CHR 0x22] @ s @ [CHR 0x22]) (3 + int (length s)) = Inr (JSPARSER_STATE_DQ, ctx')"
proof -
  let ?t = "''/'' @ [CHR 0x22] @ s @ [CHR 0x22]"
  have steps: "js_next 0 (CHR ''/'') = 5" "js_next 5 (CHR 0x22) = 0" "js_next 0 (CHR 0x22) = 3"
    by (simp_all add: js_next_def jsparser_state_transitions_def js_rows fsm_row_nth)
  obtain h where h: "js_view ctx = (0, h)" "h = contents (user ctx)" using assms(2) by (simp add: js_view_def)
  obtain h2 where two: "js_run (0, h) (''/'' @ [CHR 0x22]) = (0, h2)"
    using assms(3) h(2) steps by (simp add: js_run_def js_step_def)
  obtain h3 where three: "js_run (0, h2) s = (0, h3)"
    using js_text_kept [OF assms(4,5), of h2] by (metis prod.collapse)
  have "js_run (0, h) ?t = js_run (js_run (js_run (0, h) (''/'' @ [CHR 0x22])) s) [CHR 0x22]" by (simp add: js_run_def)
  then have end_state: "fst (js_run (js_view ctx) ?t) = 3"
    unfolding h(1) two three using steps by (simp add: js_run_def js_step_def)
  have "list_all plain_byte ?t" using assms(4) by (simp add: plain_byte_def)
  from js_chars_run [OF assms(1) this] obtain ctx' where "parse_chars js_def ?t ctx = Inr (3, ctx')"
    unfolding end_state by blast
  moreover have "int (length ?t) = 3 + int (length s)" by simp
  ultimately show ?thesis
    using statemachine_parse_all [of js_def ?t ctx] js_external_run [of 3]
    by (simp add: jsparser_parse_def js_created js_external_def jsparser_states_external_def)
qed

theorem string_after_division_witness:
  "\<exists>ctx ctx'. js_view ctx = (JS_TEXT, ''a'') \<and>
    jsparser_parse ctx (''/'' @ [CHR 0x22] @ ''x'' @ [CHR 0x22]) 4 = Inr (JSPARSER_STATE_DQ, ctx')"
proof -
  have new: "js_ok (jsparser_new js_memory)" by (rule jsparser_new_ok(1)) (simp add: js_memory_def)
  have "js_run (0, []) ''a'' = (0, ''a'')"
    by (simp add: js_run_def js_step_def js_next_def jsparser_state_transitions_def js_rows fsm_row_nth ring_add_def
        js_is_whitespace_def from_end_def)
  then obtain ctx where ctx: "js_ok ctx" "js_view ctx = (0, ''a'')"
    using js_chars_run [OF new, of "''a''"] jsparser_new_ok(2) by (auto simp: plain_byte_def)
  have "\<not> slash_starts_regexp ''a''"
    by (simp add: slash_starts_regexp_def text_before_def from_end_def js_is_whitespace_def last_identifier_def
        js_is_identifier_def)
  then show ?thesis
    using string_after_division [OF ctx(1), of "''x''"] ctx(2) by (auto simp: js_view_def plain_byte_def)
qed

end
