(* ===== verification/Html_Entities.thy ===== *)
theory Html_Entities
  imports Html_Statemachine Template_Escapes
begin

text \<open>
  The entity filter of the HTML parser of the template engine
  (\<open>third/ctemplate-2.2/src/htmlparser/htmlparser.cc\<close>): it decodes the entities of an attribute that
  holds script, one character at a time, and hands the decoded text to the script parser. It
  keeps the entity it is in in a buffer of ten characters; an access outside of it is
  \<open>UndefinedBehaviour\<close>. A returned pointer to a C string is that string.
\<close>

section \<open>The code\<close>

definition entityfilter_table :: "(string \<times> string) list" where
  "entityfilter_table =
     [(''lt'', ''<''), (''gt'', ''>''), (''quot'', [QUOT]), (''amp'', ''&''), (''apos'', [APOS])]"

definition HTMLPARSER_MAX_ENTITY_SIZE :: nat where "HTMLPARSER_MAX_ENTITY_SIZE = 10"

record entityfilter_ctx =
  ef_buffer :: "char list"
  ef_pos :: nat
  ef_in :: bool

definition entityfilter_reset :: "entityfilter_ctx \<Rightarrow> entityfilter_ctx" where
  "entityfilter_reset ctx = ctx\<lparr>ef_buffer := (ef_buffer ctx)[0 := NUL], ef_pos := 0, ef_in := False\<rparr>"

definition entityfilter_new :: "entityfilter_ctx \<Rightarrow> entityfilter_ctx" where
  "entityfilter_new raw = raw\<lparr>ef_buffer := (ef_buffer raw)[0 := NUL], ef_pos := 0, ef_in := False\<rparr>"

definition entityfilter_copy :: "entityfilter_ctx \<Rightarrow> entityfilter_ctx \<Rightarrow> entityfilter_ctx" where
  "entityfilter_copy dst src = src"

text \<open>A number goes into a \<open>char\<close> modulo 256; a zero is the end of the C string.\<close>

definition char_string :: "int \<Rightarrow> string" where
  "char_string n = cstr [char_of (nat (n mod 256))]"

definition parse_hex :: "string \<Rightarrow> string" where
  "parse_hex s = char_string (fst (strtol 16 s))"

definition parse_dec :: "string \<Rightarrow> string" where
  "parse_dec s = char_string (fst (strtol 10 s))"

definition strcasecmp_0 :: "string \<Rightarrow> string \<Rightarrow> bool" where
  "strcasecmp_0 a b \<longleftrightarrow> tolower_str a = tolower_str b"

fun entity_table_loop :: "(string \<times> string) list \<Rightarrow> string \<Rightarrow> string option" where
  "entity_table_loop [] s = None"
| "entity_table_loop ((e, v) # t) s = (if strcasecmp_0 e s then Some v else entity_table_loop t s)"

definition entity_convert :: "string \<Rightarrow> char \<Rightarrow> string" where
  "entity_convert s terminator =
     (if s \<noteq> [] \<and> hd s = CHR ''#'' then
        (if tl s \<noteq> [] \<and> (hd (tl s) = CHR ''x'' \<or> hd (tl s) = CHR ''X'') then parse_hex (drop 2 s)
         else parse_dec (drop 1 s))
      else case entity_table_loop entityfilter_table s of
             Some v \<Rightarrow> v
           | None \<Rightarrow> take (HTMLPARSER_MAX_ENTITY_SIZE - 1) (''&'' @ s @ [terminator]))"

definition entityfilter_process :: "entityfilter_ctx \<Rightarrow> char \<Rightarrow> (string \<times> entityfilter_ctx) result" where
  "entityfilter_process ctx c =
     (if ef_in ctx then
        (if c = CHR '';'' \<or> html_isspace c then
           (if ef_pos ctx < length (ef_buffer ctx) then
              (let buf = (ef_buffer ctx)[ef_pos ctx := NUL]
               in Inr (entity_convert (cstr buf) c, ctx\<lparr>ef_in := False, ef_buffer := buf, ef_pos := 0\<rparr>))
            else Inl UndefinedBehaviour)
         else if ef_pos ctx < length (ef_buffer ctx) then
           (let ctx1 = ctx\<lparr>ef_buffer := (ef_buffer ctx)[ef_pos ctx := c], ef_pos := ef_pos ctx + 1\<rparr>
            in if ef_pos ctx1 \<ge> HTMLPARSER_MAX_ENTITY_SIZE - 2 then
                 (if ef_pos ctx1 < length (ef_buffer ctx1) then
                    (let buf = (ef_buffer ctx1)[ef_pos ctx1 := NUL]
                     in Inr (take (HTMLPARSER_MAX_ENTITY_SIZE - 1) (''&'' @ cstr buf),
                          ctx1\<lparr>ef_buffer := buf, ef_in := False, ef_pos := 0\<rparr>))
                  else Inl UndefinedBehaviour)
               else Inr ([], ctx1))
         else Inl UndefinedBehaviour)
      else if c = CHR ''&'' then Inr ([], ctx\<lparr>ef_in := True, ef_pos := 0\<rparr>)
      else Inr (cstr [c], ctx))"

text \<open>The calls for the characters of a value (\<open>in_state_value\<close>), and what the script parser gets.\<close>

fun filter_value :: "entityfilter_ctx \<Rightarrow> string \<Rightarrow> (string \<times> entityfilter_ctx) result" where
  "filter_value ctx [] = Inr ([], ctx)"
| "filter_value ctx (c # s) =
     bindE (entityfilter_process ctx c) (\<lambda>(out, ctx1).
     bindE (filter_value ctx1 s) (\<lambda>(rest, ctx2). Inr (out @ rest, ctx2)))"

section \<open>The buffer\<close>

definition ef_ok :: "entityfilter_ctx \<Rightarrow> bool" where
  "ef_ok ctx \<longleftrightarrow> length (ef_buffer ctx) = 10 \<and> ef_pos ctx \<le> 7"

lemma length_cstr: "length (cstr s) \<le> length s"
  by (simp add: cstr_def length_takeWhile_le)

lemma entity_convert_length: "length (entity_convert s c) \<le> 9"
proof -
  have "length (char_string n) \<le> 9" for n using length_cstr [of "[char_of (nat (n mod 256))]"] by (simp add: char_string_def)
  moreover have "entity_table_loop entityfilter_table s = Some v \<Longrightarrow> length v \<le> 9" for v
    by (auto simp: entityfilter_table_def split: if_splits)
  ultimately show ?thesis
    by (auto simp: entity_convert_def parse_hex_def parse_dec_def HTMLPARSER_MAX_ENTITY_SIZE_def split: option.splits)
qed

lemma process_ok:
  assumes "ef_ok ctx"
  shows "\<exists>out ctx'. entityfilter_process ctx c = Inr (out, ctx') \<and> ef_ok ctx' \<and> length out \<le> 9"
  using assms length_cstr [of "[c]"]
  by (auto simp: ef_ok_def entityfilter_process_def HTMLPARSER_MAX_ENTITY_SIZE_def Let_def entity_convert_length)

text \<open>The name of an entity as it is read.\<close>

definition holding :: "string \<Rightarrow> entityfilter_ctx \<Rightarrow> bool" where
  "holding p ctx \<longleftrightarrow> ef_in ctx \<and> length (ef_buffer ctx) = 10 \<and> ef_pos ctx = length p \<and> take (length p) (ef_buffer ctx) = p"

definition idle :: "entityfilter_ctx \<Rightarrow> bool" where
  "idle ctx \<longleftrightarrow> \<not> ef_in ctx \<and> ef_ok ctx"

definition name_char :: "char \<Rightarrow> bool" where
  "name_char c \<longleftrightarrow> c \<noteq> CHR '';'' \<and> \<not> html_isspace c \<and> c \<noteq> NUL"

lemma process_name_char:
  assumes "holding p ctx" "name_char c" "length p < 7"
  shows "\<exists>ctx'. entityfilter_process ctx c = Inr ([], ctx') \<and> holding (p @ [c]) ctx'"
  using assms
  by (simp add: holding_def entityfilter_process_def name_char_def Let_def HTMLPARSER_MAX_ENTITY_SIZE_def take_Suc_conv_app_nth)

lemma process_end:
  assumes "holding p ctx" "list_all name_char p" "length p \<le> 7"
  shows "\<exists>ctx'. entityfilter_process ctx (CHR '';'') = Inr (entity_convert p (CHR '';''), ctx') \<and> idle ctx'"
proof -
  let ?buf = "(ef_buffer ctx)[ef_pos ctx := NUL]"
  have "?buf = p @ NUL # drop (Suc (length p)) (ef_buffer ctx)"
    using assms(1,3) by (simp add: holding_def upd_conv_take_nth_drop)
  moreover have "NUL \<notin> set p" using assms(2) by (auto simp: list_all_iff name_char_def)
  ultimately have "cstr ?buf = p" by (simp add: cstr_def takeWhile_until)
  then show ?thesis
    using assms(1,3) by (simp add: holding_def entityfilter_process_def Let_def idle_def ef_ok_def)
qed

lemma filter_entity_rest:
  "holding p ctx \<Longrightarrow> list_all name_char (p @ e) \<Longrightarrow> length (p @ e) \<le> 7 \<Longrightarrow>
   \<exists>ctx'. idle ctx' \<and> (\<forall>t. filter_value ctx (e @ CHR '';'' # t) =
     bindE (filter_value ctx' t) (\<lambda>(rest, x). Inr (entity_convert (p @ e) (CHR '';'') @ rest, x)))"
proof (induction e arbitrary: p ctx)
  case Nil
  then obtain ctx' where "entityfilter_process ctx (CHR '';'') = Inr (entity_convert p (CHR '';''), ctx')" "idle ctx'"
    using process_end [of p ctx] by auto
  then show ?case by (intro exI [of _ ctx']) simp
next
  case (Cons c e)
  then obtain ctx1 where 1: "entityfilter_process ctx c = Inr ([], ctx1)" "holding (p @ [c]) ctx1"
    using process_name_char [of p ctx c] by auto
  from Cons.IH [OF 1(2)] Cons.prems obtain ctx' where "idle ctx'"
    "\<And>t. filter_value ctx1 (e @ CHR '';'' # t) =
     bindE (filter_value ctx' t) (\<lambda>(rest, x). Inr (entity_convert (p @ c # e) (CHR '';'') @ rest, x))"
    by auto
  with 1 show ?case by (intro exI [of _ ctx']) (simp add: bindE_assoc split_def)
qed

lemma filter_entity:
  assumes "idle ctx" "list_all name_char e" "length e \<le> 7"
  shows "\<exists>ctx'. idle ctx' \<and> (\<forall>t. filter_value ctx (CHR ''&'' # e @ CHR '';'' # t) =
     bindE (filter_value ctx' t) (\<lambda>(rest, x). Inr (entity_convert e (CHR '';'') @ rest, x)))"
proof -
  let ?ctx1 = "ctx\<lparr>ef_in := True, ef_pos := 0\<rparr>"
  have "holding [] ?ctx1" using assms(1) by (simp add: holding_def idle_def ef_ok_def)
  from filter_entity_rest [OF this, of e] assms(2,3) obtain ctx' where "idle ctx'"
    "\<And>t. filter_value ?ctx1 (e @ CHR '';'' # t) =
     bindE (filter_value ctx' t) (\<lambda>(rest, x). Inr (entity_convert e (CHR '';'') @ rest, x))" by auto
  moreover have "entityfilter_process ctx (CHR ''&'') = Inr ([], ?ctx1)"
    using assms(1) by (simp add: entityfilter_process_def idle_def)
  ultimately show ?thesis by (intro exI [of _ ctx']) (simp add: bindE_assoc split_def)
qed

text \<open>The entities that the HTML modifier writes.\<close>

lemma entity_values:
  "entity_convert ''amp'' (CHR '';'') = ''&''" "entity_convert ''quot'' (CHR '';'') = [QUOT]"
  "entity_convert ''lt'' (CHR '';'') = ''<''" "entity_convert ''gt'' (CHR '';'') = ''>''"
  by (simp_all add: entity_convert_def entityfilter_table_def strcasecmp_0_def tolower_str_def tolower_chr_def)

lemma entity_39: "entity_convert ''#39'' (CHR '';'') = [APOS]"
proof -
  have "strtol 10 ''39'' = (39, [])"
    by (simp add: strtol_def isspace_c_def take_sign_def skip_0x_def is_digit_in_def digit_val_def clamp_long_def digits_value_def)
  moreover have "char_of (39::nat) = APOS"
  proof -
    have "(of_char APOS :: nat) = 39" by simp
    then show ?thesis using char_of_char [of APOS] by metis
  qed
  ultimately show ?thesis by (simp add: entity_convert_def parse_dec_def char_string_def)
qed

lemma html_case_pieces:
  obtains (entity) e where "replaced html_case c = CHR ''&'' # e @ '';''" "list_all name_char e" "length e \<le> 7"
      "entity_convert e (CHR '';'') = [html_norm c]"
    | (space) "replaced html_case c = '' ''" "html_norm c = CHR '' ''"
    | (plain) "replaced html_case c = [c]" "html_norm c = c" "c \<noteq> CHR ''&''"
proof -
  have names: "list_all name_char ''amp''" "list_all name_char ''quot''" "list_all name_char ''#39''"
    "list_all name_char ''lt''" "list_all name_char ''gt''"
    by (simp_all add: name_char_def html_isspace_def)
  consider "c = CHR ''&''" | "c = QUOT" | "c = APOS" | "c = CHR ''<''" | "c = CHR ''>''"
    | "c \<in> {CR, LF, VT, FF, TAB}"
    | "c \<noteq> CHR ''&'' \<and> c \<noteq> QUOT \<and> c \<noteq> APOS \<and> c \<noteq> CHR ''<'' \<and> c \<noteq> CHR ''>'' \<and> c \<notin> {CR, LF, VT, FF, TAB}"
    by satx
  then show ?thesis
  proof cases
    case 1
    then show ?thesis using entity [of "''amp''"] names entity_values by (simp add: replaced_def html_case_def html_norm_def)
  next
    case 2
    then show ?thesis using entity [of "''quot''"] names entity_values by (simp add: replaced_def html_case_def html_norm_def)
  next
    case 3
    then show ?thesis using entity [of "''#39''"] names entity_39 by (simp add: replaced_def html_case_def html_norm_def)
  next
    case 4
    then show ?thesis using entity [of "''lt''"] names entity_values by (simp add: replaced_def html_case_def html_norm_def)
  next
    case 5
    then show ?thesis using entity [of "''gt''"] names entity_values by (simp add: replaced_def html_case_def html_norm_def)
  next
    case 6
    then show ?thesis using space by (auto simp: replaced_def html_case_def html_norm_def)
  next
    case 7
    then show ?thesis using plain by (simp add: replaced_def html_case_def html_norm_def)
  qed
qed

lemma filter_plain:
  assumes "idle ctx" "c \<noteq> CHR ''&''" "c \<noteq> NUL"
  shows "filter_value ctx (c # t) = bindE (filter_value ctx t) (\<lambda>(rest, x). Inr (c # rest, x))"
  using assms by (simp add: entityfilter_process_def idle_def)

lemma filter_piece:
  assumes "idle ctx" "c \<noteq> NUL"
  shows "\<exists>ctx'. idle ctx' \<and> (\<forall>t. filter_value ctx (replaced html_case c @ t) =
     bindE (filter_value ctx' t) (\<lambda>(rest, x). Inr (html_norm c # rest, x)))"
proof (rule html_case_pieces [of c])
  fix e assume e: "replaced html_case c = CHR ''&'' # e @ '';''" "list_all name_char e" "length e \<le> 7"
    "entity_convert e (CHR '';'') = [html_norm c]"
  from filter_entity [OF assms(1) e(2,3)] show ?thesis by (simp add: e(1,4))
next
  assume "replaced html_case c = '' ''" "html_norm c = CHR '' ''"
  then show ?thesis using filter_plain [OF assms(1), of "CHR '' ''"] assms(1) by auto
next
  assume "replaced html_case c = [c]" "html_norm c = c" "c \<noteq> CHR ''&''"
  then show ?thesis using filter_plain [OF assms(1), of c] assms by auto
qed

lemma filter_escaped:
  "idle ctx \<Longrightarrow> nul_free s \<Longrightarrow>
     \<exists>ctx'. filter_value ctx (concat (map (replaced html_case) s)) = Inr (map html_norm s, ctx') \<and> idle ctx'"
proof (induction s arbitrary: ctx)
  case (Cons c s)
  then obtain ctx1 where "idle ctx1" "\<And>t. filter_value ctx (replaced html_case c @ t) =
     bindE (filter_value ctx1 t) (\<lambda>(rest, x). Inr (html_norm c # rest, x))"
    using filter_piece [of ctx c] by (auto simp: nul_free_def)
  moreover obtain ctx' where "filter_value ctx1 (concat (map (replaced html_case) s)) = Inr (map html_norm s, ctx')" "idle ctx'"
    using Cons calculation(1) by (auto simp: nul_free_def)
  ultimately show ?case by simp
qed simp

section \<open>Properties\<close>

text \<open>The entity filter never leaves its buffer of ten characters, whatever the value, however long
  its entities and wherever it was before, and no character makes it hand more than nine
  characters to the script parser.\<close>

theorem entityfilter_bounds:
  assumes "ef_ok ctx"
  shows "\<exists>out ctx'. filter_value ctx s = Inr (out, ctx') \<and> ef_ok ctx' \<and> length out \<le> 9 * length s"
  using assms
proof (induction s arbitrary: ctx)
  case (Cons c s)
  obtain out1 ctx1 where 1: "entityfilter_process ctx c = Inr (out1, ctx1)" "ef_ok ctx1" "length out1 \<le> 9"
    using process_ok [OF Cons.prems] by blast
  from Cons.IH [OF 1(2)] obtain out ctx' where "filter_value ctx1 s = Inr (out, ctx')" "ef_ok ctx'" "length out \<le> 9 * length s"
    by blast
  with 1 show ?case by simp
qed simp

theorem entityfilter_bounds_witness:
  "\<exists>out ctx'. filter_value \<lparr>ef_buffer = replicate 10 NUL, ef_pos = 0, ef_in = False\<rparr> ''&averylongentity;&lt;'' = Inr (out, ctx') \<and>
     ef_ok ctx' \<and> length out \<le> 9 * length ''&averylongentity;&lt;''"
  by (rule entityfilter_bounds) (simp add: ef_ok_def)



end
