(* ===== verification/Html_Parser.thy ===== *)
theory Html_Parser
  imports Js_Parser Html_Entities
begin

text \<open>
  The HTML parser of the template engine (\<open>third/ctemplate-2.2/src/htmlparser/htmlparser.cc\<close>): a
  machine over the tables of the theory \<open>Html_Tables\<close> whose events record names and values and feed
  scripts to the javascript parser, and its answers about the place that it is at. The
  pointers from the parser to its machine and back are one context whose data is the
  record of the parser. The parser may be asked only about a context that it made.
\<close>

section \<open>Data\<close>

record htmlparser_data = html_record +
  value_index :: int
  jsparser :: jsparser_ctx
  entityfilter :: entityfilter_ctx

type_synonym htmlparser_ctx = "htmlparser_data statemachine_ctx"

definition html_state_external :: "int \<Rightarrow> html_state result" where
  "html_state_external st =
     (if st = STATEMACHINE_ERROR then Inr STATE_ERROR else lookup_event htmlparser_states_external st)"

definition is_js_attribute :: "string \<Rightarrow> bool" where
  "is_js_attribute a \<longleftrightarrow> take 2 a = ''on''"

definition is_style_attribute :: "string \<Rightarrow> bool" where
  "is_style_attribute a \<longleftrightarrow> a = ''style''"

definition is_uri_attribute :: "string \<Rightarrow> bool" where
  "is_uri_attribute a =
     (case a of [] \<Rightarrow> False
      | c # _ \<Rightarrow>
          if c = CHR ''a'' then a = ''action'' \<or> a = ''archive''
          else if c = CHR ''b'' then a = ''background''
          else if c = CHR ''c'' then a = ''cite'' \<or> a = ''classid'' \<or> a = ''codebase''
          else if c = CHR ''d'' then a = ''data'' \<or> a = ''dynsrc''
          else if c = CHR ''h'' then a = ''href''
          else if c = CHR ''l'' then a = ''longdesc''
          else if c = CHR ''s'' then a = ''src''
          else if c = CHR ''u'' then a = ''usemap''
          else False)"

section \<open>Redirections\<close>

definition ignore_spaces_or_digits :: "string \<Rightarrow> string" where
  "ignore_spaces_or_digits v = dropWhile (\<lambda>c. html_isspace c \<or> 48 \<le> (of_char c :: nat) \<and> of_char c \<le> (57::nat)) v"

definition ignore_spaces :: "string \<Rightarrow> string" where
  "ignore_spaces v = dropWhile html_isspace v"

text \<open>A C string is read up to its end; \<open>None\<close> is the null pointer.\<close>

definition meta_redirect_type :: "string option \<Rightarrow> redirect_type" where
  "meta_redirect_type val_opt =
     (case val_opt of None \<Rightarrow> META_REDIRECT_TYPE_NONE
      | Some v0 \<Rightarrow>
          (let v1 = ignore_spaces_or_digits v0 in
           if v1 = [] \<or> hd v1 \<noteq> CHR '';'' then META_REDIRECT_TYPE_NONE
           else
             (let v2 = ignore_spaces (tl v1) in
              if map tolower_chr (take 3 v2) \<noteq> ''url'' then META_REDIRECT_TYPE_NONE
              else
                (let v3 = ignore_spaces (drop 3 v2) in
                 if v3 = [] \<or> hd v3 \<noteq> CHR ''='' then META_REDIRECT_TYPE_NONE
                 else
                   (let v4 = ignore_spaces (tl v3);
                        v5 = (if v4 \<noteq> [] \<and> (hd v4 = CHR 0x22 \<or> hd v4 = CHR 0x27) then tl v4 else v4)
                    in if v5 = [] then META_REDIRECT_TYPE_URL_START else META_REDIRECT_TYPE_URL)))))"

section \<open>Events\<close>

text \<open>The other event functions are in the theory \<open>Html_Statemachine\<close>.\<close>

definition enter_value :: "htmlparser_data state_event_function" where
  "enter_value ctx st c nx =
     (let html = (user ctx)\<lparr>value_index := 0\<rparr>
      in Inr (ctx\<lparr>user :=
           (if is_js_attribute (attr html)
            then html\<lparr>entityfilter := entityfilter_reset (entityfilter html), jsparser := jsparser_reset (jsparser html),
              in_js := True\<rparr>
            else html\<lparr>in_js := False\<rparr>)\<rparr>))"

definition in_state_value :: "htmlparser_data state_event_function" where
  "in_state_value ctx st c nx =
     (let html = (user ctx)\<lparr>value_index := value_index (user ctx) + 1\<rparr>
      in if in_js html then
           bindE (entityfilter_process (entityfilter html) c) (\<lambda>(out, ef).
           bindE (jsparser_parse_str (jsparser html) out) (\<lambda>js.
             Inr (ctx\<lparr>user := html\<lparr>entityfilter := ef, jsparser := js\<rparr>\<rparr>)))
         else Inr (ctx\<lparr>user := html\<rparr>))"

definition tag_close :: "htmlparser_data state_event_function" where
  "tag_close ctx st c nx =
     (let html = user ctx
      in if tag html = ''script'' then
           Inr (ctx\<lparr>next_state := INT_CDATA_TEXT, user := html\<lparr>jsparser := jsparser_reset (jsparser html), in_js := True\<rparr>\<rparr>)
         else if tag html = ''style'' \<or> tag html = ''title'' \<or> tag html = ''textarea'' then
           Inr (ctx\<lparr>next_state := INT_CDATA_TEXT, user := html\<lparr>in_js := False\<rparr>\<rparr>)
         else Inr ctx)"

definition in_state_cdata :: "htmlparser_data state_event_function" where
  "in_state_cdata ctx st c nx =
     (if in_js (user ctx) then
        bindE (jsparser_parse_chr (jsparser (user ctx)) c) (\<lambda>js. Inr (ctx\<lparr>user := (user ctx)\<lparr>jsparser := js\<rparr>\<rparr>))
      else Inr ctx)"

section \<open>The parser\<close>

text \<open>\<open>create_statemachine_definition\<close> of \<open>htmlparser.cc\<close>\<close>

definition html_create_definition :: "htmlparser_data statemachine_definition result" where
  "html_create_definition =
     (let def = statemachine_definition_populate (statemachine_definition_new HTMLPARSER_NUM_STATES)
                  htmlparser_state_transitions (Some htmlparser_states_internal_names)
      in bindE (statemachine_enter_state def INT_TAG_NAME enter_tag_name) (\<lambda>def.
         bindE (statemachine_exit_state def INT_TAG_NAME exit_tag_name) (\<lambda>def.
         bindE (statemachine_enter_state def INT_ATTR enter_attr) (\<lambda>def.
         bindE (statemachine_exit_state def INT_ATTR exit_attr) (\<lambda>def.
         bindE (statemachine_enter_state def INT_TAG_CLOSE tag_close) (\<lambda>def.
         bindE (statemachine_in_state def INT_CDATA_TEXT in_state_cdata) (\<lambda>def.
         bindE (statemachine_in_state def INT_CDATA_COMMENT_START in_state_cdata) (\<lambda>def.
         bindE (statemachine_in_state def INT_CDATA_COMMENT_START_DASH in_state_cdata) (\<lambda>def.
         bindE (statemachine_in_state def INT_CDATA_COMMENT_BODY in_state_cdata) (\<lambda>def.
         bindE (statemachine_in_state def INT_CDATA_COMMENT_DASH in_state_cdata) (\<lambda>def.
         bindE (statemachine_in_state def INT_CDATA_COMMENT_DASH_DASH in_state_cdata) (\<lambda>def.
         bindE (statemachine_in_state def INT_CDATA_LT in_state_cdata) (\<lambda>def.
         bindE (statemachine_in_state def INT_CDATA_MAY_CLOSE in_state_cdata) (\<lambda>def.
         bindE (statemachine_in_state def INT_JS_FILE in_state_cdata) (\<lambda>def.
         bindE (statemachine_enter_state def INT_CDATA_MAY_CLOSE enter_state_cdata_may_close) (\<lambda>def.
         bindE (statemachine_exit_state def INT_CDATA_MAY_CLOSE exit_state_cdata_may_close) (\<lambda>def.
         bindE (statemachine_enter_state def INT_VALUE enter_value) (\<lambda>def.
         bindE (statemachine_enter_state def INT_VALUE_TEXT enter_value_content) (\<lambda>def.
         bindE (statemachine_enter_state def INT_VALUE_Q enter_value_content) (\<lambda>def.
         bindE (statemachine_enter_state def INT_VALUE_DQ enter_value_content) (\<lambda>def.
         bindE (statemachine_exit_state def INT_VALUE_TEXT exit_value_content) (\<lambda>def.
         bindE (statemachine_exit_state def INT_VALUE_Q exit_value_content) (\<lambda>def.
         bindE (statemachine_exit_state def INT_VALUE_DQ exit_value_content) (\<lambda>def.
         bindE (statemachine_in_state def INT_VALUE_TEXT in_state_value) (\<lambda>def.
         bindE (statemachine_in_state def INT_VALUE_Q in_state_value) (\<lambda>def.
         statemachine_in_state def INT_VALUE_DQ in_state_value))))))))))))))))))))))))))"

definition htmlparser_reset_mode :: "html_mode \<Rightarrow> htmlparser_ctx \<Rightarrow> htmlparser_ctx" where
  "htmlparser_reset_mode mode ctx0 =
     (let ctx1 = statemachine_reset ctx0;
          ctx = ctx1\<lparr>user := (user ctx1)\<lparr>in_js := False, tag := [], attr := [], val := [],
                  jsparser := jsparser_reset (jsparser (user ctx1))\<rparr>\<rparr>
      in case mode of
           MODE_HTML \<Rightarrow> ctx\<lparr>current_state := INT_TEXT\<rparr>
         | MODE_JS \<Rightarrow> ctx\<lparr>current_state := INT_JS_FILE, user := (user ctx)\<lparr>in_js := True\<rparr>\<rparr>
         | MODE_CSS \<Rightarrow> ctx\<lparr>current_state := INT_CSS_FILE\<rparr>
         | MODE_HTML_IN_TAG \<Rightarrow> ctx\<lparr>current_state := INT_TAG_SPACE\<rparr>)"

definition htmlparser_reset :: "htmlparser_ctx \<Rightarrow> htmlparser_ctx" where
  "htmlparser_reset ctx = htmlparser_reset_mode MODE_HTML ctx"

text \<open>The parser is allocated with zeros, its parts are not: their memory is an argument.\<close>

definition htmlparser_new :: "htmlparser_ctx \<Rightarrow> jsparser_ctx \<Rightarrow> entityfilter_ctx \<Rightarrow> htmlparser_ctx" where
  "htmlparser_new raw raw_js raw_ef =
     htmlparser_reset (statemachine_new raw
       \<lparr>tag = [], attr = [], val = [], in_js = False, value_index = 0, jsparser = jsparser_new raw_js,
        entityfilter = entityfilter_new raw_ef\<rparr>)"

definition htmlparser_copy :: "htmlparser_ctx \<Rightarrow> htmlparser_ctx \<Rightarrow> htmlparser_ctx" where
  "htmlparser_copy dst src =
     (let html = (user dst)\<lparr>value_index := value_index (user src), in_js := in_js (user src), tag := tag (user src),
                   attr := attr (user src), val := val (user src),
                   jsparser := jsparser_copy (jsparser (user dst)) (jsparser (user src)),
                   entityfilter := entityfilter_copy (entityfilter (user dst)) (entityfilter (user src))\<rparr>
      in statemachine_copy dst src html)"

definition htmlparser_state :: "htmlparser_ctx \<Rightarrow> html_state result" where
  "htmlparser_state ctx = html_state_external (current_state ctx)"

definition htmlparser_parse :: "htmlparser_ctx \<Rightarrow> string \<Rightarrow> int \<Rightarrow> (html_state \<times> htmlparser_ctx) result" where
  "htmlparser_parse ctx str len =
     bindE html_create_definition (\<lambda>def.
     bindE (statemachine_parse def str len ctx) (\<lambda>(st, ctx1).
     bindE (html_state_external st) (\<lambda>ext. Inr (ext, ctx1))))"

definition htmlparser_insert_text :: "htmlparser_ctx \<Rightarrow> htmlparser_ctx result" where
  "htmlparser_insert_text ctx =
     (if current_state ctx = INT_VALUE
      then bindE html_create_definition (\<lambda>def. statemachine_set_state def INT_VALUE_TEXT ctx)
      else Inr ctx)"

section \<open>Answers\<close>

definition htmlparser_is_attr_quoted :: "htmlparser_ctx \<Rightarrow> bool" where
  "htmlparser_is_attr_quoted ctx \<longleftrightarrow>
     current_state ctx \<in> {INT_VALUE_Q_START, INT_VALUE_Q, INT_VALUE_DQ_START, INT_VALUE_DQ}"

definition htmlparser_in_js :: "htmlparser_ctx \<Rightarrow> bool result" where
  "htmlparser_in_js ctx =
     (if in_js (user ctx) \<and>
         current_state ctx \<in> {INT_CDATA_TEXT, INT_CDATA_COMMENT_START, INT_CDATA_COMMENT_START_DASH,
           INT_CDATA_COMMENT_BODY, INT_CDATA_COMMENT_DASH, INT_CDATA_COMMENT_DASH_DASH, INT_CDATA_LT,
           INT_CDATA_MAY_CLOSE, INT_JS_FILE}
      then Inr True
      else bindE (html_state_external (current_state ctx)) (\<lambda>ext. Inr (ext = STATE_VALUE \<and> in_js (user ctx))))"

definition htmlparser_tag :: "htmlparser_ctx \<Rightarrow> string option" where
  "htmlparser_tag ctx = (if tag (user ctx) \<noteq> [] then Some (tag (user ctx)) else None)"

definition htmlparser_in_attr :: "htmlparser_ctx \<Rightarrow> bool result" where
  "htmlparser_in_attr ctx =
     bindE (html_state_external (current_state ctx)) (\<lambda>ext. Inr (ext = STATE_ATTR \<or> ext = STATE_VALUE))"

definition htmlparser_attr :: "htmlparser_ctx \<Rightarrow> string option result" where
  "htmlparser_attr ctx =
     bindE (htmlparser_in_attr ctx) (\<lambda>b. Inr (if b then Some (attr (user ctx)) else None))"

text \<open>The value is copied out of the record buffer.\<close>

definition htmlparser_value :: "htmlparser_ctx \<Rightarrow> (string option \<times> htmlparser_ctx) result" where
  "htmlparser_value ctx =
     bindE (html_state_external (current_state ctx)) (\<lambda>ext.
       if ext = STATE_VALUE then
         (let v = take (HTMLPARSER_MAX_STRING - 1) (statemachine_record_buffer ctx)
          in Inr (Some v, ctx\<lparr>user := (user ctx)\<lparr>val := v\<rparr>\<rparr>))
       else Inr (None, ctx))"

definition htmlparser_attr_type :: "htmlparser_ctx \<Rightarrow> (attribute_type \<times> htmlparser_ctx) result" where
  "htmlparser_attr_type ctx =
     bindE (htmlparser_in_attr ctx) (\<lambda>b.
       if \<not> b then Inr (ATTR_NONE, ctx)
       else if is_js_attribute (attr (user ctx)) then Inr (ATTR_JS, ctx)
       else if is_uri_attribute (attr (user ctx)) then Inr (ATTR_URI, ctx)
       else if is_style_attribute (attr (user ctx)) then Inr (ATTR_STYLE, ctx)
       else if htmlparser_tag ctx = Some ''meta'' \<and> attr (user ctx) = ''content'' then
         bindE (htmlparser_value ctx) (\<lambda>(v, ctx1).
           Inr (if meta_redirect_type v = META_REDIRECT_TYPE_URL \<or> meta_redirect_type v = META_REDIRECT_TYPE_URL_START
                then ATTR_URI else ATTR_REGULAR, ctx1))
       else Inr (ATTR_REGULAR, ctx))"

definition htmlparser_in_css :: "htmlparser_ctx \<Rightarrow> (bool \<times> htmlparser_ctx) result" where
  "htmlparser_in_css ctx =
     bindE (html_state_external (current_state ctx)) (\<lambda>ext.
       if current_state ctx = INT_CSS_FILE then Inr (True, ctx)
       else if ext = STATE_VALUE then
         bindE (htmlparser_attr_type ctx) (\<lambda>(t, ctx1).
           Inr (t = ATTR_STYLE \<or> htmlparser_tag ctx = Some ''style'', ctx1))
       else Inr (htmlparser_tag ctx = Some ''style'', ctx))"

definition htmlparser_js_state :: "htmlparser_ctx \<Rightarrow> js_state result" where
  "htmlparser_js_state ctx = jsparser_state (jsparser (user ctx))"

definition htmlparser_is_js_quoted :: "htmlparser_ctx \<Rightarrow> bool result" where
  "htmlparser_is_js_quoted ctx =
     bindE (htmlparser_in_js ctx) (\<lambda>b.
       if b then
         bindE (jsparser_state (jsparser (user ctx))) (\<lambda>st. Inr (st = JSPARSER_STATE_Q \<or> st = JSPARSER_STATE_DQ))
       else Inr False)"

definition htmlparser_in_value :: "htmlparser_ctx \<Rightarrow> bool result" where
  "htmlparser_in_value ctx = bindE (html_state_external (current_state ctx)) (\<lambda>ext. Inr (ext = STATE_VALUE))"

definition htmlparser_value_index :: "htmlparser_ctx \<Rightarrow> int result" where
  "htmlparser_value_index ctx =
     bindE (htmlparser_in_value ctx) (\<lambda>b. Inr (if b then value_index (user ctx) else - 1))"

definition htmlparser_is_url_start :: "htmlparser_ctx \<Rightarrow> (bool \<times> htmlparser_ctx) result" where
  "htmlparser_is_url_start ctx =
     bindE (htmlparser_attr_type ctx) (\<lambda>(t, ctx1).
       if t = ATTR_URI then
         bindE (if htmlparser_tag ctx1 = Some ''meta''
                then bindE (htmlparser_value ctx1) (\<lambda>(v, ctx2). Inr (meta_redirect_type v = META_REDIRECT_TYPE_URL_START, ctx2))
                else Inr (False, ctx1)) (\<lambda>(start, ctx2).
           if start then Inr (True, ctx2)
           else bindE (htmlparser_value_index ctx2) (\<lambda>i. Inr (i = 0, ctx2)))
       else Inr (False, ctx1))"

end
