(* ===== verification/Html_Progress.thy ===== *)
theory Html_Progress
  imports Html_Parser
begin

text \<open>
  The HTML parser of the template engine keeps its context in order and answers: the types and
  bounds of its parts are an invariant, and reading fails on no text but one that holds
  the byte 255 or names it in an entity.
\<close>

section \<open>The definition that the parser creates\<close>

definition html_def :: "htmlparser_data statemachine_definition" where
  "html_def =
     \<lparr>num_states = 33, transition_table = htmlparser_state_transitions, state_names = Some htmlparser_states_internal_names,
      in_state_events = (replicate 33 None)
        [26 := Some in_state_cdata, 21 := Some in_state_cdata, 22 := Some in_state_cdata, 23 := Some in_state_cdata,
         24 := Some in_state_cdata, 25 := Some in_state_cdata, 27 := Some in_state_cdata, 28 := Some in_state_cdata,
         29 := Some in_state_cdata, 16 := Some in_state_value, 18 := Some in_state_value, 20 := Some in_state_value],
      enter_state_events = (replicate 33 None)
        [2 := Some enter_tag_name, 13 := Some enter_attr, 12 := Some tag_close, 28 := Some enter_state_cdata_may_close,
         15 := Some enter_value, 16 := Some enter_value_content, 18 := Some enter_value_content,
         20 := Some enter_value_content],
      exit_state_events = (replicate 33 None)
        [2 := Some exit_tag_name, 13 := Some exit_attr, 28 := Some exit_state_cdata_may_close,
         16 := Some exit_value_content, 18 := Some exit_value_content, 20 := Some exit_value_content]\<rparr>"

lemma html_created: "html_create_definition = Inr html_def"
  by (simp add: html_create_definition_def html_def_def statemachine_definition_new_def statemachine_definition_populate_def
      statemachine_in_state_def statemachine_enter_state_def statemachine_exit_state_def set_event_def
      HTMLPARSER_NUM_STATES_def Let_def)

lemma html_state_cases:
  fixes st :: int
  assumes "0 \<le> st" "st < 32"
  shows "st = 0 \<or> st = 1 \<or> st = 2 \<or> st = 3 \<or> st = 4 \<or> st = 5 \<or> st = 6 \<or> st = 7 \<or> st = 8 \<or> st = 9 \<or> st = 10 \<or> st = 11 \<or> st = 12 \<or> st = 13 \<or> st = 14 \<or> st = 15 \<or>
    st = 16 \<or> st = 17 \<or> st = 18 \<or> st = 19 \<or> st = 20 \<or> st = 21 \<or> st = 22 \<or> st = 23 \<or> st = 24 \<or> st = 25 \<or> st = 26 \<or> st = 27 \<or> st = 28 \<or> st = 29 \<or> st = 30 \<or> st = 31"
  using assms by presburger

lemma html_fire:
  assumes "0 \<le> st" "st < 32"
  shows "fire (exit_state_events html_def) st c ctx =
      (if st = 2 then exit_tag_name ctx (current_state ctx) c (next_state ctx)
       else if st = 13 then exit_attr ctx (current_state ctx) c (next_state ctx)
       else if st = 28 then exit_state_cdata_may_close ctx (current_state ctx) c (next_state ctx)
       else if st \<in> {16, 18, 20} then exit_value_content ctx (current_state ctx) c (next_state ctx)
       else Inr ctx)"
    "fire (enter_state_events html_def) st c ctx =
      (if st = 2 then enter_tag_name ctx (current_state ctx) c (next_state ctx)
       else if st = 13 then enter_attr ctx (current_state ctx) c (next_state ctx)
       else if st = 28 then enter_state_cdata_may_close ctx (current_state ctx) c (next_state ctx)
       else if st \<in> {16, 18, 20} then enter_value_content ctx (current_state ctx) c (next_state ctx)
       else if st = 12 then tag_close ctx (current_state ctx) c (next_state ctx)
       else if st = 15 then enter_value ctx (current_state ctx) c (next_state ctx)
       else Inr ctx)"
    "fire (in_state_events html_def) st c ctx =
      (if st \<in> {16, 18, 20} then in_state_value ctx (current_state ctx) c (next_state ctx)
       else if 21 \<le> st \<and> st \<le> 29 then in_state_cdata ctx (current_state ctx) c (next_state ctx)
       else Inr ctx)"
proof -
  note cases = html_state_cases [OF assms(1,2)]
  show "fire (exit_state_events html_def) st c ctx =
      (if st = 2 then exit_tag_name ctx (current_state ctx) c (next_state ctx)
       else if st = 13 then exit_attr ctx (current_state ctx) c (next_state ctx)
       else if st = 28 then exit_state_cdata_may_close ctx (current_state ctx) c (next_state ctx)
       else if st \<in> {16, 18, 20} then exit_value_content ctx (current_state ctx) c (next_state ctx)
       else Inr ctx)"
    using cases by (elim disjE) (simp_all add: fire_def lookup_event_def html_def_def)
  show "fire (enter_state_events html_def) st c ctx =
      (if st = 2 then enter_tag_name ctx (current_state ctx) c (next_state ctx)
       else if st = 13 then enter_attr ctx (current_state ctx) c (next_state ctx)
       else if st = 28 then enter_state_cdata_may_close ctx (current_state ctx) c (next_state ctx)
       else if st \<in> {16, 18, 20} then enter_value_content ctx (current_state ctx) c (next_state ctx)
       else if st = 12 then tag_close ctx (current_state ctx) c (next_state ctx)
       else if st = 15 then enter_value ctx (current_state ctx) c (next_state ctx)
       else Inr ctx)"
    using cases by (elim disjE) (simp_all add: fire_def lookup_event_def html_def_def)
  show "fire (in_state_events html_def) st c ctx =
      (if st \<in> {16, 18, 20} then in_state_value ctx (current_state ctx) c (next_state ctx)
       else if 21 \<le> st \<and> st \<le> 29 then in_state_cdata ctx (current_state ctx) c (next_state ctx)
       else Inr ctx)"
    using cases by (elim disjE) (simp_all add: fire_def lookup_event_def html_def_def)
qed

definition html_next :: "int \<Rightarrow> char \<Rightarrow> int" where
  "html_next st c = htmlparser_state_transitions ! nat st ! of_char c"

lemma html_transition:
  assumes "0 \<le> st" "st < 32" "plain_byte c"
  shows "transition html_def st c = Inr (html_next st c)"
    "0 \<le> html_next st c \<and> html_next st c < 32 \<or> html_next st c = STATEMACHINE_ERROR"
proof -
  have n: "nat st < length htmlparser_state_transitions" using assms html_table(1) by simp
  from html_table(2) [OF nth_mem [OF this]]
  have row: "length (htmlparser_state_transitions ! nat st) = 255"
    "\<forall>x \<in> set (htmlparser_state_transitions ! nat st). 0 \<le> x \<and> x < 32 \<or> x = STATEMACHINE_ERROR" by auto
  have i: "of_char c < length (htmlparser_state_transitions ! nat st)" using assms(3) row(1) by (simp add: plain_byte_def)
  show "transition html_def st c = Inr (html_next st c)"
    using assms n i by (simp add: transition_def lookup_event_def html_def_def html_next_def)
  show "0 \<le> html_next st c \<and> html_next st c < 32 \<or> html_next st c = STATEMACHINE_ERROR"
    using row(2) nth_mem [OF i] by (auto simp: html_next_def)
qed

text \<open>Where values and the end of a script can begin.\<close>

lemma html_next_from:
  assumes "0 \<le> st" "st < 32" "plain_byte c"
  shows "html_next st c \<in> {16, 17, 19} \<Longrightarrow> st = 15 \<or> st = html_next st c \<and> st = 16"
    "html_next st c = 18 \<Longrightarrow> st = 17 \<or> st = 18"
    "html_next st c = 20 \<Longrightarrow> st = 19 \<or> st = 20"
    "html_next st c = 28 \<Longrightarrow> st = 28 \<or> st = 27 \<and> c = CHR ''/''"
proof -
  have slash: "of_char c = (47::nat) \<Longrightarrow> c = CHR ''/''"
  proof -
    assume "of_char c = (47::nat)"
    then have "of_char c = (of_char (CHR ''/'') :: nat)" by simp
    then show ?thesis by (metis char_of_char)
  qed
  have n: "of_char c < (255::nat)" using assms(3) by (simp add: plain_byte_def)
  note cases = html_state_cases [OF assms(1,2)]
  have "(html_next st c \<in> {16, 17, 19} \<longrightarrow> st = 15 \<or> st = html_next st c \<and> st = 16) \<and>
      (html_next st c = 18 \<longrightarrow> st = 17 \<or> st = 18) \<and> (html_next st c = 20 \<longrightarrow> st = 19 \<or> st = 20) \<and>
      (html_next st c = 28 \<longrightarrow> st = 28 \<or> st = 27 \<and> of_char c = (47::nat))"
    using cases
    by (elim disjE) (simp_all add: html_next_def htmlparser_state_transitions_def html_rows fsm_row_nth [OF n]
        STATEMACHINE_ERROR_def)
  then show "html_next st c \<in> {16, 17, 19} \<Longrightarrow> st = 15 \<or> st = html_next st c \<and> st = 16"
    "html_next st c = 18 \<Longrightarrow> st = 17 \<or> st = 18" "html_next st c = 20 \<Longrightarrow> st = 19 \<or> st = 20"
    "html_next st c = 28 \<Longrightarrow> st = 28 \<or> st = 27 \<and> c = CHR ''/''"
    using slash by auto
qed

section \<open>The text and the entities in it\<close>

definition ends_entity :: "char \<Rightarrow> bool" where
  "ends_entity c \<longleftrightarrow> c = CHR '';'' \<or> html_isspace c"

text \<open>What the entity at the start of a text stands for holds no byte 255.\<close>

definition entity_plain :: "string \<Rightarrow> bool" where
  "entity_plain s =
     (let e = takeWhile (\<lambda>c. \<not> ends_entity c) s
      in case drop (length e) s of [] \<Rightarrow> True | t # _ \<Rightarrow> length e \<le> 7 \<longrightarrow> list_all plain_byte (entity_convert (cstr e) t))"

text \<open>A text that the tables cover, entities included.\<close>

fun readable :: "string \<Rightarrow> bool" where
  "readable [] \<longleftrightarrow> True"
| "readable (c # s) \<longleftrightarrow> plain_byte c \<and> (c = CHR ''&'' \<longrightarrow> entity_plain s) \<and> readable s"

lemma entity_plain_end:
  assumes "list_all (\<lambda>c. \<not> ends_entity c) p" "length p \<le> 7" "ends_entity c" "entity_plain (p @ c # s)"
  shows "list_all plain_byte (entity_convert (cstr p) c)"
proof -
  have "takeWhile (\<lambda>c. \<not> ends_entity c) (p @ c # s) = p"
    using assms(1,3) by (simp add: takeWhile_append2 list_all_iff)
  then show ?thesis using assms(2,4) by (simp add: entity_plain_def)
qed

definition held :: "entityfilter_ctx \<Rightarrow> string" where
  "held ef = take (ef_pos ef) (ef_buffer ef)"

text \<open>The filter before the rest of a text.\<close>

definition filter_ready :: "entityfilter_ctx \<Rightarrow> string \<Rightarrow> bool" where
  "filter_ready ef s \<longleftrightarrow>
     (ef_in ef \<longrightarrow> list_all (\<lambda>c. \<not> ends_entity c) (held ef) \<and> list_all plain_byte (held ef) \<and> entity_plain (held ef @ s))"

lemma list_all_take: "list_all P s \<Longrightarrow> list_all P (take n s)"
  by (auto simp: list_all_iff dest: in_set_takeD)

lemma list_all_cstr: "list_all P s \<Longrightarrow> list_all P (cstr s)"
  by (auto simp: list_all_iff cstr_def dest: set_takeWhileD)

lemma cstr_held:
  assumes "ef_pos ef < length (ef_buffer ef)"
  shows "cstr ((ef_buffer ef)[ef_pos ef := NUL]) = cstr (held ef)"
proof -
  have "(ef_buffer ef)[ef_pos ef := NUL] = held ef @ NUL # drop (Suc (ef_pos ef)) (ef_buffer ef)"
    using assms by (simp add: held_def upd_conv_take_nth_drop)
  moreover have "takeWhile (\<lambda>c. c \<noteq> NUL) (h @ NUL # t) = takeWhile (\<lambda>c. c \<noteq> NUL) h" for h t
    by (induction h) simp_all
  ultimately show ?thesis by (simp add: cstr_def)
qed

lemma process_ready:
  assumes "ef_ok ef" "filter_ready ef (c # s)" "readable (c # s)"
  shows "\<exists>out ef'. entityfilter_process ef c = Inr (out, ef') \<and> ef_ok ef' \<and> list_all plain_byte out \<and> filter_ready ef' s"
proof (cases "ef_in ef")
  case False
  then show ?thesis
    using assms list_all_cstr [of plain_byte "[c]"]
    by (auto simp: entityfilter_process_def filter_ready_def held_def ef_ok_def)
next
  case inside: True
  have pos: "ef_pos ef < length (ef_buffer ef)" "length (ef_buffer ef) = 10" "ef_pos ef \<le> 7"
    using assms(1) by (simp_all add: ef_ok_def)
  have h: "list_all (\<lambda>c. \<not> ends_entity c) (held ef)" "list_all plain_byte (held ef)" "entity_plain (held ef @ c # s)"
    using assms(2) inside by (simp_all add: filter_ready_def)
  show ?thesis
  proof (cases "ends_entity c")
    case True
    have "length (held ef) \<le> 7" using pos by (simp add: held_def)
    from entity_plain_end [OF h(1) this True h(3)] show ?thesis
      using True inside pos by (simp add: entityfilter_process_def ends_entity_def cstr_held Let_def ef_ok_def filter_ready_def)
  next
    case False
    let ?ef = "ef\<lparr>ef_buffer := (ef_buffer ef)[ef_pos ef := c], ef_pos := ef_pos ef + 1\<rparr>"
    have held: "held ?ef = held ef @ [c]" using pos by (simp add: held_def take_Suc_conv_app_nth)
    have plain: "list_all plain_byte (held ?ef)" using h(2) assms(3) held by simp
    show ?thesis
    proof (cases "ef_pos ?ef \<ge> 8")
      case True
      then have "entityfilter_process ef c =
          Inr (take 9 (''&'' @ cstr ((ef_buffer ?ef)[ef_pos ?ef := NUL])),
            ?ef\<lparr>ef_buffer := (ef_buffer ?ef)[ef_pos ?ef := NUL], ef_in := False, ef_pos := 0\<rparr>)"
        using False inside pos by (simp add: entityfilter_process_def ends_entity_def Let_def HTMLPARSER_MAX_ENTITY_SIZE_def)
      moreover have "list_all plain_byte (''&'' @ cstr ((ef_buffer ?ef)[ef_pos ?ef := NUL]))"
        using list_all_cstr [OF plain] cstr_held [of ?ef] pos by (simp add: plain_byte_def)
      ultimately show ?thesis using pos list_all_take [of plain_byte] by (simp add: ef_ok_def filter_ready_def del: append.simps)
    next
      case no: False
      then have "entityfilter_process ef c = Inr ([], ?ef)"
        using False inside pos by (simp add: entityfilter_process_def ends_entity_def Let_def HTMLPARSER_MAX_ENTITY_SIZE_def)
      then show ?thesis
        using no pos h plain held False inside by (simp add: ef_ok_def filter_ready_def)
    qed
  qed
qed

section \<open>The invariant\<close>

text \<open>The parts that every event keeps, and what depends on the state: a name or a value is being
  recorded, the end of a script begins with a slash, the entity filter of a script in an
  attribute starts outside of an entity, and a value is a script as its attribute says.\<close>

definition parts_ok :: "htmlparser_ctx \<Rightarrow> bool" where
  "parts_ok ctx \<longleftrightarrow> buffer_ok ctx \<and> js_ok (jsparser (user ctx)) \<and> ef_ok (entityfilter (user ctx))"

definition records :: "int \<Rightarrow> htmlparser_ctx \<Rightarrow> bool" where
  "records st ctx \<longleftrightarrow>
     (st \<in> {2, 13, 16, 18, 20, 28} \<longrightarrow> recording ctx) \<and>
     (st = 28 \<longrightarrow> recorded ctx \<noteq> [] \<and> hd (recorded ctx) = CHR ''/'')"

abbreviation (input) value_states :: "int set" where "value_states \<equiv> {15, 16, 17, 18, 19, 20}"

definition html_ok :: "htmlparser_ctx \<Rightarrow> bool" where
  "html_ok ctx \<longleftrightarrow>
     parts_ok ctx \<and> 0 \<le> current_state ctx \<and> current_state ctx < 32 \<and> records (current_state ctx) ctx \<and>
     (current_state ctx \<in> {15, 17, 19} \<and> in_js (user ctx) \<longrightarrow> \<not> ef_in (entityfilter (user ctx))) \<and>
     (current_state ctx \<in> value_states \<longrightarrow> in_js (user ctx) = is_js_attribute (attr (user ctx)))"

text \<open>The context before the rest of a text.\<close>

definition script_value :: "int \<Rightarrow> htmlparser_ctx \<Rightarrow> bool" where
  "script_value st ctx \<longleftrightarrow> st \<in> {16, 18, 20} \<and> in_js (user ctx)"

definition reads_on :: "htmlparser_ctx \<Rightarrow> string \<Rightarrow> bool" where
  "reads_on ctx s \<longleftrightarrow> readable s \<and> (script_value (current_state ctx) ctx \<longrightarrow> filter_ready (entityfilter (user ctx)) s)"

section \<open>The events of one character\<close>

lemma recorded_update [simp]:
  "recorded (ctx\<lparr>current_char := c\<rparr>) = recorded ctx" "recorded (ctx\<lparr>next_state := n\<rparr>) = recorded ctx"
  "recorded (ctx\<lparr>error_msg := m\<rparr>) = recorded ctx" "recorded (ctx\<lparr>user := u\<rparr>) = recorded ctx"
  by (simp_all add: recorded_def)

lemma stop_record_run:
  assumes "buffer_ok ctx" "recording ctx"
  shows "\<exists>buf. statemachine_stop_record ctx =
      Inr (cstr (recorded ctx), ctx\<lparr>record_buffer := buf, recording := False\<rparr>) \<and> length buf = 256"
proof -
  let ?buf = "(record_buffer ctx)[record_pos ctx := NUL]"
  have pos: "record_pos ctx < length (record_buffer ctx)" "length (record_buffer ctx) = 256"
    using assms(1) by (simp_all add: buffer_ok_def STATEMACHINE_RECORD_BUFFER_SIZE_def)
  have "?buf = recorded ctx @ NUL # drop (Suc (record_pos ctx)) (record_buffer ctx)"
    using pos by (simp add: recorded_def upd_conv_take_nth_drop)
  moreover have "takeWhile (\<lambda>c. c \<noteq> NUL) (h @ NUL # t) = takeWhile (\<lambda>c. c \<noteq> NUL) h" for h t
    by (induction h) simp_all
  ultimately have "cstr ?buf = cstr (recorded ctx)" by (simp add: cstr_def)
  then show ?thesis using pos assms(2) by (auto simp: statemachine_stop_record_def Let_def)
qed

lemma exit_run:
  assumes "parts_ok ctx" "0 \<le> current_state ctx" "current_state ctx < 32" "records (current_state ctx) ctx"
  shows "\<exists>ctx'. fire (exit_state_events html_def) (current_state ctx) c ctx = Inr ctx' \<and> parts_ok ctx' \<and>
    current_state ctx' = current_state ctx \<and> entityfilter (user ctx') = entityfilter (user ctx) \<and>
    (next_state ctx' = next_state ctx \<or> current_state ctx = 28 \<and> next_state ctx' = 26) \<and>
    (current_state ctx \<in> {15, 17, 19} \<longrightarrow> user ctx' = user ctx)"
proof (cases "current_state ctx \<in> {2, 13, 16, 18, 20, 28}")
  case True
  then have rec: "recording ctx" using assms(4) by (auto simp: records_def)
  have ok: "buffer_ok ctx" using assms(1) by (simp add: parts_ok_def)
  obtain buf where stop: "statemachine_stop_record ctx =
      Inr (cstr (recorded ctx), ctx\<lparr>record_buffer := buf, recording := False\<rparr>)" "length buf = 256"
    using stop_record_run [OF ok rec] by blast
  have parts: "parts_ok (ctx\<lparr>record_buffer := buf, recording := False, user := u\<rparr>)"
    if "jsparser u = jsparser (user ctx)" "entityfilter u = entityfilter (user ctx)" for u
    using assms(1) stop(2) that by (simp add: parts_ok_def buffer_ok_def STATEMACHINE_RECORD_BUFFER_SIZE_def)
  have parts2: "parts_ok (ctx\<lparr>record_buffer := buf, recording := False, next_state := n\<rparr>)" for n
    using assms(1) stop(2) by (simp add: parts_ok_def buffer_ok_def STATEMACHINE_RECORD_BUFFER_SIZE_def)
  have slash: "cstr (recorded ctx) \<noteq> [] \<and> hd (cstr (recorded ctx)) = CHR ''/''" if "current_state ctx = 28"
    using assms(4) that by (cases "recorded ctx") (auto simp: records_def cstr_def)
  show ?thesis
    using True slash parts parts2
    by (auto simp: html_fire(1) [OF assms(2,3)] exit_tag_name_def exit_attr_def exit_value_content_def
        exit_state_cdata_may_close_def stop(1) Let_def HTMLPARSER_STATE_INT_CDATA_TEXT_def)
next
  case False
  then show ?thesis using assms(1) by (auto simp: html_fire(1) [OF assms(2,3)])
qed

lemma parts_start_record: "parts_ok ctx \<Longrightarrow> parts_ok (statemachine_start_record ctx)"
  "recorded (statemachine_start_record ctx) = []" "recording (statemachine_start_record ctx)"
  by (simp_all add: parts_ok_def buffer_ok_def statemachine_start_record_def STATEMACHINE_RECORD_BUFFER_SIZE_def recorded_def)

lemma start_record_keeps [simp]:
  "user (statemachine_start_record ctx) = user ctx" "current_state (statemachine_start_record ctx) = current_state ctx"
  "next_state (statemachine_start_record ctx) = next_state ctx"
  by (simp_all add: statemachine_start_record_def)

lemma parts_user:
  "jsparser u = jsparser (user ctx) \<Longrightarrow> entityfilter u = entityfilter (user ctx) \<Longrightarrow> parts_ok ctx \<Longrightarrow> parts_ok (ctx\<lparr>user := u\<rparr>)"
  by (simp add: parts_ok_def buffer_ok_def)

lemma js_reset_ok: "js_ok js \<Longrightarrow> js_ok (jsparser_reset js)"
  by (simp add: js_ok_def jsparser_reset_def buffer_ok_def ring_ok_def)

lemma enter_run:
  assumes "parts_ok ctx" "0 \<le> next_state ctx" "next_state ctx < 32"
  shows "\<exists>ctx'. fire (enter_state_events html_def) (next_state ctx) c ctx = Inr ctx' \<and> parts_ok ctx' \<and>
    current_state ctx' = current_state ctx \<and>
    (next_state ctx' = next_state ctx \<or> next_state ctx = 12 \<and> next_state ctx' = 26) \<and>
    (next_state ctx \<in> {2, 13, 16, 18, 20, 28} \<longrightarrow> recording ctx' \<and> recorded ctx' = []) \<and>
    (next_state ctx \<in> {16, 17, 18, 19, 20} \<longrightarrow>
      in_js (user ctx') = in_js (user ctx) \<and> attr (user ctx') = attr (user ctx) \<and>
      entityfilter (user ctx') = entityfilter (user ctx)) \<and>
    (next_state ctx = 15 \<longrightarrow> in_js (user ctx') = is_js_attribute (attr (user ctx')) \<and>
      (in_js (user ctx') \<longrightarrow> \<not> ef_in (entityfilter (user ctx'))))"
proof -
  consider (start) "next_state ctx \<in> {2, 13, 16, 18, 20, 28}" | (close) "next_state ctx = 12" | (begins) "next_state ctx = 15"
    | (none) "next_state ctx \<notin> {2, 13, 16, 18, 20, 28, 12, 15}" by blast
  then show ?thesis
  proof cases
    case start
    then show ?thesis
      using parts_start_record(1) [OF parts_user [OF _ _ assms(1)]] parts_start_record(1) [OF assms(1)]
      by (auto simp: html_fire(2) [OF assms(2,3)] enter_tag_name_def enter_attr_def enter_value_content_def
          enter_state_cdata_may_close_def parts_start_record(2,3))
  next
    case close
    then show ?thesis
      unfolding html_fire(2) [OF assms(2,3)]
      using assms(1) js_reset_ok by (auto simp: tag_close_def Let_def parts_ok_def buffer_ok_def)
  next
    case begins
    then show ?thesis
      unfolding html_fire(2) [OF assms(2,3)] using assms(1) js_reset_ok
      by (auto simp: enter_value_def Let_def parts_ok_def buffer_ok_def entityfilter_reset_def ef_ok_def)
  next
    case none
    then show ?thesis using assms by (auto simp: html_fire(2) [OF assms(2,3)])
  qed
qed

lemma feed_script:
  assumes "js_ok js" "list_all plain_byte s"
  shows "\<exists>js'. jsparser_parse_str js s = Inr js' \<and> js_ok js' \<and> js_view js' = js_run (js_view js) s"
proof -
  obtain js' where run: "parse_chars js_def s js = Inr (fst (js_run (js_view js) s), js')" "js_ok js'"
    "js_view js' = js_run (js_view js) s"
    using js_chars_run [OF assms] by blast
  then have "fst (js_run (js_view js) s) = current_state js'" by (metis js_view_def fst_conv)
  then show ?thesis
    using run js_external_run [of "current_state js'"]
    by (auto simp: jsparser_parse_str_def jsparser_parse_def js_created statemachine_parse_all js_ok_def)
qed

lemma in_run:
  assumes "parts_ok ctx" "0 \<le> next_state ctx" "next_state ctx < 32"
    and "readable (c # s)" "script_value (next_state ctx) ctx \<longrightarrow> filter_ready (entityfilter (user ctx)) (c # s)"
  shows "\<exists>ctx'. fire (in_state_events html_def) (next_state ctx) c ctx = Inr ctx' \<and> parts_ok ctx' \<and>
    next_state ctx' = next_state ctx \<and> in_js (user ctx') = in_js (user ctx) \<and> attr (user ctx') = attr (user ctx) \<and>
    recording ctx' = recording ctx \<and> recorded ctx' = recorded ctx \<and>
    (script_value (next_state ctx) ctx \<longrightarrow> filter_ready (entityfilter (user ctx')) s) \<and>
    (next_state ctx \<notin> {16, 18, 20} \<longrightarrow> entityfilter (user ctx') = entityfilter (user ctx))"
proof -
  have ok: "buffer_ok ctx" "js_ok (jsparser (user ctx))" "ef_ok (entityfilter (user ctx))"
    using assms(1) by (simp_all add: parts_ok_def)
  have same: "buffer_ok (ctx\<lparr>user := u\<rparr>)" "recorded (ctx\<lparr>user := u\<rparr>) = recorded ctx" for u
    using ok(1) by (simp_all add: buffer_ok_def recorded_def)
  consider (script) "script_value (next_state ctx) ctx" | (plain) "next_state ctx \<in> {16, 18, 20}" "\<not> in_js (user ctx)"
    | (cdata) "21 \<le> next_state ctx \<and> next_state ctx \<le> 29" "in_js (user ctx)"
    | (none) "next_state ctx \<notin> {16, 18, 20}" "in_js (user ctx) \<longrightarrow> \<not> (21 \<le> next_state ctx \<and> next_state ctx \<le> 29)"
    by (auto simp: script_value_def)
  then show ?thesis
  proof cases
    case script
    obtain out ef where ef: "entityfilter_process (entityfilter (user ctx)) c = Inr (out, ef)" "ef_ok ef"
      "list_all plain_byte out" "filter_ready ef s"
      using process_ready [OF ok(3) _ assms(4)] assms(5) script by blast
    obtain js where js: "jsparser_parse_str (jsparser (user ctx)) out = Inr js" "js_ok js"
      using feed_script [OF ok(2) ef(3)] by blast
    show ?thesis
      using script ef js same
      by (auto simp: html_fire(3) [OF assms(2,3)] in_state_value_def Let_def script_value_def parts_ok_def)
  next
    case plain
    then show ?thesis
      using ok same by (auto simp: html_fire(3) [OF assms(2,3)] in_state_value_def Let_def script_value_def parts_ok_def)
  next
    case cdata
    have "list_all plain_byte [c]" using assms(4) by simp
    then obtain js where "jsparser_parse_str (jsparser (user ctx)) [c] = Inr js" "js_ok js"
      using feed_script [OF ok(2)] by blast
    then have "jsparser_parse_chr (jsparser (user ctx)) c = Inr js" "js_ok js"
      by (simp_all add: jsparser_parse_chr_def jsparser_parse_str_def)
    then show ?thesis
      using cdata ok same
      by (auto simp: html_fire(3) [OF assms(2,3)] in_state_cdata_def Let_def script_value_def parts_ok_def)
  next
    case none
    then show ?thesis
      using ok same by (auto simp: html_fire(3) [OF assms(2,3)] in_state_cdata_def script_value_def parts_ok_def)
  qed
qed

section \<open>Reading\<close>

lemma html_step_run:
  assumes "html_ok ctx" "reads_on ctx (c # s)"
  shows "\<exists>go ctx'. parse_char html_def c ctx = Inr (go, ctx') \<and> html_ok ctx' \<and> (go \<longrightarrow> reads_on ctx' s) \<and>
    (let nx = html_next (current_state ctx) c
     in go = (nx \<noteq> STATEMACHINE_ERROR) \<and> (go \<and> current_state ctx \<noteq> 28 \<and> nx \<noteq> 12 \<longrightarrow> current_state ctx' = nx))"
proof -
  let ?st = "current_state ctx"
  define nx where "nx = html_next ?st c"
  let ?ctx1 = "ctx\<lparr>current_char := c, next_state := nx\<rparr>"
  have ok: "parts_ok ctx" "0 \<le> ?st" "?st < 32" "records ?st ctx"
    "?st \<in> {15, 17, 19} \<Longrightarrow> in_js (user ctx) \<Longrightarrow> \<not> ef_in (entityfilter (user ctx))"
    "?st \<in> value_states \<Longrightarrow> in_js (user ctx) = is_js_attribute (attr (user ctx))"
    using assms(1) by (simp_all add: html_ok_def)
  have chars: "plain_byte c" "readable (c # s)" "readable s"
    "script_value ?st ctx \<Longrightarrow> filter_ready (entityfilter (user ctx)) (c # s)"
    using assms(2) by (simp_all add: reads_on_def)
  note tr = html_transition [OF ok(2,3) chars(1), folded nx_def]
  note origin = html_next_from [OF ok(2,3) chars(1), folded nx_def]
  show ?thesis
  proof (cases "nx = STATEMACHINE_ERROR")
    case True
    have "nat ?st < length htmlparser_states_internal_names"
      using ok(2,3) by (simp add: htmlparser_states_internal_names_def nat_less_iff)
    then obtain m where "set_transition_error_message html_def ?ctx1 = Inr (?ctx1\<lparr>error_msg := m\<rparr>)"
      using ok(2) by (simp add: set_transition_error_message_def html_def_def Let_def)
    then have "parse_char html_def c ctx = Inr (False, ?ctx1\<lparr>error_msg := m\<rparr>)"
      using True tr(1) by (simp add: parse_char_def Let_def)
    moreover have "html_ok (?ctx1\<lparr>error_msg := m\<rparr>)"
      using ok by (auto simp: html_ok_def parts_ok_def buffer_ok_def records_def)
    ultimately show ?thesis using True unfolding nx_def [symmetric] Let_def by blast
  next
    case False
    then have nx: "0 \<le> nx" "nx < 32" using tr(2) by simp_all
    have ok1: "parts_ok ?ctx1" "records ?st ?ctx1"
      using ok by (simp_all add: parts_ok_def buffer_ok_def records_def)
    define P where "P ctx' = (parts_ok ctx' \<and> 0 \<le> next_state ctx' \<and> next_state ctx' < 32 \<and>
      (next_state ctx' \<in> {2, 13, 16, 18, 20, 28} \<longrightarrow> recording ctx') \<and>
      (next_state ctx' = 28 \<longrightarrow> hd (recorded ctx' @ [c]) = CHR ''/'') \<and>
      (next_state ctx' \<in> {15, 17, 19} \<longrightarrow> in_js (user ctx') \<longrightarrow> \<not> ef_in (entityfilter (user ctx'))) \<and>
      (next_state ctx' \<in> value_states \<longrightarrow> in_js (user ctx') = is_js_attribute (attr (user ctx'))) \<and>
      (script_value (next_state ctx') ctx' \<longrightarrow> filter_ready (entityfilter (user ctx')) (c # s)))" for ctx'
    obtain ctx2 where exit: "(if ?st \<noteq> nx then fire (exit_state_events html_def) ?st c ?ctx1 else Inr ?ctx1) = Inr ctx2"
      and c2: "parts_ok ctx2" "current_state ctx2 = ?st" "entityfilter (user ctx2) = entityfilter (user ctx)"
        "next_state ctx2 = nx \<or> ?st = 28 \<and> next_state ctx2 = 26" "?st \<in> {15, 17, 19} \<longrightarrow> user ctx2 = user ctx"
        "?st = nx \<longrightarrow> ctx2 = ?ctx1"
    proof (cases "?st = nx")
      case False
      then show ?thesis using exit_run [of ?ctx1 c] ok1 ok(2,3) that by auto
    qed (use ok1 that in auto)
    have n2: "0 \<le> next_state ctx2" "next_state ctx2 < 32" using c2(4) nx by auto
    obtain ctx3 where enter: "(if current_state ctx2 \<noteq> next_state ctx2
        then fire (enter_state_events html_def) (next_state ctx2) c ctx2 else Inr ctx2) = Inr ctx3" and p3: "P ctx3"
      and n3: "next_state ctx3 = next_state ctx2 \<or> next_state ctx2 = 12"
    proof (cases "?st = next_state ctx2")
      case True
      then have "ctx2 = ?ctx1" "nx = ?st" using c2(4,6) by auto
      then have "P ctx2"
        using ok ok1 chars(4) by (auto simp: P_def records_def script_value_def)
      then show ?thesis using True c2(2) that by simp
    next
      case new: False
      from enter_run [OF c2(1) n2, of c] obtain ctx3 where e: "fire (enter_state_events html_def) (next_state ctx2) c ctx2 = Inr ctx3"
        "parts_ok ctx3" "next_state ctx3 = next_state ctx2 \<or> next_state ctx2 = 12 \<and> next_state ctx3 = 26"
        "next_state ctx2 \<in> {2, 13, 16, 18, 20, 28} \<longrightarrow> recording ctx3 \<and> recorded ctx3 = []"
        "next_state ctx2 \<in> {16, 17, 18, 19, 20} \<longrightarrow>
          in_js (user ctx3) = in_js (user ctx2) \<and> attr (user ctx3) = attr (user ctx2) \<and>
          entityfilter (user ctx3) = entityfilter (user ctx2)"
        "next_state ctx2 = 15 \<longrightarrow> in_js (user ctx3) = is_js_attribute (attr (user ctx3)) \<and>
          (in_js (user ctx3) \<longrightarrow> \<not> ef_in (entityfilter (user ctx3)))"
        by blast
      have content: "(in_js (user ctx3) \<longrightarrow> \<not> ef_in (entityfilter (user ctx3))) \<and>
          in_js (user ctx3) = is_js_attribute (attr (user ctx3))" if n: "next_state ctx2 \<in> {16, 17, 18, 19, 20}"
      proof -
        have "next_state ctx2 = nx" using c2(4) n by auto
        then have st: "?st \<in> {15, 17, 19}" using origin(1,2,3) n new by auto
        then have "user ctx2 = user ctx" "?st \<in> value_states" using c2(5) by auto
        moreover from e(5) n have "in_js (user ctx3) = in_js (user ctx2) \<and> attr (user ctx3) = attr (user ctx2) \<and>
          entityfilter (user ctx3) = entityfilter (user ctx2)" by blast
        ultimately show ?thesis using ok(5) [OF st] ok(6) by simp
      qed
      have slash: "next_state ctx2 = 28 \<Longrightarrow> c = CHR ''/''" using origin(4) c2(4) new by auto
      have "P ctx3"
      proof (cases "next_state ctx3 = next_state ctx2")
        case same: True
        have begun: "next_state ctx2 \<in> value_states \<Longrightarrow> (in_js (user ctx3) \<longrightarrow> \<not> ef_in (entityfilter (user ctx3))) \<and>
            in_js (user ctx3) = is_js_attribute (attr (user ctx3))"
          using content e(6) by blast
        have "\<not> ef_in (entityfilter (user ctx3))" if "next_state ctx2 \<in> {15, 17, 19} \<or> script_value (next_state ctx2) ctx3" "in_js (user ctx3)"
          using begun that unfolding script_value_def by blast
        moreover have "next_state ctx2 = 28 \<Longrightarrow> hd (recorded ctx3 @ [c]) = CHR ''/''" using e(4) slash by simp
        moreover have "next_state ctx2 \<in> {2, 13, 16, 18, 20, 28} \<Longrightarrow> recording ctx3" using e(4) by blast
        moreover have "script_value (next_state ctx2) ctx3 \<Longrightarrow> in_js (user ctx3)" by (simp add: script_value_def)
        ultimately show ?thesis using e(2) n2 begun unfolding P_def same filter_ready_def by blast
      next
        case False
        then have "next_state ctx3 = 26" using e(3) by blast
        then show ?thesis using e(2) by (simp add: P_def script_value_def)
      qed
      then show ?thesis using e(1,3) new c2(2) that by simp blast
    qed
    obtain ctx4 where ins: "fire (in_state_events html_def) (next_state ctx3) c ctx3 = Inr ctx4"
      and c4: "parts_ok ctx4" "next_state ctx4 = next_state ctx3" "in_js (user ctx4) = in_js (user ctx3)"
        "attr (user ctx4) = attr (user ctx3)"
        "recording ctx4 = recording ctx3" "recorded ctx4 = recorded ctx3"
        "script_value (next_state ctx3) ctx3 \<longrightarrow> filter_ready (entityfilter (user ctx4)) s"
        "next_state ctx3 \<notin> {16, 18, 20} \<longrightarrow> entityfilter (user ctx4) = entityfilter (user ctx3)"
      using in_run [of ctx3 c s] p3 chars(2) unfolding P_def by blast
    have "buffer_ok ctx4" using c4(1) by (simp add: parts_ok_def)
    from parse_char_events [OF tr(1) False exit enter ins this] obtain ctx5 where
      c5: "parse_char html_def c ctx = Inr (True, ctx5)" "buffer_ok ctx5" "current_state ctx5 = next_state ctx4"
        "user ctx5 = user ctx4" "recording ctx5 = recording ctx4"
        "recorded ctx5 = (if recording ctx4 then take 255 (recorded ctx4 @ [c]) else recorded ctx4)"
      by blast
    have "records (current_state ctx5) ctx5"
    proof -
      have "hd (take 255 (recorded ctx3 @ [c])) = hd (recorded ctx3 @ [c])"
        by (cases "recorded ctx3") simp_all
      then show ?thesis using p3 c4 c5 by (auto simp: P_def records_def)
    qed
    moreover have "parts_ok ctx5" using c4(1) c5(2,4) by (simp add: parts_ok_def)
    moreover have st5: "current_state ctx5 = next_state ctx3" using c4(2) c5(3) by simp
    moreover have "\<not> ef_in (entityfilter (user ctx5))" if n: "next_state ctx3 \<in> {15, 17, 19}" and js: "in_js (user ctx5)"
    proof -
      have "next_state ctx3 \<notin> {16, 18, 20}" using n by auto
      then show ?thesis using p3 c4(3,8) c5(4) n js unfolding P_def by auto
    qed
    moreover have "0 \<le> next_state ctx3" "next_state ctx3 < 32" using p3 by (simp_all add: P_def)
    moreover have "next_state ctx3 \<in> value_states \<Longrightarrow> in_js (user ctx5) = is_js_attribute (attr (user ctx5))"
      using p3 c4(3,4) c5(4) unfolding P_def by auto
    ultimately have "html_ok ctx5" by (simp add: html_ok_def)
    moreover have "reads_on ctx5 s"
      using chars(3) c4 c5 by (auto simp: reads_on_def script_value_def)
    moreover have "?st \<noteq> 28 \<Longrightarrow> nx \<noteq> 12 \<Longrightarrow> current_state ctx5 = nx" using st5 n3 c2(4) by auto
    ultimately show ?thesis using c5(1) False unfolding nx_def [symmetric] Let_def by blast
  qed
qed

lemma html_chars_run:
  "html_ok ctx \<Longrightarrow> reads_on ctx s \<Longrightarrow>
    \<exists>st ctx'. parse_chars html_def s ctx = Inr (st, ctx') \<and> html_ok ctx' \<and>
      (st = STATEMACHINE_ERROR \<or> st = current_state ctx')"
proof (induction s arbitrary: ctx)
  case (Cons c s)
  obtain go ctx1 where "parse_char html_def c ctx = Inr (go, ctx1)" "html_ok ctx1" "go \<longrightarrow> reads_on ctx1 s"
    using html_step_run [OF Cons.prems] by blast
  with Cons.IH [of ctx1] show ?case by (cases go) auto
qed simp

text \<open>The states of the table alone, where no event changes the next state.\<close>

fun walk :: "int \<Rightarrow> string \<Rightarrow> int option" where
  "walk st [] = Some st"
| "walk st (c # s) = (if st = 28 \<or> html_next st c \<in> {12, STATEMACHINE_ERROR} then None else walk (html_next st c) s)"

lemma walk_run:
  "html_ok ctx \<Longrightarrow> reads_on ctx s \<Longrightarrow> walk (current_state ctx) s = Some st \<Longrightarrow>
    \<exists>ctx'. parse_chars html_def s ctx = Inr (st, ctx') \<and> html_ok ctx' \<and> current_state ctx' = st"
proof (induction s arbitrary: ctx)
  case (Cons c s)
  let ?nx = "html_next (current_state ctx) c"
  have nx: "current_state ctx \<noteq> 28" "?nx \<noteq> 12" "?nx \<noteq> STATEMACHINE_ERROR" "walk ?nx s = Some st"
    using Cons.prems(3) by (simp_all split: if_splits)
  obtain ctx1 where "parse_char html_def c ctx = Inr (True, ctx1)" "html_ok ctx1" "reads_on ctx1 s" "current_state ctx1 = ?nx"
    using html_step_run [OF Cons.prems(1,2)] nx by (auto simp: Let_def)
  then show ?case using Cons.IH [of ctx1] nx(4) by simp
qed simp

lemma reset_mode_ok:
  assumes "html_ok ctx"
  shows "html_ok (htmlparser_reset_mode mode ctx)"
  using assms js_reset_ok
  by (cases mode) (simp_all add: html_ok_def parts_ok_def buffer_ok_def records_def htmlparser_reset_mode_def
      statemachine_reset_def Let_def STATEMACHINE_RECORD_BUFFER_SIZE_def)

lemma html_state_external_run:
  "0 \<le> st \<Longrightarrow> st < 32 \<Longrightarrow> html_state_external st = Inr (htmlparser_states_external ! nat st)"
  "html_state_external STATEMACHINE_ERROR = Inr STATE_ERROR"
  by (simp_all add: html_state_external_def lookup_event_def htmlparser_states_external_def STATEMACHINE_ERROR_def nat_less_iff)

lemma htmlparser_new_ok:
  assumes "length (record_buffer raw) = 256" "length (record_buffer rawj) = 256" "length (ef_buffer raw_ef) = 10"
  shows "html_ok (htmlparser_new raw rawj raw_ef)" "in_js (user (htmlparser_new raw rawj raw_ef)) = False"
    "current_state (htmlparser_new raw rawj raw_ef) = 0"
  using assms js_reset_ok [OF jsparser_new_ok(1) [OF assms(2)]]
  by (simp_all add: html_ok_def parts_ok_def buffer_ok_def records_def ef_ok_def entityfilter_new_def htmlparser_new_def
      htmlparser_reset_def htmlparser_reset_mode_def statemachine_new_def statemachine_reset_def Let_def
      STATEMACHINE_RECORD_BUFFER_SIZE_def)

lemma external_run:
  assumes "html_ok ctx"
  shows "html_state_external (current_state ctx) = Inr (htmlparser_states_external ! nat (current_state ctx))"
  using assms by (intro html_state_external_run(1)) (simp_all add: html_ok_def)

lemma js_answer:
  assumes "html_ok ctx"
  shows "jsparser_state (jsparser (user ctx)) = Inr (js_external (current_state (jsparser (user ctx))))"
  using assms by (simp add: html_ok_def parts_ok_def js_ok_def jsparser_state_def js_external_run)

lemma insert_text_run:
  assumes "html_ok ctx" "current_state ctx = 15"
  shows "\<exists>ctx'. htmlparser_insert_text ctx = Inr ctx' \<and> html_ok ctx' \<and> current_state ctx' = 16 \<and>
    tag (user ctx') = tag (user ctx) \<and> attr (user ctx') = attr (user ctx) \<and> in_js (user ctx') = in_js (user ctx) \<and>
    entityfilter (user ctx') = entityfilter (user ctx) \<and> jsparser (user ctx') = jsparser (user ctx)"
proof -
  let ?ctx1 = "ctx\<lparr>next_state := 16\<rparr>"
  let ?ctx2 = "statemachine_start_record (ctx\<lparr>next_state := 16, user := (user ctx)\<lparr>val := []\<rparr>\<rparr>)"
  have exit: "fire (exit_state_events html_def) (current_state ?ctx1) NUL ?ctx1 = Inr ?ctx1"
    using html_fire(1) [of 15 NUL ?ctx1] assms(2) by simp
  have enter: "fire (enter_state_events html_def) (next_state ?ctx1) NUL ?ctx1 = Inr ?ctx2"
    using html_fire(2) [of 16 NUL ?ctx1] by (simp add: enter_value_content_def)
  have "num_states html_def = 33" by (simp add: html_def_def)
  then have "htmlparser_insert_text ctx = Inr (?ctx2\<lparr>current_state := 16\<rparr>)"
    using exit enter assms(2) by (simp add: htmlparser_insert_text_def html_created statemachine_set_state_def Let_def)
  moreover have "parts_ok (?ctx2\<lparr>current_state := 16\<rparr>)" "recording (?ctx2\<lparr>current_state := 16\<rparr>)"
    using assms(1) by (simp_all add: html_ok_def parts_ok_def buffer_ok_def statemachine_start_record_def
        STATEMACHINE_RECORD_BUFFER_SIZE_def)
  ultimately show ?thesis using assms by (simp add: html_ok_def records_def)
qed

lemma place_answers:
  assumes "html_ok ctx"
  shows "\<exists>t us css. htmlparser_attr_type ctx = Inr t \<and> htmlparser_is_url_start ctx = Inr us \<and> htmlparser_in_css ctx = Inr css"
proof -
  have val: "\<exists>v ctx2. htmlparser_value ctx1 = Inr (v, ctx2) \<and> current_state ctx2 = current_state ctx1"
    if "current_state ctx1 = current_state ctx" for ctx1 :: htmlparser_ctx
    using external_run [OF assms] that by (simp add: htmlparser_value_def Let_def)
  have ty: "\<exists>t ctx2. htmlparser_attr_type ctx = Inr (t, ctx2) \<and> current_state ctx2 = current_state ctx"
  proof -
    obtain b where b: "htmlparser_in_attr ctx = Inr b"
      using external_run [OF assms] by (simp add: htmlparser_in_attr_def)
    obtain v ctx2 where v: "htmlparser_value ctx = Inr (v, ctx2)" "current_state ctx2 = current_state ctx"
      using val [OF refl] by blast
    show ?thesis by (simp add: htmlparser_attr_type_def b v)
  qed
  then obtain t ctx2 where t: "htmlparser_attr_type ctx = Inr (t, ctx2)" "current_state ctx2 = current_state ctx" by blast
  have us: "\<exists>r. htmlparser_is_url_start ctx = Inr r"
  proof -
    obtain v ctx3 where v: "htmlparser_value ctx2 = Inr (v, ctx3)" "current_state ctx3 = current_state ctx"
      using val [OF t(2)] t(2) by auto
    have index: "\<exists>i. htmlparser_value_index c = Inr i" if "current_state c = current_state ctx" for c
      using external_run [OF assms] that by (simp add: htmlparser_value_index_def htmlparser_in_value_def)
    obtain i j where "htmlparser_value_index ctx2 = Inr i" "htmlparser_value_index ctx3 = Inr j"
      using index t(2) v(2) by blast
    then show ?thesis by (simp add: htmlparser_is_url_start_def t(1) v(1) bindE_assoc) blast
  qed
  have "\<exists>r. htmlparser_in_css ctx = Inr r"
    using t external_run [OF assms] by (simp add: htmlparser_in_css_def) blast
  then show ?thesis using us t(1) by blast
qed

section \<open>Properties\<close>

text \<open>C15: the HTML parser is well typed: a text whose entities and bytes the tables cover makes none of its event
  functions fail, from any context in order, and it is a state of the machine or an error that comes back. The context
  stays in order: the record buffers, the ring of the javascript parser and the buffer of the entity
  filter within their bounds, a record open wherever a name or a value is read.\<close>

theorem htmlparser_well_typed:
  assumes "html_ok ctx" "reads_on ctx s"
  shows "\<exists>ext ctx'. htmlparser_parse ctx s (int (length s)) = Inr (ext, ctx') \<and> html_ok ctx' \<and>
    (ext = STATE_ERROR \<or> htmlparser_state ctx' = Inr ext)"
proof -
  obtain st ctx' where run: "parse_chars html_def s ctx = Inr (st, ctx')" "html_ok ctx'"
    "st = STATEMACHINE_ERROR \<or> st = current_state ctx'"
    using html_chars_run [OF assms] by blast
  have "0 \<le> current_state ctx'" "current_state ctx' < 32" using run(2) by (simp_all add: html_ok_def)
  from html_state_external_run(1) [OF this] run html_state_external_run(2) show ?thesis
    by (auto simp: htmlparser_parse_def html_created statemachine_parse_all htmlparser_state_def)
qed

text \<open>Memory as an allocation may leave it.\<close>

definition html_memory :: htmlparser_ctx where
  "html_memory =
     \<lparr>current_state = 9, next_state = 9, current_char = NUL, line_number = 0, column_number = 0,
      record_buffer = replicate 256 NUL, record_pos = 7, recording = True, error_msg = [],
      user = \<lparr>tag = [], attr = [], val = [], in_js = True, value_index = 0, jsparser = js_memory,
        entityfilter = \<lparr>ef_buffer = replicate 10 NUL, ef_pos = 3, ef_in = True\<rparr>\<rparr>\<rparr>"

definition fresh_parser :: htmlparser_ctx where
  "fresh_parser = htmlparser_new html_memory js_memory \<lparr>ef_buffer = replicate 10 NUL, ef_pos = 3, ef_in = True\<rparr>"

lemma fresh_parser_ok: "html_ok fresh_parser" "current_state fresh_parser = 0" "in_js (user fresh_parser) = False"
  unfolding fresh_parser_def by (rule htmlparser_new_ok; simp add: html_memory_def js_memory_def)+

theorem htmlparser_well_typed_witness:
  "\<exists>ext ctx'. htmlparser_parse fresh_parser ''<a onclick='f(&lt;)'>'' 21 = Inr (ext, ctx') \<and> html_ok ctx' \<and>
    (ext = STATE_ERROR \<or> htmlparser_state ctx' = Inr ext)"
proof -
  have "entity_plain ''lt;)'>''"
    by (simp add: entity_plain_def ends_entity_def html_isspace_def entity_convert_def entityfilter_table_def strcasecmp_0_def
        tolower_str_def tolower_chr_def plain_byte_def cstr_def Let_def)
  then have "reads_on fresh_parser ''<a onclick='f(&lt;)'>''"
    using fresh_parser_ok by (simp add: reads_on_def script_value_def plain_byte_def)
  from htmlparser_well_typed [OF fresh_parser_ok(1) this] show ?thesis by simp
qed

text \<open>The byte 255 is outside of every row of the table: wherever the parser is, that byte makes it read beyond
  the row.\<close>

theorem htmlparser_byte_255:
  assumes "html_ok ctx"
  shows "htmlparser_parse ctx [CHR 0xFF] 1 = Inl UndefinedBehaviour"
proof -
  have "0 \<le> current_state ctx" "current_state ctx < 32" using assms by (simp_all add: html_ok_def)
  then have n: "nat (current_state ctx) < length htmlparser_state_transitions" "0 \<le> current_state ctx"
    using html_table(1) by (simp_all add: nat_less_iff)
  then have "length (htmlparser_state_transitions ! nat (current_state ctx)) = 255"
    using html_table(2) nth_mem by blast
  then have "transition html_def (current_state ctx) (CHR 0xFF) = Inl UndefinedBehaviour"
    using n by (simp add: transition_def lookup_event_def html_def_def)
  then show ?thesis
    by (simp add: htmlparser_parse_def html_created statemachine_parse_def parse_char_def)
qed

theorem htmlparser_byte_255_witness: "htmlparser_parse fresh_parser [CHR 0xFF] 1 = Inl UndefinedBehaviour"
  by (rule htmlparser_byte_255) (rule fresh_parser_ok)



end
