(* ===== verification/Html_Context.thy ===== *)
theory Html_Context
  imports Html_Progress Template_Registry
begin

text \<open>
  The two halves of the automatic escaping of templates together: the modifier that
  \<open>GetModifierForHtmlJs\<close> (\<open>third/ctemplate-2.2/src/template_modifiers.cc\<close>) chooses from the answers of the HTML
  parser, and what that parser then does with the escaped value. The values of a template are
  not parsed when it is loaded, so an escape is right when parsing its output would
  not have moved the parser.
\<close>

section \<open>Staying in a place\<close>

text \<open>One character that leads to a state without an event on the way, other than the start of a value.\<close>

definition quiet :: "int \<Rightarrow> int \<Rightarrow> bool" where
  "quiet st nx \<longleftrightarrow> st = nx \<or> st \<notin> {2, 13, 16, 18, 20, 28} \<and> nx \<notin> {2, 12, 13, 15, 28}"

text \<open>What the javascript parser sees of a character.\<close>

definition seen_by_js :: "int \<Rightarrow> bool \<Rightarrow> string \<Rightarrow> string" where
  "seen_by_js st js s =
     (if \<not> js then [] else if st \<in> {16, 18, 20} then filter (\<lambda>c. c \<noteq> NUL) s
      else if 21 \<le> st \<and> st \<le> 29 then s else [])"

lemma js_run_simps [simp]: "js_run v [] = v" "js_run v (c # s) = js_run (js_step v c) s"
  by (simp_all add: js_run_def)

lemma stay_in:
  assumes ok: "parts_ok ctx" "plain_byte c" "0 \<le> next_state ctx" "next_state ctx < 32"
    and ef: "in_js (user ctx) \<and> next_state ctx \<in> {16, 18, 20} \<longrightarrow> \<not> ef_in (entityfilter (user ctx)) \<and> c \<noteq> CHR ''&''"
  shows "\<exists>ctx'. fire (in_state_events html_def) (next_state ctx) c ctx = Inr ctx' \<and> next_state ctx' = next_state ctx \<and>
    buffer_ok ctx' \<and> tag (user ctx') = tag (user ctx) \<and> attr (user ctx') = attr (user ctx) \<and>
    in_js (user ctx') = in_js (user ctx) \<and> entityfilter (user ctx') = entityfilter (user ctx) \<and>
    js_view (jsparser (user ctx')) =
      js_run (js_view (jsparser (user ctx))) (seen_by_js (next_state ctx) (in_js (user ctx)) [c])"
proof -
  have parts: "buffer_ok ctx" "js_ok (jsparser (user ctx))" using ok(1) by (simp_all add: parts_ok_def)
  have same: "buffer_ok (ctx\<lparr>user := u\<rparr>)" for u using parts(1) by (simp add: buffer_ok_def)
  consider (value_script) "next_state ctx \<in> {16, 18, 20}" "in_js (user ctx)"
    | (cdata) "21 \<le> next_state ctx \<and> next_state ctx \<le> 29" "in_js (user ctx)"
    | (other) "in_js (user ctx) \<longrightarrow> next_state ctx \<notin> {16, 18, 20} \<and> \<not> (21 \<le> next_state ctx \<and> next_state ctx \<le> 29)"
    by blast
  then show ?thesis
  proof cases
    case value_script
    let ?out = "filter (\<lambda>c. c \<noteq> NUL) [c]"
    have "list_all plain_byte ?out" using ok(2) by simp
    from feed_script [OF parts(2) this] obtain js where js: "jsparser_parse_str (jsparser (user ctx)) ?out = Inr js"
      "js_view js = js_run (js_view (jsparser (user ctx))) ?out" by blast
    have "entityfilter_process (entityfilter (user ctx)) c = Inr (?out, entityfilter (user ctx))"
    proof -
      have "\<not> ef_in (entityfilter (user ctx)) \<and> c \<noteq> CHR ''&''" using ef value_script by blast
      then show ?thesis by (simp add: entityfilter_process_def cstr_def)
    qed
    then have "fire (in_state_events html_def) (next_state ctx) c ctx =
        Inr (ctx\<lparr>user := (user ctx)\<lparr>value_index := value_index (user ctx) + 1, entityfilter := entityfilter (user ctx), jsparser := js\<rparr>\<rparr>)"
      using value_script js(1) by (simp add: html_fire(3) [OF ok(3,4)] in_state_value_def Let_def)
    moreover have "seen_by_js (next_state ctx) (in_js (user ctx)) [c] = ?out" using value_script by (simp add: seen_by_js_def)
    ultimately show ?thesis using same js(2) by simp
  next
    case cdata
    have "list_all plain_byte [c]" using ok(2) by simp
    from feed_script [OF parts(2) this] obtain js where js: "jsparser_parse_str (jsparser (user ctx)) [c] = Inr js"
      "js_view js = js_run (js_view (jsparser (user ctx))) [c]" by blast
    have "jsparser_parse_chr (jsparser (user ctx)) c = Inr js"
      using js(1) by (simp add: jsparser_parse_chr_def jsparser_parse_str_def)
    moreover have "next_state ctx \<notin> {16, 18, 20}" using cdata(1) by auto
    ultimately show ?thesis
      using cdata js(2) same by (simp add: html_fire(3) [OF ok(3,4)] in_state_cdata_def seen_by_js_def)
  next
    case other
    have "seen_by_js (next_state ctx) (in_js (user ctx)) [c] = []" using other by (auto simp: seen_by_js_def)
    moreover have "\<exists>u. fire (in_state_events html_def) (next_state ctx) c ctx = Inr (ctx\<lparr>user := u\<rparr>) \<and>
        tag u = tag (user ctx) \<and> attr u = attr (user ctx) \<and> in_js u = in_js (user ctx) \<and>
        entityfilter u = entityfilter (user ctx) \<and> jsparser u = jsparser (user ctx)"
    proof (cases "next_state ctx \<in> {16, 18, 20}")
      case True
      then show ?thesis using other
        by (intro exI [of _ "(user ctx)\<lparr>value_index := value_index (user ctx) + 1\<rparr>"])
          (simp add: html_fire(3) [OF ok(3,4)] in_state_value_def Let_def)
    next
      case False
      then show ?thesis using other
        by (intro exI [of _ "user ctx"]) (auto simp: html_fire(3) [OF ok(3,4)] in_state_cdata_def)
    qed
    ultimately show ?thesis using same by fastforce
  qed
qed

lemma stay_step:
  assumes ok: "html_ok ctx" "plain_byte c"
    and nx: "html_next (current_state ctx) c = nx" "0 \<le> nx" "nx < 32" "quiet (current_state ctx) nx"
    and ef: "in_js (user ctx) \<and> nx \<in> {16, 18, 20} \<longrightarrow> \<not> ef_in (entityfilter (user ctx)) \<and> c \<noteq> CHR ''&''"
  shows "\<exists>ctx'. parse_char html_def c ctx = Inr (True, ctx') \<and> html_ok ctx' \<and> current_state ctx' = nx \<and>
    tag (user ctx') = tag (user ctx) \<and> attr (user ctx') = attr (user ctx) \<and> in_js (user ctx') = in_js (user ctx) \<and>
    entityfilter (user ctx') = entityfilter (user ctx) \<and>
    js_view (jsparser (user ctx')) = js_run (js_view (jsparser (user ctx))) (seen_by_js nx (in_js (user ctx)) [c])"
proof -
  let ?st = "current_state ctx"
  let ?ctx1 = "ctx\<lparr>current_char := c, next_state := nx\<rparr>"
  have st: "0 \<le> ?st" "?st < 32" "parts_ok ctx" using ok(1) by (simp_all add: html_ok_def)
  have tr: "transition html_def ?st c = Inr nx" using html_transition(1) [OF st(1,2) ok(2)] nx(1) by simp
  have noerr: "nx \<noteq> STATEMACHINE_ERROR" using nx(3) by (simp add: STATEMACHINE_ERROR_def)
  have exit: "(if ?st \<noteq> nx then fire (exit_state_events html_def) ?st c ?ctx1 else Inr ?ctx1) = Inr ?ctx1"
    using html_fire(1) [OF st(1,2), of c ?ctx1] nx(4) by (auto simp: quiet_def)
  define ctx3 where
    "ctx3 = (if ?st \<noteq> nx \<and> nx \<in> {16, 18, 20} then statemachine_start_record (?ctx1\<lparr>user := (user ctx)\<lparr>val := []\<rparr>\<rparr>) else ?ctx1)"
  have enter: "(if current_state ?ctx1 \<noteq> next_state ?ctx1 then fire (enter_state_events html_def) (next_state ?ctx1) c ?ctx1
      else Inr ?ctx1) = Inr ctx3"
    using html_fire(2) [OF nx(2,3), of c ?ctx1] nx(4) by (auto simp: quiet_def enter_value_content_def ctx3_def)
  have parts1: "parts_ok ?ctx1" "parts_ok (?ctx1\<lparr>user := (user ctx)\<lparr>val := []\<rparr>\<rparr>)"
    using st(3) by (simp_all add: parts_ok_def buffer_ok_def)
  have c3: "parts_ok ctx3" "next_state ctx3 = nx" "tag (user ctx3) = tag (user ctx)" "attr (user ctx3) = attr (user ctx)"
    "in_js (user ctx3) = in_js (user ctx)" "entityfilter (user ctx3) = entityfilter (user ctx)"
    "jsparser (user ctx3) = jsparser (user ctx)"
    using parts1 parts_start_record(1) by (simp_all add: ctx3_def)
  obtain ctx4 where ins: "fire (in_state_events html_def) (next_state ctx3) c ctx3 = Inr ctx4" "next_state ctx4 = nx"
    and c4: "buffer_ok ctx4" "tag (user ctx4) = tag (user ctx)" "attr (user ctx4) = attr (user ctx)"
      "in_js (user ctx4) = in_js (user ctx)" "entityfilter (user ctx4) = entityfilter (user ctx)"
      "js_view (jsparser (user ctx4)) = js_run (js_view (jsparser (user ctx))) (seen_by_js nx (in_js (user ctx)) [c])"
  proof -
    have "0 \<le> next_state ctx3" "next_state ctx3 < 32"
      "in_js (user ctx3) \<and> next_state ctx3 \<in> {16, 18, 20} \<longrightarrow> \<not> ef_in (entityfilter (user ctx3)) \<and> c \<noteq> CHR ''&''"
      using c3 nx(2,3) ef by simp_all
    from stay_in [OF c3(1) ok(2) this] obtain ctx4 where "fire (in_state_events html_def) (next_state ctx3) c ctx3 = Inr ctx4"
      "next_state ctx4 = next_state ctx3" "buffer_ok ctx4" "tag (user ctx4) = tag (user ctx3)"
      "attr (user ctx4) = attr (user ctx3)" "in_js (user ctx4) = in_js (user ctx3)"
      "entityfilter (user ctx4) = entityfilter (user ctx3)" "js_view (jsparser (user ctx4)) =
        js_run (js_view (jsparser (user ctx3))) (seen_by_js (next_state ctx3) (in_js (user ctx3)) [c])" by blast
    then show ?thesis using c3 by (intro that) simp_all
  qed
  from parse_char_events [OF tr noerr exit enter ins(1) c4(1)] ins(2) c4 obtain ctx' where
    run: "parse_char html_def c ctx = Inr (True, ctx')" and c5: "current_state ctx' = nx" "user ctx' = user ctx4" by auto
  have "script_value ?st ctx \<Longrightarrow> \<not> ef_in (entityfilter (user ctx))"
    using nx(4) ef by (auto simp: quiet_def script_value_def)
  then have "reads_on ctx [c]"
    using ok(2) by (auto simp: reads_on_def filter_ready_def entity_plain_def)
  then have "html_ok ctx'" using html_step_run [OF ok(1), of c "[]"] run by auto
  then show ?thesis using run c4 c5 by auto
qed

text \<open>The states among which the parser stays in one place, and the characters that lead out of it.\<close>

definition place :: "int \<Rightarrow> int set" where
  "place st =
     (if st \<in> {0, 12} then {0, 12} else if st \<in> {6, 7, 8} then {6, 7, 8} else if st \<in> {9, 10} then {9, 10}
      else if st \<in> {17, 18} then {17, 18} else if st \<in> {19, 20} then {19, 20}
      else if 21 \<le> st \<and> st \<le> 26 then {21, 22, 23, 24, 25, 26} else {st})"

definition way_out :: "int \<Rightarrow> char set" where
  "way_out st =
     (if st \<in> {0, 12} \<or> 21 \<le> st \<and> st \<le> 26 then {CHR ''<''} else if st \<in> {4, 6, 7, 8, 9, 10} then {CHR ''>''}
      else if st = 16 then {TAB, LF, CR, CHR '' '', CHR ''>''} else if st \<in> {17, 18} then {APOS}
      else if st \<in> {19, 20} then {QUOT} else {})"

definition value_place :: "int \<Rightarrow> bool" where
  "value_place st \<longleftrightarrow> st \<in> {0, 4, 6, 7, 8, 9, 10, 12, 16, 17, 18, 19, 20, 21, 22, 23, 24, 25, 26, 29}"

text \<open>The first character of a quoted value leads from the quote into the value.\<close>

definition landed :: "int \<Rightarrow> int" where
  "landed st = (if st = 17 then 18 else if st = 19 then 20 else st)"

lemma char_code: "c \<noteq> d \<Longrightarrow> of_char c \<noteq> (of_char d :: nat)"
  using char_eqI by blast

lemma value_place_cases:
  "value_place st \<Longrightarrow> st = 0 \<or> st = 4 \<or> st = 6 \<or> st = 7 \<or> st = 8 \<or> st = 9 \<or> st = 10 \<or> st = 12 \<or> st = 16 \<or> st = 17 \<or>
    st = 18 \<or> st = 19 \<or> st = 20 \<or> st = 21 \<or> st = 22 \<or> st = 23 \<or> st = 24 \<or> st = 25 \<or> st = 26 \<or> st = 29"
  unfolding value_place_def by blast

lemma place_next:
  assumes "value_place st" "plain_byte c" "c \<notin> way_out st"
  shows "html_next st c \<in> place st \<and> quiet st (html_next st c) \<and> html_next st c \<notin> {17, 19}"
proof -
  have n: "of_char c < (255::nat)" using assms(2) by (simp add: plain_byte_def)
  have codes: "c \<noteq> CHR ''<'' \<Longrightarrow> of_char c \<noteq> (60::nat)" "c \<noteq> CHR ''>'' \<Longrightarrow> of_char c \<noteq> (62::nat)"
    "c \<noteq> TAB \<Longrightarrow> of_char c \<noteq> (9::nat)" "c \<noteq> LF \<Longrightarrow> of_char c \<noteq> (10::nat)" "c \<noteq> CR \<Longrightarrow> of_char c \<noteq> (13::nat)"
    "c \<noteq> CHR '' '' \<Longrightarrow> of_char c \<noteq> (32::nat)" "c \<noteq> APOS \<Longrightarrow> of_char c \<noteq> (39::nat)" "c \<noteq> QUOT \<Longrightarrow> of_char c \<noteq> (34::nat)"
    using char_code [of c "CHR ''<''"] char_code [of c "CHR ''>''"] char_code [of c TAB] char_code [of c LF] char_code [of c CR]
      char_code [of c "CHR '' ''"] char_code [of c APOS] char_code [of c QUOT] by simp_all
  note table = html_next_def htmlparser_state_transitions_def html_rows fsm_row_nth [OF n] place_def quiet_def way_out_def
  show ?thesis
    using value_place_cases [OF assms(1)] assms(3) codes by (elim disjE) (simp_all add: table)
qed

lemma place_same:
  assumes "value_place st" "st' \<in> place st"
  shows "value_place st'" "place st' = place st" "way_out st' = way_out st" "0 \<le> st'" "st' < 32"
    "seen_by_js (landed st') js s = seen_by_js (landed st) js s" "st' \<in> {16, 17, 18, 19, 20} \<longleftrightarrow> st \<in> {16, 17, 18, 19, 20}"
proof -
  have "\<forall>x \<in> place st. value_place x \<and> place x = place st \<and> way_out x = way_out st \<and> 0 \<le> x \<and> x < 32 \<and>
      seen_by_js (landed x) js s = seen_by_js (landed st) js s \<and> (x \<in> {16, 17, 18, 19, 20} \<longleftrightarrow> st \<in> {16, 17, 18, 19, 20})"
    using value_place_cases [OF assms(1)]
    by (elim disjE) (simp_all add: place_def value_place_def way_out_def landed_def seen_by_js_def)
  then show "value_place st'" "place st' = place st" "way_out st' = way_out st" "0 \<le> st'" "st' < 32"
    "seen_by_js (landed st') js s = seen_by_js (landed st) js s" "st' \<in> {16, 17, 18, 19, 20} \<longleftrightarrow> st \<in> {16, 17, 18, 19, 20}"
    using assms(2) by blast+
qed

lemma place_self: "value_place st \<Longrightarrow> st \<in> place st"
  by (drule value_place_cases) (elim disjE; simp add: place_def)

lemma seen_Cons: "seen_by_js st js (c # s) = seen_by_js st js [c] @ seen_by_js st js s"
  by (simp add: seen_by_js_def)

lemma js_run_append: "js_run v (s @ t) = js_run (js_run v s) t"
  by (simp add: js_run_def)

lemma stay_run:
  "html_ok ctx \<Longrightarrow> value_place (current_state ctx) \<Longrightarrow>
   list_all (\<lambda>c. plain_byte c \<and> c \<notin> way_out (current_state ctx)) s \<Longrightarrow>
   (in_js (user ctx) \<and> current_state ctx \<in> {16, 17, 18, 19, 20} \<longrightarrow>
     \<not> ef_in (entityfilter (user ctx)) \<and> CHR ''&'' \<notin> set s) \<Longrightarrow>
   \<exists>ctx'. parse_chars html_def s ctx = Inr (current_state ctx', ctx') \<and> html_ok ctx' \<and>
     current_state ctx' \<in> place (current_state ctx) \<and> tag (user ctx') = tag (user ctx) \<and> attr (user ctx') = attr (user ctx) \<and>
     in_js (user ctx') = in_js (user ctx) \<and> entityfilter (user ctx') = entityfilter (user ctx) \<and>
     js_view (jsparser (user ctx')) =
       js_run (js_view (jsparser (user ctx))) (seen_by_js (landed (current_state ctx)) (in_js (user ctx)) s)"
proof (induction s arbitrary: ctx)
  case Nil
  then show ?case using place_self by (simp add: seen_by_js_def)
next
  case (Cons c s)
  let ?st = "current_state ctx" and ?nx = "html_next (current_state ctx) c"
  have c: "plain_byte c" "c \<notin> way_out ?st" using Cons.prems(3) by simp_all
  note nx = place_next [OF Cons.prems(2) c]
  then have in_place: "?nx \<in> place ?st" by blast
  note same = place_same [OF Cons.prems(2) in_place]
  have "in_js (user ctx) \<and> ?nx \<in> {16, 18, 20} \<longrightarrow> \<not> ef_in (entityfilter (user ctx)) \<and> c \<noteq> CHR ''&''"
    using Cons.prems(4) same(7) by auto
  from stay_step [OF Cons.prems(1) c(1) refl same(4,5) _ this] nx obtain ctx1 where
    1: "parse_char html_def c ctx = Inr (True, ctx1)" "html_ok ctx1" "current_state ctx1 = ?nx"
      "tag (user ctx1) = tag (user ctx)" "attr (user ctx1) = attr (user ctx)" "in_js (user ctx1) = in_js (user ctx)"
      "entityfilter (user ctx1) = entityfilter (user ctx)"
      "js_view (jsparser (user ctx1)) = js_run (js_view (jsparser (user ctx))) (seen_by_js ?nx (in_js (user ctx)) [c])"
    by blast
  have land: "landed ?nx = ?nx" using nx by (simp add: landed_def)
  have "in_js (user ctx1) \<and> current_state ctx1 \<in> {16, 17, 18, 19, 20} \<longrightarrow>
      \<not> ef_in (entityfilter (user ctx1)) \<and> CHR ''&'' \<notin> set s"
    using Cons.prems(4) same(7) 1(3,6,7) by auto
  moreover have "list_all (\<lambda>c. plain_byte c \<and> c \<notin> way_out (current_state ctx1)) s" using Cons.prems(3) same(3) 1(3) by simp
  moreover have "value_place (current_state ctx1)" using same(1) 1(3) by simp
  ultimately obtain ctx' where 2: "parse_chars html_def s ctx1 = Inr (current_state ctx', ctx')" "html_ok ctx'"
      "current_state ctx' \<in> place (current_state ctx1)" "tag (user ctx') = tag (user ctx1)" "attr (user ctx') = attr (user ctx1)"
      "in_js (user ctx') = in_js (user ctx1)" "entityfilter (user ctx') = entityfilter (user ctx1)"
      "js_view (jsparser (user ctx')) =
       js_run (js_view (jsparser (user ctx1))) (seen_by_js (landed (current_state ctx1)) (in_js (user ctx1)) s)"
    using Cons.IH [OF 1(2)] by blast
  have "js_view (jsparser (user ctx')) =
      js_run (js_view (jsparser (user ctx))) (seen_by_js (landed ?st) (in_js (user ctx)) (c # s))"
    unfolding 2(8) 1(3,6,8) seen_Cons [of _ _ c s] js_run_append using same(6) [of "in_js (user ctx)"] land by simp
  then show ?case using 1 2 same(2) by (intro exI [of _ ctx']) simp
qed

section \<open>Scripts\<close>

lemma js_quoted_next:
  assumes "plain_byte c"
  shows "js_next 1 c = (if c = APOS then 0 else if c = BSL then 2 else 1)" "js_next 2 c = 1"
    "js_next 3 c = (if c = QUOT then 0 else if c = BSL then 4 else 3)" "js_next 4 c = 3"
proof -
  define k where "k = (of_char c :: nat)"
  have n: "k < 255" using assms by (simp add: plain_byte_def k_def)
  have codes: "k = 39 \<longleftrightarrow> c = APOS" "k = 34 \<longleftrightarrow> c = QUOT" "k = 92 \<longleftrightarrow> c = BSL"
    using char_code [of c APOS] char_code [of c QUOT] char_code [of c BSL] by (auto simp: k_def)
  have point: "a \<le> k \<and> k \<le> a \<longleftrightarrow> k = a" for a by auto
  note table = js_next_def jsparser_state_transitions_def js_rows fsm_row_nth [OF n] k_def [symmetric] point codes
  show "js_next 1 c = (if c = APOS then 0 else if c = BSL then 2 else 1)" "js_next 2 c = 1"
    "js_next 3 c = (if c = QUOT then 0 else if c = BSL then 4 else 3)" "js_next 4 c = 3"
    by (simp_all add: table)
qed

text \<open>Escaped text leaves the parser in its string.\<close>

lemma js_string_kept:
  "q \<in> {1, 3} \<Longrightarrow> quotes_escaped s \<Longrightarrow> APOS \<notin> set s \<Longrightarrow> list_all plain_byte s \<Longrightarrow> js_run (q, h) s = (q, h)"
proof (induction s rule: quotes_escaped.induct)
  case (2 c s)
  have step: "js_step (q', h) d = (js_next q' d, h)" if "js_next q' d \<in> {1, 2, 3, 4}" for q' d
    using that by (auto simp: js_step_def)
  show ?case
  proof (cases "c = BSL")
    case True
    then obtain d t where s: "s = d # t" using 2(4) by (cases s) auto
    have c: "plain_byte c" "plain_byte d" using 2(6) s by simp_all
    have first: "js_step (q, h) c = (q + 1, h)"
      using 2(3) True js_quoted_next [OF c(1)] step [of q c] by auto
    have "js_step (q + 1, h) d = (q, h)"
      using 2(3) js_quoted_next [OF c(2)] step [of "q + 1" d] by auto
    moreover have "js_run (q, h) (tl s) = (q, h)"
      using 2 True s by simp
    ultimately show ?thesis using first s by simp
  next
    case False
    then have "js_step (q, h) c = (q, h)"
      using 2(3,4,5,6) js_quoted_next [of c] step [of q c] by auto
    then show ?thesis using 2 False by simp
  qed
qed simp

definition js_unquoted :: "int \<Rightarrow> bool" where
  "js_unquoted st \<longleftrightarrow> st \<in> {0, 5, 7, 8, 9, 10, 11, 12, 13, 14}"

lemma js_number_next:
  assumes "js_unquoted st" "number_char c"
  shows "js_next st c \<in> {0, 7, 8, 11, 12} \<and> js_external (js_next st c) = js_external st"
proof -
  define k where "k = (of_char c :: nat)"
  have marks: "k = 43 \<or> k = 45 \<or> k = 46" if "c \<in> set ''+-.''" using that by (auto simp: k_def)
  have "97 \<le> k \<and> k \<le> 122 \<or> 65 \<le> k \<and> k \<le> 90 \<or> 48 \<le> k \<and> k \<le> 57 \<or> k = 43 \<or> k = 45 \<or> k = 46"
    using assms(2) marks unfolding number_char_def is_alnum_def Let_def k_def by blast
  then have k: "k < 255" "k \<noteq> 10" "k \<noteq> 34" "k \<noteq> 39" "k \<noteq> 42" "k \<noteq> 47" "k \<noteq> 91" "k \<noteq> 92" "k \<noteq> 93" by auto
  have point: "a \<le> k \<and> k \<le> a \<longleftrightarrow> k = a" for a by auto
  have "st = 0 \<or> st = 5 \<or> st = 7 \<or> st = 8 \<or> st = 9 \<or> st = 10 \<or> st = 11 \<or> st = 12 \<or> st = 13 \<or> st = 14"
    using assms(1) unfolding js_unquoted_def by blast
  then show ?thesis
    unfolding js_next_def k_def [symmetric]
    by (elim disjE) (simp_all add: k point jsparser_state_transitions_def js_rows fsm_row_nth js_external_def jsparser_states_external_def)
qed

text \<open>A number leaves the parser in its script, comment or regular expression.\<close>

lemma js_number_kept:
  "js_unquoted st \<Longrightarrow> list_all number_char s \<Longrightarrow>
    js_external (fst (js_run (st, h) s)) = js_external st \<and> js_unquoted (fst (js_run (st, h) s))"
proof (induction s arbitrary: st h)
  case (Cons c s)
  have nx: "js_next st c \<in> {0, 7, 8, 11, 12}" "js_external (js_next st c) = js_external st"
    using js_number_next [of st c] Cons.prems by auto
  then have "\<exists>h'. js_step (st, h) c = (js_next st c, h')" by (auto simp: js_step_def)
  moreover have "js_unquoted (js_next st c)" using nx(1) by (auto simp: js_unquoted_def)
  ultimately show ?case using Cons.IH [of "js_next st c"] Cons.prems nx(2) by auto
qed simp

section \<open>What the template engine asks\<close>

text \<open>The answers from which a modifier is chosen. \<open>htmlparser_attr_type\<close> and the two questions after it also
  leave a copy of the value in the parser, which nothing else reads.\<close>

definition observe :: "htmlparser_ctx \<Rightarrow> html_parser result" where
  "observe ctx =
     bindE (htmlparser_in_js ctx) (\<lambda>js.
     bindE (htmlparser_state ctx) (\<lambda>st.
     bindE (htmlparser_is_js_quoted ctx) (\<lambda>jq.
     bindE (htmlparser_attr ctx) (\<lambda>a.
     bindE (htmlparser_attr_type ctx) (\<lambda>(ty, _).
     bindE (htmlparser_is_url_start ctx) (\<lambda>(us, _).
     bindE (htmlparser_in_css ctx) (\<lambda>(css, _).
       Inr \<lparr>in_javascript = js, state = st, is_javascript_quoted = jq, attribute = (case a of None \<Rightarrow> [] | Some n \<Rightarrow> n),
         attr_type = ty, is_attribute_quoted = htmlparser_is_attr_quoted ctx, is_url_start = us, in_css = css\<rparr>)))))))"

definition cdata_state :: "int \<Rightarrow> bool" where
  "cdata_state st \<longleftrightarrow> 21 \<le> st \<and> st \<le> 29"

definition html_external :: "int \<Rightarrow> html_state" where
  "html_external st = htmlparser_states_external ! nat st"

lemma in_js_run:
  assumes "html_ok ctx"
  shows "htmlparser_in_js ctx =
    Inr (in_js (user ctx) \<and> (cdata_state (current_state ctx) \<or> html_external (current_state ctx) = STATE_VALUE))"
proof -
  have "current_state ctx \<in> {26, 21, 22, 23, 24, 25, 27, 28, 29} \<longleftrightarrow> cdata_state (current_state ctx)"
    by (auto simp: cdata_state_def)
  then show ?thesis using external_run [OF assms] by (auto simp: htmlparser_in_js_def html_external_def)
qed

lemma js_quoted_run:
  assumes "html_ok ctx" "htmlparser_in_js ctx = Inr b"
  shows "htmlparser_is_js_quoted ctx =
    Inr (b \<and> js_external (current_state (jsparser (user ctx))) \<in> {JSPARSER_STATE_Q, JSPARSER_STATE_DQ})"
  using js_answer [OF assms(1)] assms(2) by (cases b) (simp_all add: htmlparser_is_js_quoted_def)

lemma attr_type_js:
  assumes "html_ok ctx" "htmlparser_attr_type ctx = Inr (ty, ctx1)" "html_external (current_state ctx) = STATE_VALUE"
  shows "ty = ATTR_JS \<longleftrightarrow> is_js_attribute (attr (user ctx))"
proof -
  have "htmlparser_in_attr ctx = Inr True"
    using external_run [OF assms(1)] assms(3) by (simp add: htmlparser_in_attr_def html_external_def)
  then show ?thesis using assms(2) by (auto simp: htmlparser_attr_type_def result_simps split: if_splits)
qed

lemma observed:
  assumes "html_ok ctx" "observe ctx = Inr p"
  shows "state p = html_external (current_state ctx)"
    "in_javascript p \<longleftrightarrow> in_js (user ctx) \<and> (cdata_state (current_state ctx) \<or> state p = STATE_VALUE)"
    "is_javascript_quoted p \<longleftrightarrow> in_javascript p \<and>
      js_external (current_state (jsparser (user ctx))) \<in> {JSPARSER_STATE_Q, JSPARSER_STATE_DQ}"
    "is_attribute_quoted p \<longleftrightarrow> current_state ctx \<in> {17, 18, 19, 20}"
    "state p = STATE_VALUE \<Longrightarrow> attr_type p = ATTR_JS \<longleftrightarrow> is_js_attribute (attr (user ctx))"
proof -
  let ?b = "in_js (user ctx) \<and> (cdata_state (current_state ctx) \<or> html_external (current_state ctx) = STATE_VALUE)"
  note js = in_js_run [OF assms(1)]
  obtain a ty us css c1 c2 c3 where ty: "htmlparser_attr_type ctx = Inr (ty, c1)"
    and p: "p = \<lparr>in_javascript = ?b, state = html_external (current_state ctx),
      is_javascript_quoted = (?b \<and> js_external (current_state (jsparser (user ctx))) \<in> {JSPARSER_STATE_Q, JSPARSER_STATE_DQ}),
      attribute = (case a of None \<Rightarrow> [] | Some n \<Rightarrow> n), attr_type = ty,
      is_attribute_quoted = htmlparser_is_attr_quoted ctx, is_url_start = us, in_css = css\<rparr>"
    using assms(2) external_run [OF assms(1)] unfolding observe_def js js_quoted_run [OF assms(1) js] htmlparser_state_def
    by (auto simp: result_simps html_external_def)
  show "state p = html_external (current_state ctx)"
    "in_javascript p \<longleftrightarrow> in_js (user ctx) \<and> (cdata_state (current_state ctx) \<or> state p = STATE_VALUE)"
    "is_javascript_quoted p \<longleftrightarrow> in_javascript p \<and>
      js_external (current_state (jsparser (user ctx))) \<in> {JSPARSER_STATE_Q, JSPARSER_STATE_DQ}"
    "is_attribute_quoted p \<longleftrightarrow> current_state ctx \<in> {17, 18, 19, 20}"
    by (simp_all add: p htmlparser_is_attr_quoted_def)
  show "state p = STATE_VALUE \<Longrightarrow> attr_type p = ATTR_JS \<longleftrightarrow> is_js_attribute (attr (user ctx))"
    using attr_type_js [OF assms(1) ty] by (simp add: p)
qed

section \<open>What comes out where\<close>

definition no_markup :: "string \<Rightarrow> bool" where
  "no_markup out \<longleftrightarrow> set out \<inter> {CHR ''<'', CHR ''>'', QUOT, APOS} = {}"

definition unquoted_out :: "char \<Rightarrow> bool" where
  "unquoted_out c \<longleftrightarrow> c \<notin> {TAB, LF, CR, CHR '' '', CHR ''>''}"

lemma no_markup_safe: "text_safe out \<Longrightarrow> no_markup out" "style_safe out \<Longrightarrow> no_markup out"
proof -
  show "text_safe out \<Longrightarrow> no_markup out" by (simp add: text_safe_def no_markup_def)
  have "\<not> is_alnum c" if "c \<in> {CHR ''<'', CHR ''>'', QUOT, APOS}" for c
    using that by (elim insertE emptyE) (simp_all add: is_alnum_def)
  moreover have "c \<notin> set '' _.,!#%-''" if "c \<in> {CHR ''<'', CHR ''>'', QUOT, APOS}" for c using that by auto
  ultimately show "style_safe out \<Longrightarrow> no_markup out"
    unfolding style_safe_def no_markup_def list_all_iff by blast
qed

lemma unquoted_chars: "query_out c \<Longrightarrow> unquoted_out c" "attribute_char c \<Longrightarrow> unquoted_out c"
proof -
  have al: "\<not> is_alnum c" if "c \<in> {TAB, LF, CR, CHR '' '', CHR ''>''}" for c
    using that by (elim insertE emptyE) (simp_all add: is_alnum_def)
  show "query_out c \<Longrightarrow> unquoted_out c"
    using al [of c] by (auto simp: query_out_def query_safe_def unquoted_out_def)
  show "attribute_char c \<Longrightarrow> unquoted_out c"
    using al [of c] by (auto simp: attribute_char_def unquoted_out_def)
qed

lemma number_no_markup:
  assumes "list_all number_char out"
  shows "no_markup out" "CHR ''&'' \<notin> set out" "NUL \<notin> set out"
proof -
  have "\<not> number_char c" if "c \<in> {CHR ''<'', CHR ''>'', QUOT, APOS, CHR ''&'', NUL}" for c
    using that by (elim insertE emptyE) (simp_all add: number_char_def is_alnum_def)
  then show "no_markup out" "CHR ''&'' \<notin> set out" "NUL \<notin> set out"
    using assms unfolding no_markup_def list_all_iff by blast+
qed

lemma script_no_markup: "no_markup (javascript_escape s)" "CHR ''&'' \<notin> set (javascript_escape s)"
  "NUL \<notin> set (javascript_escape s)" "APOS \<notin> set (javascript_escape s)"
proof -
  have "c \<notin> set (javascript_escape s)" if "c \<in> set js_unsafe - {BSL}" for c
    using javascript_escape_chars [of c s] that by blast
  moreover have "{CHR ''<'', CHR ''>'', QUOT, APOS, CHR ''&'', NUL} \<subseteq> set js_unsafe - {BSL}" by (simp add: js_unsafe_def)
  ultimately show "no_markup (javascript_escape s)" "CHR ''&'' \<notin> set (javascript_escape s)"
    "NUL \<notin> set (javascript_escape s)" "APOS \<notin> set (javascript_escape s)"
    unfolding no_markup_def by blast+
qed

definition script_out :: "bool \<Rightarrow> string \<Rightarrow> string" where
  "script_out quoted s = (if quoted then javascript_escape s else javascript_number s)"

lemma script_out_safe: "no_markup (script_out q s)" "CHR ''&'' \<notin> set (script_out q s)" "NUL \<notin> set (script_out q s)"
  using script_no_markup [of s] number_no_markup [OF javascript_number_chars [of s]] by (simp_all add: script_out_def)

lemma choice_output:
  assumes "get_modifier_for_html_js p err = Inr (ds, err', ins)" "ds \<noteq> []"
    and "escaped_with app (concat (map g_am_dirs ds)) s = Inr out"
  obtains (script) "in_javascript p" "state p \<noteq> STATE_VALUE" "out = script_out (is_javascript_quoted p) s"
    | (js_attr) "state p = STATE_VALUE" "attr_type p = ATTR_JS" "is_attribute_quoted p" "out = script_out (is_javascript_quoted p) s"
    | (quoted) "state p = STATE_VALUE" "attr_type p \<noteq> ATTR_JS" "is_attribute_quoted p" "no_markup out"
    | (unquoted) "state p = STATE_VALUE" "attr_type p \<noteq> ATTR_JS" "\<not> is_attribute_quoted p" "ins" "list_all unquoted_out out"
    | (tag) "state p \<in> {STATE_TAG, STATE_ATTR}"
    | (plain) "\<not> in_javascript p" "state p \<in> {STATE_TEXT, STATE_COMMENT}" "no_markup out"
proof (cases "in_javascript p \<and> state p \<noteq> STATE_VALUE")
  case True
  then show ?thesis
    using assms script by (auto simp: get_modifier_for_html_js_def directive_modifiers script_out_def
        simp del: g_am_dirs.simps escaped_with.simps split: if_splits)
next
  case False
  have un: "list_all unquoted_out (url_query_escape s)" "list_all unquoted_out (cleanse_attribute s)"
    using query_out_all [of s] attribute_out [of s] unquoted_chars by (auto simp: list_all_iff)
  note nm = no_markup_safe(1) [OF text_safe_html [of s]] no_markup_safe(1) [OF text_safe_url [of s]]
    no_markup_safe(2) [OF style_safe_css [of s]]
  show ?thesis
  proof (cases "state p = STATE_VALUE")
    case True
    then show ?thesis
      using assms js_attr quoted unquoted un nm
      by (cases "attr_type p") (auto simp: get_modifier_for_html_js_def directive_modifiers script_out_def
        simp del: g_am_dirs.simps escaped_with.simps split: if_splits)
  next
    case other: False
    then show ?thesis
      using False assms tag plain nm
      by (cases "state p") (auto simp: get_modifier_for_html_js_def directive_modifiers
        simp del: g_am_dirs.simps escaped_with.simps split: if_splits)
  qed
qed

section \<open>The place after a value\<close>

text \<open>Whether what is read goes to the javascript parser.\<close>

definition feeds_js :: "htmlparser_ctx \<Rightarrow> bool" where
  "feeds_js ctx \<longleftrightarrow> in_js (user ctx) \<and> (current_state ctx \<in> value_states \<or> cdata_state (current_state ctx))"

definition js_now :: "htmlparser_ctx \<Rightarrow> int" where
  "js_now ctx = current_state (jsparser (user ctx))"

text \<open>A place where a value can stand: in text, in a comment, in the value of an attribute, or in the content of
  a script or a style sheet that is not at the end of it; not in the middle of an entity of a script, nor
  after the backslash of an escape or the first slash of a regular expression.\<close>

definition settled :: "htmlparser_ctx \<Rightarrow> bool" where
  "settled ctx \<longleftrightarrow>
     (value_place (current_state ctx) \<or> current_state ctx = 15) \<and>
     (in_js (user ctx) \<and> current_state ctx \<in> value_states \<longrightarrow> \<not> ef_in (entityfilter (user ctx))) \<and>
     (feeds_js ctx \<longrightarrow> js_now ctx \<in> {1, 3} \<or> js_unquoted (js_now ctx))"

definition same_context :: "htmlparser_ctx \<Rightarrow> htmlparser_ctx \<Rightarrow> bool" where
  "same_context ctx ctx' \<longleftrightarrow>
     htmlparser_state ctx' = htmlparser_state ctx \<and> htmlparser_tag ctx' = htmlparser_tag ctx \<and>
     htmlparser_attr ctx' = htmlparser_attr ctx \<and> htmlparser_is_attr_quoted ctx' = htmlparser_is_attr_quoted ctx \<and>
     htmlparser_in_js ctx' = htmlparser_in_js ctx \<and> htmlparser_js_state ctx' = htmlparser_js_state ctx \<and>
     htmlparser_is_js_quoted ctx' = htmlparser_is_js_quoted ctx"

lemma place_external:
  assumes "value_place st" "st' \<in> place st"
  shows "html_external st' = html_external st" "html_external st \<notin> {STATE_TAG, STATE_ATTR}"
    "html_external st = STATE_VALUE \<longleftrightarrow> st \<in> {16, 17, 18, 19, 20}" "st' \<in> {17, 18, 19, 20} \<longleftrightarrow> st \<in> {17, 18, 19, 20}"
    "cdata_state st' \<longleftrightarrow> cdata_state st"
proof -
  have "(\<forall>x \<in> place st. html_external x = html_external st \<and> (x \<in> {17, 18, 19, 20} \<longleftrightarrow> st \<in> {17, 18, 19, 20}) \<and>
      (cdata_state x \<longleftrightarrow> cdata_state st)) \<and> html_external st \<notin> {STATE_TAG, STATE_ATTR} \<and>
      (html_external st = STATE_VALUE \<longleftrightarrow> st \<in> {16, 17, 18, 19, 20})"
    using value_place_cases [OF assms(1)]
    by (elim disjE) (simp_all add: place_def html_external_def htmlparser_states_external_def cdata_state_def)
  then show "html_external st' = html_external st" "html_external st \<notin> {STATE_TAG, STATE_ATTR}"
    "html_external st = STATE_VALUE \<longleftrightarrow> st \<in> {16, 17, 18, 19, 20}" "st' \<in> {17, 18, 19, 20} \<longleftrightarrow> st \<in> {17, 18, 19, 20}"
    "cdata_state st' \<longleftrightarrow> cdata_state st"
    using assms(2) by blast+
qed

lemma same_contextI:
  assumes "html_ok ctx" "html_ok ctx'" "html_external (current_state ctx') = html_external (current_state ctx)"
    "current_state ctx' \<in> {17, 18, 19, 20} \<longleftrightarrow> current_state ctx \<in> {17, 18, 19, 20}"
    "cdata_state (current_state ctx') \<longleftrightarrow> cdata_state (current_state ctx)" "tag (user ctx') = tag (user ctx)"
    "attr (user ctx') = attr (user ctx)" "in_js (user ctx') = in_js (user ctx)" "js_external (js_now ctx') = js_external (js_now ctx)"
  shows "same_context ctx ctx'"
proof -
  have js: "htmlparser_in_js ctx' = htmlparser_in_js ctx" using in_js_run assms by simp
  have "htmlparser_is_js_quoted ctx' = htmlparser_is_js_quoted ctx"
    using js_quoted_run [OF assms(1) in_js_run [OF assms(1)]] js_quoted_run [OF assms(2) in_js_run [OF assms(2)]] assms
    by (simp add: js_now_def)
  then show ?thesis
    using js assms external_run [OF assms(1)] external_run [OF assms(2)] js_answer [OF assms(1)] js_answer [OF assms(2)]
    by (simp add: same_context_def htmlparser_state_def htmlparser_tag_def htmlparser_attr_def htmlparser_in_attr_def
        htmlparser_is_attr_quoted_def htmlparser_js_state_def html_external_def js_now_def)
qed

text \<open>What it takes of an output.\<close>

definition fits_place :: "htmlparser_ctx \<Rightarrow> string \<Rightarrow> bool" where
  "fits_place ctx out \<longleftrightarrow>
     set out \<inter> way_out (current_state ctx) = {} \<and>
     (in_js (user ctx) \<and> current_state ctx \<in> {16, 17, 18, 19, 20} \<longrightarrow> CHR ''&'' \<notin> set out) \<and>
     (feeds_js ctx \<longrightarrow>
        NUL \<notin> set out \<and>
        (if js_now ctx \<in> {1, 3} then quotes_escaped out \<and> APOS \<notin> set out else list_all number_char out))"

lemma place_feeds:
  assumes "value_place st"
  shows "st \<noteq> 15"
    "landed st \<in> {16, 18, 20} \<or> 21 \<le> landed st \<and> landed st \<le> 29 \<longleftrightarrow> st \<in> value_states \<or> cdata_state st"
  using value_place_cases [OF assms] by (elim disjE; simp add: landed_def cdata_state_def)+

lemma fitting_value:
  assumes "html_ok ctx" "value_place (current_state ctx)" "settled ctx" "fits_place ctx out" "list_all plain_byte out"
  shows "\<exists>ctx'. parse_chars html_def out ctx = Inr (current_state ctx', ctx') \<and> html_ok ctx' \<and> same_context ctx ctx' \<and> settled ctx'"
proof -
  let ?st = "current_state ctx"
  have fine: "list_all (\<lambda>c. plain_byte c \<and> c \<notin> way_out ?st) out"
    using assms(4,5) by (auto simp: fits_place_def list_all_iff)
  have script: "in_js (user ctx) \<and> ?st \<in> {16, 17, 18, 19, 20} \<longrightarrow>
      \<not> ef_in (entityfilter (user ctx)) \<and> CHR ''&'' \<notin> set out"
    using assms(3,4) unfolding settled_def fits_place_def by blast
  obtain ctx' where run: "parse_chars html_def out ctx = Inr (current_state ctx', ctx')" "html_ok ctx'"
      "current_state ctx' \<in> place ?st" "tag (user ctx') = tag (user ctx)" "attr (user ctx') = attr (user ctx)"
      "in_js (user ctx') = in_js (user ctx)" "entityfilter (user ctx') = entityfilter (user ctx)"
    and js: "js_view (jsparser (user ctx')) =
       js_run (js_view (jsparser (user ctx))) (seen_by_js (landed ?st) (in_js (user ctx)) out)"
    using stay_run [OF assms(1,2) fine script] by blast
  note same = place_same [OF assms(2) run(3)]
  note ext = place_external [OF assms(2) run(3)]
  have in_value: "current_state ctx' \<in> value_states \<longleftrightarrow> ?st \<in> value_states"
    using same(7) place_feeds(1) [OF assms(2)] place_feeds(1) [OF same(1)] by blast
  then have feeds: "feeds_js ctx' = feeds_js ctx" using ext(5) run(6) unfolding feeds_js_def by blast
  obtain h where view: "js_view (jsparser (user ctx)) = (js_now ctx, h)" by (simp add: js_view_def js_now_def)
  have now: "js_now ctx' = fst (js_view (jsparser (user ctx')))" by (simp add: js_view_def js_now_def)
  have js': "js_external (js_now ctx') = js_external (js_now ctx) \<and>
      (feeds_js ctx \<longrightarrow> js_now ctx' \<in> {1, 3} \<or> js_unquoted (js_now ctx'))"
  proof (cases "feeds_js ctx")
    case True
    have "seen_by_js (landed ?st) (in_js (user ctx)) out = out"
    proof -
      have "filter (\<lambda>c. c \<noteq> NUL) out = out" using assms(4) True by (auto simp: fits_place_def filter_id_conv)
      moreover have "landed ?st \<in> {16, 18, 20} \<or> 21 \<le> landed ?st \<and> landed ?st \<le> 29" "in_js (user ctx)"
        using True place_feeds(2) [OF assms(2)] unfolding feeds_js_def by blast+
      ultimately show ?thesis unfolding seen_by_js_def by presburger
    qed
    then have *: "js_view (jsparser (user ctx')) = js_run (js_now ctx, h) out" using js view by simp
    show ?thesis
    proof (cases "js_now ctx \<in> {1, 3}")
      case q: True
      then have "quotes_escaped out \<and> APOS \<notin> set out" using assms(4) True by (simp add: fits_place_def)
      then have "js_now ctx' = js_now ctx" using js_string_kept [OF q _ _ assms(5)] * now by simp
      then show ?thesis using q by simp
    next
      case False
      then have "js_unquoted (js_now ctx)" "list_all number_char out"
        using assms(3,4) True by (auto simp: fits_place_def settled_def)
      then show ?thesis using js_number_kept [of "js_now ctx" out h] * now by simp
    qed
  next
    case False
    have "seen_by_js (landed ?st) (in_js (user ctx)) out = []"
      using False place_feeds(2) [OF assms(2)] unfolding seen_by_js_def feeds_js_def by presburger
    then show ?thesis using js view now False by simp
  qed
  have "same_context ctx ctx'"
    by (rule same_contextI [OF assms(1) run(2) ext(1,4,5) run(4-6)]) (use js' in simp)
  moreover have "settled ctx'"
    using assms(3) same(1) in_value run(6,7) js' feeds unfolding settled_def by simp
  ultimately show ?thesis using run(1,2) by blast
qed

text \<open>A script in which the value stands.\<close>

lemma script_fits:
  assumes "js_now ctx \<in> {1, 3} \<or> js_unquoted (js_now ctx)"
    and "quoted \<longleftrightarrow> js_external (js_now ctx) \<in> {JSPARSER_STATE_Q, JSPARSER_STATE_DQ}"
  shows "if js_now ctx \<in> {1, 3} then quotes_escaped (script_out quoted s) \<and> APOS \<notin> set (script_out quoted s)
    else list_all number_char (script_out quoted s)"
proof (cases "js_now ctx \<in> {1, 3}")
  case True
  then have quoted using assms(2) by (auto simp: js_external_def jsparser_states_external_def)
  then show ?thesis using True quotes_escaped_javascript [of s] script_no_markup(4) [of s] by (simp add: script_out_def)
next
  case False
  then have "js_unquoted (js_now ctx)" using assms(1) by blast
  then have "js_external (js_now ctx) \<notin> {JSPARSER_STATE_Q, JSPARSER_STATE_DQ}"
    unfolding js_unquoted_def insert_iff empty_iff simp_thms
    by (elim disjE) (simp_all add: js_external_def jsparser_states_external_def)
  then show ?thesis using False assms(2) javascript_number_chars [of s] by (simp add: script_out_def)
qed

lemma no_markup_stays:
  assumes "no_markup out" "value_place st" "st \<noteq> 16"
  shows "set out \<inter> way_out st = {}"
proof -
  have "way_out st \<subseteq> {CHR ''<'', CHR ''>'', QUOT, APOS}"
    using value_place_cases [OF assms(2)] assms(3) by (elim disjE) (simp_all add: way_out_def)
  then show ?thesis using assms(1) unfolding no_markup_def by blast
qed

text \<open>The chosen modifier makes what fits: after the parser was told of the value where it has to be.\<close>

lemma chosen_fits:
  assumes ok: "html_ok ctx" "settled ctx" "observe ctx = Inr p"
    and choice: "get_modifier_for_html_js p err = Inr (ds, err', told)" "ds \<noteq> []"
    and out: "escaped_with app (concat (map g_am_dirs ds)) s = Inr out"
    and ctx1: "current_state ctx1 = (if current_state ctx = 15 then 16 else current_state ctx)"
      "in_js (user ctx1) = in_js (user ctx)" "jsparser (user ctx1) = jsparser (user ctx)"
  shows "fits_place ctx1 out"
proof -
  let ?st = "current_state ctx1"
  note obs = observed [OF ok(1,3)]
  have st: "value_place ?st" using ok(2) ctx1(1) by (auto simp: settled_def value_place_def)
  have ext: "html_external (current_state ctx) = html_external ?st"
    using ctx1(1) by (simp add: html_external_def htmlparser_states_external_def)
  have state: "state p = html_external ?st" using obs(1) ext by simp
  have feeds: "feeds_js ctx1 = feeds_js ctx"
    using ctx1(1,2) by (cases "current_state ctx = 15") (simp_all add: feeds_js_def cdata_state_def)
  have now: "js_now ctx1 = js_now ctx" using ctx1(3) by (simp add: js_now_def)
  have value_st: "state p = STATE_VALUE \<longleftrightarrow> ?st \<in> {16, 17, 18, 19, 20}" "state p \<notin> {STATE_TAG, STATE_ATTR}"
    using place_external(2,3) [OF st place_self [OF st]] state by simp_all
  then have value_ctx: "state p = STATE_VALUE \<longleftrightarrow> current_state ctx \<in> value_states"
    using ctx1(1) by (cases "current_state ctx = 15") simp_all
  have quoted_st: "is_attribute_quoted p \<longleftrightarrow> ?st \<in> {17, 18, 19, 20}"
    using obs(4) ctx1(1) by (cases "current_state ctx = 15") simp_all
  have attr_js: "state p = STATE_VALUE \<Longrightarrow> attr_type p = ATTR_JS \<longleftrightarrow> in_js (user ctx)"
    using obs(5) value_ctx ok(1) unfolding html_ok_def by blast
  have no_feed: "fits_place ctx1 out" if "\<not> feeds_js ctx1" "set out \<inter> way_out ?st = {}"
    using that unfolding fits_place_def feeds_js_def by blast
  from choice out show ?thesis
  proof (cases rule: choice_output)
    case script
    have "feeds_js ctx" using script(1,2) obs(2) by (simp add: feeds_js_def)
    then have "js_now ctx1 \<in> {1, 3} \<or> js_unquoted (js_now ctx1)"
      "is_javascript_quoted p \<longleftrightarrow> js_external (js_now ctx1) \<in> {JSPARSER_STATE_Q, JSPARSER_STATE_DQ}"
      using ok(2) obs(3) script(1) now by (auto simp: settled_def js_now_def)
    note js = script_fits [OF this, of s]
    have "?st \<noteq> 16" using value_st(1) script(2) by auto
    from no_markup_stays [OF _ st this, of out] js show ?thesis
      using script_out_safe [of _ s] unfolding fits_place_def script(3) by blast
  next
    case js_attr
    have "feeds_js ctx" "in_javascript p" using js_attr(1,2) attr_js value_ctx obs(2) unfolding feeds_js_def by blast+
    then have "js_now ctx1 \<in> {1, 3} \<or> js_unquoted (js_now ctx1)"
      "is_javascript_quoted p \<longleftrightarrow> js_external (js_now ctx1) \<in> {JSPARSER_STATE_Q, JSPARSER_STATE_DQ}"
      using ok(2) obs(3) now by (auto simp: settled_def js_now_def)
    note js = script_fits [OF this, of s]
    have "?st \<noteq> 16" using quoted_st js_attr(3) by auto
    from no_markup_stays [OF _ st this, of out] js show ?thesis
      using script_out_safe [of _ s] unfolding fits_place_def js_attr(4) by blast
  next
    case quoted
    then have "\<not> feeds_js ctx1" "?st \<noteq> 16" using attr_js quoted_st feeds unfolding feeds_js_def by auto
    then show ?thesis using no_feed no_markup_stays [OF quoted(4) st] by blast
  next
    case unquoted
    then have "\<not> feeds_js ctx1" "?st = 16" using attr_js quoted_st value_st feeds unfolding feeds_js_def by blast+
    moreover have "set out \<inter> way_out 16 = {}"
      using unquoted(5) unfolding list_all_iff unquoted_out_def by (auto simp: way_out_def)
    ultimately show ?thesis using no_feed by simp
  next
    case tag
    then show ?thesis using value_st(2) by blast
  next
    case plain
    then have "\<not> feeds_js ctx1" "?st \<noteq> 16" using obs(2) value_st(1) value_ctx feeds unfolding feeds_js_def by auto
    then show ?thesis using no_feed no_markup_stays [OF plain(3) st] by blast
  qed
qed

lemma chosen_told:
  assumes "html_ok ctx" "observe ctx = Inr p"
    and "get_modifier_for_html_js p err = Inr (ds, err', told)" "ds \<noteq> []"
    and "escaped_with app (concat (map g_am_dirs ds)) s = Inr out" "current_state ctx = 15"
  shows told
proof -
  have "state p = STATE_VALUE" "\<not> is_attribute_quoted p"
    using observed(1,4) [OF assms(1,2)] assms(6) by (simp_all add: html_external_def htmlparser_states_external_def)
  with assms(3-5) show ?thesis by (cases rule: choice_output) simp_all
qed

section \<open>Properties\<close>


text \<open>A script file in which a string has begun.\<close>

lemma observe_run: "html_ok ctx \<Longrightarrow> \<exists>p. observe ctx = Inr p"
  using in_js_run [of ctx] js_quoted_run [of ctx] place_answers [of ctx] external_run [of ctx]
  by (auto simp: observe_def htmlparser_state_def htmlparser_attr_def htmlparser_in_attr_def)

lemma script_string_place:
  "\<exists>ctx. html_ok ctx \<and> current_state ctx = 29 \<and> in_js (user ctx) \<and> js_now ctx = 1"
proof -
  let ?ctx = "htmlparser_reset_mode MODE_JS fresh_parser"
  have ok: "html_ok ?ctx" by (rule reset_mode_ok [OF fresh_parser_ok(1)])
  have ctx: "current_state ?ctx = 29" "in_js (user ?ctx)" "fst (js_view (jsparser (user ?ctx))) = 0"
    by (simp_all add: htmlparser_reset_mode_def Let_def js_view_def jsparser_reset_def)
  obtain h where h: "js_view (jsparser (user ?ctx)) = (0, h)" using ctx(3) by (metis prod.collapse)
  have place: "value_place (current_state ?ctx)" using ctx(1) by (simp add: value_place_def)
  have fine: "list_all (\<lambda>c. plain_byte c \<and> c \<notin> way_out (current_state ?ctx)) [APOS]"
    using ctx(1) by (simp add: way_out_def plain_byte_def)
  obtain ctx' where run: "html_ok ctx'" "current_state ctx' \<in> place 29" "in_js (user ctx')"
    "js_view (jsparser (user ctx')) = js_run (0, h) (seen_by_js (landed 29) True [APOS])"
    using stay_run [OF ok place fine] ctx(1,2) h by auto
  have "js_next 0 APOS = 1"
    by (simp add: js_next_def jsparser_state_transitions_def js_rows fsm_row_nth)
  then have "js_run (0, h) (seen_by_js (landed 29) True [APOS]) = (1, h)"
    by (simp add: seen_by_js_def landed_def js_step_def)
  then show ?thesis using run by (intro exI [of _ ctx']) (simp add: place_def js_view_def js_now_def)
qed


text \<open>A value between attributes is not settled: there the value may be an attribute with its value, and the modifier for the
  place lets it through, so that after it the parser is no longer in the tag but in a value, of an attribute that
  runs scripts if the value names one.\<close>

theorem tag_value_begins_attribute:
  assumes "html_ok ctx" "current_state ctx = INT_TAG_SPACE"
  shows "\<exists>p ctx'. observe ctx = Inr p \<and> state p = STATE_TAG \<and>
    get_modifier_for_html_js p err = Inr ([AM_HTML_UNQUOTED], err, False) \<and>
    escaped_with app (concat (map g_am_dirs [AM_HTML_UNQUOTED])) ''onclick=f'' = Inr ''onclick=f'' \<and>
    htmlparser_parse ctx ''onclick=f'' 9 = Inr (STATE_VALUE, ctx')"
proof -
  obtain p where p: "observe ctx = Inr p" using observe_run [OF assms(1)] by blast
  have "state p = STATE_TAG" "\<not> in_javascript p"
    using observed(1,2) [OF assms(1) p] assms(2) by (simp_all add: html_external_def htmlparser_states_external_def cdata_state_def)
  moreover from this have "get_modifier_for_html_js p err = Inr ([AM_HTML_UNQUOTED], err, False)"
    by (simp add: get_modifier_for_html_js_def)
  moreover have "escaped_with app (concat (map g_am_dirs [AM_HTML_UNQUOTED])) ''onclick=f'' = Inr ''onclick=f''"
    using directive_modifiers(2) [of app "''onclick=f''"]
    by (simp add: cleanse_attribute_def is_alnum_def del: g_am_dirs.simps escaped_with.simps)
  moreover have "\<exists>ctx'. htmlparser_parse ctx ''onclick=f'' 9 = Inr (STATE_VALUE, ctx')"
  proof -
    have reads: "reads_on ctx ''onclick=f''" using assms(2) by (simp add: reads_on_def script_value_def plain_byte_def)
    have "walk 11 ''onclick=f'' = Some 16"
      by (simp add: html_next_def htmlparser_state_transitions_def html_rows fsm_row_nth STATEMACHINE_ERROR_def)
    then obtain ctx' where "parse_chars html_def ''onclick=f'' ctx = Inr (16, ctx')"
      using walk_run [OF assms(1) reads] assms(2) by auto
    then show ?thesis
      by (simp add: htmlparser_parse_def html_created statemachine_parse_def html_state_external_run(1) htmlparser_states_external_def)
  qed
  ultimately show ?thesis using p by blast
qed

theorem tag_value_begins_attribute_witness:
  "\<exists>ctx'. htmlparser_parse (htmlparser_reset_mode MODE_HTML_IN_TAG fresh_parser) ''onclick=f'' 9 = Inr (STATE_VALUE, ctx')"
  using tag_value_begins_attribute [OF reset_mode_ok [OF fresh_parser_ok(1)], of MODE_HTML_IN_TAG]
  by (simp add: htmlparser_reset_mode_def Let_def) blast

end
