(* ===== verification/Url_Parts.thy ===== *)
theory Url_Parts
  imports Rt_Prelude
begin

text \<open>
  The parts of a URL (\<open>src/utils/URL.cc\<close>, \<open>include/rikitiki/utils/URL.h\<close>): where protocol, host
  and resource start. The pointers into the text are indices into it, the pointer \<open>end\<close> is its
  length. The class is a template over the character type; the search is the one of
  \<open>std::basic_string\<close>.
\<close>

text \<open>\<open>find\<close>: the first place at or after \<open>i\<close> where the pattern occurs.\<close>

fun find_at :: "'a list \<Rightarrow> 'a list \<Rightarrow> nat \<Rightarrow> nat option" where
  "find_at pat [] i = (if pat = [] then Some i else None)"
| "find_at pat (c # s) i = (if take (length pat) (c # s) = pat then Some i else find_at pat s (i + 1))"

definition string_find :: "'a list \<Rightarrow> 'a list \<Rightarrow> nat \<Rightarrow> nat option" where
  "string_find s pat i = (if i \<le> length s then find_at pat (drop i s) i else None)"

record 'a url_parts =
  uri :: "'a list"
  url_start :: nat
  url_end :: nat
  protocol_start :: nat
  host_start :: nat
  resource_start :: nat

text \<open>\<open>sep\<close> and \<open>slash\<close> are the literals of the character type (\<open>_T\<close>).\<close>

definition new_url :: "'a list \<Rightarrow> 'a \<Rightarrow> 'a list \<Rightarrow> 'a url_parts" where
  "new_url sep slash u =
     (let n = length u;
          protocol_end = string_find u sep 0;
          protocol = (case protocol_end of Some i \<Rightarrow> 0 | None \<Rightarrow> n);
          host = (case protocol_end of Some i \<Rightarrow> i + 3 | None \<Rightarrow> 0);
          host_end = string_find u [slash] host
      in \<lparr>uri = u, url_start = 0, url_end = n, protocol_start = protocol, host_start = host,
          resource_start = (case host_end of Some i \<Rightarrow> i | None \<Rightarrow> n)\<rparr>)"

definition URL :: "string \<Rightarrow> char url_parts" where
  "URL = new_url ''://'' (CHR ''/'')"

definition wURL :: "wstring \<Rightarrow> wchar url_parts" where
  "wURL = new_url (wide_lit ''://'') (wchar_of_char (CHR ''/''))"

section \<open>Searching\<close>

definition occurs_first :: "'a list \<Rightarrow> 'a list \<Rightarrow> 'a list \<Rightarrow> bool" where
  "occurs_first pat p r \<longleftrightarrow> take (length pat) r = pat \<and> (\<forall>k < length p. take (length pat) (drop k (p @ r)) \<noteq> pat)"

lemma find_at_first: "occurs_first pat p r \<Longrightarrow> pat \<noteq> [] \<Longrightarrow> find_at pat (p @ r) i = Some (i + length p)"
proof (induction p arbitrary: i)
  case Nil
  then show ?case by (cases r) (auto simp: occurs_first_def)
next
  case (Cons c p)
  have "take (length pat) (drop 0 ((c # p) @ r)) \<noteq> pat" using Cons.prems(1) unfolding occurs_first_def by blast
  moreover have "occurs_first pat p r"
    unfolding occurs_first_def
  proof (intro conjI allI impI)
    show "take (length pat) r = pat" using Cons.prems(1) by (simp add: occurs_first_def)
    fix k assume "k < length p"
    then show "take (length pat) (drop k (p @ r)) \<noteq> pat"
      using Cons.prems(1) unfolding occurs_first_def by (metis Suc_less_eq append_Cons drop_Suc_Cons length_Cons)
  qed
  ultimately show ?case using Cons.IH Cons.prems(2) by simp
qed

lemma find_at_None: "(\<forall>k \<le> length s. take (length pat) (drop k s) \<noteq> pat) \<Longrightarrow> pat \<noteq> [] \<Longrightarrow> find_at pat s i = None"
proof (induction s arbitrary: i)
  case (Cons c s)
  have "take (length pat) (drop 0 (c # s)) \<noteq> pat" using Cons.prems(1) by blast
  moreover have "\<forall>k \<le> length s. take (length pat) (drop k s) \<noteq> pat"
    using Cons.prems(1) by (metis Suc_le_mono drop_Suc_Cons length_Cons)
  ultimately show ?case using Cons.IH Cons.prems(2) by simp
qed simp

lemma find_at_char: "c \<notin> set p \<Longrightarrow> find_at [c] (p @ c # r) i = Some (i + length p)"
  by (induction p arbitrary: i) auto

lemma find_at_no_char: "c \<notin> set s \<Longrightarrow> find_at [c] s i = None"
  by (induction s arbitrary: i) auto

text \<open>A separator that does not start before its place: its first character does not occur.\<close>

lemma occurs_first_char:
  assumes "a \<notin> set p"
  shows "occurs_first (a # pat) p (a # pat @ r)"
proof -
  have "take (Suc (length pat)) (drop k (p @ a # pat @ r)) \<noteq> a # pat" if "k < length p" for k
  proof -
    have "drop k (p @ a # pat @ r) = p ! k # drop (Suc k) (p @ a # pat @ r)"
      using that by (metis Cons_nth_drop_Suc length_append nth_append trans_less_add1)
    then show ?thesis using that assms nth_mem by fastforce
  qed
  then show ?thesis by (simp add: occurs_first_def)
qed

lemma host_path: "CHR ''/'' \<notin> set host \<Longrightarrow> path = [] \<or> hd path = CHR ''/'' \<Longrightarrow>
    find_at ''/'' (host @ path) i = (if path = [] then None else Some (i + length host))"
  by (cases path) (auto simp: find_at_char find_at_no_char)


definition url_split :: "string \<Rightarrow> string \<Rightarrow> string \<Rightarrow> char url_parts \<Rightarrow> bool" where
  "url_split protocol host path u \<longleftrightarrow>
     take (length protocol) (drop (protocol_start u) (uri u)) = protocol \<and>
     take (resource_start u - host_start u) (drop (host_start u) (uri u)) = host \<and>
     drop (resource_start u) (uri u) = path"

lemma url_with_protocol:
  assumes "CHR '':'' \<notin> set protocol" "CHR ''/'' \<notin> set host" "path = [] \<or> hd path = CHR ''/''"
  shows "url_split protocol host path (URL (protocol @ ''://'' @ host @ path))"
proof -
  let ?t = "protocol @ ''://'' @ host @ path"
  have "find_at ''://'' ?t 0 = Some (length protocol)"
    using find_at_first [OF occurs_first_char [OF assms(1), of "''//''" "host @ path"], of 0] by simp
  then have p: "string_find ?t ''://'' 0 = Some (length protocol)" by (simp add: string_find_def)
  have "drop (length protocol + 3) ?t = host @ path" by simp
  then have "string_find ?t ''/'' (length protocol + 3) =
      (if path = [] then None else Some (length protocol + 3 + length host))"
    using host_path [OF assms(2,3)] by (simp add: string_find_def)
  with p show ?thesis by (simp add: URL_def new_url_def Let_def url_split_def numeral_3_eq_3)
qed

lemma url_without_protocol:
  assumes "CHR '':'' \<notin> set (host @ path)" "CHR ''/'' \<notin> set host" "path = [] \<or> hd path = CHR ''/''"
  shows "url_split [] host path (URL (host @ path))"
proof -
  have "take (length ''://'') (drop k (host @ path)) \<noteq> ''://''" for k
  proof
    assume "take (length ''://'') (drop k (host @ path)) = ''://''"
    then have "CHR '':'' \<in> set (take (length ''://'') (drop k (host @ path)))" by simp
    then show False using assms(1) by (meson in_set_dropD in_set_takeD)
  qed
  then have "string_find (host @ path) ''://'' 0 = None"
    using find_at_None [of "host @ path" "''://''" 0] by (simp add: string_find_def)
  moreover have "string_find (host @ path) ''/'' 0 = (if path = [] then None else Some (length host))"
    using host_path [OF assms(2,3), of 0] by (simp add: string_find_def)
  ultimately show ?thesis by (simp add: URL_def new_url_def Let_def url_split_def)
qed

section \<open>Property\<close>

text \<open>A URL is cut where its syntax says: for every protocol, host and path that are put
  together with the separators, the recorded places give back the three parts, with and without a
  protocol and with and without a path.\<close>

theorem url_parts_split:
  assumes "CHR '':'' \<notin> set (protocol @ host @ path)" "CHR ''/'' \<notin> set host" "path = [] \<or> hd path = CHR ''/''"
  shows "url_split protocol host path (URL (protocol @ ''://'' @ host @ path)) \<and>
    url_split [] host path (URL (host @ path))"
  using url_with_protocol [OF _ assms(2,3)] url_without_protocol [OF _ assms(2,3)] assms(1) by simp

theorem url_parts_split_witness:
  "url_split ''http'' ''example.org'' ''/a/b'' (URL (''http'' @ ''://'' @ ''example.org'' @ ''/a/b'')) \<and>
    url_split [] ''example.org'' ''/a/b'' (URL (''example.org'' @ ''/a/b''))"
  by (rule url_parts_split) simp_all

end
