(* ===== verification/Configuration_File.thy ===== *)
theory Configuration_File
  imports Rt_Prelude
begin

text \<open>
  The global configuration (\<open>src/configuration/configuration.cc\<close>): the search for variables
  \<open>$(name)\<close> in a setting, their expansion, the walk over the settings, and the names of the
  program that the file names are made of. The settings of libconfig are a tree; reading and
  parsing a file is not modelled. \<open>std::out_of_range\<close> is an exception. What the code reads when it
  asks an empty string for its last character is not defined by the language; it is the
  parameter \<open>blank\<close>, the character found there or none.
\<close>

section \<open>Variables\<close>

text \<open>The loops take the rest of the text from the index on.\<close>

fun find_close_loop :: "string \<Rightarrow> nat \<Rightarrow> nat option" where
  "find_close_loop [] i = None"
| "find_close_loop (c # s) i = (if c = CHR '')'' then Some i else find_close_loop s (i + 1))"

definition find_close :: "string \<Rightarrow> nat \<Rightarrow> nat option" where
  "find_close path start = find_close_loop (drop start path) start"

fun find_open_loop :: "bool \<Rightarrow> string \<Rightarrow> nat \<Rightarrow> nat option" where
  "find_open_loop dollar [] i = None"
| "find_open_loop dollar (c # s) i =
     (if c = CHR ''$'' then find_open_loop True s (i + 1)
      else if c = CHR ''('' \<and> dollar then Some i
      else find_open_loop False s (i + 1))"

definition find_open_decl :: "string \<Rightarrow> nat \<Rightarrow> nat option" where
  "find_open_decl path start = find_open_loop False (drop start path) start"

definition string_back :: "char option \<Rightarrow> string \<Rightarrow> char result" where
  "string_back blank s =
     (if s \<noteq> [] then Inr (last s) else case blank of Some c \<Rightarrow> Inr c | None \<Rightarrow> Inl UndefinedBehaviour)"

text \<open>\<open>insert(pos, s)\<close>; a \<open>char\<close> as a position is converted to \<open>size_t\<close>, so a negative one is huge.\<close>

definition string_insert :: "string \<Rightarrow> nat \<Rightarrow> string \<Rightarrow> string result" where
  "string_insert s pos t = (if pos \<le> length s then Inr (take pos s @ t @ drop pos s) else Inl (RtException ''out_of_range''))"

definition char_position :: "char \<Rightarrow> nat" where
  "char_position c = (if 0 \<le> schar c then nat (schar c) else nat (schar c + 2 ^ 64))"

type_synonym variables = "string \<Rightarrow> string option"

text \<open>\<open>variables[key]\<close> is the empty string for an unknown name.\<close>

definition variable_value :: "variables \<Rightarrow> string \<Rightarrow> string" where
  "variable_value vs key = (case vs key of Some v \<Rightarrow> v | None \<Rightarrow> [])"

lemma find_open_loop_bounds: "find_open_loop d s i = Some j \<Longrightarrow> i \<le> j \<and> j < i + length s"
  by (induction d s i rule: find_open_loop.induct) (auto split: if_splits)

lemma find_close_loop_bounds: "find_close_loop s i = Some j \<Longrightarrow> i \<le> j \<and> j < i + length s"
proof (induction s arbitrary: i)
  case (Cons c s)
  then show ?case by (auto split: if_splits) fastforce+
qed simp

lemma find_bounds:
  "find_open_decl path start = Some j \<Longrightarrow> start \<le> j \<and> j < length path"
  "find_close path start = Some j \<Longrightarrow> start \<le> j \<and> j < length path"
proof -
  assume "find_open_decl path start = Some j"
  from find_open_loop_bounds [OF this [unfolded find_open_decl_def]] show "start \<le> j \<and> j < length path"
    unfolding length_drop by linarith
next
  assume "find_close path start = Some j"
  from find_close_loop_bounds [OF this [unfolded find_close_def]] show "start \<le> j \<and> j < length path"
    unfolding length_drop by linarith
qed

text \<open>The loop; without a closing parenthesis the key would be cut beyond the text.\<close>

function expand_loop :: "char option \<Rightarrow> variables \<Rightarrow> string \<Rightarrow> nat \<Rightarrow> string \<Rightarrow> string result" where
  "expand_loop blank vs val cur exp_value =
     (case find_open_decl val cur of
        None \<Rightarrow> Inr (exp_value @ cstr (drop cur val))
      | Some open_decl \<Rightarrow>
          (case find_close val open_decl of
             None \<Rightarrow> Inl UndefinedBehaviour
           | Some close_decl \<Rightarrow>
               (case string_back blank exp_value of
                  Inl e \<Rightarrow> Inl e
                | Inr b \<Rightarrow>
                    (case string_insert exp_value (char_position b) (take (open_decl - cur - 1) (drop cur val)) of
                       Inl e \<Rightarrow> Inl e
                     | Inr exp1 \<Rightarrow>
                         expand_loop blank vs val (close_decl + 1)
                           (exp1 @ variable_value vs (take (close_decl - (open_decl + 1)) (drop (open_decl + 1) val)))))))"
  by pat_completeness auto
termination
  by (relation "measure (\<lambda>(blank, vs, val, cur, exp_value). length val - cur)") (auto dest!: find_bounds)

declare expand_loop.simps [simp del]

definition expand_variables :: "char option \<Rightarrow> variables \<Rightarrow> string \<Rightarrow> string result" where
  "expand_variables blank vs val = expand_loop blank vs val 0 []"

section \<open>Settings\<close>

text \<open>A setting: its path, and a string, another scalar, or a list of settings.\<close>

datatype setting = StringSetting string string | ScalarSetting string | AggregateSetting string "setting list"

fun perform_substitutions :: "char option \<Rightarrow> variables \<Rightarrow> setting \<Rightarrow> (variables \<times> setting) result"
and perform_all :: "char option \<Rightarrow> variables \<Rightarrow> setting list \<Rightarrow> (variables \<times> setting list) result" where
  "perform_substitutions blank vs (StringSetting path existing) =
     bindE (expand_variables blank vs existing) (\<lambda>exp. Inr (vs(path \<mapsto> exp), StringSetting path exp))"
| "perform_substitutions blank vs (ScalarSetting path) = Inr (vs, ScalarSetting path)"
| "perform_substitutions blank vs (AggregateSetting path ss) =
     bindE (perform_all blank vs ss) (\<lambda>(vs', ss'). Inr (vs', AggregateSetting path ss'))"
| "perform_all blank vs [] = Inr (vs, [])"
| "perform_all blank vs (s # ss) =
     bindE (perform_substitutions blank vs s) (\<lambda>(vs1, s1).
     bindE (perform_all blank vs1 ss) (\<lambda>(vs2, ss2). Inr (vs2, s1 # ss2)))"

section \<open>Names of the program\<close>

definition find_last_of :: "string \<Rightarrow> char \<Rightarrow> nat option" where
  "find_last_of s c = (if c \<in> set s then Some (length s - 1 - length (takeWhile (\<lambda>x. x \<noteq> c) (rev s))) else None)"

text \<open>\<open>getAssemblyPath\<close> asks itself for the path of the program; \<open>None\<close> is a call that does not
  return. An empty path would be cut beyond its end.\<close>

partial_function (option) get_assembly_path :: "unit \<Rightarrow> string option" where
  "get_assembly_path u =
     Option.bind (get_assembly_path u) (\<lambda>exe_path.
       let e = (case find_last_of exe_path (CHR ''/'') of None \<Rightarrow> 1 | Some i \<Rightarrow> i)
       in Some (take e exe_path))"

definition get_assembly_name :: "unit \<Rightarrow> string option" where
  "get_assembly_name u =
     Option.bind (get_assembly_path u) (\<lambda>exe_path.
       let start = (case find_last_of exe_path (CHR ''/'') of None \<Rightarrow> 0 | Some i \<Rightarrow> i + 1);
           e = (case find_last_of exe_path (CHR ''.'') of
                  None \<Rightarrow> length exe_path
                | Some i \<Rightarrow> if i \<le> start then length exe_path else i)
       in Some (drop start (take e exe_path)))"

text \<open>The places where \<open>ReadGlobal\<close> looks for a file, after it asked for both names.\<close>

definition config_locations :: "unit \<Rightarrow> string list option" where
  "config_locations u =
     Option.bind (get_assembly_name u) (\<lambda>exe_name.
     Option.bind (get_assembly_path u) (\<lambda>exe_path.
       Some [exe_path @ ''/'' @ exe_name @ ''.cfg'', exe_path @ ''/../conf/'' @ exe_name @ ''.cfg'',
         ''/etc/rikitiki/conf/'' @ exe_name @ ''.cfg'', exe_path @ ''/default.cfg'',
         exe_path @ ''/../conf/default.cfg'', ''/etc/rikitiki/conf/default.cfg'']))"

section \<open>What expansion does\<close>

lemma get_assembly_path_never: "get_assembly_path u = None"
proof -
  have "get_assembly_path u = Some p \<Longrightarrow> False" for p
    by (erule get_assembly_path.raw_induct [where P = "\<lambda>u p. False", rotated]) (auto simp: Option.bind_eq_Some_conv)
  then show ?thesis by fastforce
qed

definition decl_text :: "string \<Rightarrow> string" where
  "decl_text key = ''$('' @ key @ '')''"

lemma find_open_loop_plain: "CHR ''$'' \<notin> set p \<Longrightarrow> find_open_loop False (p @ s) i = find_open_loop False s (i + length p)"
  by (induction p arbitrary: i) auto

lemma find_open_plain: "CHR ''$'' \<notin> set s \<Longrightarrow> find_open_loop False s i = None"
  using find_open_loop_plain [of s "[]" i] by simp

lemma find_close_loop_plain: "CHR '')'' \<notin> set p \<Longrightarrow> find_close_loop (p @ CHR '')'' # s) i = Some (i + length p)"
  by (induction p arbitrary: i) auto

lemma find_in_decl:
  assumes "CHR ''$'' \<notin> set p" "CHR '')'' \<notin> set key"
  shows "find_open_decl (d @ p @ decl_text key @ r) (length d) = Some (length d + length p + 1)"
    and "find_close (d @ p @ decl_text key @ r) (length d + length p + 1) = Some (length d + length p + 2 + length key)"
proof -
  show "find_open_decl (d @ p @ decl_text key @ r) (length d) = Some (length d + length p + 1)"
    using find_open_loop_plain [OF assms(1), of "decl_text key @ r" "length d"]
    by (simp add: find_open_decl_def decl_text_def)
  have "drop (length d + length p + 1) (d @ p @ decl_text key @ r) = CHR ''('' # key @ CHR '')'' # r"
    by (simp add: decl_text_def)
  then show "find_close (d @ p @ decl_text key @ r) (length d + length p + 1) = Some (length d + length p + 2 + length key)"
    using find_close_loop_plain [OF assms(2), of r "length d + length p + 2"] by (simp add: find_close_def)
qed

text \<open>One round of the loop: the done text, plain text, a declaration and the rest.\<close>

lemma expand_step:
  assumes "CHR ''$'' \<notin> set p" "CHR '')'' \<notin> set key"
  shows "expand_loop blank vs (d @ p @ decl_text key @ r) (length d) out =
    bindE (string_back blank out) (\<lambda>b. bindE (string_insert out (char_position b) p) (\<lambda>out1.
      expand_loop blank vs (d @ p @ decl_text key @ r) (length (d @ p @ decl_text key)) (out1 @ variable_value vs key)))"
proof -
  let ?v = "d @ p @ decl_text key @ r" and ?open = "length d + length p + 1"
  have plain: "take (?open - length d - 1) (drop (length d) ?v) = p" by simp
  have "drop (?open + 1) ?v = key @ CHR '')'' # r" by (simp add: decl_text_def)
  then have key: "take (length d + length p + 2 + length key - (?open + 1)) (drop (?open + 1) ?v) = key" by simp
  have next_cur: "length d + length p + 2 + length key + 1 = length (d @ p @ decl_text key)"
    by (simp add: decl_text_def)
  show ?thesis
    unfolding expand_loop.simps [of blank vs ?v "length d" out] find_in_decl [OF assms] option.case plain key next_cur
    by (cases "string_back blank out") (simp_all split: sum.split)
qed

lemma expand_rest: "CHR ''$'' \<notin> set r \<Longrightarrow> expand_loop blank vs (d @ r) (length d) out = Inr (out @ cstr r)"
  by (simp add: expand_loop.simps find_open_decl_def find_open_plain)

lemma char_position_NUL: "char_position NUL = 0"
  by (simp add: char_position_def schar_def)

section \<open>Properties\<close>

text \<open>Expansion in a setting works for no more than one variable, and for one only by luck: without
  a variable the setting stays as it is; with one the code asks an empty string for its last
  character, and where a zero is found there it does what it means to; with a second one the last character
  of the text so far is taken for a position, which is outside of any text shorter than its code,
  so a setting such as a log file in a directory of two variables throws out of the start-up.\<close>

theorem config_variables:
  assumes "CHR ''$'' \<notin> set (p @ q @ r)" "CHR '')'' \<notin> set (k @ l)"
    and "variable_value vs k \<noteq> []" "length (p @ variable_value vs k) < char_position (last (variable_value vs k))"
  shows "expand_variables blank vs p = Inr (cstr p) \<and>
    expand_variables (Some NUL) vs (p @ decl_text k @ r) = Inr (p @ variable_value vs k @ cstr r) \<and>
    expand_variables None vs (p @ decl_text k @ r) = Inl UndefinedBehaviour \<and>
    expand_variables (Some NUL) vs (p @ decl_text k @ q @ decl_text l @ r) = Inl (RtException ''out_of_range'')"
proof -
  have plain: "CHR ''$'' \<notin> set p" "CHR ''$'' \<notin> set q" "CHR ''$'' \<notin> set r" "CHR '')'' \<notin> set k" "CHR '')'' \<notin> set l"
    using assms(1,2) by auto
  note first = expand_step [OF plain(1,4), of _ vs "[]" _ "[]", simplified]
  have insert0: "bindE (string_back (Some NUL) []) (\<lambda>b. bindE (string_insert [] (char_position b) p) f) = f p" for f :: "string \<Rightarrow> string result"
    by (simp add: string_back_def string_insert_def char_position_NUL)
  have one: "expand_loop (Some NUL) vs (p @ decl_text k @ t) 0 [] =
      expand_loop (Some NUL) vs ((p @ decl_text k) @ t) (length (p @ decl_text k)) (p @ variable_value vs k)" for t
    using expand_step [OF plain(1,4), of "Some NUL" vs "[]" t "[]"] insert0 by simp
  have "expand_variables blank vs p = Inr (cstr p)"
    using expand_rest [OF plain(1), of blank vs "[]" "[]"] by (simp add: expand_variables_def)
  moreover have "expand_variables (Some NUL) vs (p @ decl_text k @ r) = Inr (p @ variable_value vs k @ cstr r)"
    unfolding expand_variables_def one expand_rest [OF plain(3)] by simp
  moreover have "expand_variables None vs (p @ decl_text k @ r) = Inl UndefinedBehaviour"
    using expand_step [OF plain(1,4), of None vs "[]" r "[]"] by (simp add: expand_variables_def string_back_def)
  moreover have "expand_variables (Some NUL) vs (p @ decl_text k @ q @ decl_text l @ r) = Inl (RtException ''out_of_range'')"
    unfolding expand_variables_def one expand_step [OF plain(2,5)]
    using assms(3,4) by (simp add: string_back_def string_insert_def)
  ultimately show ?thesis by blast
qed

theorem config_variables_witness:
  "expand_variables (Some NUL) [''BIN_PATH'' \<mapsto> ''/opt/bin'', ''BIN_NAME'' \<mapsto> ''rt'']
     ([] @ decl_text ''BIN_PATH'' @ ''/'' @ decl_text ''BIN_NAME'' @ ''.log'') = Inl (RtException ''out_of_range'')"
  using config_variables [of "[]" "''/''" "''.log''" "''BIN_PATH''" "''BIN_NAME''" "[''BIN_PATH'' \<mapsto> ''/opt/bin'', ''BIN_NAME'' \<mapsto> ''rt'']" None]
  by (simp add: variable_value_def char_position_def schar_def)

text \<open>The global configuration is never loaded: the function that should find the path of the
  program first calls itself, so neither the path nor the name nor the list of files to try is
  ever computed, and the first use of the configuration does not return.\<close>

theorem config_never_loads:
  "get_assembly_path u = None \<and> get_assembly_name u = None \<and> config_locations u = None"
  by (simp add: get_assembly_path_never get_assembly_name_def config_locations_def)

end
