(* ===== verification/Template_Strip.thy ===== *)
theory Template_Strip
  imports Template_Escapes
begin

text \<open>
  The part of the template engine that works on the raw text of a template
  (\<open>third/ctemplate-2.2/src/template.cc\<close>): the search for markers, the command that changes the
  markers, and the removal of whitespace before a template is parsed. A pointer into the text is an offset.
\<close>

section \<open>Searching\<close>

text \<open>\<open>memchr\<close> of the C library; \<open>None\<close> is the null pointer.\<close>

definition memchr :: "char \<Rightarrow> string \<Rightarrow> nat option" where
  "memchr c s = (let n = length (takeWhile (\<lambda>x. x \<noteq> c) s) in if n < length s then Some n else None)"

lemma memchr_less: "memchr c s = Some i \<Longrightarrow> i < length s"
  by (auto simp: memchr_def Let_def split: if_splits)

function memmatch_loop :: "string \<Rightarrow> string \<Rightarrow> nat option" where
  "memmatch_loop haystack needle =
     (case memchr (hd needle) (take (length haystack + 1 - length needle) haystack) of
        None \<Rightarrow> None
      | Some i \<Rightarrow>
          if take (length needle) (drop i haystack) = needle then Some i
          else map_option (\<lambda>j. i + 1 + j) (memmatch_loop (drop (i + 1) haystack) needle))"
  by pat_completeness auto
termination
proof (relation "measure (\<lambda>(h, n). length h)")
  fix h n :: string and i assume "memchr (hd n) (take (length h + 1 - length n) h) = Some i"
  from memchr_less [OF this] have "0 < length h" by auto
  then show "((drop (i + 1) h, n), h, n) \<in> measure (\<lambda>(h, n). length h)" by simp
qed simp

declare memmatch_loop.simps [simp del]

definition memmatch :: "string \<Rightarrow> string \<Rightarrow> nat option" where
  "memmatch haystack needle =
     (if needle = [] then Some 0
      else if length needle > length haystack then None
      else memmatch_loop haystack needle)"

definition occurs_at :: "string \<Rightarrow> string \<Rightarrow> nat \<Rightarrow> bool" where
  "occurs_at needle s i \<longleftrightarrow> i + length needle \<le> length s \<and> take (length needle) (drop i s) = needle"

lemma occurs_subset: "occurs_at needle s i \<Longrightarrow> set needle \<subseteq> set s"
  unfolding occurs_at_def by (metis set_take_subset set_drop_subset subset_trans)

section \<open>Markers\<close>

record marker_delimiters =
  start_marker :: string
  end_marker :: string

definition default_delimiters :: marker_delimiters where
  "default_delimiters = \<lparr>start_marker = ''{{'', end_marker = ''}}''\<rparr>"

text \<open>\<open>Template::ParseDelimiters\<close>\<close>

definition parse_delimiters :: "string \<Rightarrow> marker_delimiters option" where
  "parse_delimiters text1 =
     (let n = length text1 in
      if n < 3 then None
      else if text1 ! 0 \<noteq> CHR ''='' \<or> text1 ! (n - 1) \<noteq> CHR ''='' then None
      else if memchr (CHR ''='') (take (n - 2) (drop 1 text1)) \<noteq> None then None
      else case memchr (CHR '' '') text1 of
             None \<Rightarrow> None
           | Some sp \<Rightarrow>
               if memchr (CHR '' '') (drop (sp + 1) text1) \<noteq> None then None
               else Some \<lparr>start_marker = take (sp - 1) (drop 1 text1),
                          end_marker = take (n - 1 - (sp + 1)) (drop (sp + 1) text1)\<rparr>)"

section \<open>Whitespace\<close>

datatype strip = DO_NOT_STRIP | STRIP_BLANK_LINES | STRIP_WHITESPACE

text \<open>The numbers of the enumeration, for its comparisons.\<close>

fun strip_level :: "strip \<Rightarrow> nat" where
  "strip_level DO_NOT_STRIP = 0"
| "strip_level STRIP_BLANK_LINES = 1"
| "strip_level STRIP_WHITESPACE = 2"

definition ascii_isspace :: "char \<Rightarrow> bool" where
  "ascii_isspace c \<longleftrightarrow> (of_char c :: nat) < 128 \<and> isspace_c c"

definition ascii_isalnum :: "char \<Rightarrow> bool" where
  "ascii_isalnum c \<longleftrightarrow> (of_char c :: nat) < 128 \<and> is_alnum c"

definition strip_template_white_space :: "string \<Rightarrow> string" where
  "strip_template_white_space s = dropWhile ascii_isspace (rev (dropWhile ascii_isspace (rev s)))"

text \<open>The answer and the line as it is left. \<open>strchr\<close> finds the zero at the end of its string, too.\<close>

definition is_blank_or_only_has_one_removable_marker :: "string \<Rightarrow> marker_delimiters \<Rightarrow> bool \<times> string" where
  "is_blank_or_only_has_one_removable_marker line delim =
     (let clean = strip_template_white_space line;
          n = length (start_marker delim)
      in if clean = [] then (True, clean)
         else if length clean < n + length (end_marker delim) + 1 then (False, line)
         else if take n clean \<noteq> start_marker delim \<or> \<not> (clean ! n \<in> set ''#/>!%='' \<or> clean ! n = NUL) then (False, line)
         else case memmatch (drop n clean) (end_marker delim) of
                None \<Rightarrow> (False, line)
              | Some i \<Rightarrow> if n + i + length (end_marker delim) \<noteq> length clean then (False, line) else (True, clean))"

text \<open>What is written of a line.\<close>

definition insert_line :: "string \<Rightarrow> strip \<Rightarrow> marker_delimiters \<Rightarrow> string" where
  "insert_line line0 strip1 delim =
     (let add_newline = (line0 \<noteq> [] \<and> last line0 = LF);
          line = (if add_newline then butlast line0 else line0)
      in if strip_level strip1 \<ge> strip_level STRIP_WHITESPACE then strip_template_white_space line
         else if strip_level strip1 \<ge> strip_level STRIP_BLANK_LINES then
           (case is_blank_or_only_has_one_removable_marker line delim of (removable, line') \<Rightarrow>
              line' @ (if add_newline \<and> \<not> removable then [LF] else []))
         else line @ (if add_newline then [LF] else []))"

text \<open>The search for markers in a line, of which those that change the delimiters count. When both delimiters are
  empty, it does not come forward: \<open>None\<close> is a loop without an end.\<close>

partial_function (option) line_delimiters :: "marker_delimiters \<Rightarrow> string \<Rightarrow> marker_delimiters option" where
  "line_delimiters delim s =
     (case memmatch s (start_marker delim) of
        None \<Rightarrow> Some delim
      | Some i \<Rightarrow>
          (let s1 = drop (i + length (start_marker delim)) s
           in case memmatch s1 (end_marker delim) of
                None \<Rightarrow> Some delim
              | Some j \<Rightarrow>
                  line_delimiters (case parse_delimiters (take j s1) of None \<Rightarrow> delim | Some d \<Rightarrow> d)
                    (drop (j + length (end_marker delim)) s1)))"

definition first_line :: "string \<Rightarrow> nat" where
  "first_line s = (case memchr LF s of None \<Rightarrow> length s | Some i \<Rightarrow> i + 1)"

lemma first_line_pos: "s \<noteq> [] \<Longrightarrow> 0 < first_line s"
  by (auto simp: first_line_def split: option.splits)

lemma first_line_append: "LF \<notin> set w \<Longrightarrow> first_line (w @ t) = length w + first_line t"
proof -
  assume "LF \<notin> set w"
  then have "takeWhile (\<lambda>x. x \<noteq> LF) (w @ t) = w @ takeWhile (\<lambda>x. x \<noteq> LF) t" by (intro takeWhile_append2) auto
  then show ?thesis by (auto simp: first_line_def memchr_def Let_def)
qed

function strip_lines :: "strip \<Rightarrow> marker_delimiters \<Rightarrow> string \<Rightarrow> string option" where
  "strip_lines strip1 delim s =
     (if s = [] then Some []
      else let line = take (first_line s) s
           in case line_delimiters delim line of
                None \<Rightarrow> None
              | Some delim' \<Rightarrow> map_option (\<lambda>rest. insert_line line strip1 delim @ rest) (strip_lines strip1 delim' (drop (first_line s) s)))"
  by pat_completeness auto
termination
proof (relation "measure (\<lambda>(_, _, s). length s)")
  fix st :: strip and d d' and s line :: string
  assume "s \<noteq> []"
  with first_line_pos have "0 < first_line s" "0 < length s" by simp_all
  then show "((st, d', drop (first_line s) s), st, d, s) \<in> measure (\<lambda>(_, _, s). length s)" by simp
qed simp

declare strip_lines.simps [simp del]

text \<open>\<open>Template::StripBuffer\<close>; \<open>None\<close> when it does not return.\<close>

definition strip_buffer :: "strip \<Rightarrow> string \<Rightarrow> string option" where
  "strip_buffer strip1 s = (if strip1 = DO_NOT_STRIP then Some s else strip_lines strip1 default_delimiters s)"

section \<open>The search finds the first occurrence\<close>

lemma memchr_spec:
  "memchr c s = Some i \<longleftrightarrow> i < length s \<and> s ! i = c \<and> c \<notin> set (take i s)"
proof
  assume "memchr c s = Some i"
  then have i: "i = length (takeWhile (\<lambda>x. x \<noteq> c) s)" "i < length s"
    by (auto simp: memchr_def Let_def split: if_splits)
  moreover have "take i s = takeWhile (\<lambda>x. x \<noteq> c) s" unfolding i(1) by (metis takeWhile_eq_take)
  moreover have "\<not> s ! i \<noteq> c" using i nth_length_takeWhile [of "\<lambda>x. x \<noteq> c" s] by simp
  ultimately show "i < length s \<and> s ! i = c \<and> c \<notin> set (take i s)" using set_takeWhileD by fastforce
next
  assume i: "i < length s \<and> s ! i = c \<and> c \<notin> set (take i s)"
  then have "s = take i s @ c # drop (i + 1) s" using id_take_nth_drop by fastforce
  then have "takeWhile (\<lambda>x. x \<noteq> c) s = take i s" using i takeWhile_until by metis
  then show "memchr c s = Some i" using i by (simp add: memchr_def)
qed

lemma memchr_None: "memchr c s = None \<longleftrightarrow> c \<notin> set s"
proof -
  have "length (takeWhile (\<lambda>x. x \<noteq> c) s) < length s \<longleftrightarrow> takeWhile (\<lambda>x. x \<noteq> c) s \<noteq> s"
    using length_takeWhile_le [of "\<lambda>x. x \<noteq> c" s] takeWhile_eq_take [of "\<lambda>x. x \<noteq> c" s]
    by (metis linorder_neqE_nat nat_less_le order_le_less take_all)
  then show ?thesis by (auto simp: memchr_def Let_def takeWhile_eq_all_conv)
qed

lemma memchr_append: "c \<notin> set w \<Longrightarrow> memchr c (w @ c # t) = Some (length w)"
  by (simp add: memchr_spec)

definition first_occurrence :: "string \<Rightarrow> string \<Rightarrow> nat option \<Rightarrow> bool" where
  "first_occurrence needle s r \<longleftrightarrow>
     (case r of None \<Rightarrow> \<forall>i. \<not> occurs_at needle s i
      | Some i \<Rightarrow> occurs_at needle s i \<and> (\<forall>j < i. \<not> occurs_at needle s j))"

lemma occurs_at_drop: "k \<le> length s \<Longrightarrow> occurs_at needle (drop k s) i \<longleftrightarrow> occurs_at needle s (k + i)"
  by (auto simp: occurs_at_def add.commute)

lemma occurs_hd:
  assumes "occurs_at needle s j" "needle \<noteq> []"
  shows "j < length (take (length s + 1 - length needle) s)" "s ! j = hd needle"
proof -
  have j: "j + length needle \<le> length s" "take (length needle) (drop j s) = needle" using assms(1) by (auto simp: occurs_at_def)
  obtain n where len: "length needle = Suc n" using assms(2) by (cases needle) auto
  show "j < length (take (length s + 1 - length needle) s)" using j(1) len by (auto simp: less_diff_conv)
  have "needle ! 0 = take (length needle) (drop j s) ! 0" using j(2) by simp
  then have "needle ! 0 = s ! j" using j(1) len by simp
  then show "s ! j = hd needle" using assms(2) by (simp add: hd_conv_nth)
qed

lemma memmatch_loop_spec: "needle \<noteq> [] \<Longrightarrow> first_occurrence needle s (memmatch_loop s needle)"
proof (induction s needle rule: memmatch_loop.induct)
  case (1 s needle)
  let ?w = "take (length s + 1 - length needle) s"
  show ?case
  proof (cases "memchr (hd needle) ?w")
    case None
    have "\<not> occurs_at needle s j" for j
    proof
      assume "occurs_at needle s j"
      from occurs_hd [OF this 1(2)] have "hd needle \<in> set ?w" by (metis nth_mem nth_take length_take min_less_iff_conj)
      with None show False by (simp add: memchr_None)
    qed
    then show ?thesis using None by (simp add: memmatch_loop.simps [of s needle] first_occurrence_def)
  next
    case (Some i)
    from Some have i: "i < length ?w" "hd needle \<notin> set (take i ?w)" by (auto simp: memchr_spec)
    have before: "\<not> occurs_at needle s j" if "j < i" for j
    proof
      assume "occurs_at needle s j"
      from occurs_hd [OF this 1(2)] that i(1) have "hd needle \<in> set (take i ?w)"
        by (auto simp: in_set_conv_nth intro!: exI [of _ j])
      with i(2) show False by simp
    qed
    show ?thesis
    proof (cases "take (length needle) (drop i s) = needle")
      case True
      moreover have "i + length needle \<le> length s" using i(1) by (auto simp: less_diff_conv)
      ultimately have "occurs_at needle s i" by (simp add: occurs_at_def)
      then show ?thesis using Some True before by (simp add: memmatch_loop.simps [of s needle] first_occurrence_def)
    next
      case False
      have here: "\<not> occurs_at needle s j" if "j < i + 1" for j
        using before that False by (cases "j = i") (auto simp: occurs_at_def)
      have le: "i + 1 \<le> length s" using i(1) by simp
      have at: "occurs_at needle (drop (Suc i) s) k = occurs_at needle s (Suc (i + k))" for k
        using occurs_at_drop [OF le, of needle k] by simp
      have IH: "first_occurrence needle (drop (i + 1) s) (memmatch_loop (drop (i + 1) s) needle)"
        using 1(1) [OF Some False 1(2)] .
      have reach: "\<exists>k. j = i + 1 + k" if "\<not> j < i + 1" for j using that by presburger
      show ?thesis
      proof (cases "memmatch_loop (drop (i + 1) s) needle")
        case None
        with IH have "\<not> occurs_at needle s (i + 1 + k)" for k by (simp add: first_occurrence_def at)
        then have "\<not> occurs_at needle s j" for j using here reach by blast
        then show ?thesis using Some False None by (simp add: memmatch_loop.simps [of s needle] first_occurrence_def)
      next
        case (Some k)
        with IH have k: "occurs_at needle s (i + 1 + k)" "\<And>j. j < k \<Longrightarrow> \<not> occurs_at needle s (i + 1 + j)"
          by (simp_all add: first_occurrence_def at)
        have "\<not> occurs_at needle s j" if "j < i + 1 + k" for j
          using here [of j] reach [of j] k(2) that by fastforce
        then show ?thesis using \<open>memchr (hd needle) ?w = Some i\<close> False Some k(1)
          by (simp add: memmatch_loop.simps [of s needle] first_occurrence_def)
      qed
    qed
  qed
qed

lemma memmatch_spec: "first_occurrence needle s (memmatch s needle)"
proof (cases "needle = [] \<or> length needle > length s")
  case True
  then show ?thesis by (auto simp: memmatch_def first_occurrence_def occurs_at_def)
next
  case False
  then show ?thesis using memmatch_loop_spec by (simp add: memmatch_def)
qed

lemma memmatch_Some: "memmatch s needle = Some i \<longleftrightarrow> occurs_at needle s i \<and> (\<forall>j < i. \<not> occurs_at needle s j)"
  using memmatch_spec [of needle s]
  by (cases "memmatch s needle") (auto simp: first_occurrence_def, (metis linorder_neqE_nat)+)

lemma memmatch_None: "memmatch s needle = None \<longleftrightarrow> (\<forall>i. \<not> occurs_at needle s i)"
  using memmatch_spec [of needle s] by (cases "memmatch s needle") (auto simp: first_occurrence_def)

lemma memmatch_bound: "memmatch s needle = Some i \<Longrightarrow> i + length needle \<le> length s"
  by (simp add: memmatch_Some occurs_at_def)

section \<open>Only the empty delimiters keep the loop from its end\<close>

definition delimiters_advance :: "marker_delimiters \<Rightarrow> bool" where
  "delimiters_advance d \<longleftrightarrow> start_marker d \<noteq> [] \<or> end_marker d \<noteq> []"

definition empties_delimiters :: string where
  "empties_delimiters = ''= =''"

lemma parse_delimiters_empty:
  assumes "parse_delimiters t = Some d" "\<not> delimiters_advance d"
  shows "t = empties_delimiters"
proof -
  from assms(1) obtain sp where p: "3 \<le> length t" "t ! 0 = CHR ''=''" "t ! (length t - 1) = CHR ''=''"
    "memchr (CHR '' '') t = Some sp" "d = \<lparr>start_marker = take (sp - 1) (drop 1 t),
      end_marker = take (length t - 1 - (sp + 1)) (drop (sp + 1) t)\<rparr>"
    by (auto simp: parse_delimiters_def Let_def split: if_splits option.splits)
  from p(4) have sp: "sp < length t" "t ! sp = CHR '' ''" by (auto simp: memchr_spec)
  have "sp \<noteq> 0" using sp(2) p(2) by (intro notI) simp
  moreover have "sp \<noteq> length t - 1" using sp(2) p(3) by (intro notI) simp
  ultimately have le: "0 < sp" "sp < length t - 1" using sp(1) by linarith+
  have "length (start_marker d) = sp - 1" "length (end_marker d) = length t - 2 - sp" using p(5) sp(1) by simp_all
  then have "sp = 1" "length t = 3" using assms(2) le by (auto simp: delimiters_advance_def)
  then have "t = [t ! 0, t ! 1, t ! 2]" by (auto simp: numeral_3_eq_3 length_Suc_conv)
  then show ?thesis using p(2,3) sp(2) \<open>sp = 1\<close> \<open>length t = 3\<close> by (simp add: empties_delimiters_def)
qed

lemma occurs_in_piece: "occurs_at needle (take j (drop k s)) i \<Longrightarrow> k \<le> length s \<Longrightarrow> occurs_at needle s (k + i)"
  by (auto simp: occurs_at_def add.commute min_def take_drop split: if_splits)

lemma line_delimiters_returns:
  assumes "delimiters_advance d" "\<forall>i. \<not> occurs_at empties_delimiters s i"
  shows "\<exists>d'. line_delimiters d s = Some d' \<and> delimiters_advance d'"
  using assms
proof (induction "length s" arbitrary: s d rule: less_induct)
  case less
  show ?case
  proof (cases "memmatch s (start_marker d)")
    case None
    then show ?thesis using less.prems(1) by (simp add: line_delimiters.simps)
  next
    case (Some i)
    let ?s1 = "drop (i + length (start_marker d)) s"
    note i = memmatch_bound [OF Some]
    show ?thesis
    proof (cases "memmatch ?s1 (end_marker d)")
      case None
      then show ?thesis using less.prems(1) Some by (simp add: line_delimiters.simps [of d s])
    next
      case (Some j)
      let ?d = "case parse_delimiters (take j ?s1) of None \<Rightarrow> d | Some d \<Rightarrow> d"
      let ?s2 = "drop (j + length (end_marker d)) ?s1"
      note j = memmatch_bound [OF Some]
      have "delimiters_advance ?d"
      proof (cases "parse_delimiters (take j ?s1)")
        case (Some d2)
        have "take j ?s1 \<noteq> empties_delimiters"
        proof
          assume eq: "take j ?s1 = empties_delimiters"
          then have "occurs_at empties_delimiters (take j ?s1) 0" by (simp add: occurs_at_def)
          with occurs_in_piece [of _ j] i less.prems(2) show False by blast
        qed
        then show ?thesis using Some parse_delimiters_empty by auto
      qed (use less.prems(1) in simp)
      moreover have "length ?s2 < length s"
      proof -
        obtain n where "length (start_marker d) + length (end_marker d) = Suc n"
          using less.prems(1) by (cases "start_marker d"; cases "end_marker d") (auto simp: delimiters_advance_def)
        then show ?thesis using i j by simp
      qed
      moreover have "\<forall>k. \<not> occurs_at empties_delimiters ?s2 k"
      proof -
        have "?s2 = drop (i + length (start_marker d) + (j + length (end_marker d))) s" by (simp add: add.commute)
        moreover have "i + length (start_marker d) + (j + length (end_marker d)) \<le> length s" using i j by simp
        ultimately show ?thesis using less.prems(2) occurs_at_drop by metis
      qed
      ultimately show ?thesis
        using less.hyps [of ?s2 ?d] \<open>memmatch s (start_marker d) = Some i\<close> Some by (simp add: line_delimiters.simps [of d s] Let_def)
    qed
  qed
qed

lemma line_delimiters_spin:
  assumes "\<not> delimiters_advance d"
  shows "line_delimiters d s = None"
proof -
  have "delimiters_advance d" if "line_delimiters d s = Some r" for r
  proof (rule line_delimiters.raw_induct [of "\<lambda>d s r. delimiters_advance d", OF _ that])
    fix f d s r
    assume IH: "\<And>d s r. f d s = Some r \<Longrightarrow> delimiters_advance d"
      and run: "(case memmatch s (start_marker d) of None \<Rightarrow> Some d
        | Some i \<Rightarrow> let s1 = drop (i + length (start_marker d)) s
            in case memmatch s1 (end_marker d) of None \<Rightarrow> Some d
              | Some j \<Rightarrow> f (case parse_delimiters (take j s1) of None \<Rightarrow> d | Some d \<Rightarrow> d)
                  (drop (j + length (end_marker d)) s1)) = Some r"
    show "delimiters_advance d"
    proof (rule ccontr)
      assume no: "\<not> delimiters_advance d"
      then have "f d s = Some r" using run by (simp add: delimiters_advance_def memmatch_def parse_delimiters_def)
      then show False using IH no by blast
    qed
  qed
  then show ?thesis using assms by (cases "line_delimiters d s") auto
qed

section \<open>What stripping keeps\<close>

abbreviation printed :: "string \<Rightarrow> string" where
  "printed s \<equiv> filter (\<lambda>c. \<not> ascii_isspace c) s"

lemma printed_dropWhile [simp]: "printed (dropWhile ascii_isspace s) = printed s"
  by (induction s) auto

lemma printed_rev: "printed (rev s) = rev (printed s)"
  by (simp add: rev_filter)

lemma printed_strip [simp]: "printed (strip_template_white_space s) = printed s"
  by (simp add: strip_template_white_space_def printed_rev)

lemma space_LF [simp]: "ascii_isspace LF"
  by (simp add: ascii_isspace_def isspace_c_def)

lemma printed_removable: "is_blank_or_only_has_one_removable_marker line d = (b, line') \<Longrightarrow> printed line' = printed line"
  using printed_strip [of line]
  by (auto simp: is_blank_or_only_has_one_removable_marker_def Let_def simp del: printed_strip split: if_splits option.splits)

lemma printed_line [simp]: "printed (insert_line line m d) = printed line"
proof -
  have "printed (butlast line) = printed line" if "line \<noteq> []" "last line = LF"
    using that by (cases line rule: rev_cases) simp_all
  then show ?thesis
    by (auto simp: insert_line_def Let_def printed_removable split: prod.splits)
qed

lemma printed_lines: "strip_lines m d s = Some t \<Longrightarrow> printed t = printed s"
proof (induction m d s arbitrary: t rule: strip_lines.induct)
  case (1 m d s)
  show ?case
  proof (cases "s = []")
    case False
    then obtain d' rest where d': "line_delimiters d (take (first_line s) s) = Some d'"
      "strip_lines m d' (drop (first_line s) s) = Some rest" "t = insert_line (take (first_line s) s) m d @ rest"
      using 1(2) by (auto simp: strip_lines.simps [of m d s] Let_def split: option.splits)
    from 1(1) [OF False refl d'(1,2)] have "printed t = printed (take (first_line s) s @ drop (first_line s) s)"
      unfolding d'(3) filter_append by simp
    then show ?thesis by simp
  qed (use 1(2) in \<open>simp add: strip_lines.simps\<close>)
qed

lemma strip_lines_returns:
  assumes "delimiters_advance d" "\<forall>i. \<not> occurs_at empties_delimiters s i"
  shows "\<exists>t. strip_lines m d s = Some t"
  using assms
proof (induction m d s rule: strip_lines.induct)
  case (1 m d s)
  show ?case
  proof (cases "s = []")
    case False
    let ?n = "first_line s"
    have n: "?n \<le> length s" by (auto simp: first_line_def memchr_spec split: option.splits)
    have "\<forall>i. \<not> occurs_at empties_delimiters (take ?n s) i"
      using 1(3) occurs_in_piece [of empties_delimiters ?n 0 s] by auto
    then obtain d' where d': "line_delimiters d (take ?n s) = Some d'" "delimiters_advance d'"
      using line_delimiters_returns [OF 1(2)] by blast
    have "\<forall>i. \<not> occurs_at empties_delimiters (drop ?n s) i" using 1(3) occurs_at_drop [OF n] by simp
    then show ?thesis using 1(1) [OF False refl d'(1,2)] d'(1) by (auto simp: strip_lines.simps [of m d s])
  qed (simp add: strip_lines.simps)
qed

section \<open>Properties\<close>





end
