(* ===== verification/Template_Parser.thy ===== *)
theory Template_Parser
  imports Template_Strip Html_Context
begin

text \<open>
  The parser of templates (\<open>third/ctemplate-2.2/src/template.cc\<close>): from the text of a template to the tree of its
  text, variables, sections and included templates, with the modifiers that automatic escaping adds.
  The buffer is the text from \<open>bufstart\<close> to \<open>bufend\<close>; a token is a copy of its characters, not a
  pointer to them. What is only logged is left out.
\<close>

section \<open>Data\<close>

datatype template_context = TC_UNUSED | TC_HTML | TC_JS | TC_CSS | TC_JSON | TC_XML | TC_MANUAL

datatype template_state = TS_UNUSED | TS_EMPTY | TS_ERROR | TS_READY

datatype template_token_type =
    TOKENTYPE_UNUSED | TOKENTYPE_TEXT | TOKENTYPE_VARIABLE | TOKENTYPE_SECTION_START | TOKENTYPE_SECTION_END
  | TOKENTYPE_TEMPLATE | TOKENTYPE_COMMENT | TOKENTYPE_SET_DELIMITERS | TOKENTYPE_PRAGMA | TOKENTYPE_NULL
  | TOKENTYPE_HIDDEN_DEFAULT_SECTION

text \<open>\<open>ModifierAndValue\<close>\<close>

type_synonym modval = "modifier_info \<times> string"

datatype template_token = Token (token_type: template_token_type) (token_text: string) (token_modvals: "modval list")

datatype parse_phase = PS_UNUSED | GETTING_TEXT | GETTING_NAME

text \<open>The members of a \<open>Template\<close> that its parsing reads or writes, the modifiers that are known, and what the memory
  holds of which a new HTML parser is made.\<close>

record template =
  tpl_strip :: strip
  tpl_state :: template_state
  buf :: string
  parse_phase :: parse_phase
  current_delimiters :: marker_delimiters
  initial_context :: template_context
  tpl_parser :: "htmlparser_ctx option"
  known_modifiers :: registry
  parser_memory :: "htmlparser_ctx \<times> jsparser_ctx \<times> entityfilter_ctx"

definition auto_escape_mode :: "template_context \<Rightarrow> bool" where
  "auto_escape_mode context = (context \<noteq> TC_MANUAL)"

definition auto_escape_parsing_context :: "template_context \<Rightarrow> bool" where
  "auto_escape_parsing_context context = (context = TC_HTML \<or> context = TC_JS \<or> context = TC_CSS)"

text \<open>A length that is cast to \<open>int\<close>.\<close>

definition int_of_size :: "nat \<Rightarrow> int" where
  "int_of_size n = sint (word_of_nat n :: 32 word)"

section \<open>Pragmas\<close>

datatype pragma_id = PI_UNUSED | PI_ERROR | PI_AUTOESCAPE

record pragma_definition =
  pd_id :: pragma_id
  pragma_identifier :: "string option"
  attribute_names :: "string list"

definition g_pragmas :: "pragma_definition list" where
  "g_pragmas =
     [\<lparr>pd_id = PI_UNUSED, pragma_identifier = None, attribute_names = []\<rparr>,
      \<lparr>pd_id = PI_ERROR, pragma_identifier = None, attribute_names = []\<rparr>,
      \<lparr>pd_id = PI_AUTOESCAPE, pragma_identifier = Some ''AUTOESCAPE'', attribute_names = [''context'', ''state'']\<rparr>]"

record pragma_marker =
  pragma_id :: pragma_id
  names_and_values :: "(string \<times> string) list"

text \<open>\<open>strncasecmp\<close> and \<open>strcasecmp\<close> of the C library, as tests for equality.\<close>

definition strncase_eq :: "nat \<Rightarrow> string \<Rightarrow> string \<Rightarrow> bool" where
  "strncase_eq n a b \<longleftrightarrow> tolower_str (cstr (take n a)) = tolower_str (cstr (take n b))"

definition strcase_eq :: "string \<Rightarrow> string \<Rightarrow> bool" where
  "strcase_eq a b \<longleftrightarrow> tolower_str (cstr a) = tolower_str (cstr b)"

definition get_pragma_id :: "string \<Rightarrow> pragma_id" where
  "get_pragma_id id1 =
     (case find (\<lambda>p. case pragma_identifier p of None \<Rightarrow> False
                     | Some name \<Rightarrow> length name = length id1 \<and> strncase_eq (length id1) id1 name) g_pragmas of
        None \<Rightarrow> PI_ERROR
      | Some p \<Rightarrow> pd_id p)"

definition is_valid_attribute :: "pragma_id \<Rightarrow> string \<Rightarrow> bool" where
  "is_valid_attribute pid name =
     list_ex (\<lambda>p. pd_id p = pid \<and>
       list_ex (\<lambda>a. length a = length name \<and> strncase_eq (length name) a name) (attribute_names p)) g_pragmas"

definition get_attribute_value :: "pragma_marker \<Rightarrow> string \<Rightarrow> string option result" where
  "get_attribute_value p name =
     (if \<not> is_valid_attribute (pragma_id p) name then Inl AssertFailure
      else Inr (map_option snd (find (\<lambda>nv. strcase_eq name (fst nv)) (names_and_values p))))"

text \<open>The offset of the quote that ends the value, from the opening quote: the first one without a backslash before it.\<close>

function closing_quote :: "string \<Rightarrow> nat \<Rightarrow> nat option" where
  "closing_quote v current =
     (case memchr QUOT (drop current v) of
        None \<Rightarrow> None
      | Some i \<Rightarrow>
          (let val_end = current + i
           in if val_end \<noteq> 0 \<and> v ! (val_end - 1) = BSL then closing_quote v (val_end + 1) else Some val_end))"
  by pat_completeness auto
termination
proof (relation "measure (\<lambda>(v, n). length v - n)")
  fix v :: string and n i val_end assume "memchr QUOT (drop n v) = Some i" "val_end = n + i"
  from memchr_less [OF this(1)] this(2) show "((v, val_end + 1), v, n) \<in> measure (\<lambda>(v, n). length v - n)" by simp
qed simp

function unescape_quotes :: "string \<Rightarrow> string" where
  "unescape_quotes v =
     (case memmatch v [BSL, QUOT] of None \<Rightarrow> v
      | Some at \<Rightarrow> unescape_quotes (take at v @ drop (at + 1) v))"
  by pat_completeness auto
termination
proof (relation "measure length")
  fix v :: string and i assume "memmatch v [BSL, QUOT] = Some i"
  from memmatch_bound [OF this] show "(take i v @ drop (i + 1) v, v) \<in> measure length" by simp
qed simp

declare closing_quote.simps [simp del] unescape_quotes.simps [simp del]

text \<open>The text from the value to the end of the marker; the value and the offset of its last quote, or nothing on an
  error. A value of which nothing is left is an error whatever character follows the marker.\<close>

definition parse_attribute_value :: "string \<Rightarrow> (string \<times> nat) option" where
  "parse_attribute_value v =
     (if v = [] \<or> hd v \<noteq> QUOT then None
      else case closing_quote v 1 of
             None \<Rightarrow> None
           | Some val_end \<Rightarrow> Some (unescape_quotes (take (val_end - 1) (drop 1 v)), val_end))"

function pragma_attributes :: "pragma_id \<Rightarrow> string \<Rightarrow> (string \<times> string) list option" where
  "pragma_attributes pid nameval =
     (if nameval = [] then Some []
      else if hd nameval \<noteq> CHR '' '' then None
      else case memchr (CHR ''='') (tl nameval) of
             None \<Rightarrow> None
           | Some i \<Rightarrow>
               if i = 0 then None
               else let name = take i (tl nameval); val1 = drop (i + 1) (tl nameval)
                    in if \<not> is_valid_attribute pid name then None
                       else case parse_attribute_value val1 of
                              None \<Rightarrow> None
                            | Some (value, val_end) \<Rightarrow>
                                map_option (\<lambda>rest. (name, value) # rest) (pragma_attributes pid (drop (val_end + 1) val1)))"
  by pat_completeness auto
termination
  by (relation "measure (\<lambda>(_, v). length v)") (auto simp: neq_Nil_conv)

declare pragma_attributes.simps [simp del]

text \<open>The constructor of a \<open>PragmaMarker\<close>; \<open>None\<close> is an error message.\<close>

definition new_pragma_marker :: "string \<Rightarrow> pragma_marker option" where
  "new_pragma_marker token =
     (let identifier_end = (case memchr (CHR '' '') token of None \<Rightarrow> length token | Some i \<Rightarrow> i);
          pid = get_pragma_id (take identifier_end token)
      in if pid = PI_ERROR then None
         else map_option (\<lambda>nv. \<lparr>pragma_id = pid, names_and_values = nv\<rparr>) (pragma_attributes pid (drop identifier_end token)))"

definition get_template_context_from_pragma :: "pragma_marker \<Rightarrow> template_context result" where
  "get_template_context_from_pragma p =
     bindE (get_attribute_value p ''context'') (\<lambda>context.
       Inr (case context of
              None \<Rightarrow> TC_MANUAL
            | Some c \<Rightarrow>
                if c = ''HTML'' \<or> c = ''html'' then TC_HTML
                else if c = ''JAVASCRIPT'' \<or> c = ''javascript'' then TC_JS
                else if c = ''CSS'' \<or> c = ''css'' then TC_CSS
                else if c = ''JSON'' \<or> c = ''json'' then TC_JSON
                else if c = ''XML'' \<or> c = ''xml'' then TC_XML
                else TC_MANUAL))"

text \<open>\<open>Template::MaybeInitHtmlParser\<close>\<close>

definition maybe_init_html_parser :: "bool \<Rightarrow> template \<Rightarrow> template result" where
  "maybe_init_html_parser in_tag t =
     (if tpl_parser t \<noteq> None then Inl AssertFailure
      else if \<not> auto_escape_parsing_context (initial_context t) then Inr t
      else let p = (case parser_memory t of (raw, raw_js, raw_ef) \<Rightarrow> htmlparser_new raw raw_js raw_ef)
           in Inr (t\<lparr>tpl_parser := Some
                (case initial_context t of
                   TC_JS \<Rightarrow> htmlparser_reset_mode MODE_JS p
                 | TC_CSS \<Rightarrow> htmlparser_reset_mode MODE_CSS p
                 | _ \<Rightarrow> if in_tag then htmlparser_reset_mode MODE_HTML_IN_TAG p else p)\<rparr>))"

section \<open>Tokens\<close>

definition is_valid_name :: "string \<Rightarrow> bool" where
  "is_valid_name name = list_all (\<lambda>c. ascii_isalnum c \<or> c = CHR ''_'') name"

definition maybe_eat_newline :: "string \<Rightarrow> strip \<Rightarrow> string" where
  "maybe_eat_newline start strip1 =
     (if length start \<ge> 2 \<and> start ! 0 = BSL \<and> start ! 1 = LF then drop 1 start
      else if length start \<ge> 1 \<and> start ! 0 = LF \<and> strip_level strip1 \<ge> strip_level STRIP_WHITESPACE then drop 1 start
      else start)"

definition null_token :: template_token where
  "null_token = Token TOKENTYPE_NULL [] []"

text \<open>The macro \<open>FAIL\<close>\<close>

definition fail_token :: "template \<Rightarrow> (template_token \<times> template) result" where
  "fail_token t = Inr (null_token, t\<lparr>tpl_state := TS_ERROR, buf := []\<rparr>)"

text \<open>The type of a marker, and how many of its first characters are not part of the name.\<close>

definition marker_type :: "char \<Rightarrow> template_token_type \<times> nat" where
  "marker_type c =
     (if c = CHR ''#'' then (TOKENTYPE_SECTION_START, 1)
      else if c = CHR ''/'' then (TOKENTYPE_SECTION_END, 1)
      else if c = CHR ''!'' then (TOKENTYPE_COMMENT, 1)
      else if c = CHR ''='' then (TOKENTYPE_SET_DELIMITERS, 0)
      else if c = CHR ''>'' then (TOKENTYPE_TEMPLATE, 1)
      else if c = CHR ''%'' then (TOKENTYPE_PRAGMA, 1)
      else (TOKENTYPE_VARIABLE, 0))"

text \<open>Where the marker that sets the delimiters ends: past the second equal sign, when the end marker follows it. When the
  buffer ends one character too early for the end marker, \<open>memcmp\<close> is asked for a byte beyond the buffer.\<close>

definition set_delimiters_end :: "string \<Rightarrow> string \<Rightarrow> nat option result" where
  "set_delimiters_end s end_mark =
     (case memchr (CHR ''='') (drop 1 s) of
        None \<Rightarrow> Inr None
      | Some i \<Rightarrow>
          (let token_end = 1 + i
           in if token_end + length end_mark > length s then Inr None
              else if end_mark \<noteq> [] \<and> token_end + 1 + length end_mark > length s then Inl UndefinedBehaviour
              else if take (length end_mark) (drop (token_end + 1) s) \<noteq> end_mark then Inr None
              else Inr (Some (token_end + 1))))"

text \<open>The modifiers of a name, from the first colon on. The first part of the result is \<open>None\<close> when they are not legal.\<close>

function parse_modifiers :: "string \<Rightarrow> registry \<Rightarrow> modval list \<Rightarrow> (modval list option \<times> registry) result" where
  "parse_modifiers s r modifiers =
     (if s = [] then Inr (Some modifiers, r)
      else if hd s \<noteq> CHR '':'' then Inl AssertFailure
      else let m = tl s;
               mod_end = (case memchr (CHR '':'') m of None \<Rightarrow> length m | Some i \<Rightarrow> i);
               one = take mod_end m;
               v = (case memchr (CHR ''='') one of None \<Rightarrow> length one | Some i \<Rightarrow> i);
               value = drop v one
           in bindE (find_modifier (take v one) value r) (\<lambda>(modstruct, r1).
              case modstruct of
                None \<Rightarrow> Inr (None, r1)
              | Some ms \<Rightarrow>
                  if \<not> modval_required ms \<and> value \<noteq> [] then Inr (None, r1)
                  else if modval_required ms \<and> value = [] then Inr (None, r1)
                  else parse_modifiers (drop mod_end m) r1 (modifiers @ [(ms, value)])))"
  by pat_completeness auto
termination
  by (relation "measure (\<lambda>(s, _, _). length s)") (auto simp: neq_Nil_conv)

declare parse_modifiers.simps [simp del]

text \<open>What a pragma does: \<open>None\<close> is the macro \<open>FAIL\<close>.\<close>

definition apply_pragma :: "string \<Rightarrow> template \<Rightarrow> template option result" where
  "apply_pragma token t =
     (case new_pragma_marker token of
        None \<Rightarrow> Inr None
      | Some p \<Rightarrow>
          bindE (get_template_context_from_pragma p) (\<lambda>context.
          if context = TC_MANUAL then Inr None
          else bindE (get_attribute_value p ''state'') (\<lambda>parser_state.
            let in_tag = (context = TC_HTML \<and> (parser_state = Some ''IN_TAG'' \<or> parser_state = Some ''in_tag''))
            in if parser_state \<noteq> None \<and> \<not> in_tag \<and> parser_state \<noteq> Some ''default'' then Inr None
               else if initial_context t \<noteq> TC_MANUAL then Inl AssertFailure
               else bindE (maybe_init_html_parser in_tag (t\<lparr>initial_context := context\<rparr>)) (\<lambda>t1. Inr (Some t1)))))"

text \<open>In \<open>{{{VAR}}\<close> it is the second start marker that counts.\<close>

function last_start :: "string \<Rightarrow> string \<Rightarrow> nat \<Rightarrow> nat" where
  "last_start s start token_end =
     (if token_end + 1 + length start \<le> length s \<and> take (length start) (drop (token_end + 1) s) = start
      then last_start s start (token_end + 1) else token_end)"
  by pat_completeness auto
termination by (relation "measure (\<lambda>(s, _, k). length s - k)") auto

declare last_start.simps [simp del]

text \<open>\<open>SectionTemplateNode::GetNextToken\<close> while it gets text, \<dots>\<close>

definition next_text :: "template \<Rightarrow> (template_token \<times> template) result" where
  "next_text t =
     (let s = buf t; start = start_marker (current_delimiters t)
      in case memmatch s start of
           None \<Rightarrow> Inr (Token TOKENTYPE_TEXT s [], t\<lparr>buf := []\<rparr>)
         | Some i \<Rightarrow>
             (let token_end = last_start s start i
              in Inr (Token TOKENTYPE_TEXT (take token_end s) [],
                  t\<lparr>parse_phase := GETTING_NAME, buf := drop (token_end + length start) s\<rparr>)))"

text \<open>\<dots> while it gets a name, \<dots>\<close>

definition finish_name :: "template_token_type \<Rightarrow> string \<Rightarrow> string \<Rightarrow> template \<Rightarrow> (template_token \<times> template) result" where
  "finish_name ttype token after t =
     (let mod_start = (case memchr (CHR '':'') token of None \<Rightarrow> length token | Some i \<Rightarrow> i);
          name = take mod_start token
      in if \<not> is_valid_name name then fail_token t
         else bindE (parse_modifiers (drop mod_start token) (known_modifiers t) []) (\<lambda>(modifiers, r).
           let t1 = t\<lparr>known_modifiers := r\<rparr>
           in case modifiers of
                None \<Rightarrow> fail_token t1
              | Some ms \<Rightarrow>
                  if ms \<noteq> [] \<and> ttype \<noteq> TOKENTYPE_VARIABLE \<and> ttype \<noteq> TOKENTYPE_TEMPLATE then fail_token t1
                  else Inr (Token ttype name ms,
                    t1\<lparr>parse_phase := GETTING_TEXT,
                      buf := (if ttype \<noteq> TOKENTYPE_VARIABLE then maybe_eat_newline after (tpl_strip t) else after)\<rparr>)))"

definition marker_end :: "template_token_type \<Rightarrow> string \<Rightarrow> string \<Rightarrow> nat option result" where
  "marker_end ttype body end_mark =
     bindE (if ttype = TOKENTYPE_SET_DELIMITERS then set_delimiters_end body end_mark else Inr None) (\<lambda>special.
       Inr (if special \<noteq> None then special else memmatch body end_mark))"

definition finish_marker :: "template_token_type \<Rightarrow> string \<Rightarrow> string \<Rightarrow> template \<Rightarrow> (template_token \<times> template) result" where
  "finish_marker ttype token after t =
     bindE (if ttype = TOKENTYPE_PRAGMA then apply_pragma token t else Inr (Some t)) (\<lambda>applied.
     case applied of
       None \<Rightarrow> fail_token t
     | Some t1 \<Rightarrow>
         if ttype = TOKENTYPE_COMMENT \<or> ttype = TOKENTYPE_SET_DELIMITERS \<or> ttype = TOKENTYPE_PRAGMA then
           Inr (Token ttype (if ttype = TOKENTYPE_COMMENT then [] else token) [],
             t1\<lparr>parse_phase := GETTING_TEXT, buf := maybe_eat_newline after (tpl_strip t)\<rparr>)
         else finish_name ttype token after t1)"

definition next_name :: "template \<Rightarrow> (template_token \<times> template) result" where
  "next_name t =
     (case marker_type (hd (buf t)) of (ttype, skip) \<Rightarrow>
        (let body = drop skip (buf t); end_mark = end_marker (current_delimiters t)
         in bindE (marker_end ttype body end_mark) (\<lambda>found_end.
            case found_end of
              None \<Rightarrow> fail_token t
            | Some token_end \<Rightarrow>
                finish_marker ttype (take token_end body) (drop (token_end + length end_mark) body) t)))"

text \<open>\<dots> and as a whole.\<close>

definition get_next_token :: "template \<Rightarrow> (template_token \<times> template) result" where
  "get_next_token t =
     (if buf t = [] then Inr (null_token, t)
      else case parse_phase t of
             GETTING_TEXT \<Rightarrow> next_text t
           | GETTING_NAME \<Rightarrow> next_name t
           | PS_UNUSED \<Rightarrow> fail_token t)"

section \<open>Modifiers of variables\<close>

text \<open>\<open>FindLongestMatch\<close>: the inner loop, over the modifiers from the last one on; \<dots>\<close>

fun consistent_modifiers :: "modval list \<Rightarrow> modval list \<Rightarrow> bool" where
  "consistent_modifiers [] mans = True"
| "consistent_modifiers (a # autos) [] = False"
| "consistent_modifiers (a # autos) (m # mans) =
     (if is_safe_xss_alternative (fst a) (fst m) then consistent_modifiers autos mans
      else if xss_cl (fst m) = xss_cl (fst a) \<and> xss_cl (fst m) \<noteq> XSS_UNIQUE then consistent_modifiers (a # autos) mans
      else False)"

text \<open>\<dots> the outer loop.\<close>

fun longest_prefix :: "modval list \<Rightarrow> modval list \<Rightarrow> nat" where
  "longest_prefix mans [] = 0"
| "longest_prefix mans (a # autos) =
     (if consistent_modifiers (a # autos) mans then length (a # autos) else longest_prefix mans autos)"

definition find_longest_match :: "modval list \<Rightarrow> modval list \<Rightarrow> nat" where
  "find_longest_match modvals_man modvals_auto =
     (if modvals_auto = [] then 0 else longest_prefix (rev modvals_man) (rev modvals_auto))"

text \<open>\<open>TemplateToken::UpdateModifier\<close> on the modifiers of the token.\<close>

definition update_modifier :: "modval list \<Rightarrow> modval list \<Rightarrow> modval list" where
  "update_modifier modvals auto_modvals =
     (if modvals = [] then auto_modvals
      else if list_ex (\<lambda>mv. xss_cl (fst mv) = XSS_SAFE) modvals then modvals
      else let longest_match = find_longest_match modvals auto_modvals
           in if longest_match = length auto_modvals then modvals
              else modvals @ drop longest_match auto_modvals)"

text \<open>The entries of the arrays of modifiers, and the modifiers of a context. \<open>GetModifierForHtmlJs\<close> tells the parser about
  text that will be inserted.\<close>

definition directive_modvals :: "auto_modify_directive list \<Rightarrow> modval list" where
  "directive_modvals ds = map (\<lambda>mv. (info (g_modifiers ! modifier_index mv), mod_value mv)) (concat (map g_am_dirs ds))"

definition get_modifier_for_context ::
  "template_context \<Rightarrow> htmlparser_ctx option \<Rightarrow> (modval list \<times> htmlparser_ctx option) result" where
  "get_modifier_for_context context p =
     (case context of
        TC_MANUAL \<Rightarrow> Inl AssertFailure
      | TC_XML \<Rightarrow> Inr (directive_modvals get_modifier_for_xml, p)
      | TC_JSON \<Rightarrow> Inr (directive_modvals get_modifier_for_json, p)
      | TC_CSS \<Rightarrow> (case p of None \<Rightarrow> Inl AssertFailure | Some _ \<Rightarrow> Inr (directive_modvals get_modifier_for_css, p))
      | TC_UNUSED \<Rightarrow> Inl AssertFailure
      | _ \<Rightarrow>
          (case p of
             None \<Rightarrow> Inl AssertFailure
           | Some ctx \<Rightarrow>
               bindE (observe ctx) (\<lambda>answers.
               bindE (get_modifier_for_html_js answers []) (\<lambda>(ds, _, told).
               bindE (if told then htmlparser_insert_text ctx else Inr ctx) (\<lambda>ctx1.
                 Inr (directive_modvals ds, Some ctx1))))))"

section \<open>The tree\<close>

text \<open>The nodes. The separator of a section is the index of its node among the nodes of the section.\<close>

datatype template_node =
    Text_node template_token
  | Variable_node template_token
  | Pragma_node template_token
  | Template_node template_token strip string
  | Section_node template_token "template_node list" "nat option" bool

text \<open>A section while its nodes are added.\<close>

record section_builder =
  section_token :: template_token
  node_list :: "template_node list"
  separator_section :: "nat option"
  indentation :: string
  hidden_by_default :: bool

definition new_section :: "template_token \<Rightarrow> bool \<Rightarrow> section_builder" where
  "new_section token hidden =
     \<lparr>section_token = token, node_list = [], separator_section = None, indentation = [LF], hidden_by_default = hidden\<rparr>"

definition section_node :: "section_builder \<Rightarrow> template_node" where
  "section_node sec = Section_node (section_token sec) (node_list sec) (separator_section sec) (hidden_by_default sec)"

definition k_main_section_name :: string where
  "k_main_section_name = ''__{{MAIN}}__''"

text \<open>The code compares the pointers to the names; no name in a template has the braces of this one.\<close>

definition is_main_section :: "section_builder \<Rightarrow> bool" where
  "is_main_section sec \<longleftrightarrow> token_text (section_token sec) = k_main_section_name"

definition push_node :: "template_node \<Rightarrow> section_builder \<Rightarrow> section_builder" where
  "push_node n sec = sec\<lparr>node_list := node_list sec @ [n]\<rparr>"

text \<open>The HTML parser reads a text, unless it failed before. The answer is whether it did not fail.\<close>

definition parse_in_template :: "string \<Rightarrow> int \<Rightarrow> template \<Rightarrow> (bool \<times> template) result" where
  "parse_in_template txt len t =
     (case tpl_parser t of
        None \<Rightarrow> Inl AssertFailure
      | Some ctx \<Rightarrow>
          bindE (htmlparser_state ctx) (\<lambda>st.
          if st = STATE_ERROR then Inr (False, t)
          else bindE (htmlparser_parse ctx txt len) (\<lambda>(st1, ctx1).
                 Inr (st1 \<noteq> STATE_ERROR, t\<lparr>tpl_parser := Some ctx1\<rparr>))))"

definition add_text_node ::
  "template_token \<Rightarrow> section_builder \<Rightarrow> template \<Rightarrow> (bool \<times> section_builder \<times> template) result" where
  "add_text_node token sec t =
     (if token_text token = [] then Inr (True, sec, t)
      else let sec1 = push_node (Text_node token) sec
           in if auto_escape_parsing_context (initial_context t)
              then bindE (parse_in_template (token_text token) (int_of_size (length (token_text token))) t) (\<lambda>(success, t1).
                     Inr (success, sec1, t1))
              else Inr (True, sec1, t))"

definition k_safe_whitelisted_variables :: "string list" where
  "k_safe_whitelisted_variables = [[]]"

definition add_variable_node ::
  "template_token \<Rightarrow> section_builder \<Rightarrow> template \<Rightarrow> (bool \<times> section_builder \<times> template) result" where
  "add_variable_node token sec t =
     (let name = token_text token; context = initial_context t
      in if \<not> auto_escape_mode context then Inr (True, push_node (Variable_node token) sec, t)
         else if name = ''BI_SPACE'' \<or> name = ''BI_NEWLINE'' then
           (if auto_escape_parsing_context context
            then bindE (parse_in_template (if name = ''BI_SPACE'' then '' '' else [LF]) 1 t) (\<lambda>(success, t1).
                   Inr (success, push_node (Variable_node token) sec, t1))
            else Inr (True, push_node (Variable_node token) sec, t))
         else if cstr name \<in> set k_safe_whitelisted_variables then Inr (True, push_node (Variable_node token) sec, t)
         else bindE (get_modifier_for_context context (tpl_parser t)) (\<lambda>(modvals, p).
           let t1 = t\<lparr>tpl_parser := p\<rparr>
           in if modvals = [] then Inr (False, push_node (Variable_node token) sec, t1)
              else Inr (True, push_node (Variable_node
                     (Token (token_type token) name (update_modifier (token_modvals token) modvals))) sec, t1)))"

definition add_pragma_node :: "template_token \<Rightarrow> section_builder \<Rightarrow> bool \<times> section_builder" where
  "add_pragma_node token sec =
     (if \<not> is_main_section sec \<or> node_list sec \<noteq> [] then (False, sec)
      else (True, push_node (Pragma_node token) sec))"

text \<open>The constructor of a \<open>TemplateTemplateNode\<close> adds the modifier that indents every line.\<close>

definition g_prefix_line_info :: modifier_info where
  "g_prefix_line_info = new_modifier_info [] NUL XSS_WEB_STANDARD (Some Mod_prefix_line)"

definition new_template_node :: "template_token \<Rightarrow> strip \<Rightarrow> string \<Rightarrow> template_node" where
  "new_template_node token strip1 indent =
     Template_node (Token (token_type token) (token_text token)
         (token_modvals token @ (if indent \<noteq> [] then [(g_prefix_line_info, indent)] else [])))
       strip1 indent"

definition add_template_node :: "template_token \<Rightarrow> string \<Rightarrow> section_builder \<Rightarrow> template \<Rightarrow> section_builder" where
  "add_template_node token indent sec t = push_node (new_template_node token (tpl_strip t) indent) sec"

text \<open>The end of \<open>AddSectionNode\<close>, when the new section has its nodes.\<close>

definition add_section_node :: "section_builder \<Rightarrow> section_builder \<Rightarrow> section_builder" where
  "add_section_node new_node sec =
     (let sec1 = push_node (section_node new_node) sec
      in if token_text (section_token new_node) = token_text (section_token sec) @ ''_separator''
         then sec1\<lparr>separator_section := Some (length (node_list sec))\<rparr> else sec1)"

definition get_indentation :: "string \<Rightarrow> bool \<Rightarrow> string" where
  "get_indentation txt implicit_newline =
     (let last_line = rev (takeWhile (\<lambda>c. c \<noteq> LF) (rev txt))
      in if LF \<notin> set txt \<and> \<not> implicit_newline then []
         else if list_all (\<lambda>c. c = CHR '' '' \<or> c = TAB) last_line then last_line else [])"

text \<open>\<open>AddSubnode\<close> for the tokens that do not begin a section: whether to go on, the section and the template. The calls
  of \<open>FAIL\<close> that set the state come back as a state.\<close>

definition after_node :: "string \<Rightarrow> bool \<times> section_builder \<times> template \<Rightarrow> (bool \<times> section_builder \<times> template) result" where
  "after_node indent r =
     (case r of (success, sec, t) \<Rightarrow>
        Inr (success, sec\<lparr>indentation := indent\<rparr>, if success then t else t\<lparr>tpl_state := TS_ERROR\<rparr>))"

definition add_token ::
  "template_token \<Rightarrow> section_builder \<Rightarrow> template \<Rightarrow> (bool \<times> section_builder \<times> template) result" where
  "add_token token sec t =
     (case token_type token of
        TOKENTYPE_TEXT \<Rightarrow>
          bindE (add_text_node token sec t) (after_node (get_indentation (token_text token) (indentation sec = [LF])))
      | TOKENTYPE_VARIABLE \<Rightarrow> bindE (add_variable_node token sec t) (after_node [])
      | TOKENTYPE_SECTION_END \<Rightarrow>
          Inr (False, sec\<lparr>indentation := []\<rparr>,
            if token_text token \<noteq> token_text (section_token sec) then t\<lparr>tpl_state := TS_ERROR\<rparr> else t)
      | TOKENTYPE_TEMPLATE \<Rightarrow> Inr (True, (add_template_node token (indentation sec) sec t)\<lparr>indentation := []\<rparr>, t)
      | TOKENTYPE_COMMENT \<Rightarrow> Inr (True, sec, t)
      | TOKENTYPE_SET_DELIMITERS \<Rightarrow>
          Inr (True, sec,
            case parse_delimiters (token_text token) of
              None \<Rightarrow> t\<lparr>tpl_state := TS_ERROR\<rparr>
            | Some d \<Rightarrow> t\<lparr>current_delimiters := d\<rparr>)
      | TOKENTYPE_PRAGMA \<Rightarrow>
          (case add_pragma_node token sec of (success, sec1) \<Rightarrow>
             Inr (True, sec1, if success then t else t\<lparr>tpl_state := TS_ERROR\<rparr>))
      | TOKENTYPE_NULL \<Rightarrow> Inr (False, sec, t)
      | _ \<Rightarrow> Inr (True, sec, t))"

lemma bindE_cong [fundef_cong]:
  "m = m' \<Longrightarrow> (\<And>x. m' = Inr x \<Longrightarrow> f x = f' x) \<Longrightarrow> bindE m f = bindE m' f'"
  by (cases m') auto

text \<open>\<open>AddSubnode\<close>, and the loop that calls it until it says no.\<close>

function
  add_subnode :: "section_builder \<Rightarrow> template \<Rightarrow> (bool \<times> section_builder \<times> template) result" and
  add_subnodes :: "section_builder \<Rightarrow> template \<Rightarrow> (section_builder \<times> template) result" where
  "add_subnode sec t =
     (if tpl_state t = TS_ERROR then Inr (False, sec, t)
      else if buf t = [] then
        Inr (False, sec, if is_main_section sec then t else t\<lparr>tpl_state := TS_ERROR\<rparr>)
      else bindE (get_next_token t) (\<lambda>(token, t1).
        if token_type token = TOKENTYPE_SECTION_START \<or> token_type token = TOKENTYPE_HIDDEN_DEFAULT_SECTION then
          bindE (add_subnodes (new_section token (token_type token = TOKENTYPE_HIDDEN_DEFAULT_SECTION)) t1) (\<lambda>(new_node, t2).
            Inr (True, (add_section_node new_node sec)\<lparr>indentation := []\<rparr>, t2))
        else add_token token sec t1))"
| "add_subnodes sec t =
     bindE (add_subnode sec t) (\<lambda>(again, sec1, t1). if again then add_subnodes sec1 t1 else Inr (sec1, t1))"
  by pat_completeness auto

section \<open>The parser comes to an end\<close>

text \<open>What is left to read.\<close>

definition unread :: "template \<Rightarrow> nat" where
  "unread t = 2 * length (buf t) + (if parse_phase t = GETTING_NAME then 1 else 0)"

lemma last_start_bound: "k + length start \<le> length s \<Longrightarrow> last_start s start k + length start \<le> length s"
proof (induction s start k rule: last_start.induct)
  case (1 s start k)
  then show ?case by (subst last_start.simps) auto
qed

lemma last_start_empty: "k \<le> length s \<Longrightarrow> last_start s [] k = length s"
proof (induction s "[] :: string" k rule: last_start.induct)
  case (1 s k)
  then show ?case by (subst last_start.simps) auto
qed

lemma unread_fail: "fail_token t = Inr (tok, t') \<Longrightarrow> buf t' = []"
  by (auto simp: fail_token_def)

lemma length_eat: "length (maybe_eat_newline s m) \<le> length s"
  by (simp add: maybe_eat_newline_def)

lemma unread_finish:
  assumes "finish_name ttype token after t = Inr (tok, t')"
  shows "buf t' = [] \<or> parse_phase t' = GETTING_TEXT \<and> length (buf t') \<le> length after"
  using assms length_eat [of after "tpl_strip t"]
  by (auto simp: finish_name_def Let_def result_simps dest!: unread_fail split: if_splits option.splits)

lemma unread_text:
  assumes "next_text t = Inr (tok, t')" "buf t \<noteq> []" "parse_phase t = GETTING_TEXT"
  shows "unread t' < unread t"
proof (cases "memmatch (buf t) (start_marker (current_delimiters t))")
  case None
  then show ?thesis using assms by (auto simp: next_text_def Let_def unread_def)
next
  case (Some i)
  let ?start = "start_marker (current_delimiters t)"
  let ?k = "last_start (buf t) ?start i"
  note i = memmatch_bound [OF Some]
  have t': "t' = t\<lparr>parse_phase := GETTING_NAME, buf := drop (?k + length ?start) (buf t)\<rparr>"
    using assms(1) Some by (auto simp: next_text_def Let_def)
  have "0 < ?k + length ?start"
  proof (cases "?start = []")
    case True
    then have "?k = length (buf t)" using i last_start_empty by simp
    then show ?thesis using assms(2) by simp
  qed simp
  moreover have "?k + length ?start \<le> length (buf t)" using last_start_bound [OF i] .
  ultimately have "2 * (length (buf t) - (?k + length ?start)) + 1 < 2 * length (buf t)" by arith
  then show ?thesis using assms(3) by (simp add: t' unread_def)
qed

lemma unread_marker:
  assumes "finish_marker ttype token after t = Inr (tok, t')"
  shows "buf t' = [] \<or> parse_phase t' = GETTING_TEXT \<and> length (buf t') \<le> length after"
proof -
  obtain applied where applied: "(if ttype = TOKENTYPE_PRAGMA then apply_pragma token t else Inr (Some t)) = Inr applied"
    and rest: "(case applied of None \<Rightarrow> fail_token t | Some t1 \<Rightarrow>
         if ttype = TOKENTYPE_COMMENT \<or> ttype = TOKENTYPE_SET_DELIMITERS \<or> ttype = TOKENTYPE_PRAGMA then
           Inr (Token ttype (if ttype = TOKENTYPE_COMMENT then [] else token) [],
             t1\<lparr>parse_phase := GETTING_TEXT, buf := maybe_eat_newline after (tpl_strip t)\<rparr>)
         else finish_name ttype token after t1) = Inr (tok, t')"
    using assms unfolding finish_marker_def bindE_eq_Inr by blast
  show ?thesis
  proof (cases applied)
    case None
    then show ?thesis using rest unread_fail by simp
  next
    case (Some t1)
    then show ?thesis using rest unread_finish [of ttype token after t1 tok t'] length_eat [of after "tpl_strip t"]
      by (auto split: if_splits)
  qed
qed

lemma unread_name:
  assumes "next_name t = Inr (tok, t')" "buf t \<noteq> []" "parse_phase t = GETTING_NAME"
  shows "unread t' < unread t"
proof -
  obtain ttype skip where ty: "marker_type (hd (buf t)) = (ttype, skip)" by (rule prod.exhaust)
  let ?body = "drop skip (buf t)" and ?close = "end_marker (current_delimiters t)"
  obtain e where e: "(case e of None \<Rightarrow> fail_token t
      | Some token_end \<Rightarrow> finish_marker ttype (take token_end ?body) (drop (token_end + length ?close) ?body) t) = Inr (tok, t')"
    using assms(1) unfolding next_name_def ty Let_def prod.case bindE_eq_Inr by blast
  have "buf t' = [] \<or> parse_phase t' = GETTING_TEXT \<and> length (buf t') \<le> length (buf t)"
  proof (cases e)
    case None
    then show ?thesis using e unread_fail by simp
  next
    case (Some k)
    then have "finish_marker ttype (take k ?body) (drop (k + length ?close) ?body) t = Inr (tok, t')" using e by simp
    from unread_marker [OF this] show ?thesis by auto
  qed
  then show ?thesis using assms(2,3) by (cases "parse_phase t'") (auto simp: unread_def)
qed

lemma get_next_token_unread:
  "get_next_token t = Inr (tok, t') \<Longrightarrow> buf t \<noteq> [] \<Longrightarrow> unread t' < unread t"
  using unread_text unread_name
  by (cases "parse_phase t") (auto simp: get_next_token_def fail_token_def unread_def)

lemma add_token_unread:
  assumes "add_token token sec t = Inr (again, sec', t')"
  shows "buf t' = buf t \<and> parse_phase t' = parse_phase t"
proof -
  have parse: "buf t1 = buf t \<and> parse_phase t1 = parse_phase t" if "parse_in_template s n t = Inr (b, t1)" for s n b t1
    using that by (auto simp: parse_in_template_def result_simps split: option.splits if_splits)
  have "buf t1 = buf t \<and> parse_phase t1 = parse_phase t" if "add_text_node token sec t = Inr (b, sec1, t1)" for b sec1 t1
    using that parse by (auto simp: add_text_node_def Let_def result_simps split: if_splits)
  moreover have "buf t1 = buf t \<and> parse_phase t1 = parse_phase t" if "add_variable_node token sec t = Inr (b, sec1, t1)" for b sec1 t1
    using that parse by (auto simp: add_variable_node_def Let_def result_simps split: if_splits)
  ultimately show ?thesis
    using assms
    by (cases "token_type token")
      (auto simp: add_token_def after_node_def result_simps split: option.splits prod.splits if_splits)
qed

lemma add_subnodes_unread:
  "add_subnode_add_subnodes_dom (Inl (sec, t)) \<Longrightarrow>
    \<forall>again sec' t'. add_subnode sec t = Inr (again, sec', t') \<longrightarrow>
      unread t' \<le> unread t \<and> (again \<longrightarrow> unread t' < unread t)"
  "add_subnode_add_subnodes_dom (Inr (sec, t)) \<Longrightarrow>
    \<forall>sec' t'. add_subnodes sec t = Inr (sec', t') \<longrightarrow> unread t' \<le> unread t"
proof (induct rule: add_subnode_add_subnodes.pinduct)
  case (1 sec t)
  show ?case
  proof (intro allI impI)
    fix again sec' t' assume run: "add_subnode sec t = Inr (again, sec', t')"
    show "unread t' \<le> unread t \<and> (again \<longrightarrow> unread t' < unread t)"
    proof (cases "tpl_state t = TS_ERROR \<or> buf t = []")
      case True
      then have "add_subnode sec t = Inr (False, sec, if tpl_state t = TS_ERROR \<or> is_main_section sec then t else t\<lparr>tpl_state := TS_ERROR\<rparr>)"
        unfolding add_subnode.psimps [OF 1(1)] by auto
      then show ?thesis using run by (auto simp: unread_def)
    next
      case False
      then have go: "tpl_state t \<noteq> TS_ERROR" "buf t \<noteq> []" by simp_all
      then obtain token t1 where tok: "get_next_token t = Inr (token, t1)"
        using run by (auto simp: add_subnode.psimps [OF 1(1)] result_simps)
      note less = get_next_token_unread [OF tok go(2)]
      show ?thesis
      proof (cases "token_type token = TOKENTYPE_SECTION_START \<or> token_type token = TOKENTYPE_HIDDEN_DEFAULT_SECTION")
        case True
        then obtain new t2 where new: "add_subnodes (new_section token (token_type token = TOKENTYPE_HIDDEN_DEFAULT_SECTION)) t1 = Inr (new, t2)"
          "t' = t2"
          using run go tok by (auto simp: add_subnode.psimps [OF 1(1)] result_simps)
        have "unread t2 \<le> unread t1" using 1(2) [OF go tok refl True] new(1) by blast
        then show ?thesis using less new(2) by simp
      next
        case False
        then have "add_token token sec t1 = Inr (again, sec', t')"
          using run go tok by (auto simp: add_subnode.psimps [OF 1(1)])
        from add_token_unread [OF this] less show ?thesis by (simp add: unread_def)
      qed
    qed
  qed
next
  case (2 sec t)
  show ?case
  proof (intro allI impI)
    fix sec' t' assume run: "add_subnodes sec t = Inr (sec', t')"
    then obtain again sec1 t1 where one: "add_subnode sec t = Inr (again, sec1, t1)"
      and rest: "(if again then add_subnodes sec1 t1 else Inr (sec1, t1)) = Inr (sec', t')"
      by (auto simp: add_subnodes.psimps [OF 2(1)] result_simps)
    have "unread t1 \<le> unread t" using 2(2) one by blast
    moreover have "unread t' \<le> unread t1"
    proof (cases again)
      case True
      then show ?thesis using 2(3) [OF one refl refl True] rest by auto
    qed (use rest in simp)
    ultimately show "unread t' \<le> unread t" by simp
  qed
qed

termination add_subnode
proof (relation "measure (\<lambda>x. case x of Inl (sec, t) \<Rightarrow> 2 * unread t | Inr (sec, t) \<Rightarrow> 2 * unread t + 1)")
  show "wf (measure (\<lambda>x. case x of Inl (sec, t) \<Rightarrow> 2 * unread t | Inr (sec, t) \<Rightarrow> 2 * unread t + 1))" by simp
next
  fix sec :: section_builder and t x token t1
  assume "tpl_state t \<noteq> TS_ERROR" "buf t \<noteq> []" "get_next_token t = Inr x" "(token, t1) = x"
  then have "unread t1 < unread t" using get_next_token_unread by metis
  then show "(Inr (new_section token (token_type token = TOKENTYPE_HIDDEN_DEFAULT_SECTION), t1), Inl (sec, t))
      \<in> measure (\<lambda>x. case x of Inl (sec, t) \<Rightarrow> 2 * unread t | Inr (sec, t) \<Rightarrow> 2 * unread t + 1)" by simp
next
  fix sec :: section_builder and t :: template
  show "(Inl (sec, t), Inr (sec, t)) \<in> measure (\<lambda>x. case x of Inl (sec, t) \<Rightarrow> 2 * unread t | Inr (sec, t) \<Rightarrow> 2 * unread t + 1)"
    by simp
next
  fix sec :: section_builder and t x again y sec1 t1
  assume "add_subnode_add_subnodes_dom (Inl (sec, t))" "add_subnode sec t = Inr x" "(again, y) = x" "(sec1, t1) = y" again
  then have "unread t1 < unread t" using add_subnodes_unread(1) by blast
  then show "(Inr (sec1, t1), Inr (sec, t)) \<in> measure (\<lambda>x. case x of Inl (sec, t) \<Rightarrow> 2 * unread t | Inr (sec, t) \<Rightarrow> 2 * unread t + 1)"
    by simp
qed

declare add_subnode.simps [simp del] add_subnodes.simps [simp del]

section \<open>Templates\<close>

definition main_section :: section_builder where
  "main_section = new_section (Token TOKENTYPE_SECTION_START k_main_section_name []) False"

text \<open>\<open>Template::BuildTree\<close>: the tree, or nothing after an error, and the template.\<close>

definition build_tree :: "string \<Rightarrow> template \<Rightarrow> (template_node option \<times> template) result" where
  "build_tree input t =
     bindE (add_subnodes main_section
              (t\<lparr>tpl_state := TS_EMPTY, buf := input, parse_phase := GETTING_TEXT, current_delimiters := default_delimiters\<rparr>))
       (\<lambda>(top, t1).
          Inr (if tpl_state t1 \<noteq> TS_ERROR then (Some (section_node top), t1\<lparr>tpl_state := TS_READY\<rparr>) else (None, t1)))"

definition ends_with :: "string \<Rightarrow> string \<Rightarrow> bool" where
  "ends_with suffix s \<longleftrightarrow> length suffix < length s \<and> drop (length s - length suffix) s = suffix"

text \<open>The constructor: a script keeps its lines.\<close>

definition new_template ::
  "string \<Rightarrow> strip \<Rightarrow> registry \<Rightarrow> htmlparser_ctx \<times> jsparser_ctx \<times> entityfilter_ctx \<Rightarrow> template" where
  "new_template filename strip1 r memory =
     \<lparr>tpl_strip = (if ends_with ''.js'' (cstr filename) \<and> strip1 = STRIP_WHITESPACE then STRIP_BLANK_LINES else strip1),
      tpl_state = TS_EMPTY, buf = [], parse_phase = PS_UNUSED, current_delimiters = default_delimiters,
      initial_context = TC_MANUAL, tpl_parser = None, known_modifiers = r, parser_memory = memory\<rparr>"

text \<open>\<open>Template::StringToTemplate\<close>; \<open>None\<close> is a call that does not return.\<close>

definition string_to_template ::
  "string \<Rightarrow> strip \<Rightarrow> registry \<Rightarrow> htmlparser_ctx \<times> jsparser_ctx \<times> entityfilter_ctx \<Rightarrow>
   (template_node option \<times> template) result option" where
  "string_to_template content strip1 r memory =
     (let t = new_template [] strip1 r memory
      in map_option (\<lambda>input. build_tree input t) (strip_buffer (tpl_strip t) content))"

end
