(* ===== verification/Template_Expand.thy ===== *)
theory Template_Expand
  imports Template_Parser
begin

text \<open>
  The expansion of a template (\<open>third/ctemplate-2.2/src/template.cc\<close>, \<open>template_annotator.cc\<close>): the tree is
  walked with a dictionary, whose virtual functions are the record \<open>dictionary_interface\<close>, and the text of the
  nodes goes to an emitter. Included templates come from the cache, whose state passes through the walk. An expansion
  gives whether all templates were there, what was emitted and the state of the cache; \<open>None\<close> is
  a call that has not returned.
\<close>

section \<open>Interfaces\<close>

text \<open>\<open>TemplateDictionaryInterface\<close>. A question may not come to an end, or stop the program.\<close>

record 'd dictionary_interface =
  ask_value :: "'d \<Rightarrow> string \<Rightarrow> string option"
  ask_hidden_section :: "'d \<Rightarrow> string \<Rightarrow> bool option"
  ask_unhidden_section :: "'d \<Rightarrow> string \<Rightarrow> bool option"
  ask_hidden_template :: "'d \<Rightarrow> string \<Rightarrow> bool option"
  ask_include_name :: "'d \<Rightarrow> string \<Rightarrow> nat \<Rightarrow> string result option"
  ask_template_dicts :: "'d \<Rightarrow> string \<Rightarrow> 'd list result option"
  ask_section_dicts :: "'d \<Rightarrow> string \<Rightarrow> 'd list result option"

text \<open>\<open>TemplateAnnotator\<close>, as the texts that it emits.\<close>

record template_annotator =
  emit_open_include :: "string \<Rightarrow> string"
  emit_close_include :: string
  emit_open_file :: "string \<Rightarrow> string"
  emit_close_file :: string
  emit_open_section :: "string \<Rightarrow> string"
  emit_close_section :: string
  emit_open_variable :: "string \<Rightarrow> string"
  emit_close_variable :: string
  emit_file_is_missing :: "string \<Rightarrow> string"

definition text_template_annotator :: template_annotator where
  "text_template_annotator =
     \<lparr>emit_open_include = (\<lambda>v. ''{{#INC='' @ v @ ''}}''), emit_close_include = ''{{/INC}}'',
      emit_open_file = (\<lambda>v. ''{{#FILE='' @ v @ ''}}''), emit_close_file = ''{{/FILE}}'',
      emit_open_section = (\<lambda>v. ''{{#SEC='' @ v @ ''}}''), emit_close_section = ''{{/SEC}}'',
      emit_open_variable = (\<lambda>v. ''{{#VAR='' @ v @ ''}}''), emit_close_variable = ''{{/VAR}}'',
      emit_file_is_missing = (\<lambda>v. ''{{MISSING_FILE='' @ v @ ''}}'')\<rparr>"

text \<open>\<open>PerExpandData\<close>, and the modifiers of the application: what they make of a text, and whether they might
  change it. The modifier of whole templates gets the name of the file.\<close>

record per_expand_data =
  annotate_path :: "string option"
  set_annotator :: "template_annotator option"
  expand_modifier :: "((string \<Rightarrow> bool) \<times> (string \<Rightarrow> string \<Rightarrow> string)) option"
  app_modify :: "nat \<Rightarrow> string \<Rightarrow> string \<Rightarrow> string"
  app_might_modify :: "nat \<Rightarrow> string \<Rightarrow> bool"

definition annotate :: "per_expand_data \<Rightarrow> bool" where
  "annotate p \<longleftrightarrow> annotate_path p \<noteq> None"

definition annotator :: "per_expand_data \<Rightarrow> template_annotator" where
  "annotator p = (case set_annotator p of Some a \<Rightarrow> a | None \<Rightarrow> text_template_annotator)"

section \<open>Emitting\<close>

type_synonym 'c expansion = "'c \<Rightarrow> (bool \<times> string \<times> 'c) result option"

definition emit_text :: "string \<Rightarrow> 'c expansion" where
  "emit_text s c = Some (Inr (True, s, c))"

definition does_not_return :: "'c expansion" where
  "does_not_return c = None"

definition stop_with :: "rt_error \<Rightarrow> 'c expansion" where
  "stop_with e c = Some (Inl e)"

text \<open>One after the other; \<open>error_free &=\<close> does not stop at a missing template.\<close>

definition and_then :: "'c expansion \<Rightarrow> 'c expansion \<Rightarrow> 'c expansion" where
  "and_then a b c =
     (case a c of
        None \<Rightarrow> None
      | Some (Inl e) \<Rightarrow> Some (Inl e)
      | Some (Inr (ok, out, c1)) \<Rightarrow>
          (case b c1 of
             None \<Rightarrow> None
           | Some (Inl e) \<Rightarrow> Some (Inl e)
           | Some (Inr (ok1, out1, c2)) \<Rightarrow> Some (Inr (ok \<and> ok1, out @ out1, c2))))"

definition ask :: "'a option \<Rightarrow> ('a \<Rightarrow> 'c expansion) \<Rightarrow> 'c expansion" where
  "ask q f = (case q of None \<Rightarrow> does_not_return | Some x \<Rightarrow> f x)"

definition ask_result :: "'a result option \<Rightarrow> ('a \<Rightarrow> 'c expansion) \<Rightarrow> 'c expansion" where
  "ask_result q f = ask q (\<lambda>r. case r of Inl e \<Rightarrow> stop_with e | Inr x \<Rightarrow> f x)"

definition annotation :: "per_expand_data \<Rightarrow> (template_annotator \<Rightarrow> string) \<Rightarrow> 'c expansion" where
  "annotation p f = (if annotate p then emit_text (f (annotator p)) else emit_text [])"

section \<open>Modifiers\<close>

fun might_modify :: "(nat \<Rightarrow> string \<Rightarrow> bool) \<Rightarrow> template_modifier \<Rightarrow> string \<Rightarrow> bool" where
  "might_modify app (Mod_custom n) arg = app n arg"
| "might_modify app m arg = True"

definition any_might_modify :: "per_expand_data \<Rightarrow> modval list \<Rightarrow> bool" where
  "any_might_modify p modifiers = list_ex (\<lambda>mv. might_modify (app_might_modify p) (modifier (fst mv)) (snd mv)) modifiers"

fun modified_string :: "per_expand_data \<Rightarrow> modval list \<Rightarrow> string \<Rightarrow> string result" where
  "modified_string p [] s = Inl AssertFailure"
| "modified_string p [mv] s = modify (app_modify p) (modifier (fst mv)) s (snd mv)"
| "modified_string p (mv # mvs) s =
     bindE (modify (app_modify p) (modifier (fst mv)) s (snd mv)) (modified_string p mvs)"

definition emit_modified_string :: "per_expand_data \<Rightarrow> modval list \<Rightarrow> string \<Rightarrow> 'c expansion" where
  "emit_modified_string p modifiers s =
     (case modified_string p modifiers s of Inl e \<Rightarrow> stop_with e | Inr out \<Rightarrow> emit_text out)"

text \<open>\<open>TemplateToken::ToString\<close>\<close>

definition token_string :: "template_token \<Rightarrow> string" where
  "token_string token =
     token_text token @ concat (map (\<lambda>mv. '':'' @ long_name (fst mv) @
       (if is_registered (fst mv) then [] else ''<not registered>'')) (token_modvals token))"

section \<open>Nodes\<close>

text \<open>\<open>VariableTemplateNode::Expand\<close>\<close>

definition expand_variable :: "'d dictionary_interface \<Rightarrow> per_expand_data \<Rightarrow> template_token \<Rightarrow> 'd \<Rightarrow> 'c expansion" where
  "expand_variable I p token d =
     and_then (annotation p (\<lambda>a. emit_open_variable a (token_string token)))
       (and_then
         (ask (ask_value I d (token_text token)) (\<lambda>v.
            if any_might_modify p (token_modvals token) then emit_modified_string p (token_modvals token) v else emit_text v))
         (annotation p emit_close_variable))"

text \<open>\<open>TemplateTemplateNode::ExpandOnce\<close>; the argument is how the cache expands a template by its name.\<close>

type_synonym ('d, 'c) includer = "string \<Rightarrow> strip \<Rightarrow> 'd \<Rightarrow> 'c expansion"

definition missing_include :: "per_expand_data \<Rightarrow> string \<Rightarrow> string" where
  "missing_include p filename = (if annotate p then emit_file_is_missing (annotator p) filename else [])"

definition expand_include_once ::
  "per_expand_data \<Rightarrow> ('d, 'c) includer \<Rightarrow> template_token \<Rightarrow> strip \<Rightarrow> string \<Rightarrow> 'd \<Rightarrow> 'c expansion" where
  "expand_include_once p sub token strip1 filename d =
     and_then (annotation p (\<lambda>a. emit_open_include a (token_string token)))
       (and_then
         (\<lambda>c. case sub filename strip1 d c of
            None \<Rightarrow> None
          | Some (Inl e) \<Rightarrow> Some (Inl e)
          | Some (Inr (ok, out, c1)) \<Rightarrow>
              if any_might_modify p (token_modvals token) then
                (if \<not> ok then Some (Inr (False, missing_include p filename, c1))
                 else emit_modified_string p (token_modvals token) out c1)
              else if \<not> ok then Some (Inr (False, out @ missing_include p filename, c1))
              else Some (Inr (True, out, c1)))
         (annotation p emit_close_include))"

text \<open>The loop over the dictionaries of an included template, with the index of the next.\<close>

fun expand_includes ::
  "'d dictionary_interface \<Rightarrow> per_expand_data \<Rightarrow> ('d, 'c) includer \<Rightarrow> template_token \<Rightarrow> strip \<Rightarrow> 'd \<Rightarrow> nat \<Rightarrow> 'd list \<Rightarrow> 'c expansion" where
  "expand_includes I p sub token strip1 d i [] = emit_text []"
| "expand_includes I p sub token strip1 d i (child # children) =
     and_then
       (ask_result (ask_include_name I d (token_text token) i) (\<lambda>filename.
          if filename \<noteq> [] then expand_include_once p sub token strip1 filename child else emit_text []))
       (expand_includes I p sub token strip1 d (i + 1) children)"

text \<open>\<open>TemplateTemplateNode::Expand\<close>\<close>

definition expand_include ::
  "'d dictionary_interface \<Rightarrow> per_expand_data \<Rightarrow> ('d, 'c) includer \<Rightarrow> template_token \<Rightarrow> strip \<Rightarrow> 'd \<Rightarrow> 'c expansion" where
  "expand_include I p sub token strip1 d =
     ask (ask_hidden_template I d (token_text token)) (\<lambda>hidden.
       if hidden then emit_text []
       else ask_result (ask_template_dicts I d (token_text token)) (\<lambda>dicts.
         if dicts = [] then
           ask_result (ask_include_name I d (token_text token) 0) (\<lambda>filename.
             if filename \<noteq> [] then expand_include_once p sub token strip1 filename d else emit_text [])
         else expand_includes I p sub token strip1 d 0 dicts))"

text \<open>The loop over the dictionaries of a section: the last one is told so.\<close>

fun each_dict :: "('d \<Rightarrow> bool \<Rightarrow> 'c expansion) \<Rightarrow> 'd list \<Rightarrow> 'c expansion" where
  "each_dict f [] = emit_text []"
| "each_dict f (d # ds) = and_then (f d (ds = [])) (each_dict f ds)"

text \<open>When a section is shown, and with which dictionaries (\<open>SectionTemplateNode::Expand\<close>).\<close>

definition section_shown ::
  "'d dictionary_interface \<Rightarrow> template_token \<Rightarrow> bool \<Rightarrow> 'd \<Rightarrow> ('d \<Rightarrow> bool \<Rightarrow> 'c expansion) \<Rightarrow> 'c expansion" where
  "section_shown I token hidden d once =
     (if token_text token = k_main_section_name then once d True
      else ask (if hidden then map_option Not (ask_unhidden_section I d (token_text token))
                else ask_hidden_section I d (token_text token)) (\<lambda>is_hidden.
        if is_hidden then emit_text []
        else ask_result (ask_section_dicts I d (token_text token)) (\<lambda>dicts.
          if dicts = [] then once d True else each_dict once dicts)))"

text \<open>\<open>Expand\<close> of a node, and the loop of \<open>SectionTemplateNode::ExpandOnce\<close> over the nodes from an index on.\<close>

fun
  expand_node :: "'d dictionary_interface \<Rightarrow> per_expand_data \<Rightarrow> ('d, 'c) includer \<Rightarrow> template_node \<Rightarrow> 'd \<Rightarrow> 'c expansion" and
  expand_nodes :: "'d dictionary_interface \<Rightarrow> per_expand_data \<Rightarrow> ('d, 'c) includer \<Rightarrow> nat option \<Rightarrow> bool \<Rightarrow> nat \<Rightarrow>
    template_node list \<Rightarrow> 'd \<Rightarrow> 'c expansion" where
  "expand_node I p sub (Text_node token) d = emit_text (token_text token)"
| "expand_node I p sub (Variable_node token) d = expand_variable I p token d"
| "expand_node I p sub (Pragma_node token) d = emit_text []"
| "expand_node I p sub (Template_node token strip1 indent) d = expand_include I p sub token strip1 d"
| "expand_node I p sub (Section_node token nodes separator hidden) d =
     section_shown I token hidden d (\<lambda>child last_child.
       and_then (annotation p (\<lambda>a. emit_open_section a (token_string token)))
         (and_then (expand_nodes I p sub separator last_child 0 nodes child) (annotation p emit_close_section)))"
| "expand_nodes I p sub separator last_child i [] d = emit_text []"
| "expand_nodes I p sub separator last_child i (node # nodes) d =
     and_then (expand_node I p sub node d)
       (and_then
         (if separator = Some i \<and> \<not> last_child
          then (case node of
                  Section_node token1 nodes1 separator1 hidden1 \<Rightarrow>
                    and_then (annotation p (\<lambda>a. emit_open_section a (token_string token1)))
                      (and_then (expand_nodes I p sub separator1 True 0 nodes1 d) (annotation p emit_close_section))
                | _ \<Rightarrow> emit_text [])
          else emit_text [])
         (expand_nodes I p sub separator last_child (i + 1) nodes d))"

section \<open>Templates\<close>

text \<open>A template that is ready: its tree and the file that it was read from.\<close>

record ready_template =
  rt_tree :: template_node
  rt_file :: string

text \<open>The name of the file as an annotation shows it.\<close>

definition short_file :: "string \<Rightarrow> string \<Rightarrow> string" where
  "short_file file path = (case memmatch (cstr file) (cstr path) of None \<Rightarrow> cstr file | Some i \<Rightarrow> drop i (cstr file))"

text \<open>\<open>Template::ExpandLocked\<close>\<close>

definition expand_tree ::
  "'d dictionary_interface \<Rightarrow> per_expand_data \<Rightarrow> ('d, 'c) includer \<Rightarrow> ready_template \<Rightarrow> 'd \<Rightarrow> 'c expansion" where
  "expand_tree I p sub t d =
     and_then
       (case annotate_path p of
          None \<Rightarrow> emit_text []
        | Some path \<Rightarrow> emit_text (emit_open_file (annotator p) (short_file (rt_file t) path)))
       (and_then
         (case expand_modifier p of
            None \<Rightarrow> expand_node I p sub (rt_tree t) d
          | Some (might, change) \<Rightarrow>
              if might (rt_file t) then
                (\<lambda>c. case expand_node I p sub (rt_tree t) d c of
                       None \<Rightarrow> None
                     | Some (Inl e) \<Rightarrow> Some (Inl e)
                     | Some (Inr (ok, out, c1)) \<Rightarrow> Some (Inr (ok, change out (rt_file t), c1)))
              else expand_node I p sub (rt_tree t) d)
         (annotation p emit_close_file))"

text \<open>\<open>TemplateCache::ExpandLocked\<close>: the cache is asked for the template, which may load it. The recursion through
  included templates is on fuel.\<close>

type_synonym 'c loader = "string \<Rightarrow> strip \<Rightarrow> 'c \<Rightarrow> (ready_template option \<times> 'c) result option"

fun expand_template ::
  "'d dictionary_interface \<Rightarrow> per_expand_data \<Rightarrow> 'c loader \<Rightarrow> nat \<Rightarrow> ('d, 'c) includer" where
  "expand_template I p load 0 filename strip1 d c = None"
| "expand_template I p load (Suc n) filename strip1 d c =
     (case load filename strip1 c of
        None \<Rightarrow> None
      | Some (Inl e) \<Rightarrow> Some (Inl e)
      | Some (Inr (None, c1)) \<Rightarrow> Some (Inr (False, [], c1))
      | Some (Inr (Some t, c1)) \<Rightarrow> expand_tree I p (expand_template I p load n) t d c1)"

end
