(* ===== verification/Template_Names.thy ===== *)
theory Template_Names
  imports Rt_Prelude
begin

text \<open>
  The identity of names in the template engine (\<open>third/ctemplate-2.2/src/template_string.cc\<close>): a
  name is known by a hash of its characters, and dictionaries compare nothing else. The bytes of a word are
  in the order of a little-endian machine.
\<close>

section \<open>The hash\<close>

type_synonym template_id = "64 word"

definition unaligned_load32 :: "string \<Rightarrow> 32 word" where
  "unaligned_load32 s =
     word_of_nat (of_char (s ! 0) + 2 ^ 8 * of_char (s ! 1) + 2 ^ 16 * of_char (s ! 2) + 2 ^ 24 * of_char (s ! 3))"

definition k_multiply_val :: "32 word" where "k_multiply_val = 0x5bd1e995"
definition k_shift_val :: nat where "k_shift_val = 24"
definition k_hash_seed1 :: "32 word" where "k_hash_seed1 = 0xc86b14f7"
definition k_hash_seed2 :: "32 word" where "k_hash_seed2 = 0x650f5c4d"

text \<open>What is done to each word of the text.\<close>

definition murmur_mix :: "32 word \<Rightarrow> 32 word" where
  "murmur_mix k0 =
     (let k1 = k0 * k_multiply_val; k2 = k1 XOR drop_bit k_shift_val k1 in k2 * k_multiply_val)"

text \<open>The loop over blocks of eight bytes.\<close>

function murmur_blocks :: "string \<Rightarrow> 32 word \<Rightarrow> 32 word \<Rightarrow> string \<times> 32 word \<times> 32 word" where
  "murmur_blocks s h1 h2 =
     (if length s \<ge> 8
      then murmur_blocks (drop 8 s)
             (h1 * k_multiply_val XOR murmur_mix (unaligned_load32 s))
             (h2 * k_multiply_val XOR murmur_mix (unaligned_load32 (drop 4 s)))
      else (s, h1, h2))"
  by pat_completeness auto
termination by (relation "measure (\<lambda>(s, _). length s)") auto

declare murmur_blocks.simps [simp del]

text \<open>The last bytes; a \<open>char\<close> is signed.\<close>

definition murmur_tail :: "string \<Rightarrow> 32 word \<Rightarrow> 32 word" where
  "murmur_tail s h2 =
     (let a = (if length s \<ge> 3 then h2 XOR word_of_int (schar (s ! 2) * 2 ^ 16) else h2);
          b = (if length s \<ge> 2 then a XOR word_of_int (schar (s ! 1) * 2 ^ 8) else a);
          c = (if length s \<ge> 1 then b XOR word_of_int (schar (s ! 0)) else b)
      in c * k_multiply_val)"

definition murmur_finish :: "32 word \<Rightarrow> 32 word \<Rightarrow> 64 word" where
  "murmur_finish h1 h2 =
     (let a1 = (h1 XOR drop_bit 18 h2) * k_multiply_val;
          a2 = (h2 XOR drop_bit 22 a1) * k_multiply_val;
          b1 = (a1 XOR drop_bit 17 a2) * k_multiply_val
      in push_bit 32 (ucast b1) OR ucast a2)"

text \<open>\<open>MurmurHash64\<close>. In the step for four remaining bytes the code multiplies by the shift, not by the multiplier.\<close>

definition murmur_hash64 :: "string \<Rightarrow> 64 word" where
  "murmur_hash64 s =
     (case murmur_blocks s (k_hash_seed1 XOR word_of_nat (length s)) k_hash_seed2 of (s1, h1, h2) \<Rightarrow>
        (case (if length s1 \<ge> 4 then (drop 4 s1, h1 * word_of_nat k_shift_val XOR murmur_mix (unaligned_load32 s1)) else (s1, h1)) of
           (s2, h1') \<Rightarrow> murmur_finish h1' (murmur_tail s2 h2)))"

definition k_template_string_initialized_flag :: template_id where
  "k_template_string_initialized_flag = 1"

text \<open>\<open>TemplateString::GetGlobalId\<close> of a string whose identity was not computed before\<close>

definition get_global_id :: "string \<Rightarrow> template_id" where
  "get_global_id s = murmur_hash64 s OR k_template_string_initialized_flag"

section \<open>Different names with one identity\<close>

text \<open>The multiplication by 24 forgets the three highest bits.\<close>

lemma shift_forgets: "(h XOR 0xE0000000 AND d) * (word_of_nat k_shift_val :: 32 word) = h * word_of_nat k_shift_val"
proof -
  have eq: "(x :: 32 word) * word_of_nat k_shift_val = push_bit 3 x * 3" for x
    by (simp add: k_shift_val_def push_bit_eq_mult)
  have "push_bit 3 (h XOR 0xE0000000 AND d) = push_bit 3 h"
  proof -
    have "push_bit 3 (0xE0000000 :: 32 word) = 0" by code_simp
    then show ?thesis by (simp only: push_bit_xor push_bit_and) simp
  qed
  then show ?thesis by (simp only: eq)
qed

lemma initialized [simp]: "get_global_id s \<noteq> 0"
  by (simp add: get_global_id_def k_template_string_initialized_flag_def)
    (metis bit_1_0 bit_or_iff bit_0_eq bot_apply bot_bool_def)

text \<open>Two different legal names of variables, the same eight to eleven characters after \<open>xXjO\<close> and after \<open>XBzn\<close>, have
  one identity, whatever these characters are, since the hash drops the three highest bits of what it has
  read when four to seven bytes are left.\<close>

lemma names_collide_in_hash:
  assumes "8 \<le> length s" "length s < 12"
  shows "get_global_id (''xXjO'' @ s) = get_global_id (''XBzn'' @ s)"
proof -
  let ?h = "(k_hash_seed1 XOR word_of_nat (length s + 4)) * k_multiply_val"
  let ?h2 = "k_hash_seed2 * k_multiply_val XOR murmur_mix (unaligned_load32 s)"
  have blocks: "murmur_blocks (w @ s) (k_hash_seed1 XOR word_of_nat (length (w @ s))) k_hash_seed2 =
      (drop 4 s, ?h XOR murmur_mix (unaligned_load32 w), ?h2)" if "length w = 4" for w
  proof -
    have "unaligned_load32 (w @ s) = unaligned_load32 w" using that by (simp add: unaligned_load32_def nth_append)
    moreover have "\<not> 8 \<le> length s - 4" using assms by arith
    ultimately show ?thesis
      using assms that
      by (subst murmur_blocks.simps, subst murmur_blocks.simps) (simp add: add.commute)
  qed
  have mixes: "murmur_mix (unaligned_load32 ''XBzn'') = murmur_mix (unaligned_load32 ''xXjO'') XOR 0x60000000"
    by (simp add: murmur_mix_def unaligned_load32_def k_multiply_val_def k_shift_val_def)
  have "(?h XOR murmur_mix (unaligned_load32 ''XBzn'')) * word_of_nat k_shift_val =
      (?h XOR murmur_mix (unaligned_load32 ''xXjO'')) * word_of_nat k_shift_val"
    unfolding mixes using shift_forgets [of "?h XOR murmur_mix (unaligned_load32 ''xXjO'')" "0x60000000"]
    by (simp add: xor.assoc)
  moreover have "4 \<le> length s - 4" using assms by arith
  ultimately show ?thesis
    using blocks [of "''xXjO''"] blocks [of "''XBzn''"] assms by (simp add: get_global_id_def murmur_hash64_def)
qed

text \<open>What the identity of a short name is computed from.\<close>

lemmas murmur_eval = get_global_id_def murmur_hash64_def murmur_mix_def murmur_tail_def murmur_finish_def unaligned_load32_def
  k_multiply_val_def k_shift_val_def k_hash_seed1_def k_hash_seed2_def k_template_string_initialized_flag_def schar_def
  murmur_blocks.simps Let_def

end
