(* ===== verification/Template_Dictionary.thy ===== *)
theory Template_Dictionary
  imports Template_Names "HOL-Library.AList"
begin

text \<open>
  The dictionaries that a template is expanded with
  (\<open>third/ctemplate-2.2/src/template_dictionary.cc\<close>). Dictionaries point to each other, to their parent and to the
  owner of the values that a whole tree of them shares, so they live in a store and a pointer is an
  address in it; an arena never gives an object back. A map from identities is an association list, since nothing
  depends on its order; \<open>None\<close> is a null pointer. The checks \<open>DCHECK\<close> do nothing in a build with assertions
  (\<open>base/util.h\<close> has its two branches the wrong way round).
\<close>

section \<open>Data\<close>

record template_dictionary =
  dict_name :: string
  variable_dict :: "(template_id \<times> string) list option"
  section_dict :: "(template_id \<times> nat list) list option"
  include_dict :: "(template_id \<times> nat list) list option"
  template_global_dict :: "nat option"
  template_global_dict_owner :: nat
  parent_dict :: "nat option"
  dict_filename :: "string option"

record dict_store =
  cells :: "template_dictionary list"
  global_dict :: "(template_id \<times> string) list"
  id_to_name :: "(template_id \<times> string) list"

text \<open>A map behind a pointer: what it holds, and the map after \<open>LazilyCreateDict\<close>.\<close>

definition entries :: "(template_id \<times> 'a) list option \<Rightarrow> (template_id \<times> 'a) list" where
  "entries m = (case m of None \<Rightarrow> [] | Some es \<Rightarrow> es)"

definition lookup_id :: "(template_id \<times> 'a) list option \<Rightarrow> string \<Rightarrow> 'a option" where
  "lookup_id m key = map_of (entries m) (get_global_id key)"

definition hash_insert :: "string \<Rightarrow> 'a \<Rightarrow> (template_id \<times> 'a) list option \<Rightarrow> (template_id \<times> 'a) list option" where
  "hash_insert key v m = Some (AList.update (get_global_id key) v (entries m))"

text \<open>\<open>AddToIdToNameMap\<close>: the first name with an identity stays.\<close>

definition add_to_id_to_name_map :: "string \<Rightarrow> dict_store \<Rightarrow> dict_store" where
  "add_to_id_to_name_map key st =
     (if map_of (id_to_name st) (get_global_id key) \<noteq> None then st
      else st\<lparr>id_to_name := (get_global_id key, key) # id_to_name st\<rparr>)"

abbreviation cell :: "dict_store \<Rightarrow> nat \<Rightarrow> template_dictionary" where
  "cell st d \<equiv> cells st ! d"

definition update_cell :: "nat \<Rightarrow> (template_dictionary \<Rightarrow> template_dictionary) \<Rightarrow> dict_store \<Rightarrow> dict_store" where
  "update_cell d f st = st\<lparr>cells := (cells st)[d := f (cell st d)]\<rparr>"

section \<open>Making dictionaries\<close>

text \<open>The state of the class when the first dictionary is made (\<open>SetupGlobalDict\<close>).\<close>

definition setup_global_dict :: dict_store where
  "setup_global_dict =
     (let st = \<lparr>cells = [], global_dict = entries (hash_insert ''BI_NEWLINE'' [LF] (hash_insert ''BI_SPACE'' '' '' None)), id_to_name = []\<rparr>
      in add_to_id_to_name_map ''BI_NEWLINE'' (add_to_id_to_name_map ''BI_SPACE'' st))"

definition empty_dictionary :: "string \<Rightarrow> nat \<Rightarrow> nat option \<Rightarrow> template_dictionary" where
  "empty_dictionary name owner parent =
     \<lparr>dict_name = name, variable_dict = None, section_dict = None, include_dict = None, template_global_dict = None,
      template_global_dict_owner = owner, parent_dict = parent, dict_filename = None\<rparr>"

text \<open>The public constructor: a dictionary that owns its shared values.\<close>

definition new_template_dictionary :: "string \<Rightarrow> dict_store \<Rightarrow> nat \<times> dict_store" where
  "new_template_dictionary name st =
     (let d = length (cells st) in (d, st\<lparr>cells := cells st @ [empty_dictionary name d None]\<rparr>))"

definition create_template_subdict :: "string \<Rightarrow> nat option \<Rightarrow> nat \<Rightarrow> dict_store \<Rightarrow> nat \<times> dict_store" where
  "create_template_subdict name parent owner st =
     (length (cells st), st\<lparr>cells := cells st @ [empty_dictionary name owner parent]\<rparr>)"

text \<open>\<open>LazyCreateTemplateGlobalDict\<close>, with the address of the dictionary of shared values.\<close>

definition lazy_create_template_global_dict :: "nat \<Rightarrow> dict_store \<Rightarrow> nat \<times> dict_store" where
  "lazy_create_template_global_dict d st =
     (let owner = template_global_dict_owner (cell st d)
      in case template_global_dict (cell st owner) of
           Some g \<Rightarrow> (g, st)
         | None \<Rightarrow>
             (case create_template_subdict ''Template Globals'' (Some owner) owner st of
                (g, st1) \<Rightarrow> (g, update_cell owner (\<lambda>c. c\<lparr>template_global_dict := Some g\<rparr>) st1)))"

section \<open>Setting values\<close>

definition set_value :: "nat \<Rightarrow> string \<Rightarrow> string \<Rightarrow> dict_store \<Rightarrow> dict_store" where
  "set_value d variable v st =
     add_to_id_to_name_map variable
       (update_cell d (\<lambda>c. c\<lparr>variable_dict := hash_insert variable v (variable_dict c)\<rparr>) st)"

definition set_int_value :: "nat \<Rightarrow> string \<Rightarrow> int \<Rightarrow> dict_store \<Rightarrow> dict_store" where
  "set_int_value d variable n st =
     set_value d variable ((if n < 0 then ''-'' else []) @ show_dec (nat \<bar>n\<bar>)) st"

text \<open>The modifier is a function of the application or one of the theory \<open>Template_Registry\<close>.\<close>

definition set_escaped_value :: "nat \<Rightarrow> string \<Rightarrow> string \<Rightarrow> (string \<Rightarrow> string) \<Rightarrow> dict_store \<Rightarrow> dict_store" where
  "set_escaped_value d variable v escfn st = set_value d variable (escfn v) st"

definition set_template_global_value :: "nat \<Rightarrow> string \<Rightarrow> string \<Rightarrow> dict_store \<Rightarrow> dict_store" where
  "set_template_global_value d variable v st =
     (case lazy_create_template_global_dict d st of (g, st1) \<Rightarrow> set_value g variable v st1)"

definition set_global_value :: "string \<Rightarrow> string \<Rightarrow> dict_store \<Rightarrow> dict_store" where
  "set_global_value variable v st =
     add_to_id_to_name_map variable
       (st\<lparr>global_dict := entries (hash_insert variable v (Some (global_dict st)))\<rparr>)"

definition set_filename :: "nat \<Rightarrow> string \<Rightarrow> dict_store \<Rightarrow> dict_store" where
  "set_filename d name st = update_cell d (\<lambda>c. c\<lparr>dict_filename := Some (cstr name)\<rparr>) st"

section \<open>Adding dictionaries\<close>

definition create_subdict_name :: "string \<Rightarrow> string \<Rightarrow> nat \<Rightarrow> string \<Rightarrow> string" where
  "create_subdict_name dname sub_name index suffix = dname @ ''/'' @ sub_name @ ''#'' @ show_dec index @ suffix"

definition dicts_of :: "(template_id \<times> nat list) list option \<Rightarrow> string \<Rightarrow> nat list" where
  "dicts_of m name = (case lookup_id m name of None \<Rightarrow> [] | Some ds \<Rightarrow> ds)"

definition add_section_dictionary :: "nat \<Rightarrow> string \<Rightarrow> dict_store \<Rightarrow> nat \<times> dict_store" where
  "add_section_dictionary d section_name st =
     (let ds = dicts_of (section_dict (cell st d)) section_name;
          newname = create_subdict_name (dict_name (cell st d)) section_name (length ds + 1) []
      in case create_template_subdict newname (Some d) (template_global_dict_owner (cell st d)) st of
           (s, st1) \<Rightarrow>
             (s, (if lookup_id (section_dict (cell st d)) section_name = None then add_to_id_to_name_map section_name else id)
               (update_cell d (\<lambda>c. c\<lparr>section_dict := hash_insert section_name (ds @ [s]) (section_dict c)\<rparr>) st1)))"

definition show_section :: "nat \<Rightarrow> string \<Rightarrow> dict_store \<Rightarrow> dict_store" where
  "show_section d section_name st =
     (if lookup_id (section_dict (cell st d)) section_name \<noteq> None then st
      else case create_template_subdict ''empty dictionary'' (Some d) (template_global_dict_owner (cell st d)) st of
             (s, st1) \<Rightarrow>
               add_to_id_to_name_map section_name
                 (update_cell d (\<lambda>c. c\<lparr>section_dict := hash_insert section_name [s] (section_dict c)\<rparr>) st1))"

definition show_template_global_section :: "nat \<Rightarrow> string \<Rightarrow> dict_store \<Rightarrow> dict_store" where
  "show_template_global_section d section_name st =
     (case lazy_create_template_global_dict d st of (g, st1) \<Rightarrow> show_section g section_name st1)"

definition set_value_and_show_section :: "nat \<Rightarrow> string \<Rightarrow> string \<Rightarrow> string \<Rightarrow> dict_store \<Rightarrow> dict_store" where
  "set_value_and_show_section d variable v section_name st =
     (if v = [] then st
      else case add_section_dictionary d section_name st of (s, st1) \<Rightarrow> set_value s variable v st1)"

definition set_escaped_value_and_show_section ::
  "nat \<Rightarrow> string \<Rightarrow> string \<Rightarrow> (string \<Rightarrow> string) \<Rightarrow> string \<Rightarrow> dict_store \<Rightarrow> dict_store" where
  "set_escaped_value_and_show_section d variable v escfn section_name st =
     (if escfn v = [] then st
      else case add_section_dictionary d section_name st of (s, st1) \<Rightarrow> set_value s variable (escfn v) st1)"

definition add_include_dictionary :: "nat \<Rightarrow> string \<Rightarrow> dict_store \<Rightarrow> nat \<times> dict_store" where
  "add_include_dictionary d include_name st =
     (let ds = dicts_of (include_dict (cell st d)) include_name;
          newname = create_subdict_name (dict_name (cell st d)) include_name (length ds + 1) []
      in case create_template_subdict newname None (template_global_dict_owner (cell st d)) st of
           (s, st1) \<Rightarrow>
             (s, (if lookup_id (include_dict (cell st d)) include_name = None then add_to_id_to_name_map include_name else id)
               (update_cell d (\<lambda>c. c\<lparr>include_dict := hash_insert include_name (ds @ [s]) (include_dict c)\<rparr>) st1)))"

section \<open>Questions\<close>

text \<open>The loop over a dictionary and its ancestors: what the first one of them has, or nothing. \<open>None\<close> is a loop that
  does not end.\<close>

partial_function (option) search_up :: "(template_dictionary \<Rightarrow> 'a option) \<Rightarrow> dict_store \<Rightarrow> nat \<Rightarrow> 'a option option" where
  "search_up f st d =
     (case f (cell st d) of
        Some x \<Rightarrow> Some (Some x)
      | None \<Rightarrow>
          (case parent_dict (cell st d) of
             None \<Rightarrow> Some None
           | Some p \<Rightarrow> search_up f st p))"

text \<open>The dictionary of shared values that a dictionary sees.\<close>

definition shared_dict :: "dict_store \<Rightarrow> nat \<Rightarrow> template_dictionary option" where
  "shared_dict st d =
     map_option (cell st) (template_global_dict (cell st (template_global_dict_owner (cell st d))))"

definition get_value :: "dict_store \<Rightarrow> nat \<Rightarrow> string \<Rightarrow> string option" where
  "get_value st d variable =
     map_option (\<lambda>here.
       case here of
         Some v \<Rightarrow> v
       | None \<Rightarrow>
           (case Option.bind (shared_dict st d) (\<lambda>g. lookup_id (variable_dict g) variable) of
              Some v \<Rightarrow> v
            | None \<Rightarrow>
                (case map_of (global_dict st) (get_global_id variable) of Some v \<Rightarrow> v | None \<Rightarrow> [])))
       (search_up (\<lambda>c. lookup_id (variable_dict c) variable) st d)"

definition is_hidden_section :: "dict_store \<Rightarrow> nat \<Rightarrow> string \<Rightarrow> bool option" where
  "is_hidden_section st d name =
     map_option (\<lambda>here. here = None \<and> Option.bind (shared_dict st d) (\<lambda>g. lookup_id (section_dict g) name) = None)
       (search_up (\<lambda>c. lookup_id (section_dict c) name) st d)"

definition is_unhidden_section :: "dict_store \<Rightarrow> nat \<Rightarrow> string \<Rightarrow> bool option" where
  "is_unhidden_section st d name = map_option Not (is_hidden_section st d name)"

definition is_hidden_template :: "dict_store \<Rightarrow> nat \<Rightarrow> string \<Rightarrow> bool option" where
  "is_hidden_template st d name =
     map_option (\<lambda>here. here = None) (search_up (\<lambda>c. lookup_id (include_dict c) name) st d)"

text \<open>A number that is not the index of a dictionary reads beyond the vector.\<close>

definition get_include_template_name :: "dict_store \<Rightarrow> nat \<Rightarrow> string \<Rightarrow> nat \<Rightarrow> string result option" where
  "get_include_template_name st d variable dictnum =
     map_option (\<lambda>here.
       case here of
         None \<Rightarrow> Inl AssertFailure
       | Some ds \<Rightarrow>
           if dictnum < length ds
           then Inr (case dict_filename (cell st (ds ! dictnum)) of None \<Rightarrow> [] | Some n \<Rightarrow> n)
           else Inl UndefinedBehaviour)
       (search_up (\<lambda>c. lookup_id (include_dict c) variable) st d)"

text \<open>The dictionaries that an iterator goes through.\<close>

definition create_template_iterator :: "dict_store \<Rightarrow> nat \<Rightarrow> string \<Rightarrow> nat list result option" where
  "create_template_iterator st d name =
     map_option (\<lambda>here. case here of None \<Rightarrow> Inl AssertFailure | Some ds \<Rightarrow> Inr ds)
       (search_up (\<lambda>c. lookup_id (include_dict c) name) st d)"

definition create_section_iterator :: "dict_store \<Rightarrow> nat \<Rightarrow> string \<Rightarrow> nat list result option" where
  "create_section_iterator st d name =
     map_option (\<lambda>here.
       case here of
         Some ds \<Rightarrow> Inr ds
       | None \<Rightarrow>
           (case Option.bind (shared_dict st d) (\<lambda>g. lookup_id (section_dict g) name) of
              Some ds \<Rightarrow> Inr ds
            | None \<Rightarrow> Inl AssertFailure))
       (search_up (\<lambda>c. lookup_id (section_dict c) name) st d)"

text \<open>\<open>Empty\<close>, as it is written: sections and includes are asked for the opposite.\<close>

definition dict_empty :: "template_dictionary \<Rightarrow> bool" where
  "dict_empty c \<longleftrightarrow>
     \<not> (variable_dict c \<noteq> None \<and> entries (variable_dict c) \<noteq> [] \<or>
        section_dict c \<noteq> None \<and> entries (section_dict c) = [] \<or>
        include_dict c \<noteq> None \<and> entries (include_dict c) = [])"

end
