(* ===== verification/Template_Scopes.thy ===== *)
theory Template_Scopes
  imports Template_Dictionary
begin

text \<open>
  What holds of the dictionaries of templates in every store that the calls of an application lead to: parents come
  before their children, so that the look-ups of \<open>template_dictionary.cc\<close> end; what a dictionary
  finds after a value is set; and what the hash of the names does to it.
\<close>

section \<open>Searching\<close>

text \<open>A dictionary and its ancestors come one before the other.\<close>

definition parents_ok :: "dict_store \<Rightarrow> bool" where
  "parents_ok st \<longleftrightarrow> (\<forall>d < length (cells st). \<forall>p. parent_dict (cell st d) = Some p \<longrightarrow> p < d)"

lemma parent_less: "parents_ok st \<Longrightarrow> d < length (cells st) \<Longrightarrow> parent_dict (cell st d) = Some p \<Longrightarrow> p < d"
  unfolding parents_ok_def by blast

lemma search_here: "f (cell st d) = Some x \<Longrightarrow> search_up f st d = Some (Some x)"
  by (subst search_up.simps) simp

lemma search_top: "f (cell st d) = None \<Longrightarrow> parent_dict (cell st d) = None \<Longrightarrow> search_up f st d = Some None"
  by (subst search_up.simps) simp

lemma search_parent: "f (cell st d) = None \<Longrightarrow> parent_dict (cell st d) = Some p \<Longrightarrow> search_up f st d = search_up f st p"
  by (subst search_up.simps) simp

text \<open>An induction along the ancestors.\<close>

lemma ancestor_induct [consumes 2, case_names top parent]:
  assumes "parents_ok st" "d < length (cells st)"
    and top: "\<And>d. d < length (cells st) \<Longrightarrow> parent_dict (cell st d) = None \<Longrightarrow> P d"
    and parent: "\<And>d p. d < length (cells st) \<Longrightarrow> parent_dict (cell st d) = Some p \<Longrightarrow> p < d \<Longrightarrow> P p \<Longrightarrow> P d"
  shows "P d"
  using assms(2)
proof (induction d rule: less_induct)
  case (less d)
  show ?case
  proof (cases "parent_dict (cell st d)")
    case None
    with less.prems show ?thesis by (rule top)
  next
    case (Some p)
    from parent_less [OF assms(1) less.prems Some] have "p < d" .
    with less have "P p" by simp
    with less.prems Some \<open>p < d\<close> show ?thesis by (rule parent)
  qed
qed

lemma search_up_returns:
  assumes "parents_ok st" "d < length (cells st)"
  shows "\<exists>r. search_up f st d = Some r"
  using assms
proof (induction d rule: ancestor_induct)
  case (top d)
  then show ?case by (cases "f (cell st d)") (auto simp: search_here search_top)
next
  case (parent d p)
  then show ?case by (cases "f (cell st d)") (auto simp: search_here search_parent)
qed

text \<open>The dictionary without a parent above a dictionary, and that what is found is found at an ancestor.\<close>

fun top_of :: "dict_store \<Rightarrow> nat \<Rightarrow> nat" where
  "top_of st d = (case parent_dict (cell st d) of None \<Rightarrow> d | Some p \<Rightarrow> if p < d then top_of st p else d)"

declare top_of.simps [simp del]

lemma top_of_top: "parent_dict (cell st d) = None \<Longrightarrow> top_of st d = d"
  by (subst top_of.simps) simp

lemma top_of_parent: "parent_dict (cell st d) = Some p \<Longrightarrow> p < d \<Longrightarrow> top_of st d = top_of st p"
  by (subst top_of.simps) simp

lemma top_of_le: "top_of st d \<le> d"
proof (induction d rule: less_induct)
  case (less d)
  show ?case by (subst top_of.simps) (auto split: option.splits intro: order_trans [OF less.IH] less_imp_le)
qed

lemma search_up_found:
  assumes "parents_ok st" "d < length (cells st)" "search_up f st d = Some (Some x)"
  shows "\<exists>a. a < length (cells st) \<and> f (cell st a) = Some x \<and> top_of st a = top_of st d \<and> a \<le> d"
  using assms
proof (induction d rule: ancestor_induct)
  case (top d)
  then show ?case by (cases "f (cell st d)") (auto simp: search_here search_top)
next
  case (parent d p)
  show ?case
  proof (cases "f (cell st d)")
    case None
    with parent.prems parent.hyps have "search_up f st p = Some (Some x)" by (simp add: search_parent)
    from parent.IH [OF this] parent.hyps show ?thesis by (auto simp: top_of_parent intro: less_imp_le order_trans)
  next
    case (Some y)
    with parent.prems parent.hyps show ?thesis by (auto simp: search_here)
  qed
qed

lemma search_up_cong:
  assumes "parents_ok st" "d < length (cells st)" "length (cells st) \<le> length (cells st1)"
    and "\<And>a. a \<le> d \<Longrightarrow> f (cell st1 a) = f (cell st a) \<and> parent_dict (cell st1 a) = parent_dict (cell st a)"
  shows "search_up f st1 d = search_up f st d"
  using assms(1,2,4)
proof (induction d rule: ancestor_induct)
  case (top d)
  then have "f (cell st1 d) = f (cell st d)" "parent_dict (cell st1 d) = None" by auto
  with top.hyps show ?case by (cases "f (cell st d)") (simp_all add: search_here search_top)
next
  case (parent d p)
  have eq: "f (cell st1 d) = f (cell st d)" "parent_dict (cell st1 d) = Some p" using parent.prems [of d] parent.hyps by auto
  have "search_up f st1 p = search_up f st p"
    using parent.prems parent.hyps by (intro parent.IH) (meson le_less_trans less_imp_le)
  with eq parent.hyps show ?case by (cases "f (cell st d)") (simp_all add: search_here search_parent)
qed

section \<open>The stores that an application makes\<close>

text \<open>The calls of an application, on dictionaries that it was given.\<close>

inductive dict_call :: "dict_store \<Rightarrow> dict_store \<Rightarrow> bool" where
  Call_new: "dict_call st (snd (new_template_dictionary name st))"
| Call_global_value: "dict_call st (set_global_value x v st)"
| Call_value: "d < length (cells st) \<Longrightarrow> dict_call st (set_value d x v st)"
| Call_int_value: "d < length (cells st) \<Longrightarrow> dict_call st (set_int_value d x n st)"
| Call_escaped_value: "d < length (cells st) \<Longrightarrow> dict_call st (set_escaped_value d x v f st)"
| Call_template_global_value: "d < length (cells st) \<Longrightarrow> dict_call st (set_template_global_value d x v st)"
| Call_filename: "d < length (cells st) \<Longrightarrow> dict_call st (set_filename d x st)"
| Call_section: "d < length (cells st) \<Longrightarrow> dict_call st (snd (add_section_dictionary d x st))"
| Call_show: "d < length (cells st) \<Longrightarrow> dict_call st (show_section d x st)"
| Call_template_global_show: "d < length (cells st) \<Longrightarrow> dict_call st (show_template_global_section d x st)"
| Call_value_and_show: "d < length (cells st) \<Longrightarrow> dict_call st (set_value_and_show_section d x v y st)"
| Call_escaped_and_show: "d < length (cells st) \<Longrightarrow> dict_call st (set_escaped_value_and_show_section d x v f y st)"
| Call_include: "d < length (cells st) \<Longrightarrow> dict_call st (snd (add_include_dictionary d x st))"

text \<open>What holds of every dictionary: its owner is an earlier one, or itself, which owns itself; its parent is earlier
  and has the same owner; what it holds under a name are later dictionaries, at least one: those of a section are its
  children, those of an include have no parent.\<close>

definition held_ok :: "template_dictionary list \<Rightarrow> nat \<Rightarrow> nat option \<Rightarrow> (template_id \<times> nat list) list option \<Rightarrow> bool" where
  "held_ok cs d parent m \<longleftrightarrow>
     (\<forall>(k, ds) \<in> set (entries m). ds \<noteq> [] \<and> (\<forall>s \<in> set ds. d < s \<and> s < length cs \<and> parent_dict (cs ! s) = parent))"

definition place_ok :: "template_dictionary list \<Rightarrow> nat \<Rightarrow> template_dictionary \<Rightarrow> bool" where
  "place_ok cs d c \<longleftrightarrow>
     template_global_dict_owner c \<le> d \<and>
     template_global_dict_owner (cs ! template_global_dict_owner c) = template_global_dict_owner c \<and>
     (\<forall>p. parent_dict c = Some p \<longrightarrow> p < d)"

definition shared_ok :: "template_dictionary list \<Rightarrow> nat \<Rightarrow> nat option \<Rightarrow> bool" where
  "shared_ok cs d m \<longleftrightarrow> (\<forall>g. m = Some g \<longrightarrow> d < g \<and> g < length cs \<and> parent_dict (cs ! g) = Some d)"

definition cell_ok :: "template_dictionary list \<Rightarrow> nat \<Rightarrow> template_dictionary \<Rightarrow> bool" where
  "cell_ok cs d c \<longleftrightarrow>
     place_ok cs d c \<and> shared_ok cs d (template_global_dict c) \<and>
     held_ok cs d (Some d) (section_dict c) \<and> held_ok cs d None (include_dict c)"

definition store_ok :: "dict_store \<Rightarrow> bool" where
  "store_ok st \<longleftrightarrow> (\<forall>d < length (cells st). cell_ok (cells st) d (cell st d))"

lemma store_okD: "store_ok st \<Longrightarrow> d < length (cells st) \<Longrightarrow> cell_ok (cells st) d (cell st d)"
  unfolding store_ok_def by blast

text \<open>A store with more dictionaries, in which those that were there keep their places in the trees.\<close>

definition same_places :: "template_dictionary list \<Rightarrow> template_dictionary list \<Rightarrow> bool" where
  "same_places cs cs' \<longleftrightarrow> length cs \<le> length cs' \<and>
     (\<forall>a < length cs. parent_dict (cs' ! a) = parent_dict (cs ! a) \<and>
        template_global_dict_owner (cs' ! a) = template_global_dict_owner (cs ! a))"

lemma same_places_refl: "same_places cs cs"
  by (simp add: same_places_def)

lemma same_places_append: "same_places cs (cs @ new)"
  by (simp add: same_places_def nth_append)

lemma same_places_update:
  "d < length cs \<Longrightarrow> parent_dict c = parent_dict (cs ! d) \<Longrightarrow>
    template_global_dict_owner c = template_global_dict_owner (cs ! d) \<Longrightarrow> same_places cs (cs[d := c])"
  by (simp add: same_places_def nth_list_update)

lemma held_ok_later: "held_ok cs d p m \<Longrightarrow> same_places cs cs' \<Longrightarrow> held_ok cs' d p m"
  unfolding held_ok_def same_places_def by (fastforce intro: less_le_trans)

lemma place_ok_later: "place_ok cs d c \<Longrightarrow> same_places cs cs' \<Longrightarrow> d < length cs \<Longrightarrow> place_ok cs' d c"
  unfolding place_ok_def same_places_def by (metis le_less_trans)

lemma shared_ok_later: "shared_ok cs d m \<Longrightarrow> same_places cs cs' \<Longrightarrow> shared_ok cs' d m"
  by (auto simp: shared_ok_def same_places_def intro: less_le_trans)

lemma cell_ok_later: "cell_ok cs d c \<Longrightarrow> same_places cs cs' \<Longrightarrow> d < length cs \<Longrightarrow> cell_ok cs' d c"
  unfolding cell_ok_def by (meson held_ok_later place_ok_later shared_ok_later)

text \<open>The two things that happen to the dictionaries: one is made, or one changes what it holds.\<close>

lemma store_ok_append:
  assumes "store_ok st" "cell_ok (cells st @ [c]) (length (cells st)) c" "cells st1 = cells st @ [c]"
  shows "store_ok st1"
  unfolding store_ok_def
proof (intro allI impI)
  fix d assume d: "d < length (cells st1)"
  show "cell_ok (cells st1) d (cell st1 d)"
  proof (cases "d < length (cells st)")
    case True
    have "cell_ok (cells st @ [c]) d (cell st d)"
      using store_okD [OF assms(1) True] same_places_append True by (rule cell_ok_later)
    then show ?thesis using True by (simp add: assms(3) nth_append)
  next
    case False
    then have "d = length (cells st)" using d by (simp add: assms(3))
    then show ?thesis using assms(2) by (simp add: assms(3))
  qed
qed

lemma store_ok_update:
  assumes "store_ok st" "d < length (cells st)" "cells st1 = (cells st)[d := c]" "cell_ok (cells st) d c"
    and "parent_dict c = parent_dict (cell st d)" "template_global_dict_owner c = template_global_dict_owner (cell st d)"
  shows "store_ok st1"
  unfolding store_ok_def
proof (intro allI impI)
  fix a assume a: "a < length (cells st1)"
  have places: "same_places (cells st) (cells st1)"
    unfolding assms(3) using assms(2,5,6) by (rule same_places_update)
  have a': "a < length (cells st)" using a by (simp add: assms(3))
  have "cell_ok (cells st) a (cell st1 a)"
    using store_okD [OF assms(1) a'] assms(4) a' by (cases "a = d") (simp_all add: assms(3))
  then show "cell_ok (cells st1) a (cell st1 a)" using places a' by (rule cell_ok_later)
qed

lemma store_ok_same: "store_ok st \<Longrightarrow> cells st1 = cells st \<Longrightarrow> store_ok st1"
  by (simp add: store_ok_def)

lemma cells_names [simp]: "cells (add_to_id_to_name_map x st) = cells st"
  by (simp add: add_to_id_to_name_map_def)

lemma global_names [simp]: "global_dict (add_to_id_to_name_map x st) = global_dict st"
  by (simp add: add_to_id_to_name_map_def)

lemma cells_update_cell [simp]: "cells (update_cell d f st) = (cells st)[d := f (cell st d)]"
  by (simp add: update_cell_def)

lemma global_update_cell [simp]: "global_dict (update_cell d f st) = global_dict st"
  by (simp add: update_cell_def)

lemma set_update: "set (AList.update k v es) \<subseteq> insert (k, v) (set es)"
  by (induction es) auto

lemma held_ok_insert:
  assumes "held_ok cs d p m" "ds \<noteq> []" "\<forall>s \<in> set ds. d < s \<and> s < length cs \<and> parent_dict (cs ! s) = p"
  shows "held_ok cs d p (hash_insert k ds m)"
  using assms set_update [of "get_global_id k" ds "entries m"]
  by (auto simp: held_ok_def hash_insert_def entries_def [of "Some _"])

lemma held_ok_dicts_of:
  assumes "held_ok cs d p m"
  shows "\<forall>s \<in> set (dicts_of m k). d < s \<and> s < length cs \<and> parent_dict (cs ! s) = p"
  using assms by (auto simp: held_ok_def dicts_of_def lookup_id_def split: option.splits) (blast dest: map_of_SomeD [OF sym])+

lemma held_ok_None [simp]: "held_ok cs d p None"
  by (simp add: held_ok_def entries_def)

lemma subdict_cells [simp]:
  "fst (create_template_subdict name p o1 st) = length (cells st)"
  "cells (snd (create_template_subdict name p o1 st)) = cells st @ [empty_dictionary name o1 p]"
  "global_dict (snd (create_template_subdict name p o1 st)) = global_dict st"
  by (simp_all add: create_template_subdict_def)

lemma empty_fields [simp]:
  "parent_dict (empty_dictionary name o1 p) = p" "template_global_dict_owner (empty_dictionary name o1 p) = o1"
  "section_dict (empty_dictionary name o1 p) = None" "include_dict (empty_dictionary name o1 p) = None"
  "variable_dict (empty_dictionary name o1 p) = None" "template_global_dict (empty_dictionary name o1 p) = None"
  by (simp_all add: empty_dictionary_def)

lemma subdict_ok:
  assumes "store_ok st" "d < length (cells st)" "p = None \<or> p = Some d"
  shows "store_ok (snd (create_template_subdict name p (template_global_dict_owner (cell st d)) st))"
proof (rule store_ok_append [OF assms(1)])
  show "cell_ok (cells st @ [empty_dictionary name (template_global_dict_owner (cell st d)) p]) (length (cells st))
      (empty_dictionary name (template_global_dict_owner (cell st d)) p)"
    using store_okD [OF assms(1,2)] assms(2,3)
    by (auto simp: cell_ok_def place_ok_def shared_ok_def nth_append)
qed simp

text \<open>A child is made and put under a name.\<close>

lemma add_child_ok:
  assumes "store_ok st" "d < length (cells st)" "p = None \<or> p = Some d"
    and "cells st1 = (cells st @ [empty_dictionary name (template_global_dict_owner (cell st d)) p])[d := c]"
    and "\<And>cs. cell_ok cs d (cell st d) \<Longrightarrow> d < length (cells st) \<Longrightarrow> length (cells st) < length cs \<Longrightarrow>
      parent_dict (cs ! length (cells st)) = p \<Longrightarrow> cell_ok cs d c"
    and "parent_dict c = parent_dict (cell st d)" "template_global_dict_owner c = template_global_dict_owner (cell st d)"
  shows "store_ok st1"
proof -
  define st0 where "st0 = snd (create_template_subdict name p (template_global_dict_owner (cell st d)) st)"
  have cs: "cells st0 = cells st @ [empty_dictionary name (template_global_dict_owner (cell st d)) p]" by (simp add: st0_def)
  have ok: "store_ok st0" unfolding st0_def using subdict_ok assms(1-3) .
  have d: "d < length (cells st0)" using assms(2) by (simp add: cs)
  have here: "cell st0 d = cell st d" using assms(2) by (simp add: cs nth_append)
  have "cell_ok (cells st0) d c"
    using store_okD [OF ok d, unfolded here] assms(2) by (rule assms(5)) (simp_all add: cs)
  then show ?thesis
    using assms(4) [folded cs] assms(6,7) by (intro store_ok_update [OF ok d, of _ c]) (simp_all add: here)
qed

lemma section_inserted:
  assumes "cell_ok cs d c" "d < n" "n < length cs" "parent_dict (cs ! n) = Some d"
    and "ds = [] \<or> ds = dicts_of (section_dict c) x"
  shows "cell_ok cs d (c\<lparr>section_dict := hash_insert x (ds @ [n]) (section_dict c)\<rparr>)"
proof -
  have "held_ok cs d (Some d) (section_dict c)" using assms(1) by (simp add: cell_ok_def)
  from held_ok_insert [OF this, of "ds @ [n]" x] held_ok_dicts_of [OF this] assms(2-5)
  have "held_ok cs d (Some d) (hash_insert x (ds @ [n]) (section_dict c))" by auto
  then show ?thesis using assms(1) by (simp add: cell_ok_def place_ok_def)
qed

lemma include_inserted:
  assumes "cell_ok cs d c" "d < n" "n < length cs" "parent_dict (cs ! n) = None"
  shows "cell_ok cs d (c\<lparr>include_dict := hash_insert x (dicts_of (include_dict c) x @ [n]) (include_dict c)\<rparr>)"
proof -
  have "held_ok cs d None (include_dict c)" using assms(1) by (simp add: cell_ok_def)
  from held_ok_insert [OF this, of "dicts_of (include_dict c) x @ [n]" x] held_ok_dicts_of [OF this, of x] assms(2-4)
  have "held_ok cs d None (hash_insert x (dicts_of (include_dict c) x @ [n]) (include_dict c))" by auto
  then show ?thesis using assms(1) by (simp add: cell_ok_def place_ok_def)
qed

lemma set_value_cells:
  "cells (set_value d x v st) = (cells st)[d := (cell st d)\<lparr>variable_dict := hash_insert x v (variable_dict (cell st d))\<rparr>]"
  by (simp add: set_value_def)

lemma add_section_cells:
  assumes "d < length (cells st)"
  shows "fst (add_section_dictionary d x st) = length (cells st)"
    and "\<exists>name. cells (snd (add_section_dictionary d x st)) =
      (cells st @ [empty_dictionary name (template_global_dict_owner (cell st d)) (Some d)])
        [d := (cell st d)\<lparr>section_dict := hash_insert x (dicts_of (section_dict (cell st d)) x @ [length (cells st)]) (section_dict (cell st d))\<rparr>]"
    and "global_dict (snd (add_section_dictionary d x st)) = global_dict st"
  using assms by (auto simp: add_section_dictionary_def create_template_subdict_def Let_def nth_append update_cell_def)

lemma add_include_cells:
  assumes "d < length (cells st)"
  shows "fst (add_include_dictionary d x st) = length (cells st)"
    and "\<exists>name. cells (snd (add_include_dictionary d x st)) =
      (cells st @ [empty_dictionary name (template_global_dict_owner (cell st d)) None])
        [d := (cell st d)\<lparr>include_dict := hash_insert x (dicts_of (include_dict (cell st d)) x @ [length (cells st)]) (include_dict (cell st d))\<rparr>]"
    and "global_dict (snd (add_include_dictionary d x st)) = global_dict st"
  using assms by (auto simp: add_include_dictionary_def create_template_subdict_def Let_def nth_append update_cell_def)

lemma show_section_cells:
  assumes "d < length (cells st)" "lookup_id (section_dict (cell st d)) x = None"
  shows "cells (show_section d x st) =
      (cells st @ [empty_dictionary ''empty dictionary'' (template_global_dict_owner (cell st d)) (Some d)])
        [d := (cell st d)\<lparr>section_dict := hash_insert x [length (cells st)] (section_dict (cell st d))\<rparr>]"
    and "global_dict (show_section d x st) = global_dict st"
  using assms by (auto simp: show_section_def create_template_subdict_def Let_def nth_append update_cell_def)

lemma set_value_ok:
  assumes "store_ok st" "d < length (cells st)"
  shows "store_ok (set_value d x v st)"
  using store_okD [OF assms]
  by (intro store_ok_update [OF assms set_value_cells]) (simp_all add: cell_ok_def place_ok_def)

lemma set_filename_ok:
  assumes "store_ok st" "d < length (cells st)"
  shows "store_ok (set_filename d x st)"
  using store_okD [OF assms]
  by (intro store_ok_update [OF assms, of _ "(cell st d)\<lparr>dict_filename := Some (cstr x)\<rparr>"])
    (simp_all add: set_filename_def cell_ok_def place_ok_def)

lemma add_section_ok:
  assumes "store_ok st" "d < length (cells st)"
  shows "store_ok (snd (add_section_dictionary d x st))"
proof -
  obtain name where "cells (snd (add_section_dictionary d x st)) =
      (cells st @ [empty_dictionary name (template_global_dict_owner (cell st d)) (Some d)])
        [d := (cell st d)\<lparr>section_dict := hash_insert x (dicts_of (section_dict (cell st d)) x @ [length (cells st)]) (section_dict (cell st d))\<rparr>]"
    using add_section_cells(2) [OF assms(2)] by blast
  from add_child_ok [OF assms _ this] show ?thesis by (simp add: section_inserted)
qed

lemma add_include_ok:
  assumes "store_ok st" "d < length (cells st)"
  shows "store_ok (snd (add_include_dictionary d x st))"
proof -
  obtain name where "cells (snd (add_include_dictionary d x st)) =
      (cells st @ [empty_dictionary name (template_global_dict_owner (cell st d)) None])
        [d := (cell st d)\<lparr>include_dict := hash_insert x (dicts_of (include_dict (cell st d)) x @ [length (cells st)]) (include_dict (cell st d))\<rparr>]"
    using add_include_cells(2) [OF assms(2)] by blast
  from add_child_ok [OF assms _ this] show ?thesis by (simp add: include_inserted)
qed

lemma show_section_ok:
  assumes "store_ok st" "d < length (cells st)"
  shows "store_ok (show_section d x st)"
proof (cases "lookup_id (section_dict (cell st d)) x")
  case None
  from add_child_ok [OF assms _ show_section_cells(1) [OF assms(2) None]] section_inserted [where ds = "[]"]
  show ?thesis by simp
qed (use assms in \<open>simp add: show_section_def\<close>)

text \<open>The dictionary of shared values.\<close>

lemma lazy_global_ok:
  assumes "store_ok st" "d < length (cells st)"
  shows "store_ok (snd (lazy_create_template_global_dict d st))"
    and "fst (lazy_create_template_global_dict d st) < length (cells (snd (lazy_create_template_global_dict d st)))"
    and "length (cells st) \<le> length (cells (snd (lazy_create_template_global_dict d st)))"
proof -
  let ?o = "template_global_dict_owner (cell st d)"
  have c: "cell_ok (cells st) d (cell st d)" using store_okD [OF assms] .
  then have o: "?o < length (cells st)" "template_global_dict_owner (cell st ?o) = ?o"
    using assms(2) by (auto simp: cell_ok_def place_ok_def)
  note owner = store_okD [OF assms(1) o(1)]
  have "store_ok (snd (lazy_create_template_global_dict d st)) \<and>
    fst (lazy_create_template_global_dict d st) < length (cells (snd (lazy_create_template_global_dict d st))) \<and>
    length (cells st) \<le> length (cells (snd (lazy_create_template_global_dict d st)))"
  proof (cases "template_global_dict (cell st ?o)")
    case None
    let ?n = "length (cells st)"
    define st1 where "st1 = snd (lazy_create_template_global_dict d st)"
    have cs: "cells st1 = (cells st @ [empty_dictionary ''Template Globals'' (template_global_dict_owner (cell st ?o)) (Some ?o)])
        [?o := (cell st ?o)\<lparr>template_global_dict := Some ?n\<rparr>]"
      and n: "fst (lazy_create_template_global_dict d st) = ?n"
      using None o by (simp_all add: st1_def lazy_create_template_global_dict_def create_template_subdict_def Let_def
        update_cell_def nth_append)
    have "store_ok st1"
      by (rule add_child_ok [OF assms(1) o(1) _ cs]) (auto simp: cell_ok_def place_ok_def shared_ok_def)
    then show ?thesis using cs n by (simp add: st1_def)
  next
    case (Some g)
    then show ?thesis
      using owner assms by (simp add: lazy_create_template_global_dict_def Let_def cell_ok_def shared_ok_def)
  qed
  then show "store_ok (snd (lazy_create_template_global_dict d st))"
    "fst (lazy_create_template_global_dict d st) < length (cells (snd (lazy_create_template_global_dict d st)))"
    "length (cells st) \<le> length (cells (snd (lazy_create_template_global_dict d st)))" by blast+
qed

lemma new_dictionary_ok: "store_ok st \<Longrightarrow> store_ok (snd (new_template_dictionary name st))"
  by (rule store_ok_append) (auto simp: new_template_dictionary_def Let_def cell_ok_def place_ok_def shared_ok_def nth_append)

lemma value_and_show_ok:
  assumes "store_ok st" "d < length (cells st)"
  shows "store_ok (set_value_and_show_section d x v y st)"
proof -
  obtain s1 st1 where new: "add_section_dictionary d y st = (s1, st1)" by (rule prod.exhaust)
  have "store_ok st1" "s1 = length (cells st)" "length (cells st1) = Suc (length (cells st))"
    using add_section_ok [OF assms, of y] add_section_cells [OF assms(2), of y] new by auto
  then show ?thesis using assms(1) by (simp add: set_value_and_show_section_def new set_value_ok)
qed

lemma call_ok:
  assumes "dict_call st st1" "store_ok st"
  shows "store_ok st1"
  using assms
proof (induction rule: dict_call.induct)
  case (Call_template_global_value d st x v)
  then show ?case
    using lazy_global_ok [of st d] by (auto simp: set_template_global_value_def split: prod.splits intro: set_value_ok)
next
  case (Call_template_global_show d st x)
  then show ?case
    using lazy_global_ok [of st d] by (auto simp: show_template_global_section_def split: prod.splits intro: show_section_ok)
next
  case (Call_escaped_and_show d st x v f y)
  then show ?case
    using value_and_show_ok [of st d x "f v" y] by (simp add: set_escaped_value_and_show_section_def set_value_and_show_section_def)
next
  case (Call_global_value st x v)
  then show ?case by (simp add: set_global_value_def store_ok_same)
qed (auto simp: set_int_value_def set_escaped_value_def
  intro: new_dictionary_ok set_value_ok set_filename_ok add_section_ok add_include_ok show_section_ok value_and_show_ok)

text \<open>Whatever an application does with its dictionaries, parents come before their children and what a dictionary holds
  for a section or an include comes after it: the children of a section have it as their parent, those of an include
  have none, and no name is there with nothing under it.\<close>

lemma reachable_ok:
  assumes "dict_call\<^sup>*\<^sup>* setup_global_dict st"
  shows "store_ok st"
  using assms
proof (induction rule: rtranclp_induct)
  case base
  then show ?case by (simp add: store_ok_def setup_global_dict_def Let_def)
next
  case (step st st1)
  then show ?case using call_ok by blast
qed

section \<open>What a dictionary finds\<close>

lemma lookup_insert:
  "lookup_id (hash_insert x v m) y = (if get_global_id y = get_global_id x then Some v else lookup_id m y)"
  by (simp add: lookup_id_def hash_insert_def entries_def [of "Some _"] update_conv)

lemma store_ok_parents: "store_ok st \<Longrightarrow> parents_ok st"
  unfolding store_ok_def parents_ok_def cell_ok_def place_ok_def by blast

lemma owner_less: "store_ok st \<Longrightarrow> d < length (cells st) \<Longrightarrow> template_global_dict_owner (cell st d) < length (cells st)"
  using store_okD [of st d] unfolding cell_ok_def place_ok_def by auto

lemma shared_less:
  "store_ok st \<Longrightarrow> o1 < length (cells st) \<Longrightarrow> template_global_dict (cell st o1) = Some g \<Longrightarrow> g < length (cells st)"
  using store_okD [of st o1] unfolding cell_ok_def shared_ok_def by blast

text \<open>What a dictionary finds beyond itself and its ancestors: a value that its tree shares, or a global one, or nothing.\<close>

definition outer_value :: "dict_store \<Rightarrow> nat \<Rightarrow> string \<Rightarrow> string" where
  "outer_value st d y =
     (case Option.bind (shared_dict st d) (\<lambda>g. lookup_id (variable_dict g) y) of
        Some v \<Rightarrow> v
      | None \<Rightarrow> (case map_of (global_dict st) (get_global_id y) of Some v \<Rightarrow> v | None \<Rightarrow> []))"

lemma get_value_alt:
  "get_value st d y =
     map_option (\<lambda>here. case here of Some v \<Rightarrow> v | None \<Rightarrow> outer_value st d y) (search_up (\<lambda>c. lookup_id (variable_dict c) y) st d)"
  by (simp only: get_value_def outer_value_def)

text \<open>A later store in which the dictionaries that were there have the same places and the same value for a name.\<close>

definition same_value :: "string \<Rightarrow> dict_store \<Rightarrow> dict_store \<Rightarrow> bool" where
  "same_value y st st1 \<longleftrightarrow> same_places (cells st) (cells st1) \<and> global_dict st1 = global_dict st \<and>
     (\<forall>a < length (cells st). template_global_dict (cell st1 a) = template_global_dict (cell st a) \<and>
        lookup_id (variable_dict (cell st1 a)) y = lookup_id (variable_dict (cell st a)) y)"

lemma same_outer:
  assumes "store_ok st" "d < length (cells st)" "same_value y st st1"
  shows "outer_value st1 d y = outer_value st d y"
proof -
  let ?o = "template_global_dict_owner (cell st d)"
  have o: "?o < length (cells st)" by (rule owner_less [OF assms(1,2)])
  have same: "template_global_dict_owner (cell st1 d) = ?o" "template_global_dict (cell st1 ?o) = template_global_dict (cell st ?o)"
    "global_dict st1 = global_dict st"
    using assms(2,3) o by (auto simp: same_value_def same_places_def)
  have "lookup_id (variable_dict (cell st1 g)) y = lookup_id (variable_dict (cell st g)) y"
    if "template_global_dict (cell st ?o) = Some g" for g
    using assms(3) shared_less [OF assms(1) o that] by (simp add: same_value_def)
  then show ?thesis
    by (cases "template_global_dict (cell st ?o)") (simp_all add: outer_value_def shared_dict_def same split: option.split)
qed

lemma same_search:
  assumes "store_ok st" "d < length (cells st)" "same_value y st st1"
  shows "search_up (\<lambda>c. lookup_id (variable_dict c) y) st1 d = search_up (\<lambda>c. lookup_id (variable_dict c) y) st d"
  using assms by (intro search_up_cong store_ok_parents) (auto simp: same_value_def same_places_def)

lemma same_get_value:
  assumes "store_ok st" "d < length (cells st)" "same_value y st st1"
  shows "get_value st1 d y = get_value st d y"
  by (simp only: get_value_alt same_outer [OF assms] same_search [OF assms])

lemma set_value_found:
  assumes "d < length (cells st)" "get_global_id y = get_global_id x"
  shows "get_value (set_value d x v st) d y = Some v"
  using assms by (simp add: get_value_alt search_here [of _ _ _ v] set_value_cells lookup_insert)

lemma set_value_other:
  assumes "store_ok st" "e < length (cells st)" "d < length (cells st)" "get_global_id y \<noteq> get_global_id x"
  shows "get_value (set_value d x v st) e y = get_value st e y"
  by (rule same_get_value [OF assms(1,2)])
    (use assms(3,4) in \<open>auto simp: same_value_def same_places_def set_value_cells nth_list_update lookup_insert set_value_def [of _ _ _ st]\<close>)

text \<open>A new section dictionary sees what its parent sees; a new include dictionary only the shared and global values.\<close>

lemma new_child_values:
  assumes "store_ok st" "d < length (cells st)" "p = Some d \<or> p = None"
    and "cells st1 = (cells st @ [empty_dictionary name (template_global_dict_owner (cell st d)) p])[d := c]"
    and "variable_dict c = variable_dict (cell st d)" "parent_dict c = parent_dict (cell st d)"
      "template_global_dict c = template_global_dict (cell st d)"
      "template_global_dict_owner c = template_global_dict_owner (cell st d)"
    and "global_dict st1 = global_dict st"
  shows "get_value st1 (length (cells st)) y = (if p = None then Some (outer_value st d y) else get_value st d y)"
    and "e < length (cells st) \<Longrightarrow> get_value st1 e y = get_value st e y"
proof -
  let ?n = "length (cells st)"
  have same: "same_value y st st1"
    using assms(2,4-9) by (auto simp: same_value_def same_places_def nth_append nth_list_update)
  have new: "cell st1 ?n = empty_dictionary name (template_global_dict_owner (cell st d)) p"
    using assms(2,4) by simp
  have "outer_value st1 ?n y = outer_value st1 d y"
    using assms(2,4,8) by (simp add: outer_value_def shared_dict_def new nth_append)
  then have outer: "outer_value st1 ?n y = outer_value st d y" using same_outer [OF assms(1,2) same] by simp
  have none: "lookup_id (variable_dict (cell st1 ?n)) y = None" by (simp add: new lookup_id_def entries_def)
  show "get_value st1 ?n y = (if p = None then Some (outer_value st d y) else get_value st d y)"
  proof (cases p)
    case None
    then show ?thesis using none by (simp add: get_value_alt search_top new outer)
  next
    case (Some q)
    then have "parent_dict (cell st1 ?n) = Some d" using assms(3) by (simp add: new)
    from search_parent [of "\<lambda>c. lookup_id (variable_dict c) y", OF none this] Some show ?thesis
      by (simp add: get_value_alt outer same_search [OF assms(1,2) same] cong: option.case_cong)
  qed
  show "get_value st1 e y = get_value st e y" if "e < length (cells st)"
    using same_get_value [OF assms(1) that same] .
qed

text \<open>C20: scopes of values, for whatever an application did before: a value that is set is found under every name with its
  identity, and the others stay; a dictionary for a section sees the values of its parent, a dictionary
  for an included template does not, only what all templates share; and making them changes nothing for the others.\<close>

theorem dictionary_scopes:
  assumes "dict_call\<^sup>*\<^sup>* setup_global_dict st" "d < length (cells st)" "e < length (cells st)"
    and "add_section_dictionary d x st = (s, st1)" "add_include_dictionary d x st = (i, st2)"
  shows "get_value (set_value d x v st) d y = (if get_global_id y = get_global_id x then Some v else get_value st d y) \<and>
    get_value st1 s y = get_value st d y \<and> get_value st2 i y = Some (outer_value st d y) \<and>
    get_value st1 e y = get_value st e y \<and> get_value st2 e y = get_value st e y"
proof -
  have ok: "store_ok st" using assms(1) by (rule reachable_ok)
  have a: "get_value (set_value d x v st) d y = (if get_global_id y = get_global_id x then Some v else get_value st d y)"
    using set_value_found [OF assms(2)] set_value_other [OF ok assms(2,2)] by simp
  obtain n1 where "cells st1 = (cells st @ [empty_dictionary n1 (template_global_dict_owner (cell st d)) (Some d)])
      [d := (cell st d)\<lparr>section_dict := hash_insert x (dicts_of (section_dict (cell st d)) x @ [length (cells st)]) (section_dict (cell st d))\<rparr>]"
    and "s = length (cells st)" "global_dict st1 = global_dict st"
    using add_section_cells [OF assms(2), of x] assms(4) by auto
  from new_child_values [OF ok assms(2) _ this(1) _ _ _ _ this(3)] this(2) assms(3)
  have b: "get_value st1 s y = get_value st d y" "get_value st1 e y = get_value st e y" by simp_all
  obtain n2 where "cells st2 = (cells st @ [empty_dictionary n2 (template_global_dict_owner (cell st d)) None])
      [d := (cell st d)\<lparr>include_dict := hash_insert x (dicts_of (include_dict (cell st d)) x @ [length (cells st)]) (include_dict (cell st d))\<rparr>]"
    and "i = length (cells st)" "global_dict st2 = global_dict st"
    using add_include_cells [OF assms(2), of x] assms(5) by auto
  from new_child_values [OF ok assms(2) _ this(1) _ _ _ _ this(3)] this(2) assms(3)
  have c: "get_value st2 i y = Some (outer_value st d y)" "get_value st2 e y = get_value st e y" by simp_all
  from a b c show ?thesis by blast
qed

theorem dictionary_scopes_witness:
  "get_value (set_value 0 ''A'' ''1'' (snd (new_template_dictionary ''d'' setup_global_dict))) 0 ''A'' = Some ''1''"
proof -
  let ?st = "snd (new_template_dictionary ''d'' setup_global_dict)"
  have st: "dict_call\<^sup>*\<^sup>* setup_global_dict ?st" by (rule r_into_rtranclp, rule Call_new)
  have d: "0 < length (cells ?st)" by (simp add: new_template_dictionary_def Let_def)
  obtain s1 st1 where s1: "add_section_dictionary 0 ''A'' ?st = (s1, st1)" by (rule prod.exhaust)
  obtain s2 st2 where s2: "add_include_dictionary 0 ''A'' ?st = (s2, st2)" by (rule prod.exhaust)
  from dictionary_scopes [OF st d d s1 s2, of "''1''" "''A''"] show ?thesis by simp
qed



section \<open>What a dictionary answers\<close>

lemma value_answered: "store_ok st \<Longrightarrow> d < length (cells st) \<Longrightarrow> \<exists>v. get_value st d x = Some v"
  using search_up_returns [OF store_ok_parents] by (fastforce simp: get_value_alt)

lemma held_found:
  assumes "held_ok cs d p m" "lookup_id m x = Some ds"
  shows "ds \<noteq> [] \<and> (\<forall>s \<in> set ds. d < s \<and> s < length cs \<and> parent_dict (cs ! s) = p)"
  using assms by (auto simp: held_ok_def lookup_id_def dest!: map_of_SomeD)

text \<open>No section is shown in all templates of a tree of dictionaries (\<open>ShowTemplateGlobalSection\<close>).\<close>

definition no_shared_sections :: "dict_store \<Rightarrow> bool" where
  "no_shared_sections st \<longleftrightarrow>
     (\<forall>d < length (cells st). \<forall>g. shared_dict st d = Some g \<longrightarrow> entries (section_dict g) = [])"

lemma section_answered:
  assumes "store_ok st" "d < length (cells st)"
  shows "\<exists>b. is_hidden_section st d x = Some b \<and> is_unhidden_section st d x = Some (\<not> b) \<and>
    (b \<or> (\<exists>ds. create_section_iterator st d x = Some (Inr ds) \<and> ds \<noteq> [] \<and>
      (\<forall>s \<in> set ds. s < length (cells st) \<and> (no_shared_sections st \<longrightarrow> top_of st s = top_of st d))))"
proof -
  note parents = store_ok_parents [OF assms(1)]
  obtain r where r: "search_up (\<lambda>c. lookup_id (section_dict c) x) st d = Some r"
    using search_up_returns [OF parents assms(2)] by blast
  show ?thesis
  proof (cases r)
    case (Some ds)
    obtain a where a: "a < length (cells st)" "lookup_id (section_dict (cell st a)) x = Some ds" "top_of st a = top_of st d"
      using search_up_found [OF parents assms(2) r [unfolded Some]] by auto
    have "held_ok (cells st) a (Some a) (section_dict (cell st a))"
      using store_okD [OF assms(1) a(1)] by (simp add: cell_ok_def)
    note held = held_found [OF this a(2)]
    have "top_of st s = top_of st d" if "s \<in> set ds" for s
      using held that a(3) top_of_parent [of st s a] by simp
    then have "ds \<noteq> []" "\<forall>s \<in> set ds. s < length (cells st) \<and> top_of st s = top_of st d" using held by simp_all
    then show ?thesis
      using r Some by (intro exI [of _ False]) (simp add: is_hidden_section_def is_unhidden_section_def create_section_iterator_def)
  next
    case None
    show ?thesis
    proof (cases "Option.bind (shared_dict st d) (\<lambda>g. lookup_id (section_dict g) x)")
      case (Some ds)
      then obtain g where g: "shared_dict st d = Some g" "lookup_id (section_dict g) x = Some ds"
        by (auto simp: bind_eq_Some_conv)
      obtain n where n: "template_global_dict (cell st (template_global_dict_owner (cell st d))) = Some n" "g = cell st n"
        using g(1) by (auto simp: shared_dict_def)
      have "n < length (cells st)" using shared_less [OF assms(1) owner_less [OF assms] n(1)] .
      from store_okD [OF assms(1) this] held_found g(2) n(2)
      have "ds \<noteq> []" "\<forall>s \<in> set ds. s < length (cells st)" by (fastforce simp: cell_ok_def)+
      moreover have "entries (section_dict g) \<noteq> []" using g(2) by (auto simp: lookup_id_def)
      then have "\<not> no_shared_sections st" using g(1) assms(2) unfolding no_shared_sections_def by blast
      ultimately show ?thesis
        using r None Some
        by (intro exI [of _ False]) (simp add: is_hidden_section_def is_unhidden_section_def create_section_iterator_def)
    next
      assume "Option.bind (shared_dict st d) (\<lambda>g. lookup_id (section_dict g) x) = None"
      then show ?thesis
        using r None by (intro exI [of _ True]) (simp add: is_hidden_section_def is_unhidden_section_def)
    qed
  qed
qed

lemma include_answered:
  assumes "store_ok st" "d < length (cells st)"
  shows "\<exists>b. is_hidden_template st d x = Some b \<and>
    (b \<or> (\<exists>ds. create_template_iterator st d x = Some (Inr ds) \<and> ds \<noteq> [] \<and>
      (\<forall>i < length ds. \<exists>f. get_include_template_name st d x i = Some (Inr f)) \<and>
      (\<forall>s \<in> set ds. s < length (cells st) \<and> top_of st d < top_of st s)))"
proof -
  note parents = store_ok_parents [OF assms(1)]
  obtain r where r: "search_up (\<lambda>c. lookup_id (include_dict c) x) st d = Some r"
    using search_up_returns [OF parents assms(2)] by blast
  show ?thesis
  proof (cases r)
    case (Some ds)
    obtain a where a: "a < length (cells st)" "lookup_id (include_dict (cell st a)) x = Some ds" "top_of st a = top_of st d"
      using search_up_found [OF parents assms(2) r [unfolded Some]] by auto
    have "held_ok (cells st) a None (include_dict (cell st a))"
      using store_okD [OF assms(1) a(1)] by (simp add: cell_ok_def)
    note held = held_found [OF this a(2)]
    have "top_of st d < top_of st s" if "s \<in> set ds" for s
      using held that a(3) top_of_le [of st a] top_of_top [of st s] by fastforce
    then have "ds \<noteq> []" "\<forall>s \<in> set ds. s < length (cells st) \<and> top_of st d < top_of st s" using held by simp_all
    then show ?thesis
      using r Some by (auto simp: is_hidden_template_def create_template_iterator_def get_include_template_name_def)
  next
    case None
    then show ?thesis using r by (intro exI [of _ True]) (simp add: is_hidden_template_def)
  qed
qed

end
