(* ===== verification/Template_Rendering.thy ===== *)
theory Template_Rendering
  imports Template_Expand Template_Scopes
begin

text \<open>
  Expansion against what a dictionary promises: the interface is a locale, expansion comes to an end inside it whatever
  the templates are, and the dictionaries of the library keep its laws as long as no section is shown in
  all templates at once. When one is, expansion may never end.
\<close>

section \<open>Steps that return\<close>

text \<open>A step that keeps a condition on the state of the cache, and fails only as a set of failures says: \<open>None\<close> is that it
  does not return.\<close>

definition keeps :: "(rt_error option \<Rightarrow> bool) \<Rightarrow> ('c \<Rightarrow> bool) \<Rightarrow> 'c expansion \<Rightarrow> bool" where
  "keeps B P m \<longleftrightarrow> (\<forall>c. P c \<longrightarrow> (case m c of
     None \<Rightarrow> B None | Some (Inl e) \<Rightarrow> B (Some e) | Some (Inr (ok, out, c1)) \<Rightarrow> P c1))"

abbreviation returns :: "'c expansion \<Rightarrow> bool" where
  "returns \<equiv> keeps (\<lambda>_. False) (\<lambda>_. True)"

lemma returnsD:
  assumes "returns m"
  shows "\<exists>ok out c1. m c = Some (Inr (ok, out, c1))"
proof (cases "m c")
  case (Some r)
  then show ?thesis using assms by (cases r) (auto simp: keeps_def dest: spec [of _ c])
qed (use assms in \<open>auto simp: keeps_def dest: spec [of _ c]\<close>)

lemma returnsI: "(\<And>c. \<exists>ok out c1. m c = Some (Inr (ok, out, c1))) \<Longrightarrow> returns m"
  unfolding keeps_def by (metis (mono_tags, lifting) case_prod_conv option.simps(5) sum.case(2))

lemma keepsI:
  "(\<And>c. P c \<Longrightarrow> (case m c of None \<Rightarrow> B None | Some (Inl e) \<Rightarrow> B (Some e) | Some (Inr (ok, out, c1)) \<Rightarrow> P c1)) \<Longrightarrow> keeps B P m"
  unfolding keeps_def by blast

lemma keepsD:
  "keeps B P m \<Longrightarrow> P c \<Longrightarrow> (case m c of None \<Rightarrow> B None | Some (Inl e) \<Rightarrow> B (Some e) | Some (Inr (ok, out, c1)) \<Rightarrow> P c1)"
  unfolding keeps_def by blast

lemma keeps_text [simp]: "keeps B P (emit_text s)"
  by (simp add: keeps_def emit_text_def)

lemma keeps_and_then [simp]:
  assumes "keeps B P a" "keeps B P b"
  shows "keeps B P (and_then a b)"
proof (rule keepsI)
  fix c assume "P c"
  from keepsD [OF assms(1) this] keepsD [OF assms(2)]
  show "case and_then a b c of None \<Rightarrow> B None | Some (Inl e) \<Rightarrow> B (Some e) | Some (Inr (ok, out, c1)) \<Rightarrow> P c1"
    by (fastforce simp: and_then_def split: option.splits sum.splits)
qed

lemma keeps_annotation [simp]: "keeps B P (annotation p f)"
  by (simp add: annotation_def)

lemma ask_simps [simp]: "ask (Some x) f = f x" "ask_result (Some (Inr x)) f = f x"
  by (simp_all add: ask_def ask_result_def)

lemma each_dict_keeps: "(\<And>d b. d \<in> set ds \<Longrightarrow> keeps B P (f d b)) \<Longrightarrow> keeps B P (each_dict f ds)"
  by (induction ds) auto

lemma each_dict_cong: "(\<And>d b. d \<in> set ds \<Longrightarrow> f d b = g d b) \<Longrightarrow> each_dict f ds = each_dict g ds"
  by (induction ds) auto

text \<open>Every modifier gives a text.\<close>

lemma snippet_returns: "\<exists>out. snippet_escape s = Inr out"
proof -
  have "tags_ok []" by (simp add: tags_ok_def)
  from snippet_loop_well_tagged [OF this, of s] obtain out w where
    "snippet_loop (tag_array []) [] s = Inr (out, tag_array w)" "tags_ok w" by blast
  then show ?thesis using print_closing_array by (simp add: snippet_escape_def new_tags)
qed

lemma modify_returns: "\<exists>out. modify app m s arg = Inr out"
  by (cases m) (simp_all add: snippet_returns)

lemma modified_returns: "mvs \<noteq> [] \<Longrightarrow> \<exists>out. modified_string p mvs s = Inr out"
proof (induction p mvs s rule: modified_string.induct)
  case (3 p mv mv1 mvs s)
  obtain out where "modify (app_modify p) (modifier (fst mv)) s (snd mv) = Inr out" using modify_returns by blast
  then show ?case using 3 by simp
qed (simp_all add: modify_returns)

lemma emit_modified_keeps: "any_might_modify p mvs \<Longrightarrow> keeps B P (emit_modified_string p mvs s)"
  using modified_returns [of mvs p s] by (cases mvs) (auto simp: any_might_modify_def emit_modified_string_def)

section \<open>The contract of a dictionary\<close>

text \<open>Every question has an answer; a section or an included template that is not hidden has an iterator, over
  dictionaries that are good themselves; those of an included template are deeper.\<close>

locale dictionary_contract =
  fixes I :: "'d dictionary_interface" and good :: "'d \<Rightarrow> bool" and depth :: "'d \<Rightarrow> nat"
  assumes value_answer: "good d \<Longrightarrow> \<exists>v. ask_value I d x = Some v"
    and section_answer: "good d \<Longrightarrow> \<exists>h u. ask_hidden_section I d x = Some h \<and> ask_unhidden_section I d x = Some u \<and>
      (h \<and> \<not> u \<or> (\<exists>ds. ask_section_dicts I d x = Some (Inr ds) \<and> (\<forall>s \<in> set ds. good s \<and> depth s \<le> depth d)))"
    and include_answer: "good d \<Longrightarrow> \<exists>h. ask_hidden_template I d x = Some h \<and>
      (h \<or> (\<exists>ds. ask_template_dicts I d x = Some (Inr ds) \<and> ds \<noteq> [] \<and>
        (\<forall>i < length ds. \<exists>f. ask_include_name I d x i = Some (Inr f)) \<and>
        (\<forall>s \<in> set ds. good s \<and> depth s < depth d)))"
begin

text \<open>Two ways to expand included templates that keep a condition, and agree, on every good dictionary below a depth.\<close>

definition agree_below :: "(rt_error option \<Rightarrow> bool) \<Rightarrow> ('c \<Rightarrow> bool) \<Rightarrow> nat \<Rightarrow> ('d, 'c) includer \<Rightarrow> ('d, 'c) includer \<Rightarrow> bool" where
  "agree_below B P n sub sub' \<longleftrightarrow> (\<forall>f s d. good d \<longrightarrow> depth d < n \<longrightarrow> keeps B P (sub f s d) \<and> sub' f s d = sub f s d)"

lemma agree_less: "agree_below B P n sub sub' \<Longrightarrow> m \<le> n \<Longrightarrow> agree_below B P m sub sub'"
  unfolding agree_below_def by auto

lemma variable_keeps: "good d \<Longrightarrow> keeps B P (expand_variable I p token d)"
  using value_answer [of d "token_text token"]
  by (auto simp: expand_variable_def emit_modified_keeps)

lemma include_once_keeps:
  assumes "keeps B P (sub filename strip1 d)"
  shows "keeps B P (expand_include_once p sub token strip1 filename d)"
proof -
  let ?m = "\<lambda>c. case sub filename strip1 d c of
            None \<Rightarrow> None
          | Some (Inl e) \<Rightarrow> Some (Inl e)
          | Some (Inr (ok, out, c1)) \<Rightarrow>
              if any_might_modify p (token_modvals token) then
                (if \<not> ok then Some (Inr (False, missing_include p filename, c1))
                 else emit_modified_string p (token_modvals token) out c1)
              else if \<not> ok then Some (Inr (False, out @ missing_include p filename, c1))
              else Some (Inr (True, out, c1))"
  have "keeps B P ?m"
  proof (rule keepsI)
    fix c assume P: "P c"
    show "case ?m c of None \<Rightarrow> B None | Some (Inl e) \<Rightarrow> B (Some e) | Some (Inr (ok, out, c1)) \<Rightarrow> P c1"
    proof (cases "sub filename strip1 d c")
      case (Some r)
      then show ?thesis
      proof (cases r)
        case (Inr x)
        obtain ok out c1 where x: "x = (ok, out, c1)" by (cases x) auto
        then have "P c1" using keepsD [OF assms P] Some Inr by simp
        then show ?thesis
          using Some Inr x keepsD [OF emit_modified_keeps [of p "token_modvals token" B P out], of c1] by simp
      qed (use keepsD [OF assms P] in simp)
    qed (use keepsD [OF assms P] in simp)
  qed
  then show ?thesis by (simp add: expand_include_once_def)
qed

lemma includes_agree:
  assumes "\<forall>j < length children. \<exists>f. ask_include_name I d (token_text token) (i + j) = Some (Inr f)"
    and "\<forall>child \<in> set children. \<forall>f. keeps B P (sub f strip1 child) \<and> sub' f strip1 child = sub f strip1 child"
  shows "keeps B P (expand_includes I p sub token strip1 d i children) \<and>
    expand_includes I p sub' token strip1 d i children = expand_includes I p sub token strip1 d i children"
  using assms
proof (induction children arbitrary: i)
  case (Cons child children)
  obtain f where f: "ask_include_name I d (token_text token) i = Some (Inr f)" using Cons.prems(1) [THEN spec, of 0] by auto
  have "\<forall>j < length children. \<exists>f. ask_include_name I d (token_text token) (i + 1 + j) = Some (Inr f)"
    using Cons.prems(1) by (metis Suc_less_eq add_Suc_shift length_Cons plus_1_eq_Suc add.commute)
  from Cons.IH [OF this] Cons.prems(2) have rest: "keeps B P (expand_includes I p sub token strip1 d (i + 1) children)"
    "expand_includes I p sub' token strip1 d (i + 1) children = expand_includes I p sub token strip1 d (i + 1) children" by auto
  show ?case using Cons.prems(2) f rest include_once_keeps [of B P sub f strip1 child p token]
    by (simp add: expand_include_once_def)
qed simp

lemma include_agrees:
  assumes "good d" "agree_below B P (depth d) sub sub'"
  shows "keeps B P (expand_include I p sub token strip1 d) \<and>
    expand_include I p sub' token strip1 d = expand_include I p sub token strip1 d"
proof -
  obtain h where h: "ask_hidden_template I d (token_text token) = Some h"
    "h \<or> (\<exists>ds. ask_template_dicts I d (token_text token) = Some (Inr ds) \<and> ds \<noteq> [] \<and>
        (\<forall>i < length ds. \<exists>f. ask_include_name I d (token_text token) i = Some (Inr f)) \<and>
        (\<forall>s \<in> set ds. good s \<and> depth s < depth d))"
    using include_answer [OF assms(1)] by blast
  show ?thesis
  proof (cases h)
    case False
    then obtain ds where ds: "ask_template_dicts I d (token_text token) = Some (Inr ds)" "ds \<noteq> []"
      "\<forall>i < length ds. \<exists>f. ask_include_name I d (token_text token) i = Some (Inr f)"
      "\<forall>s \<in> set ds. good s \<and> depth s < depth d" using h by blast
    have "keeps B P (expand_includes I p sub token strip1 d 0 ds) \<and>
        expand_includes I p sub' token strip1 d 0 ds = expand_includes I p sub token strip1 d 0 ds"
      using ds(3,4) assms(2) by (intro includes_agree) (auto simp: agree_below_def)
    then show ?thesis using h(1) ds False by (simp add: expand_include_def)
  qed (use h(1) in \<open>simp add: expand_include_def\<close>)
qed

lemma section_agrees:
  assumes "good d" "\<And>s b. good s \<Longrightarrow> depth s \<le> depth d \<Longrightarrow> keeps B P (f s b) \<and> g s b = f s b"
  shows "keeps B P (section_shown I token hidden d f) \<and> section_shown I token hidden d g = section_shown I token hidden d f"
proof -
  obtain h u where q: "ask_hidden_section I d (token_text token) = Some h" "ask_unhidden_section I d (token_text token) = Some u"
    "h \<and> \<not> u \<or> (\<exists>ds. ask_section_dicts I d (token_text token) = Some (Inr ds) \<and> (\<forall>s \<in> set ds. good s \<and> depth s \<le> depth d))"
    using section_answer [OF assms(1)] by blast
  have once: "keeps B P (f d True) \<and> g d True = f d True" using assms by simp
  have "keeps B P (each_dict f ds) \<and> each_dict g ds = each_dict f ds" if "\<forall>s \<in> set ds. good s \<and> depth s \<le> depth d" for ds
    using that assms(2) each_dict_keeps each_dict_cong by (metis (no_types, lifting))
  then show ?thesis using q once by (auto simp: section_shown_def)
qed

lemma nodes_agree:
  assumes "\<And>node d. node \<in> set nodes \<Longrightarrow> good d \<Longrightarrow> agree_below B P (depth d) sub sub' \<Longrightarrow>
      keeps B P (expand_node I p sub node d) \<and> expand_node I p sub' node d = expand_node I p sub node d"
    and "\<And>token nodes1 sep hidden j b d. Section_node token nodes1 sep hidden \<in> set nodes \<Longrightarrow> good d \<Longrightarrow>
      agree_below B P (depth d) sub sub' \<Longrightarrow>
      keeps B P (expand_nodes I p sub sep b j nodes1 d) \<and> expand_nodes I p sub' sep b j nodes1 d = expand_nodes I p sub sep b j nodes1 d"
    and "good d" "agree_below B P (depth d) sub sub'"
  shows "keeps B P (expand_nodes I p sub separator last_child i nodes d) \<and>
    expand_nodes I p sub' separator last_child i nodes d = expand_nodes I p sub separator last_child i nodes d"
  using assms(1,2)
proof (induction nodes arbitrary: i)
  case (Cons node nodes)
  have rest: "keeps B P (expand_nodes I p sub separator last_child (i + 1) nodes d)"
    "expand_nodes I p sub' separator last_child (i + 1) nodes d = expand_nodes I p sub separator last_child (i + 1) nodes d"
    using Cons.IH Cons.prems by (metis list.set_intros(2))+
  have one: "keeps B P (expand_node I p sub node d)" "expand_node I p sub' node d = expand_node I p sub node d"
    using Cons.prems(1) assms(3,4) by simp_all
  have inner: "keeps B P (expand_nodes I p sub sep True 0 nodes1 d)"
    "expand_nodes I p sub' sep True 0 nodes1 d = expand_nodes I p sub sep True 0 nodes1 d"
    if "node = Section_node token nodes1 sep hidden" for token nodes1 sep hidden
    using Cons.prems(2) [of token nodes1 sep hidden] assms(3,4) that by simp_all
  show ?case using rest one inner by (auto split: template_node.split)
qed simp

lemma section_node_agrees:
  "(\<forall>d. good d \<longrightarrow> agree_below B P (depth d) sub sub' \<longrightarrow>
      keeps B P (expand_node I p sub node d) \<and> expand_node I p sub' node d = expand_node I p sub node d) \<and>
   (\<forall>token nodes sep hidden j b d. node = Section_node token nodes sep hidden \<longrightarrow> good d \<longrightarrow> agree_below B P (depth d) sub sub' \<longrightarrow>
      keeps B P (expand_nodes I p sub sep b j nodes d) \<and> expand_nodes I p sub' sep b j nodes d = expand_nodes I p sub sep b j nodes d)"
proof (induction node)
  case (Section_node token nodes separator hidden)
  have inner: "keeps B P (expand_nodes I p sub sep b j nodes d) \<and>
      expand_nodes I p sub' sep b j nodes d = expand_nodes I p sub sep b j nodes d"
    if "good d" "agree_below B P (depth d) sub sub'" for sep b j d
  proof (rule nodes_agree [OF _ _ that])
    fix node d assume "node \<in> set nodes" "good d" "agree_below B P (depth d) sub sub'"
    with Section_node.IH [of node]
    show "keeps B P (expand_node I p sub node d) \<and> expand_node I p sub' node d = expand_node I p sub node d" by simp
  next
    fix token nodes1 sep hidden j b d
    assume "Section_node token nodes1 sep hidden \<in> set nodes" "good d" "agree_below B P (depth d) sub sub'"
    with Section_node.IH [of "Section_node token nodes1 sep hidden"]
    show "keeps B P (expand_nodes I p sub sep b j nodes1 d) \<and> expand_nodes I p sub' sep b j nodes1 d = expand_nodes I p sub sep b j nodes1 d"
      by simp
  qed
  have "keeps B P (expand_node I p sub (Section_node token nodes separator hidden) d) \<and>
      expand_node I p sub' (Section_node token nodes separator hidden) d = expand_node I p sub (Section_node token nodes separator hidden) d"
    if d: "good d" "agree_below B P (depth d) sub sub'" for d
  proof -
    have "agree_below B P (depth s) sub sub'" if "depth s \<le> depth d" for s using agree_less [OF d(2) that] .
    then show ?thesis using inner unfolding expand_node.simps by (intro section_agrees [OF d(1)]) simp
  qed
  then show ?case using inner by blast
qed (simp_all add: variable_keeps include_agrees)

lemma tree_agrees:
  assumes "good d" "agree_below B P (depth d) sub sub'"
  shows "keeps B P (expand_tree I p sub t d) \<and> expand_tree I p sub' t d = expand_tree I p sub t d"
proof -
  have node: "keeps B P (expand_node I p sub (rt_tree t) d)" "expand_node I p sub' (rt_tree t) d = expand_node I p sub (rt_tree t) d"
    using section_node_agrees assms by blast+
  have "keeps B P (\<lambda>c. case expand_node I p sub (rt_tree t) d c of
                       None \<Rightarrow> None
                     | Some (Inl e) \<Rightarrow> Some (Inl e)
                     | Some (Inr (ok, out, c1)) \<Rightarrow> Some (Inr (ok, change out (rt_file t), c1)))" for change :: "string \<Rightarrow> string \<Rightarrow> string"
    using keepsD [OF node(1)] by (intro keepsI) (fastforce split: option.splits sum.splits)
  then show ?thesis using node by (simp add: expand_tree_def split: option.split)
qed

text \<open>More fuel than the depth of the dictionary is enough, and more changes nothing.\<close>

lemma expansion_ends:
  assumes "\<And>f s c. \<exists>t c1. load f s c = Some (Inr (t, c1))"
  shows "good d \<Longrightarrow> depth d < n \<Longrightarrow> n \<le> m \<Longrightarrow>
    returns (expand_template I p load n filename strip1 d) \<and>
    expand_template I p load m filename strip1 d = expand_template I p load n filename strip1 d"
proof (induction n arbitrary: m filename strip1 d)
  case (Suc n)
  obtain k where m: "m = Suc k" "n \<le> k" using Suc.prems(3) by (cases m) auto
  have agree: "agree_below (\<lambda>_. False) (\<lambda>_. True) (depth d) (expand_template I p load n) (expand_template I p load k)"
    unfolding agree_below_def
  proof (intro allI impI)
    fix f s d1 assume "good d1" "depth d1 < depth d"
    then show "returns (expand_template I p load n f s d1) \<and>
        expand_template I p load k f s d1 = expand_template I p load n f s d1"
      using Suc.prems(2) m(2) by (intro Suc.IH) simp_all
  qed
  note tree = tree_agrees [OF Suc.prems(1) agree]
  have "\<exists>ok out c2. expand_template I p load (Suc n) filename strip1 d c = Some (Inr (ok, out, c2))" for c
  proof -
    obtain t c1 where load: "load filename strip1 c = Some (Inr (t, c1))" using assms by blast
    show ?thesis
    proof (cases t)
      case (Some t1)
      then show ?thesis using load returnsD [of "expand_tree I p (expand_template I p load n) t1 d" c1] tree by simp
    qed (use load in auto)
  qed
  then have "returns (expand_template I p load (Suc n) filename strip1 d)" by (rule returnsI)
  moreover have "expand_template I p load m filename strip1 d = expand_template I p load (Suc n) filename strip1 d"
    using tree by (intro ext) (simp add: m(1) split: option.split sum.split)
  ultimately show ?case by (rule conjI)
qed simp

end

section \<open>The dictionaries of the library\<close>

definition store_interface :: "dict_store \<Rightarrow> nat dictionary_interface" where
  "store_interface st =
     \<lparr>ask_value = get_value st, ask_hidden_section = is_hidden_section st, ask_unhidden_section = is_unhidden_section st,
      ask_hidden_template = is_hidden_template st, ask_include_name = get_include_template_name st,
      ask_template_dicts = create_template_iterator st, ask_section_dicts = create_section_iterator st\<rparr>"

definition good_dict :: "dict_store \<Rightarrow> nat \<Rightarrow> bool" where
  "good_dict st d \<longleftrightarrow> store_ok st \<and> no_shared_sections st \<and> d < length (cells st)"

definition dict_depth :: "dict_store \<Rightarrow> nat \<Rightarrow> nat" where
  "dict_depth st d = length (cells st) - top_of st d"

interpretation dictionaries: dictionary_contract "store_interface st" "good_dict st" "dict_depth st" for st
proof
  fix d x assume "good_dict st d"
  then have ok: "store_ok st" "no_shared_sections st" "d < length (cells st)" by (simp_all add: good_dict_def)
  show "\<exists>v. ask_value (store_interface st) d x = Some v"
    using value_answered [OF ok(1,3)] by (simp add: store_interface_def)
  obtain b where b: "is_hidden_section st d x = Some b" "is_unhidden_section st d x = Some (\<not> b)"
    "b \<or> (\<exists>ds. create_section_iterator st d x = Some (Inr ds) \<and> ds \<noteq> [] \<and>
      (\<forall>s \<in> set ds. s < length (cells st) \<and> (no_shared_sections st \<longrightarrow> top_of st s = top_of st d)))"
    using section_answered [OF ok(1,3)] by blast
  then show "\<exists>h u. ask_hidden_section (store_interface st) d x = Some h \<and> ask_unhidden_section (store_interface st) d x = Some u \<and>
      (h \<and> \<not> u \<or> (\<exists>ds. ask_section_dicts (store_interface st) d x = Some (Inr ds) \<and>
        (\<forall>s \<in> set ds. good_dict st s \<and> dict_depth st s \<le> dict_depth st d)))"
    using ok by (auto simp: store_interface_def good_dict_def dict_depth_def)
  obtain h where h: "is_hidden_template st d x = Some h"
    "h \<or> (\<exists>ds. create_template_iterator st d x = Some (Inr ds) \<and> ds \<noteq> [] \<and>
      (\<forall>i < length ds. \<exists>f. get_include_template_name st d x i = Some (Inr f)) \<and>
      (\<forall>s \<in> set ds. s < length (cells st) \<and> top_of st d < top_of st s))"
    using include_answered [OF ok(1,3)] by blast
  have "good_dict st s \<and> dict_depth st s < dict_depth st d" if "s < length (cells st)" "top_of st d < top_of st s" for s
    using that ok top_of_le [of st s] by (simp add: good_dict_def dict_depth_def)
  then show "\<exists>h. ask_hidden_template (store_interface st) d x = Some h \<and>
      (h \<or> (\<exists>ds. ask_template_dicts (store_interface st) d x = Some (Inr ds) \<and> ds \<noteq> [] \<and>
        (\<forall>i < length ds. \<exists>f. ask_include_name (store_interface st) d x i = Some (Inr f)) \<and>
        (\<forall>s \<in> set ds. good_dict st s \<and> dict_depth st s < dict_depth st d)))"
    using h by (auto simp: store_interface_def)
qed


text \<open>A template that includes itself, with a dictionary for its first inclusion and none for the next.\<close>

definition self_include :: "string \<Rightarrow> string \<Rightarrow> dict_store" where
  "self_include x f =
     set_filename 1 f (snd (add_include_dictionary 0 x (snd (new_template_dictionary ''page'' setup_global_dict))))"

lemma self_include_cells:
  "\<exists>n0 n1. cells (self_include x f) =
     [(empty_dictionary n0 0 None)\<lparr>include_dict := hash_insert x [1] None\<rparr>,
      (empty_dictionary n1 0 None)\<lparr>dict_filename := Some (cstr f)\<rparr>]"
  by (simp add: self_include_def set_filename_def add_include_dictionary_def create_template_subdict_def new_template_dictionary_def
      Let_def setup_global_dict_def empty_dictionary_def dicts_of_def lookup_id_def entries_def)

lemma self_include_reachable: "dict_call\<^sup>*\<^sup>* setup_global_dict (self_include x f)"
proof -
  let ?a = "snd (new_template_dictionary ''page'' setup_global_dict)"
  let ?b = "snd (add_include_dictionary 0 x ?a)"
  have len: "length (cells ?a) = 1" by (simp add: new_template_dictionary_def Let_def setup_global_dict_def)
  then have "length (cells ?b) = 2" using add_include_cells(2) [of 0 ?a x] by auto
  then have "dict_call ?b (self_include x f)" unfolding self_include_def by (intro Call_filename) simp
  moreover have "dict_call ?a ?b" using len by (intro Call_include) simp
  moreover have "dict_call setup_global_dict ?a" by (rule Call_new)
  ultimately show ?thesis by (meson r_into_rtranclp rtranclp.rtrancl_into_rtrancl)
qed

definition page_loader :: "template_node \<Rightarrow> unit loader" where
  "page_loader tree f strip1 c = Some (Inr (Some \<lparr>rt_tree = tree, rt_file = f\<rparr>, c))"

lemma page_loader_apply: "page_loader tree f strip1 c = Some (Inr (Some \<lparr>rt_tree = tree, rt_file = f\<rparr>, c))"
  by (simp add: page_loader_def)

definition no_data :: per_expand_data where
  "no_data = \<lparr>annotate_path = None, set_annotator = None, expand_modifier = None, app_modify = (\<lambda>_ s _. s), app_might_modify = (\<lambda>_ _. False)\<rparr>"


section \<open>A section for all templates\<close>

text \<open>The same dictionaries, and a section that is shown in all templates.\<close>

definition shared_section :: "string \<Rightarrow> string \<Rightarrow> string \<Rightarrow> dict_store" where
  "shared_section x s f = show_template_global_section 0 s (self_include x f)"

lemma shared_section_cells:
  "\<exists>n0 n1. cells (shared_section x s f) =
     [(empty_dictionary n0 0 None)\<lparr>include_dict := hash_insert x [1] None, template_global_dict := Some 2\<rparr>,
      (empty_dictionary n1 0 None)\<lparr>dict_filename := Some (cstr f)\<rparr>,
      (empty_dictionary ''Template Globals'' 0 (Some 0))\<lparr>section_dict := hash_insert s [3] None\<rparr>,
      empty_dictionary ''empty dictionary'' 0 (Some 2)]"
proof -
  obtain n0 n1 where cs: "cells (self_include x f) =
     [(empty_dictionary n0 0 None)\<lparr>include_dict := hash_insert x [1] None\<rparr>,
      (empty_dictionary n1 0 None)\<lparr>dict_filename := Some (cstr f)\<rparr>]"
    using self_include_cells by blast
  have "cells (shared_section x s f) =
     [(empty_dictionary n0 0 None)\<lparr>include_dict := hash_insert x [1] None, template_global_dict := Some 2\<rparr>,
      (empty_dictionary n1 0 None)\<lparr>dict_filename := Some (cstr f)\<rparr>,
      (empty_dictionary ''Template Globals'' 0 (Some 0))\<lparr>section_dict := hash_insert s [3] None\<rparr>,
      empty_dictionary ''empty dictionary'' 0 (Some 2)]"
    by (simp add: shared_section_def show_template_global_section_def lazy_create_template_global_dict_def
        show_section_def create_template_subdict_def update_cell_def Let_def cs nth_append empty_dictionary_def lookup_id_def entries_def
        numeral_2_eq_2 numeral_3_eq_3)
  then show ?thesis by blast
qed

lemma shared_section_answers:
  assumes "d = 0 \<or> d = 1"
  shows "is_hidden_section (shared_section x s f) d s = Some False"
    and "create_section_iterator (shared_section x s f) d s = Some (Inr [3])"
    and "is_hidden_template (shared_section x s f) 3 x = Some False"
    and "create_template_iterator (shared_section x s f) 3 x = Some (Inr [1])"
    and "get_include_template_name (shared_section x s f) 3 x 0 = Some (Inr (cstr f))"
proof -
  let ?st = "shared_section x s f"
  obtain n0 n1 where cs: "cells ?st =
     [(empty_dictionary n0 0 None)\<lparr>include_dict := hash_insert x [1] None, template_global_dict := Some 2\<rparr>,
      (empty_dictionary n1 0 None)\<lparr>dict_filename := Some (cstr f)\<rparr>,
      (empty_dictionary ''Template Globals'' 0 (Some 0))\<lparr>section_dict := hash_insert s [3] None\<rparr>,
      empty_dictionary ''empty dictionary'' 0 (Some 2)]"
    using shared_section_cells by blast
  have none: "lookup_id None k = (None :: 'a option)" for k by (simp add: lookup_id_def entries_def)
  have here: "search_up (\<lambda>c. lookup_id (section_dict c) s) ?st d = Some None"
    using assms by (auto intro!: search_top simp: cs none)
  have shared: "Option.bind (shared_dict ?st d) (\<lambda>g. lookup_id (section_dict g) s) = Some [3]"
    using assms by (auto simp: shared_dict_def cs lookup_insert)
  have "search_up (\<lambda>c. lookup_id (include_dict c) x) ?st 3 = search_up (\<lambda>c. lookup_id (include_dict c) x) ?st 2"
    by (rule search_parent) (simp_all add: cs none numeral_3_eq_3)
  also have "\<dots> = search_up (\<lambda>c. lookup_id (include_dict c) x) ?st 0"
    by (rule search_parent) (simp_all add: cs none numeral_2_eq_2)
  also have "\<dots> = Some (Some [1])" by (rule search_here) (simp add: cs lookup_insert)
  finally have include1: "search_up (\<lambda>c. lookup_id (include_dict c) x) ?st 3 = Some (Some [1])" .
  show "is_hidden_section ?st d s = Some False" by (simp add: is_hidden_section_def here shared)
  show "create_section_iterator ?st d s = Some (Inr [3])" by (simp add: create_section_iterator_def here shared)
  show "is_hidden_template ?st 3 x = Some False" by (simp add: is_hidden_template_def include1)
  show "create_template_iterator ?st 3 x = Some (Inr [1])" by (simp add: create_template_iterator_def include1)
  show "get_include_template_name ?st 3 x 0 = Some (Inr (cstr f))"
    by (simp add: get_include_template_name_def include1 cs)
qed

text \<open>The tree of \<open>{{#S}}{{>X}}{{/S}}\<close>, for any names.\<close>

definition self_including_tree :: "string \<Rightarrow> string \<Rightarrow> template_node" where
  "self_including_tree x s =
     Section_node (Token TOKENTYPE_SECTION_START k_main_section_name [])
       [Section_node (Token TOKENTYPE_SECTION_START s []) [Template_node (Token TOKENTYPE_TEMPLATE x []) DO_NOT_STRIP []] None False]
       None False"

lemma and_then_none:
  "a c = None \<Longrightarrow> and_then a b c = None" "b () = None \<Longrightarrow> and_then (emit_text t) b () = None"
  "b () = None \<Longrightarrow> and_then (annotation p h) b () = None"
  by (simp_all add: and_then_def emit_text_def annotation_def)

lemma template_none:
  assumes "load g strip1 () = Some (Inr (Some t, ()))"
    and "expand_node I p (expand_template I p load n) (rt_tree t) d () = None"
  shows "expand_template I p load (Suc n) g strip1 d () = None"
  using assms by (auto simp: expand_tree_def and_then_none split: option.split)

text \<open>C39: the dictionaries for included templates stop a template that includes itself, unless the application shows a section in
  all templates (\<open>ShowTemplateGlobalSection\<close>): the dictionary of such a section belongs to the outermost template, so
  the includes of that one are found again inside of it, and the expansion of a page whose section
  includes the page itself never returns, however deep the calls may nest.\<close>

theorem shared_section_never_ends:
  assumes "s \<noteq> k_main_section_name" "cstr f \<noteq> []"
  shows "expand_template (store_interface (shared_section x s f)) p (page_loader (self_including_tree x s)) n f DO_NOT_STRIP 0 () = None"
proof -
  have "expand_template (store_interface (shared_section x s f)) p (page_loader (self_including_tree x s)) n g DO_NOT_STRIP d () = None"
    if "d = 0 \<or> d = 1" for g d
    using that
  proof (induction n arbitrary: g d)
    case (Suc n)
    let ?I = "store_interface (shared_section x s f)"
    let ?sub = "expand_template ?I p (page_loader (self_including_tree x s)) n"
    have once: "expand_include_once p ?sub (Token TOKENTYPE_TEMPLATE x []) DO_NOT_STRIP (cstr f) 1 () = None"
      unfolding expand_include_once_def by (rule and_then_none, rule and_then_none) (simp add: Suc.IH)
    have incl: "expand_include ?I p ?sub (Token TOKENTYPE_TEMPLATE x []) DO_NOT_STRIP 3 () = None"
      using assms(2) shared_section_answers [of 0 x s f] once
      by (simp add: expand_include_def store_interface_def and_then_none)
    have nodes: "expand_nodes ?I p ?sub None b 0 [Template_node (Token TOKENTYPE_TEMPLATE x []) DO_NOT_STRIP []] 3 () = None" for b
      by (simp add: and_then_none incl)
    have sec: "expand_node ?I p ?sub (Section_node (Token TOKENTYPE_SECTION_START s [])
        [Template_node (Token TOKENTYPE_TEMPLATE x []) DO_NOT_STRIP []] None False) d () = None"
      using assms(1) shared_section_answers [OF Suc.prems, of x s f] nodes
      by (simp del: expand_node.simps(4) expand_nodes.simps add: expand_node.simps(5) section_shown_def store_interface_def and_then_none)
    have main: "expand_node ?I p sub (Section_node (Token TOKENTYPE_SECTION_START k_main_section_name []) [node] None False) d () = None"
      if "expand_node ?I p sub node d () = None" for sub node
      using that by (simp add: section_shown_def and_then_none)
    have none: "expand_node ?I p ?sub (self_including_tree x s) d () = None"
      using main [OF sec] by (subst (2) self_including_tree_def)
    show ?case
      by (rule template_none [of _ _ _ "\<lparr>rt_tree = self_including_tree x s, rt_file = g\<rparr>"], rule page_loader_apply)
        (simp only: ready_template.simps none)
  qed simp
  then show ?thesis by simp
qed

theorem shared_section_never_ends_witness:
  "expand_template (store_interface (shared_section ''X'' ''S'' ''t'')) no_data (page_loader (self_including_tree ''X'' ''S''))
    100 ''t'' DO_NOT_STRIP 0 () = None"
  using shared_section_never_ends [of "''S''" "''t''" "''X''" no_data 100] by (simp add: k_main_section_name_def)

end
