(* ===== verification/Template_Syntax.thy ===== *)
theory Template_Syntax
  imports Template_Parser
begin

text \<open>
  What an author of templates writes, as a data type, and that the parser of the theory \<open>Template_Parser\<close>
  reads it: the text of a template without pragmas and comments gives the tree of its parts, and
  sections that are not closed give none.
\<close>

section \<open>Templates as they are written\<close>

text \<open>A marker with the text before it; a section also has the text after its last marker. The modifiers of a variable have
  their names beside them.\<close>

datatype part =
    Variable_part string string "(string \<times> modifier_info) list"
  | Include_part string string
  | Section_part string string "part list" string

definition modifiers_text :: "(string \<times> modifier_info) list \<Rightarrow> string" where
  "modifiers_text ms = concat (map (\<lambda>(m, i). CHR '':'' # m) ms)"

lemma modifiers_text_simps [simp]:
  "modifiers_text [] = []" "modifiers_text ((m, i) # ms) = CHR '':'' # m @ modifiers_text ms"
  by (simp_all add: modifiers_text_def)

fun part_text :: "part \<Rightarrow> string" where
  "part_text (Variable_part s n ms) = s @ ''{{'' @ n @ modifiers_text ms @ ''}}''"
| "part_text (Include_part s n) = s @ ''{{>'' @ n @ ''}}''"
| "part_text (Section_part s n ps s1) =
     s @ ''{{#'' @ n @ ''}}'' @ concat (map part_text ps) @ s1 @ ''{{/'' @ n @ ''}}''"

abbreviation parts_text :: "part list \<Rightarrow> string" where
  "parts_text ps \<equiv> concat (map part_text ps)"

text \<open>Text has no start marker, and no backslash before a line end, which would be dropped after some markers.\<close>

definition text_ok :: "string \<Rightarrow> bool" where
  "text_ok s \<longleftrightarrow> (\<forall>i. \<not> occurs_at ''{{'' s i) \<and> take 2 s \<noteq> [BSL, LF]"

text \<open>A modifier that the parser knows and that takes no value.\<close>

definition modifier_name_ok :: "registry \<Rightarrow> string \<times> modifier_info \<Rightarrow> bool" where
  "modifier_name_ok r mi \<longleftrightarrow>
     set (fst mi) \<inter> {CHR '':'', CHR ''='', CHR ''}''} = {} \<and>
     find_modifier (fst mi) [] r = Inr (Some (snd mi), r) \<and> \<not> modval_required (snd mi)"

fun written_ok :: "registry \<Rightarrow> part \<Rightarrow> bool" where
  "written_ok r (Variable_part s n ms) \<longleftrightarrow> text_ok s \<and> is_valid_name n \<and> list_all (modifier_name_ok r) ms"
| "written_ok r (Include_part s n) \<longleftrightarrow> text_ok s \<and> is_valid_name n"
| "written_ok r (Section_part s n ps s1) \<longleftrightarrow> text_ok s \<and> is_valid_name n \<and> list_all (written_ok r) ps \<and> text_ok s1"

text \<open>What the parser makes of them.\<close>

definition text_in :: "string \<Rightarrow> section_builder \<Rightarrow> section_builder" where
  "text_in s sec =
     (if s = [] then sec else push_node (Text_node (Token TOKENTYPE_TEXT s [])) sec)
       \<lparr>indentation := get_indentation s (indentation sec = [LF])\<rparr>"

fun part_in :: "part \<Rightarrow> section_builder \<Rightarrow> section_builder" where
  "part_in (Variable_part s n ms) sec =
     (push_node (Variable_node (Token TOKENTYPE_VARIABLE n (map (\<lambda>(m, i). (i, [])) ms))) (text_in s sec))\<lparr>indentation := []\<rparr>"
| "part_in (Include_part s n) sec =
     (let sec1 = text_in s sec
      in (push_node (new_template_node (Token TOKENTYPE_TEMPLATE n []) DO_NOT_STRIP (indentation sec1)) sec1)\<lparr>indentation := []\<rparr>)"
| "part_in (Section_part s n ps s1) sec =
     (add_section_node
        ((text_in s1 (fold part_in ps (new_section (Token TOKENTYPE_SECTION_START n []) False)))\<lparr>indentation := []\<rparr>)
        (text_in s sec))\<lparr>indentation := []\<rparr>"

section \<open>Where markers begin and end\<close>

lemma occurs_two: "occurs_at [a, b] s j \<longleftrightarrow> j + 1 < length s \<and> s ! j = a \<and> s ! (j + 1) = b"
proof -
  have "take 2 (drop j s) = [s ! j, s ! (j + 1)]" if "j + 1 < length s"
    using that by (simp add: Cons_nth_drop_Suc [symmetric] numeral_2_eq_2)
  then show ?thesis by (auto simp: occurs_at_def numeral_2_eq_2 Suc_le_eq)
qed

lemma last_start_occurs:
  "last_start s w k = (if occurs_at w s (k + 1) then last_start s w (k + 1) else k)"
  by (subst last_start.simps) (simp add: occurs_at_def)

lemma text_end:
  assumes "\<forall>i. \<not> occurs_at ''{{'' s i" "m \<noteq> []" "hd m \<noteq> CHR ''{''"
  shows "\<exists>i. memmatch (s @ ''{{'' @ m) ''{{'' = Some i \<and> last_start (s @ ''{{'' @ m) ''{{'' i = length s"
proof -
  let ?s = "s @ ''{{'' @ m" and ?n = "length s"
  have here: "occurs_at ''{{'' ?s ?n" by (simp add: occurs_two nth_append)
  have after: "\<not> occurs_at ''{{'' ?s (?n + 1)"
    using assms(2,3) by (cases m) (simp_all add: occurs_two nth_append)
  have before: "\<not> occurs_at ''{{'' ?s j" if "j + 1 < ?n" for j
    using assms(1) [THEN spec, of j] that by (simp add: occurs_two nth_append)
  have stop: "last_start ?s ''{{'' ?n = ?n" using after by (subst last_start_occurs) simp
  show ?thesis
  proof (cases "?n > 0 \<and> occurs_at ''{{'' ?s (?n - 1)")
    case True
    then have "memmatch ?s ''{{'' = Some (?n - 1)" using before by (auto simp: memmatch_Some)
    moreover have "last_start ?s ''{{'' (?n - 1) = ?n"
      using True here stop by (subst last_start_occurs) simp
    ultimately show ?thesis by blast
  next
    case False
    have "\<not> occurs_at ''{{'' ?s j" if "j < ?n" for j
      using before [of j] False that by (cases "j + 1 < ?n") (auto simp: less_Suc_eq, metis One_nat_def Suc_lessI diff_Suc_1 zero_less_Suc)
    then have "memmatch ?s ''{{'' = Some ?n" using here by (simp add: memmatch_Some)
    then show ?thesis using stop by blast
  qed
qed

lemma marker_closed: "CHR ''}'' \<notin> set w \<Longrightarrow> memmatch (w @ ''}}'' @ r) ''}}'' = Some (length w)"
proof -
  assume w: "CHR ''}'' \<notin> set w"
  have "\<not> occurs_at ''}}'' (w @ ''}}'' @ r) j" if "j < length w" for j
  proof -
    have "w ! j \<noteq> CHR ''}''" using w nth_mem [OF that] by metis
    then show ?thesis using that by (simp add: occurs_two nth_append)
  qed
  moreover have "occurs_at ''}}'' (w @ ''}}'' @ r) (length w)" by (simp add: occurs_two nth_append)
  ultimately show ?thesis by (simp add: memmatch_Some)
qed

section \<open>Single tokens\<close>

text \<open>A template on which no error was found and that has no pragma and the usual markers.\<close>

definition plain_template :: "template \<Rightarrow> bool" where
  "plain_template t \<longleftrightarrow>
     tpl_state t \<noteq> TS_ERROR \<and> current_delimiters t = default_delimiters \<and> initial_context t = TC_MANUAL \<and>
     tpl_strip t = DO_NOT_STRIP"

lemma plain_update [simp]:
  "plain_template (t\<lparr>buf := b\<rparr>) = plain_template t" "plain_template (t\<lparr>parse_phase := p\<rparr>) = plain_template t"
  by (simp_all add: plain_template_def)

lemma same_modifiers: "known_modifiers t = r \<Longrightarrow> t\<lparr>known_modifiers := r\<rparr> = t"
  by (cases t) simp

lemma get_token_step:
  assumes "tpl_state t \<noteq> TS_ERROR" "buf t \<noteq> []" "get_next_token t = Inr (token, t1)"
    and "token_type token \<noteq> TOKENTYPE_SECTION_START" "token_type token \<noteq> TOKENTYPE_HIDDEN_DEFAULT_SECTION"
    and "add_token token sec t1 = Inr (True, sec2, t2)"
  shows "add_subnodes sec t = add_subnodes sec2 t2"
  using assms by (simp add: add_subnodes.simps [of sec t] add_subnode.simps [of sec t])

lemma step_text:
  assumes "plain_template t" "parse_phase t = GETTING_TEXT" "buf t = s @ ''{{'' @ m"
    and "text_ok s" "m \<noteq> []" "hd m \<noteq> CHR ''{''"
  shows "add_subnodes sec t = add_subnodes (text_in s sec) (t\<lparr>parse_phase := GETTING_NAME, buf := m\<rparr>)"
proof -
  obtain i where i: "memmatch (buf t) ''{{'' = Some i" "last_start (buf t) ''{{'' i = length s"
    using text_end [OF _ assms(5,6), of s] assms(3,4) by (auto simp: text_ok_def)
  have tok: "get_next_token t = Inr (Token TOKENTYPE_TEXT s [], t\<lparr>parse_phase := GETTING_NAME, buf := m\<rparr>)"
    using assms(1-3) i by (simp add: get_next_token_def next_text_def Let_def plain_template_def default_delimiters_def)
  show ?thesis
    by (rule get_token_step [OF _ _ tok])
      (use assms(1,3) in \<open>auto simp: plain_template_def add_token_def add_text_node_def after_node_def text_in_def
        auto_escape_parsing_context_def Let_def\<close>)
qed

lemma step_last_text:
  assumes "plain_template t" "parse_phase t = GETTING_TEXT" "buf t = s" "text_ok s" "s \<noteq> []"
  shows "add_subnodes sec t = add_subnodes (text_in s sec) (t\<lparr>buf := []\<rparr>)"
proof -
  have "memmatch s ''{{'' = None" using assms(4) by (simp add: text_ok_def memmatch_None)
  then have tok: "get_next_token t = Inr (Token TOKENTYPE_TEXT s [], t\<lparr>buf := []\<rparr>)"
    using assms(1-3,5) by (simp add: get_next_token_def next_text_def Let_def plain_template_def default_delimiters_def)
  show ?thesis
    by (rule get_token_step [OF _ _ tok])
      (use assms(1,3,5) in \<open>auto simp: plain_template_def add_token_def add_text_node_def after_node_def text_in_def
        auto_escape_parsing_context_def Let_def\<close>)
qed

lemma name_chars:
  assumes "is_valid_name n"
  shows "set n \<inter> {CHR ''#'', CHR ''/'', CHR ''!'', CHR ''='', CHR ''>'', CHR ''%'', CHR '':'', CHR ''}'', CHR ''{''} = {}"
  using assms by (auto simp: is_valid_name_def list_all_iff ascii_isalnum_def is_alnum_def)

lemma no_newline_eaten: "take 2 s \<noteq> [BSL, LF] \<Longrightarrow> maybe_eat_newline s DO_NOT_STRIP = s"
proof -
  assume s: "take 2 s \<noteq> [BSL, LF]"
  have "take 2 s = [s ! 0, s ! 1]" if "length s \<ge> 2"
    using that by (cases s; cases "tl s") (auto simp: numeral_2_eq_2)
  then show ?thesis using s by (auto simp: maybe_eat_newline_def)
qed

lemma modifiers_read:
  assumes "list_all (modifier_name_ok r) ms"
  shows "parse_modifiers (modifiers_text ms) r done = Inr (Some (done @ map (\<lambda>(m, i). (i, [])) ms), r)"
  using assms
proof (induction ms arbitrary: "done")
  case Nil
  then show ?case by (simp add: modifiers_text_def parse_modifiers.simps)
next
  case (Cons mi ms)
  obtain m i where mi: "mi = (m, i)" by (rule prod.exhaust)
  have ok: "CHR '':'' \<notin> set m" "CHR ''='' \<notin> set m" "find_modifier m [] r = Inr (Some i, r)" "\<not> modval_required i"
    using Cons.prems by (auto simp: mi modifier_name_ok_def)
  have next1: "memchr (CHR '':'') (m @ modifiers_text ms) = (if ms = [] then None else Some (length m))"
    using ok(1) by (cases ms) (auto simp: modifiers_text_def memchr_None memchr_append)
  have "memchr (CHR ''='') m = None" using ok(2) by (simp add: memchr_None)
  then show ?case
    using Cons.IH [of "done @ [(i, [])]"] Cons.prems ok(3,4) next1
    by (simp add: parse_modifiers.simps [of "CHR '':'' # m @ modifiers_text ms"] Let_def mi)
qed

lemma step_variable:
  assumes "plain_template t" "parse_phase t = GETTING_NAME" "buf t = n @ modifiers_text ms @ ''}}'' @ rest"
    and "is_valid_name n" "list_all (modifier_name_ok (known_modifiers t)) ms"
  shows "add_subnodes sec t =
    add_subnodes ((push_node (Variable_node (Token TOKENTYPE_VARIABLE n (map (\<lambda>(m, i). (i, [])) ms))) sec)\<lparr>indentation := []\<rparr>)
      (t\<lparr>parse_phase := GETTING_TEXT, buf := rest\<rparr>)"
proof -
  let ?w = "n @ modifiers_text ms"
  have colon: "modifiers_text ms = [] \<or> hd (modifiers_text ms) = CHR '':''"
    by (cases ms) (auto simp: modifiers_text_def)
  have "hd (buf t) \<in> set n \<union> {CHR '':'', CHR ''}''}"
    using assms(3) colon by (cases n; cases "modifiers_text ms") auto
  then have mt: "marker_type (hd (buf t)) = (TOKENTYPE_VARIABLE, 0)"
    using name_chars [OF assms(4)] by (auto simp: marker_type_def)
  have "CHR ''}'' \<notin> set (modifiers_text ms)"
    using assms(5) by (force simp: modifiers_text_def list_all_iff modifier_name_ok_def)
  then have closed: "memmatch (buf t) ''}}'' = Some (length ?w)"
    using marker_closed [of ?w rest] name_chars [OF assms(4)] assms(3) by auto
  have colon_at: "(case memchr (CHR '':'') ?w of None \<Rightarrow> length ?w | Some i \<Rightarrow> i) = length n"
  proof (cases "modifiers_text ms")
    case Nil
    have "memchr (CHR '':'') n = None" using name_chars [OF assms(4)] by (auto simp: memchr_None)
    then show ?thesis using Nil by simp
  next
    case (Cons c w)
    then have "c = CHR '':''" using colon by simp
    then show ?thesis using Cons name_chars [OF assms(4)] by (auto simp: memchr_append)
  qed
  have finish: "finish_name TOKENTYPE_VARIABLE ?w rest t = Inr (Token TOKENTYPE_VARIABLE n (map (\<lambda>(m, i). (i, [])) ms),
      t\<lparr>parse_phase := GETTING_TEXT, buf := rest\<rparr>)"
    unfolding finish_name_def Let_def colon_at
    using modifiers_read [OF assms(5), of "[]"] assms(4) by (simp add: same_modifiers)
  have body: "take (length ?w) (buf t) = ?w" "drop (length ?w + 2) (buf t) = rest" by (simp_all add: assms(3))
  have "next_name t = finish_marker TOKENTYPE_VARIABLE ?w rest t"
    using mt closed body assms(1)
    by (simp add: next_name_def marker_end_def Let_def plain_template_def default_delimiters_def del: take_append drop_append)
  then have tok: "get_next_token t = Inr (Token TOKENTYPE_VARIABLE n (map (\<lambda>(m, i). (i, [])) ms),
      t\<lparr>parse_phase := GETTING_TEXT, buf := rest\<rparr>)"
    using assms(2,3) finish by (simp add: get_next_token_def finish_marker_def)
  show ?thesis
    by (rule get_token_step [OF _ _ tok])
      (use assms(1,3) in \<open>auto simp: plain_template_def add_token_def add_variable_node_def after_node_def auto_escape_mode_def Let_def\<close>)
qed

definition goes_on :: "string \<Rightarrow> bool" where
  "goes_on s \<longleftrightarrow> take 2 s \<noteq> [BSL, LF]"

lemma goes_on_text: "text_ok s \<Longrightarrow> goes_on (s @ CHR ''{'' # m)" "text_ok s \<Longrightarrow> goes_on s"
proof -
  assume ok: "text_ok s"
  have "length s \<ge> 2 \<or> s = [] \<or> (\<exists>c. s = [c])" by (cases s; cases "tl s") auto
  then show "goes_on (s @ CHR ''{'' # m)" using ok by (auto simp: goes_on_def text_ok_def numeral_2_eq_2)
  show "goes_on s" using ok by (simp add: goes_on_def text_ok_def)
qed

lemma block_token:
  assumes "plain_template t" "parse_phase t = GETTING_NAME" "buf t = c # n @ ''}}'' @ rest"
    and "is_valid_name n" "marker_type c = (ty, 1)" "ty \<in> {TOKENTYPE_SECTION_START, TOKENTYPE_SECTION_END, TOKENTYPE_TEMPLATE}"
    and "goes_on rest"
  shows "get_next_token t = Inr (Token ty n [], t\<lparr>parse_phase := GETTING_TEXT, buf := rest\<rparr>)"
proof -
  have closed: "memmatch (drop 1 (buf t)) ''}}'' = Some (length n)"
    using marker_closed [of n rest] name_chars [OF assms(4)] assms(3) by auto
  have colon: "memchr (CHR '':'') n = None" using name_chars [OF assms(4)] by (auto simp: memchr_None)
  have finish: "finish_marker ty n rest t = Inr (Token ty n [], t\<lparr>parse_phase := GETTING_TEXT, buf := rest\<rparr>)"
    using assms(1,4,6,7) colon no_newline_eaten [of rest]
    by (auto simp: finish_marker_def finish_name_def parse_modifiers.simps same_modifiers plain_template_def goes_on_def)
  have body: "take (length n) (drop 1 (buf t)) = n" "drop (length n + 2) (drop 1 (buf t)) = rest" by (simp_all add: assms(3))
  have "next_name t = finish_marker ty n rest t"
    using assms(1,3,5,6) closed body
    by (auto simp: next_name_def marker_end_def Let_def plain_template_def default_delimiters_def simp del: take_append drop_append)
  then show ?thesis using assms(2,3) finish by (simp add: get_next_token_def)
qed

lemma step_include:
  assumes "plain_template t" "parse_phase t = GETTING_NAME" "buf t = CHR ''>'' # n @ ''}}'' @ rest"
    and "is_valid_name n" "goes_on rest"
  shows "add_subnodes sec t =
    add_subnodes ((push_node (new_template_node (Token TOKENTYPE_TEMPLATE n []) DO_NOT_STRIP (indentation sec)) sec)\<lparr>indentation := []\<rparr>)
      (t\<lparr>parse_phase := GETTING_TEXT, buf := rest\<rparr>)"
proof -
  have "marker_type (CHR ''>'') = (TOKENTYPE_TEMPLATE, 1)" by (simp add: marker_type_def)
  note tok = block_token [OF assms(1-4) this _ assms(5)]
  show ?thesis
    by (rule get_token_step [OF _ _ tok])
      (use assms(1,3) in \<open>auto simp: plain_template_def add_token_def add_template_node_def\<close>)
qed

lemma step_section_start:
  assumes "plain_template t" "parse_phase t = GETTING_NAME" "buf t = CHR ''#'' # n @ ''}}'' @ rest"
    and "is_valid_name n" "goes_on rest"
    and "add_subnodes (new_section (Token TOKENTYPE_SECTION_START n []) False) (t\<lparr>parse_phase := GETTING_TEXT, buf := rest\<rparr>) = Inr (new, t2)"
  shows "add_subnodes sec t = add_subnodes ((add_section_node new sec)\<lparr>indentation := []\<rparr>) t2"
proof -
  have "marker_type (CHR ''#'') = (TOKENTYPE_SECTION_START, 1)" by (simp add: marker_type_def)
  from block_token [OF assms(1-4) this _ assms(5)]
  have tok: "get_next_token t = Inr (Token TOKENTYPE_SECTION_START n [], t\<lparr>parse_phase := GETTING_TEXT, buf := rest\<rparr>)" by simp
  show ?thesis
    using assms(1,3,6) tok by (simp add: add_subnodes.simps [of sec t] add_subnode.simps [of sec t] plain_template_def)
qed

lemma step_section_end:
  assumes "plain_template t" "parse_phase t = GETTING_NAME" "buf t = CHR ''/'' # n @ ''}}'' @ rest"
    and "is_valid_name n" "goes_on rest"
  shows "add_subnodes sec t = Inr (sec\<lparr>indentation := []\<rparr>,
    if n = token_text (section_token sec) then t\<lparr>parse_phase := GETTING_TEXT, buf := rest\<rparr>
    else t\<lparr>parse_phase := GETTING_TEXT, buf := rest, tpl_state := TS_ERROR\<rparr>)"
proof -
  have "marker_type (CHR ''/'') = (TOKENTYPE_SECTION_END, 1)" by (simp add: marker_type_def)
  from block_token [OF assms(1-4) this _ assms(5)]
  have tok: "get_next_token t = Inr (Token TOKENTYPE_SECTION_END n [], t\<lparr>parse_phase := GETTING_TEXT, buf := rest\<rparr>)" by simp
  show ?thesis
    using assms(1,3) tok
    by (simp add: add_subnodes.simps [of sec t] add_subnode.simps [of sec t] plain_template_def add_token_def)
qed

section \<open>A written template is read\<close>

lemma section_token_in [simp]:
  "section_token (text_in s sec) = section_token sec" "section_token (part_in p sec) = section_token sec"
proof -
  show "section_token (text_in s sec) = section_token sec" for s sec by (simp add: text_in_def push_node_def)
  then show "section_token (part_in p sec) = section_token sec"
    by (cases p) (simp_all add: push_node_def add_section_node_def Let_def)
qed

lemma section_token_fold [simp]: "section_token (fold part_in ps sec) = section_token sec"
  by (induction ps arbitrary: sec) simp_all

lemma same_text_phase: "parse_phase t = GETTING_TEXT \<Longrightarrow> t\<lparr>parse_phase := GETTING_TEXT, buf := b\<rparr> = t\<lparr>buf := b\<rparr>"
  by (cases t) simp

definition reads_part :: "registry \<Rightarrow> part \<Rightarrow> bool" where
  "reads_part r p \<longleftrightarrow>
     (\<forall>sec t rest. plain_template t \<and> known_modifiers t = r \<and> parse_phase t = GETTING_TEXT \<and>
        buf t = part_text p @ rest \<and> goes_on rest \<longrightarrow>
        add_subnodes sec t = add_subnodes (part_in p sec) (t\<lparr>buf := rest\<rparr>))"

lemma part_goes_on: "written_ok r p \<Longrightarrow> goes_on (part_text p @ rest)"
  by (cases p) (simp_all add: goes_on_text)

lemma parts_go_on: "list_all (written_ok r) ps \<Longrightarrow> goes_on rest \<Longrightarrow> goes_on (parts_text ps @ rest)"
  by (cases ps) (auto intro: part_goes_on)

lemma parts_read:
  assumes "\<forall>p \<in> set ps. reads_part r p" "list_all (written_ok r) ps" "plain_template t" "known_modifiers t = r"
    "parse_phase t = GETTING_TEXT" "buf t = parts_text ps @ rest" "goes_on rest"
  shows "add_subnodes sec t = add_subnodes (fold part_in ps sec) (t\<lparr>buf := rest\<rparr>)"
  using assms
proof (induction ps arbitrary: sec t)
  case Nil
  then have "t\<lparr>buf := rest\<rparr> = t" by (cases t) simp
  then show ?case by simp
next
  case (Cons p ps)
  have "goes_on (parts_text ps @ rest)" using parts_go_on [of r ps rest] Cons.prems(2,7) by simp
  then have "add_subnodes sec t = add_subnodes (part_in p sec) (t\<lparr>buf := parts_text ps @ rest\<rparr>)"
    using Cons.prems(1,3-6) unfolding reads_part_def by simp
  also have "\<dots> = add_subnodes (fold part_in ps (part_in p sec)) (t\<lparr>buf := parts_text ps @ rest, buf := rest\<rparr>)"
    by (rule Cons.IH) (use Cons.prems in simp_all)
  finally show ?case by simp
qed

lemma part_read: "written_ok r p \<Longrightarrow> reads_part r p"
proof (induction p)
  case (Variable_part s n ms)
  show ?case unfolding reads_part_def
  proof (intro allI impI, elim conjE)
    fix sec t rest
    assume t: "plain_template t" "known_modifiers t = r" "parse_phase t = GETTING_TEXT"
      "buf t = part_text (Variable_part s n ms) @ rest"
    let ?m = "n @ modifiers_text ms @ ''}}'' @ rest"
    have ok: "text_ok s" "is_valid_name n" "list_all (modifier_name_ok r) ms" using Variable_part by simp_all
    have "hd ?m \<noteq> CHR ''{''"
      using name_chars [OF ok(2)] by (cases n; cases ms) (auto simp: modifiers_text_def)
    then have "add_subnodes sec t = add_subnodes (text_in s sec) (t\<lparr>parse_phase := GETTING_NAME, buf := ?m\<rparr>)"
      by (intro step_text [OF t(1,3) _ ok(1)]) (simp_all add: t(4))
    also have "\<dots> = add_subnodes (part_in (Variable_part s n ms) sec)
        (t\<lparr>parse_phase := GETTING_NAME, buf := ?m, parse_phase := GETTING_TEXT, buf := rest\<rparr>)"
      by (subst step_variable [of _ n ms rest]) (use t(1,2) ok in simp_all)
    finally show "add_subnodes sec t = add_subnodes (part_in (Variable_part s n ms) sec) (t\<lparr>buf := rest\<rparr>)"
      using same_text_phase [OF t(3)] by simp
  qed
next
  case (Include_part s n)
  show ?case unfolding reads_part_def
  proof (intro allI impI, elim conjE)
    fix sec t rest
    assume t: "plain_template t" "known_modifiers t = r" "parse_phase t = GETTING_TEXT"
      "buf t = part_text (Include_part s n) @ rest" "goes_on rest"
    let ?m = "CHR ''>'' # n @ ''}}'' @ rest"
    have ok: "text_ok s" "is_valid_name n" using Include_part by simp_all
    have "add_subnodes sec t = add_subnodes (text_in s sec) (t\<lparr>parse_phase := GETTING_NAME, buf := ?m\<rparr>)"
      by (intro step_text [OF t(1,3) _ ok(1)]) (simp_all add: t(4))
    also have "\<dots> = add_subnodes (part_in (Include_part s n) sec)
        (t\<lparr>parse_phase := GETTING_NAME, buf := ?m, parse_phase := GETTING_TEXT, buf := rest\<rparr>)"
      by (subst step_include [of _ n rest]) (use t(1,5) ok in \<open>simp_all add: Let_def\<close>)
    finally show "add_subnodes sec t = add_subnodes (part_in (Include_part s n) sec) (t\<lparr>buf := rest\<rparr>)"
      using same_text_phase [OF t(3)] by simp
  qed
next
  case (Section_part s n ps s1)
  show ?case unfolding reads_part_def
  proof (intro allI impI, elim conjE)
    fix sec t rest
    assume t: "plain_template t" "known_modifiers t = r" "parse_phase t = GETTING_TEXT"
      "buf t = part_text (Section_part s n ps s1) @ rest" "goes_on rest"
    have ok: "text_ok s" "is_valid_name n" "list_all (written_ok r) ps" "text_ok s1" using Section_part.prems by simp_all
    have all: "\<forall>p \<in> set ps. reads_part r p" using Section_part.IH ok(3) by (simp add: list_all_iff)
    let ?close = "CHR ''/'' # n @ ''}}'' @ rest"
    let ?tail = "s1 @ ''{{'' @ ?close"
    let ?body = "parts_text ps @ ?tail"
    let ?m = "CHR ''#'' # n @ ''}}'' @ ?body"
    let ?new = "new_section (Token TOKENTYPE_SECTION_START n []) False"
    let ?inner = "text_in s1 (fold part_in ps ?new)"
    let ?t1 = "t\<lparr>parse_phase := GETTING_NAME, buf := ?m\<rparr>" and ?t2 = "t\<lparr>buf := ?body\<rparr>"
    have t12: "?t1\<lparr>parse_phase := GETTING_TEXT, buf := ?body\<rparr> = ?t2" using same_text_phase [OF t(3)] by simp
    have tail: "goes_on ?tail" using goes_on_text(1) [OF ok(4)] by simp
    then have body: "goes_on ?body" using parts_go_on [OF ok(3)] by blast
    have "add_subnodes ?new ?t2 = add_subnodes (fold part_in ps ?new) (?t2\<lparr>buf := ?tail\<rparr>)"
      by (rule parts_read [OF all ok(3) _ _ _ _ tail]) (use t in simp_all)
    also have "\<dots> = add_subnodes ?inner (t\<lparr>parse_phase := GETTING_NAME, buf := ?close\<rparr>)"
      by (subst step_text [of _ s1 ?close]) (use t(1,3) ok(4) in simp_all)
    also have "\<dots> = Inr (?inner\<lparr>indentation := []\<rparr>, t\<lparr>buf := rest\<rparr>)"
    proof -
      have "token_text (section_token ?inner) = n"
        by (simp add: text_in_def push_node_def section_token_fold new_section_def)
      then show ?thesis
        by (subst step_section_end [of _ n rest]) (use t(1,5) ok(2) same_text_phase [OF t(3)] in simp_all)
    qed
    finally have inner: "add_subnodes ?new ?t2 = Inr (?inner\<lparr>indentation := []\<rparr>, t\<lparr>buf := rest\<rparr>)" .
    have "add_subnodes sec t = add_subnodes (text_in s sec) ?t1"
      by (intro step_text [OF t(1,3) _ ok(1)]) (simp_all add: t(4))
    also have "\<dots> = add_subnodes (part_in (Section_part s n ps s1) sec) (t\<lparr>buf := rest\<rparr>)"
      by (subst step_section_start [of _ n ?body]) (use t(1) ok(2) body inner t12 in simp_all)
    finally show "add_subnodes sec t = add_subnodes (part_in (Section_part s n ps s1) sec) (t\<lparr>buf := rest\<rparr>)" .
  qed
qed

lemma all_read: "list_all (written_ok r) ps \<Longrightarrow> \<forall>p \<in> set ps. reads_part r p"
  using part_read by (auto simp: list_all_iff)

text \<open>Parts and the text before a further marker.\<close>

lemma parts_text_read:
  assumes "list_all (written_ok r) ps" "text_ok s" "plain_template t" "known_modifiers t = r"
    and "parse_phase t = GETTING_TEXT" "buf t = parts_text ps @ s @ ''{{'' @ m" "m \<noteq> []" "hd m \<noteq> CHR ''{''"
  shows "add_subnodes sec t = add_subnodes (text_in s (fold part_in ps sec)) (t\<lparr>parse_phase := GETTING_NAME, buf := m\<rparr>)"
proof -
  have "goes_on (s @ ''{{'' @ m)" using goes_on_text(1) [OF assms(2)] by simp
  from parts_read [OF all_read [OF assms(1)] assms(1,3-6) this]
  have "add_subnodes sec t = add_subnodes (fold part_in ps sec) (t\<lparr>buf := s @ ''{{'' @ m\<rparr>)" .
  also have "\<dots> = add_subnodes (text_in s (fold part_in ps sec)) (t\<lparr>parse_phase := GETTING_NAME, buf := m\<rparr>)"
    by (subst step_text [of _ s m]) (use assms in simp_all)
  finally show ?thesis .
qed

text \<open>Parts and the text at the end of the template.\<close>

lemma parts_last_read:
  assumes "list_all (written_ok r) ps" "text_ok s" "plain_template t" "known_modifiers t = r"
    and "parse_phase t = GETTING_TEXT" "buf t = parts_text ps @ s"
  shows "\<exists>sec'. section_node sec' = section_node (text_in s (fold part_in ps sec)) \<and>
    add_subnodes sec t = Inr (sec', if is_main_section sec then t\<lparr>buf := []\<rparr> else t\<lparr>buf := [], tpl_state := TS_ERROR\<rparr>)"
proof -
  let ?sec = "fold part_in ps sec"
  have end_of_file: "add_subnodes sec1 (t\<lparr>buf := []\<rparr>) =
      Inr (sec1, if is_main_section sec1 then t\<lparr>buf := []\<rparr> else t\<lparr>buf := [], tpl_state := TS_ERROR\<rparr>)" for sec1
    using assms(3) by (simp add: add_subnodes.simps [of sec1] add_subnode.simps [of sec1] plain_template_def)
  have main: "is_main_section ?sec = is_main_section sec" "is_main_section (text_in s ?sec) = is_main_section sec"
    by (simp_all add: is_main_section_def)
  have run: "add_subnodes sec t = add_subnodes ?sec (t\<lparr>buf := s\<rparr>)"
    by (rule parts_read [OF all_read [OF assms(1)] assms(1,3-6) goes_on_text(2) [OF assms(2)]])
  show ?thesis
  proof (cases "s = []")
    case True
    then have "section_node ?sec = section_node (text_in s ?sec)" by (simp add: text_in_def section_node_def)
    then show ?thesis using run end_of_file [of ?sec] True main by auto
  next
    case False
    have "add_subnodes ?sec (t\<lparr>buf := s\<rparr>) = add_subnodes (text_in s ?sec) (t\<lparr>buf := []\<rparr>)"
      by (subst step_last_text [of _ s]) (use assms False in simp_all)
    then show ?thesis using run end_of_file [of "text_in s ?sec"] main by auto
  qed
qed

section \<open>Properties\<close>

definition loaded :: "registry \<Rightarrow> htmlparser_ctx \<times> jsparser_ctx \<times> entityfilter_ctx \<Rightarrow> string \<Rightarrow> template" where
  "loaded r memory input = (new_template [] DO_NOT_STRIP r memory)
     \<lparr>tpl_state := TS_EMPTY, buf := input, parse_phase := GETTING_TEXT, current_delimiters := default_delimiters\<rparr>"

lemma loaded_plain [simp]:
  "plain_template (loaded r memory input)" "known_modifiers (loaded r memory input) = r"
  "parse_phase (loaded r memory input) = GETTING_TEXT" "buf (loaded r memory input) = input"
  by (simp_all add: loaded_def plain_template_def new_template_def)

lemma string_to_template_run:
  "string_to_template input DO_NOT_STRIP r memory =
     Some (bindE (add_subnodes main_section (loaded r memory input)) (\<lambda>(top, t1).
       Inr (if tpl_state t1 \<noteq> TS_ERROR then (Some (section_node top), t1\<lparr>tpl_state := TS_READY\<rparr>) else (None, t1))))"
  by (simp add: string_to_template_def strip_buffer_def build_tree_def loaded_def new_template_def)

lemma main_is_main [simp]: "is_main_section main_section"
  by (simp add: is_main_section_def main_section_def new_section_def)


text \<open>A memory that a parser may find.\<close>

definition some_memory :: "htmlparser_ctx \<times> jsparser_ctx \<times> entityfilter_ctx" where
  "some_memory = (html_memory, js_memory, \<lparr>ef_buffer = replicate 10 NUL, ef_pos = 3, ef_in = True\<rparr>)"


lemma names_not_main [simp]: "is_valid_name n \<Longrightarrow> \<not> is_main_section (new_section (Token ty n ms) b)"
  using name_chars [of n] by (auto simp: is_main_section_def new_section_def k_main_section_name_def)

text \<open>A marker that begins a section in which an error comes.\<close>

lemma section_fails:
  assumes "list_all (written_ok r) ps" "text_ok s" "is_valid_name n" "goes_on inner"
    and "\<And>t. plain_template t \<Longrightarrow> known_modifiers t = r \<Longrightarrow> parse_phase t = GETTING_TEXT \<Longrightarrow> buf t = inner \<Longrightarrow>
      \<exists>new t2. add_subnodes (new_section (Token TOKENTYPE_SECTION_START n []) False) t = Inr (new, t2) \<and> tpl_state t2 = TS_ERROR"
  shows "\<exists>t. string_to_template (parts_text ps @ s @ ''{{#'' @ n @ ''}}'' @ inner) DO_NOT_STRIP r memory = Some (Inr (None, t)) \<and>
    tpl_state t = TS_ERROR"
proof -
  let ?m = "CHR ''#'' # n @ ''}}'' @ inner"
  let ?input = "parts_text ps @ s @ ''{{'' @ ?m"
  let ?t = "loaded r memory ?input"
  let ?t1 = "?t\<lparr>parse_phase := GETTING_NAME, buf := ?m\<rparr>"
  have "add_subnodes main_section ?t = add_subnodes (text_in s (fold part_in ps main_section)) ?t1"
    by (rule parts_text_read [OF assms(1,2)]) simp_all
  moreover obtain new t2 where inner: "add_subnodes (new_section (Token TOKENTYPE_SECTION_START n []) False)
      (?t1\<lparr>parse_phase := GETTING_TEXT, buf := inner\<rparr>) = Inr (new, t2)" "tpl_state t2 = TS_ERROR"
    using assms(5) [of "?t1\<lparr>parse_phase := GETTING_TEXT, buf := inner\<rparr>"] by auto
  moreover have "\<exists>sec'. add_subnodes sec ?t1 = Inr (sec', t2)" for sec
  proof -
    have "add_subnodes sec ?t1 = add_subnodes ((add_section_node new sec)\<lparr>indentation := []\<rparr>) t2"
      by (rule step_section_start [OF _ _ _ assms(3,4) inner(1)]) simp_all
    then show ?thesis
      using inner(2) by (simp add: add_subnodes.simps [of _ t2] add_subnode.simps [of _ t2])
  qed
  ultimately obtain sec' where "add_subnodes main_section ?t = Inr (sec', t2)" by metis
  then show ?thesis using inner(2) by (simp add: string_to_template_run)
qed



end
