(* ===== verification/Template_Page.thy ===== *)
theory Template_Page
  imports Template_Rendering Template_Syntax
begin

text \<open>
  From the text of a template to the page: what the parser and the expansion make of a template of variables and
  sections is what its author means by it.
\<close>

section \<open>What a template means\<close>

text \<open>Parts without included templates and without separators, which are subsections with a name of their own.\<close>

fun simple_part :: "string \<Rightarrow> part \<Rightarrow> bool" where
  "simple_part outer (Variable_part s n ms) \<longleftrightarrow> True"
| "simple_part outer (Include_part s n) \<longleftrightarrow> False"
| "simple_part outer (Section_part s n ps s1) \<longleftrightarrow> n \<noteq> outer @ ''_separator'' \<and> list_all (simple_part n) ps"

text \<open>The text that stands for a variable: its value in the dictionary, changed by the modifiers from left to right.\<close>

definition modified_value :: "per_expand_data \<Rightarrow> modifier_info list \<Rightarrow> string \<Rightarrow> string" where
  "modified_value p ms v =
     (if any_might_modify p (map (\<lambda>m. (m, [])) ms)
      then fold (\<lambda>m out. projr (modify (app_modify p) (modifier m) out [])) ms v else v)"

text \<open>The dictionaries with which a section is shown.\<close>

definition shown_with :: "dict_store \<Rightarrow> nat \<Rightarrow> string \<Rightarrow> nat list" where
  "shown_with st d n =
     (if is_hidden_section st d n = Some False then projr (the (create_section_iterator st d n)) else [])"

fun shown :: "dict_store \<Rightarrow> per_expand_data \<Rightarrow> part \<Rightarrow> nat \<Rightarrow> string" where
  "shown st p (Variable_part s n ms) d = s @ modified_value p (map snd ms) (the (get_value st d n))"
| "shown st p (Include_part s n) d = s"
| "shown st p (Section_part s n ps s1) d =
     s @ concat (map (\<lambda>c. concat (map (\<lambda>part. shown st p part c) ps) @ s1) (shown_with st d n))"

section \<open>The nodes of a template\<close>

definition text_nodes :: "string \<Rightarrow> template_node list" where
  "text_nodes s = (if s = [] then [] else [Text_node (Token TOKENTYPE_TEXT s [])])"

fun part_nodes :: "part \<Rightarrow> template_node list" where
  "part_nodes (Variable_part s n ms) =
     text_nodes s @ [Variable_node (Token TOKENTYPE_VARIABLE n (map (\<lambda>(m, i). (i, [])) ms))]"
| "part_nodes (Include_part s n) = text_nodes s"
| "part_nodes (Section_part s n ps s1) =
     text_nodes s @ [Section_node (Token TOKENTYPE_SECTION_START n []) (concat (map part_nodes ps) @ text_nodes s1) None False]"

lemma text_in_nodes [simp]:
  "node_list (text_in s sec) = node_list sec @ text_nodes s" "separator_section (text_in s sec) = separator_section sec"
  "hidden_by_default (text_in s sec) = hidden_by_default sec"
  by (simp_all add: text_in_def text_nodes_def push_node_def)

lemma part_in_nodes:
  "simple_part (token_text (section_token sec)) part \<Longrightarrow>
    node_list (part_in part sec) = node_list sec @ part_nodes part \<and>
    separator_section (part_in part sec) = separator_section sec \<and> hidden_by_default (part_in part sec) = hidden_by_default sec"
proof (induction part arbitrary: sec)
  case (Section_part s n ps s1)
  let ?new = "new_section (Token TOKENTYPE_SECTION_START n []) False"
  have "node_list (fold part_in qs sec1) = node_list sec1 @ concat (map part_nodes qs) \<and>
      separator_section (fold part_in qs sec1) = separator_section sec1 \<and> hidden_by_default (fold part_in qs sec1) = hidden_by_default sec1"
    if "set qs \<subseteq> set ps" "token_text (section_token sec1) = n" for qs sec1
    using that
  proof (induction qs arbitrary: sec1)
    case (Cons q qs)
    have "simple_part n q" using Section_part.prems Cons.prems by (auto simp: list_all_iff)
    with Section_part.IH [of q sec1] Cons.prems
    have "node_list (part_in q sec1) = node_list sec1 @ part_nodes q" "separator_section (part_in q sec1) = separator_section sec1"
      "hidden_by_default (part_in q sec1) = hidden_by_default sec1"
      by auto
    with Cons.IH [of "part_in q sec1"] Cons.prems show ?case by simp
  qed simp
  from this [of ps ?new] have "node_list (fold part_in ps ?new) = concat (map part_nodes ps)"
    "separator_section (fold part_in ps ?new) = None" "hidden_by_default (fold part_in ps ?new) = False"
    by (simp_all add: new_section_def)
  moreover have "section_token ?new = Token TOKENTYPE_SECTION_START n []" by (simp add: new_section_def)
  ultimately show ?case using Section_part.prems
    by (simp add: add_section_node_def Let_def push_node_def section_node_def)
qed (simp_all add: push_node_def)

lemma parts_in_nodes:
  "list_all (simple_part (token_text (section_token sec))) ps \<Longrightarrow>
    node_list (fold part_in ps sec) = node_list sec @ concat (map part_nodes ps) \<and>
    separator_section (fold part_in ps sec) = separator_section sec \<and> hidden_by_default (fold part_in ps sec) = hidden_by_default sec"
proof (induction ps arbitrary: sec)
  case (Cons q qs)
  then show ?case using part_in_nodes [of sec q] by simp
qed simp

section \<open>The nodes are expanded to what they mean\<close>

definition emits :: "'c expansion \<Rightarrow> string \<Rightarrow> bool" where
  "emits m out \<longleftrightarrow> (\<forall>c. m c = Some (Inr (True, out, c)))"

lemma emits_text [simp]: "emits (emit_text s) t \<longleftrightarrow> t = s"
  by (auto simp: emits_def emit_text_def)

lemma emits_and_then: "emits a s \<Longrightarrow> emits b t \<Longrightarrow> emits (and_then a b) (s @ t)"
  by (simp add: emits_def and_then_def)

text \<open>Nodes that emit one text after the other.\<close>

definition emits_nodes ::
  "'d dictionary_interface \<Rightarrow> per_expand_data \<Rightarrow> ('d, 'c) includer \<Rightarrow> 'd \<Rightarrow> template_node list \<Rightarrow> string \<Rightarrow> bool" where
  "emits_nodes I p sub d nodes out \<longleftrightarrow>
     (\<exists>outs. out = concat outs \<and> list_all2 (\<lambda>node s. emits (expand_node I p sub node d) s) nodes outs)"

lemma emits_nodes_Nil [simp]: "emits_nodes I p sub d [] []"
  by (simp add: emits_nodes_def)

lemma emits_nodes_one: "emits (expand_node I p sub node d) s \<Longrightarrow> emits_nodes I p sub d [node] s"
  unfolding emits_nodes_def by (rule exI [of _ "[s]"]) simp

lemma emits_nodes_append:
  assumes "emits_nodes I p sub d xs s" "emits_nodes I p sub d ys t"
  shows "emits_nodes I p sub d (xs @ ys) (s @ t)"
proof -
  obtain a b where "s = concat a" "list_all2 (\<lambda>node s. emits (expand_node I p sub node d) s) xs a"
    "t = concat b" "list_all2 (\<lambda>node s. emits (expand_node I p sub node d) s) ys b"
    using assms by (auto simp: emits_nodes_def)
  then show ?thesis unfolding emits_nodes_def by (intro exI [of _ "a @ b"]) (simp add: list_all2_appendI)
qed

lemma emits_nodes_concat:
  "(\<And>x. x \<in> set xs \<Longrightarrow> emits_nodes I p sub d (nodes x) (out x)) \<Longrightarrow>
    emits_nodes I p sub d (concat (map nodes xs)) (concat (map out xs))"
  by (induction xs) (simp_all add: emits_nodes_append)

lemma nodes_emitted:
  assumes "emits_nodes I p sub d nodes out"
  shows "emits (expand_nodes I p sub None b i nodes d) out"
proof -
  obtain outs where outs: "out = concat outs" "list_all2 (\<lambda>node s. emits (expand_node I p sub node d) s) nodes outs"
    using assms by (auto simp: emits_nodes_def)
  have "emits (expand_nodes I p sub None b i nodes d) (concat outs)" using outs(2)
  proof (induction nodes outs arbitrary: i rule: list_all2_induct)
    case (Cons node nodes s ss)
    have "emits (and_then (emit_text []) (expand_nodes I p sub None b (i + 1) nodes d)) ([] @ concat ss)"
      using Cons by (intro emits_and_then) simp_all
    with Cons(1) show ?case by (simp add: emits_and_then)
  qed simp
  then show ?thesis by (simp add: outs(1))
qed

lemma each_dict_emits: "(\<And>d b. d \<in> set ds \<Longrightarrow> emits (f d b) (g d)) \<Longrightarrow> emits (each_dict f ds) (concat (map g ds))"
  by (induction ds) (simp_all add: emits_and_then)

lemma modified_fold:
  "ms \<noteq> [] \<Longrightarrow> modified_string p (map (\<lambda>m. (m, [])) ms) v = Inr (fold (\<lambda>m out. projr (modify (app_modify p) (modifier m) out [])) ms v)"
proof (induction ms arbitrary: v)
  case (Cons m ms)
  obtain out where out: "modify (app_modify p) (modifier m) v [] = Inr out" using modify_returns by blast
  show ?case
  proof (cases ms)
    case (Cons m1 ms1)
    then show ?thesis using Cons.IH [of out] out by simp
  qed (simp add: out)
qed simp

lemma text_emitted: "emits_nodes I p sub d (text_nodes s) s"
  by (cases "s = []") (simp_all add: text_nodes_def emits_nodes_one)

lemma variable_emitted:
  fixes sub :: "('d, 'c) includer"
  assumes "annotate_path p = None" "ask_value I d n = Some v"
  shows "emits (expand_node I p sub (Variable_node (Token TOKENTYPE_VARIABLE n (map (\<lambda>(m, i). (i, [])) ms))) d)
    (modified_value p (map snd ms) v)"
proof -
  have mods: "map (\<lambda>(m, i). (i, [])) ms = map (\<lambda>m. (m, [])) (map snd ms)" by (induction ms) auto
  have "emits (if any_might_modify p (map (\<lambda>m. (m, [])) (map snd ms))
      then emit_modified_string p (map (\<lambda>m. (m, [])) (map snd ms)) v else emit_text v :: 'c expansion)
    (modified_value p (map snd ms) v)"
  proof (cases "map snd ms = []")
    case False
    from modified_fold [OF this, of p v] show ?thesis
      by (auto simp del: map_map simp: modified_value_def emit_modified_string_def)
  qed (simp add: modified_value_def any_might_modify_def)
  from emits_and_then [OF _ emits_and_then [OF this], of "emit_text []" "[]" "emit_text []" "[]"] show ?thesis
    unfolding mods by (simp del: map_map split del: if_split add: expand_variable_def annotation_def annotate_def assms cong: if_cong)
qed

lemma section_emitted:
  assumes "annotate_path p = None" "store_ok st" "d < length (cells st)" "n \<noteq> k_main_section_name"
    and "\<And>c. c < length (cells st) \<Longrightarrow> emits_nodes (store_interface st) p sub c nodes (out c)"
  shows "emits (expand_node (store_interface st) p sub (Section_node (Token TOKENTYPE_SECTION_START n []) nodes None False) d)
    (concat (map out (shown_with st d n)))"
proof -
  let ?I = "store_interface st"
  obtain h where h: "is_hidden_section st d n = Some h"
    "h \<or> (\<exists>ds. create_section_iterator st d n = Some (Inr ds) \<and> ds \<noteq> [] \<and> (\<forall>s \<in> set ds. s < length (cells st)))"
    using section_answered [OF assms(2,3), of n] by blast
  show ?thesis
  proof (cases h)
    case True
    then show ?thesis using h(1) assms(4) by (simp add: section_shown_def store_interface_def shown_with_def)
  next
    case False
    then obtain ds where ds: "create_section_iterator st d n = Some (Inr ds)" "ds \<noteq> []" "\<forall>s \<in> set ds. s < length (cells st)"
      using h(2) by blast
    have once: "emits (and_then (annotation p h1) (and_then (expand_nodes ?I p sub None b 0 nodes c) (annotation p h2))) (out c)"
      if "c \<in> set ds" for c b h1 h2
    proof -
      have "emits (expand_nodes ?I p sub None b 0 nodes c) (out c)"
        using assms(5) ds(3) that by (intro nodes_emitted) simp
      from emits_and_then [OF _ emits_and_then [OF this], of "emit_text []" "[]" "emit_text []" "[]"] show ?thesis
        by (simp add: annotation_def annotate_def assms(1))
    qed
    have "emits (each_dict (\<lambda>child last_child.
         and_then (annotation p (\<lambda>a. emit_open_section a (token_string (Token TOKENTYPE_SECTION_START n []))))
           (and_then (expand_nodes ?I p sub None last_child 0 nodes child) (annotation p emit_close_section))) ds) (concat (map out ds))"
      using once by (intro each_dict_emits)
    then show ?thesis using h(1) False ds assms(4) by (simp add: section_shown_def store_interface_def shown_with_def)
  qed
qed

lemma not_main_name: "\<not> is_valid_name k_main_section_name"
  by (simp add: is_valid_name_def k_main_section_name_def ascii_isalnum_def is_alnum_def)

lemma part_emitted:
  assumes "annotate_path p = None" "store_ok st"
  shows "simple_part outer part \<Longrightarrow> written_ok r part \<Longrightarrow> d < length (cells st) \<Longrightarrow>
    emits_nodes (store_interface st) p sub d (part_nodes part) (shown st p part d)"
proof (induction part arbitrary: outer d)
  case (Variable_part s n ms)
  obtain v where v1: "get_value st d n = Some v" using value_answered [OF assms(2) Variable_part(3)] by blast
  then have v: "ask_value (store_interface st) d n = Some v" by (simp add: store_interface_def)
  show ?case
    using emits_nodes_append [OF text_emitted emits_nodes_one [OF variable_emitted [OF assms(1) v]]]
    by (simp add: v1)
next
  case (Section_part s n ps s1)
  have "n \<noteq> k_main_section_name" using Section_part.prems(2) not_main_name by auto
  moreover have "emits_nodes (store_interface st) p sub c
      (concat (map part_nodes ps) @ text_nodes s1) (concat (map (\<lambda>part. shown st p part c) ps) @ s1)"
    if "c < length (cells st)" for c
    using Section_part.prems that
    by (intro emits_nodes_append emits_nodes_concat text_emitted Section_part.IH) (auto simp: list_all_iff)
  ultimately have "emits (expand_node (store_interface st) p sub (Section_node (Token TOKENTYPE_SECTION_START n [])
        (concat (map part_nodes ps) @ text_nodes s1) None False) d)
      (concat (map (\<lambda>c. concat (map (\<lambda>part. shown st p part c) ps) @ s1) (shown_with st d n)))"
    by (rule section_emitted [OF assms Section_part.prems(3)])
  from emits_nodes_append [OF text_emitted emits_nodes_one [OF this]] show ?case by simp
qed simp

section \<open>The page\<close>

lemma page_read:
  assumes "dict_call\<^sup>*\<^sup>* setup_global_dict st" "d < length (cells st)" "annotate_path p = None"
    and "list_all (written_ok r) ps" "list_all (simple_part k_main_section_name) ps" "text_ok s"
  shows "\<exists>tree t. string_to_template (parts_text ps @ s) DO_NOT_STRIP r memory = Some (Inr (Some tree, t)) \<and> tpl_state t = TS_READY \<and>
    expand_node (store_interface st) p sub tree d c =
      Some (Inr (True, concat (map (\<lambda>part. shown st p part d) ps) @ s, c))"
proof -
  let ?tree = "section_node (text_in s (fold part_in ps main_section))"
  let ?t = "loaded r memory (parts_text ps @ s)"
  obtain sec' where run: "section_node sec' = ?tree" "add_subnodes main_section ?t = Inr (sec', ?t\<lparr>buf := []\<rparr>)"
    using parts_last_read [OF assms(4,6) loaded_plain(1-4), of main_section memory] by auto
  have "tpl_state ?t \<noteq> TS_ERROR" by (simp add: loaded_def)
  then have read: "string_to_template (parts_text ps @ s) DO_NOT_STRIP r memory =
      Some (Inr (Some ?tree, ?t\<lparr>buf := [], tpl_state := TS_READY\<rparr>))"
    using run by (simp add: string_to_template_run)
  have main: "section_token main_section = Token TOKENTYPE_SECTION_START k_main_section_name []" "node_list main_section = []"
    "separator_section main_section = None" "hidden_by_default main_section = False"
    by (simp_all add: main_section_def new_section_def)
  have tree: "?tree = Section_node (Token TOKENTYPE_SECTION_START k_main_section_name [])
      (concat (map part_nodes ps) @ text_nodes s) None False"
    using parts_in_nodes [of main_section ps] assms(5) by (simp add: section_node_def main)
  have "emits_nodes (store_interface st) p sub d (concat (map part_nodes ps) @ text_nodes s)
      (concat (map (\<lambda>part. shown st p part d) ps) @ s)"
    using assms(2,4,5)
    by (intro emits_nodes_append emits_nodes_concat text_emitted
        part_emitted [OF assms(3) reachable_ok [OF assms(1)], of k_main_section_name _ r]) (auto simp: list_all_iff)
  from nodes_emitted [OF this]
  have "emits (expand_nodes (store_interface st) p sub None True 0 (concat (map part_nodes ps) @ text_nodes s) d)
      (concat (map (\<lambda>part. shown st p part d) ps) @ s)" .
  from emits_and_then [OF _ emits_and_then [OF this], of "emit_text []" "[]" "emit_text []" "[]"]
  have "emits (expand_node (store_interface st) p sub ?tree d) (concat (map (\<lambda>part. shown st p part d) ps) @ s)"
    unfolding tree by (simp add: section_shown_def annotation_def annotate_def assms(3))
  with read show ?thesis by (auto simp: emits_def)
qed


text \<open>A section that sees a value of the page.\<close>

definition small_page :: dict_store where
  "small_page = show_section 0 ''S'' (set_value 0 ''A'' ''<'' (snd (new_template_dictionary ''page'' setup_global_dict)))"

lemma small_page_reachable: "dict_call\<^sup>*\<^sup>* setup_global_dict small_page"
proof -
  let ?a = "snd (new_template_dictionary ''page'' setup_global_dict)"
  have len: "0 < length (cells ?a)" by (simp add: new_template_dictionary_def Let_def)
  have "dict_call ?a (set_value 0 ''A'' ''<'' ?a)" using len by (rule Call_value)
  moreover have "dict_call (set_value 0 ''A'' ''<'' ?a) small_page"
    unfolding small_page_def using len by (intro Call_show) (simp add: set_value_cells)
  moreover have "dict_call setup_global_dict ?a" by (rule Call_new)
  ultimately show ?thesis by (meson r_into_rtranclp rtranclp.rtrancl_into_rtrancl)
qed

lemma small_page_cells:
  "cells small_page =
     [(empty_dictionary ''page'' 0 None)\<lparr>variable_dict := hash_insert ''A'' ''<'' None, section_dict := hash_insert ''S'' [1] None\<rparr>,
      empty_dictionary ''empty dictionary'' 0 (Some 0)]"
  by (simp add: small_page_def show_section_def set_value_def new_template_dictionary_def create_template_subdict_def Let_def
      setup_global_dict_def update_cell_def lookup_id_def entries_def empty_dictionary_def)

definition small_parts :: "part list" where
  "small_parts = [Section_part ''a'' ''S'' [Variable_part [] ''A'' [(''h'', info (g_modifiers ! 1))]] []]"

definition plain_registry :: registry where
  "plain_registry = \<lparr>g_extension_modifiers = [], g_unknown_modifiers = []\<rparr>"

lemma small_parts_ok:
  "list_all (written_ok plain_registry) small_parts" "list_all (simple_part k_main_section_name) small_parts" "text_ok ''b''"
  "parts_text small_parts @ ''b'' = ''a{{#S}}{{A:h}}{{/S}}b''"
proof -
  have "find_modifier ''h'' [] plain_registry = Inr (Some (info (g_modifiers ! 1)), plain_registry)" by code_simp
  moreover have "\<not> modval_required (info (g_modifiers ! 1))" by code_simp
  ultimately have m: "modifier_name_ok plain_registry (''h'', info (g_modifiers ! 1))" by (simp add: modifier_name_ok_def)
  have none: "\<not> occurs_at ''{{'' s i" if "CHR ''{'' \<notin> set s" for s i
    using occurs_subset [of "''{{''" s i] that by auto
  show "list_all (written_ok plain_registry) small_parts" "text_ok ''b''"
    using m by (simp_all add: small_parts_def text_ok_def none is_valid_name_def ascii_isalnum_def is_alnum_def)
  show "list_all (simple_part k_main_section_name) small_parts" "parts_text small_parts @ ''b'' = ''a{{#S}}{{A:h}}{{/S}}b''"
    by (simp_all add: small_parts_def k_main_section_name_def)
qed

lemma small_page_shown: "concat (map (\<lambda>part. shown small_page no_data part 0) small_parts) @ ''b'' = ''a&lt;b''"
proof -
  have "search_up (\<lambda>c. lookup_id (variable_dict c) ''A'') small_page 1 = search_up (\<lambda>c. lookup_id (variable_dict c) ''A'') small_page 0"
    by (rule search_parent) (simp_all add: small_page_cells lookup_id_def entries_def)
  also have "\<dots> = Some (Some ''<'')" by (rule search_here) (simp add: small_page_cells lookup_insert)
  finally have seen: "get_value small_page 1 ''A'' = Some ''<''" by (simp add: get_value_alt)
  have "search_up (\<lambda>c. lookup_id (section_dict c) ''S'') small_page 0 = Some (Some [1])"
    by (rule search_here) (simp add: small_page_cells lookup_insert)
  then have sec: "shown_with small_page 0 ''S'' = [1]"
    by (simp add: shown_with_def is_hidden_section_def create_section_iterator_def)
  have "modified_value no_data [info (g_modifiers ! 1)] ''<'' = ''&lt;''" by code_simp
  then show ?thesis by (simp add: small_parts_def sec seen [unfolded One_nat_def])
qed

lemma small_page_plain: "annotate_path no_data = None" "expand_modifier no_data = None" "0 < length (cells small_page)"
  by (simp_all add: no_data_def small_page_cells)


end
