(* ===== verification/Template_Menu.thy ===== *)
theory Template_Menu
  imports Template_Rendering Server_Dispatch
begin

text \<open>
  The preprocessor that gives every page a header, a footer and a menu of the handlers of the server
  (\<open>src/ctemplate/headerFooterPreprocessor.cc\<close>), and the menu that a template shows.
\<close>

section \<open>The preprocessor\<close>

record header_footer =
  header_tpl :: string
  footer_tpl :: string
  page_header_tpl :: string
  page_footer_tpl :: string

definition new_header_footer :: header_footer where
  "new_header_footer =
     \<lparr>header_tpl = ''header.tpl'', footer_tpl = ''footer.tpl'', page_header_tpl = ''page_header.tpl'', page_footer_tpl = ''page_footer.tpl''\<rparr>"

text \<open>The loop over the handlers of the server.\<close>

definition menu_item :: "nat \<Rightarrow> 'w handler \<Rightarrow> dict_store \<Rightarrow> dict_store" where
  "menu_item page_header h st =
     (if h_visible h
      then case add_section_dictionary page_header ''MENUITEM'' st of
             (row, st1) \<Rightarrow> set_value row ''link'' (h_name h) (set_value row ''name'' (h_name h) st1)
      else st)"

text \<open>\<open>Process\<close>: of the names of files only that of the header is the member's.\<close>

definition header_footer_process :: "header_footer \<Rightarrow> 'w handler list \<Rightarrow> nat \<Rightarrow> dict_store \<Rightarrow> dict_store" where
  "header_footer_process hf handlers td st =
     (case add_include_dictionary td ''HEADER'' st of
        (header, st1) \<Rightarrow>
          (case add_include_dictionary td ''PAGE_HEADER'' (set_filename header (header_tpl hf) st1) of
             (page_header, st2) \<Rightarrow>
               (case add_include_dictionary td ''FOOTER''
                       (fold (menu_item page_header) handlers (set_filename page_header ''page_header.tpl'' st2)) of
                  (footer, st3) \<Rightarrow>
                    (case add_include_dictionary td ''PAGE_FOOTER'' (set_filename footer ''footer.tpl'' st3) of
                       (page_footer, st4) \<Rightarrow> set_filename page_footer ''page_footer.tpl'' st4))))"

section \<open>What one call does\<close>

lemma keys_differ:
  "get_global_id ''name'' \<noteq> get_global_id ''link''"
  "distinct (map get_global_id [''HEADER'', ''PAGE_HEADER'', ''FOOTER'', ''PAGE_FOOTER''])"
  by (simp_all add: murmur_eval)

text \<open>The dictionary of an included template, with its file.\<close>

definition included :: "nat \<Rightarrow> string \<Rightarrow> string \<Rightarrow> dict_store \<Rightarrow> nat \<times> dict_store" where
  "included d x f st = (case add_include_dictionary d x st of (i, st1) \<Rightarrow> (i, set_filename i f st1))"

lemma process_alt:
  "header_footer_process hf handlers td st =
     (case included td ''HEADER'' (header_tpl hf) st of
        (header, st1) \<Rightarrow>
          (case included td ''PAGE_HEADER'' ''page_header.tpl'' st1 of
             (page_header, st2) \<Rightarrow>
               (case included td ''FOOTER'' ''footer.tpl'' (fold (menu_item page_header) handlers st2) of
                  (footer, st3) \<Rightarrow> snd (included td ''PAGE_FOOTER'' ''page_footer.tpl'' st3))))"
  by (simp add: header_footer_process_def included_def split: prod.split)

text \<open>What is under a name for an included template, as the last one, and its file.\<close>

definition last_include :: "dict_store \<Rightarrow> nat \<Rightarrow> string \<Rightarrow> (nat \<times> string option) option" where
  "last_include st d x =
     (case lookup_id (include_dict (cell st d)) x of
        None \<Rightarrow> None
      | Some ds \<Rightarrow> Some (last ds, dict_filename (cell st (last ds))))"

lemma included_facts:
  assumes "d < length (cells st)" "included d x f st = (i, st1)"
  shows "i = length (cells st)" "length (cells st1) = Suc (length (cells st))"
    and "last_include st1 d x = Some (i, Some (cstr f))"
    and "a < length (cells st) \<Longrightarrow> section_dict (cell st1 a) = section_dict (cell st a) \<and>
      variable_dict (cell st1 a) = variable_dict (cell st a) \<and> dict_filename (cell st1 a) = dict_filename (cell st a)"
    and "get_global_id y \<noteq> get_global_id x \<Longrightarrow> lookup_id (include_dict (cell st1 d)) y = lookup_id (include_dict (cell st d)) y"
    and "section_dict (cell st1 i) = None"
proof -
  obtain n where cs: "cells (snd (add_include_dictionary d x st)) =
      (cells st @ [empty_dictionary n (template_global_dict_owner (cell st d)) None])
        [d := (cell st d)\<lparr>include_dict := hash_insert x (dicts_of (include_dict (cell st d)) x @ [length (cells st)]) (include_dict (cell st d))\<rparr>]"
    using add_include_cells(2) [OF assms(1)] by blast
  have i: "i = length (cells st)" and st1: "st1 = set_filename i f (snd (add_include_dictionary d x st))"
    using assms add_include_cells(1) [OF assms(1), of x] by (auto simp: included_def split: prod.splits)
  have cs1: "cells st1 = (cells st)
        [d := (cell st d)\<lparr>include_dict := hash_insert x (dicts_of (include_dict (cell st d)) x @ [length (cells st)]) (include_dict (cell st d))\<rparr>]
      @ [(empty_dictionary n (template_global_dict_owner (cell st d)) None)\<lparr>dict_filename := Some (cstr f)\<rparr>]"
    using assms(1) by (simp add: st1 i set_filename_def cs list_update_append nth_append)
  show "i = length (cells st)" by (rule i)
  show "length (cells st1) = Suc (length (cells st))" by (simp add: cs1)
  show "last_include st1 d x = Some (i, Some (cstr f))"
    using assms(1) by (simp add: last_include_def cs1 i nth_append lookup_insert)
  show "section_dict (cell st1 a) = section_dict (cell st a) \<and>
      variable_dict (cell st1 a) = variable_dict (cell st a) \<and> dict_filename (cell st1 a) = dict_filename (cell st a)"
    if "a < length (cells st)"
    using that by (cases "a = d") (simp_all add: cs1 nth_append)
  show "lookup_id (include_dict (cell st1 d)) y = lookup_id (include_dict (cell st d)) y" if "get_global_id y \<noteq> get_global_id x"
    using assms(1) that by (simp add: cs1 nth_append lookup_insert)
  show "section_dict (cell st1 i) = None" by (simp add: cs1 i nth_append)
qed

lemma included_keeps:
  assumes "d < length (cells st)" "included d x f st = (i, st1)" "get_global_id y \<noteq> get_global_id x"
    and "last_include st d y = Some (j, g)" "j < length (cells st)"
  shows "last_include st1 d y = Some (j, g)"
  using included_facts(4) [OF assms(1,2,5)] included_facts(5) [OF assms(1,2,3)] assms(4)
  by (auto simp: last_include_def split: option.splits)

text \<open>The menu in the dictionary of the page's header: a row for each name, in order.\<close>

definition menu_of :: "dict_store \<Rightarrow> nat \<Rightarrow> string list \<Rightarrow> bool" where
  "menu_of st ph names \<longleftrightarrow>
     list_all2 (\<lambda>row n. row < length (cells st) \<and> lookup_id (variable_dict (cell st row)) ''name'' = Some n \<and>
         lookup_id (variable_dict (cell st row)) ''link'' = Some n)
       (dicts_of (section_dict (cell st ph)) ''MENUITEM'') names"

text \<open>A later store that keeps the files and includes of all dictionaries and the values of all but one.\<close>

definition keeps :: "dict_store \<Rightarrow> dict_store \<Rightarrow> bool" where
  "keeps st st1 \<longleftrightarrow> length (cells st) \<le> length (cells st1) \<and>
     (\<forall>a < length (cells st). include_dict (cell st1 a) = include_dict (cell st a) \<and>
        dict_filename (cell st1 a) = dict_filename (cell st a) \<and> variable_dict (cell st1 a) = variable_dict (cell st a))"

lemma keeps_refl: "keeps st st"
  by (simp add: keeps_def)

lemma keeps_trans: "keeps st st1 \<Longrightarrow> keeps st1 st2 \<Longrightarrow> keeps st st2"
  by (auto simp: keeps_def)

lemma keeps_include:
  "keeps st st1 \<Longrightarrow> d < length (cells st) \<Longrightarrow> last_include st d y = Some (j, g) \<Longrightarrow> j < length (cells st) \<Longrightarrow>
    last_include st1 d y = Some (j, g)"
  by (auto simp: keeps_def last_include_def split: option.splits)

lemma menu_item_step:
  assumes "ph < length (cells st)" "menu_of st ph names"
  shows "keeps st (menu_item ph h st) \<and> menu_of (menu_item ph h st) ph (names @ (if h_visible h then [h_name h] else []))"
proof (cases "h_visible h")
  case True
  let ?n = "length (cells st)" and ?st1 = "menu_item ph h st"
  obtain nm where cs: "cells (snd (add_section_dictionary ph ''MENUITEM'' st)) =
      (cells st @ [empty_dictionary nm (template_global_dict_owner (cell st ph)) (Some ph)])
        [ph := (cell st ph)\<lparr>section_dict := hash_insert ''MENUITEM'' (dicts_of (section_dict (cell st ph)) ''MENUITEM'' @ [?n]) (section_dict (cell st ph))\<rparr>]"
    using add_section_cells(2) [OF assms(1)] by blast
  have st1: "?st1 = set_value ?n ''link'' (h_name h) (set_value ?n ''name'' (h_name h) (snd (add_section_dictionary ph ''MENUITEM'' st)))"
    using True add_section_cells(1) [OF assms(1), of "''MENUITEM''"] by (simp add: menu_item_def case_prod_beta)
  have cs1: "cells ?st1 = (cells st)
        [ph := (cell st ph)\<lparr>section_dict := hash_insert ''MENUITEM'' (dicts_of (section_dict (cell st ph)) ''MENUITEM'' @ [?n]) (section_dict (cell st ph))\<rparr>]
      @ [(empty_dictionary nm (template_global_dict_owner (cell st ph)) (Some ph))
          \<lparr>variable_dict := hash_insert ''link'' (h_name h) (hash_insert ''name'' (h_name h) None)\<rparr>]"
    using assms(1) by (simp add: st1 set_value_cells cs list_update_append nth_append)
  have keep: "keeps st ?st1"
    unfolding keeps_def
  proof (intro conjI allI impI)
    fix a assume "a < length (cells st)"
    then show "include_dict (cell ?st1 a) = include_dict (cell st a)" "dict_filename (cell ?st1 a) = dict_filename (cell st a)"
      "variable_dict (cell ?st1 a) = variable_dict (cell st a)"
      by (cases "a = ph"; simp add: cs1 nth_append)+
  qed (simp add: cs1)
  have rows: "dicts_of (section_dict (cell ?st1 ph)) ''MENUITEM'' = dicts_of (section_dict (cell st ph)) ''MENUITEM'' @ [?n]"
    using assms(1) by (simp add: cs1 nth_append dicts_of_def [of "hash_insert _ _ _"] lookup_insert)
  have new: "lookup_id (variable_dict (cell ?st1 ?n)) ''name'' = Some (h_name h)" "lookup_id (variable_dict (cell ?st1 ?n)) ''link'' = Some (h_name h)"
    using keys_differ(1) by (simp_all add: cs1 nth_append lookup_insert)
  have "list_all2 (\<lambda>row n. row < length (cells ?st1) \<and> lookup_id (variable_dict (cell ?st1 row)) ''name'' = Some n \<and>
         lookup_id (variable_dict (cell ?st1 row)) ''link'' = Some n) (dicts_of (section_dict (cell st ph)) ''MENUITEM'') names"
    using assms(2) unfolding menu_of_def by (rule list_all2_mono) (use keep in \<open>auto simp: keeps_def\<close>)
  moreover have "?n < length (cells ?st1)" by (simp add: cs1)
  ultimately show ?thesis
    using keep new True by (simp add: menu_of_def rows list_all2_appendI)
qed (use assms in \<open>simp add: menu_item_def keeps_refl\<close>)

lemma menu_items_run:
  "ph < length (cells st) \<Longrightarrow> menu_of st ph names \<Longrightarrow>
    keeps st (fold (menu_item ph) hs st) \<and> menu_of (fold (menu_item ph) hs st) ph (names @ map h_name (filter h_visible hs))"
proof (induction hs arbitrary: st names)
  case (Cons h hs)
  note step = menu_item_step [OF Cons.prems, of h]
  then have "ph < length (cells (menu_item ph h st))" using Cons.prems(1) by (simp add: keeps_def)
  from Cons.IH [OF this conjunct2 [OF step]] step show ?case by (auto intro: keeps_trans)
qed (simp add: keeps_refl)

lemma menu_kept:
  assumes "d < length (cells st)" "included d x f st = (i, st1)" "ph < length (cells st)" "menu_of st ph names"
  shows "menu_of st1 ph names"
proof -
  note same = included_facts(4) [OF assms(1,2)]
  have "length (cells st1) = Suc (length (cells st))" by (rule included_facts(2) [OF assms(1,2)])
  then show ?thesis
    using assms(4) same [OF assms(3)] same unfolding menu_of_def by (auto elim: list_all2_mono)
qed

section \<open>Every page has its menu\<close>

text \<open>C21: after the preprocessor ran, the last dictionary of \<open>PAGE_HEADER\<close> shows the section \<open>MENUITEM\<close> once for every visible handler
  of the server, in the order in which the server asks them, with the name of the handler as \<open>name\<close> and as \<open>link\<close>, when there is
  one; the header comes from the file of the configuration, and page header, footer and page footer from
  files with fixed names, whatever the members of the preprocessor are set to.\<close>

theorem every_page_has_menu:
  assumes "td < length (cells st)" "st1 = header_footer_process hf handlers td st"
  shows "\<exists>h ph f pf. last_include st1 td ''HEADER'' = Some (h, Some (cstr (header_tpl hf))) \<and>
    last_include st1 td ''PAGE_HEADER'' = Some (ph, Some ''page_header.tpl'') \<and>
    last_include st1 td ''FOOTER'' = Some (f, Some ''footer.tpl'') \<and>
    last_include st1 td ''PAGE_FOOTER'' = Some (pf, Some ''page_footer.tpl'') \<and>
    (filter h_visible handlers \<noteq> [] \<longrightarrow> is_hidden_section st1 ph ''MENUITEM'' = Some False \<and>
      (\<exists>rows. create_section_iterator st1 ph ''MENUITEM'' = Some (Inr rows) \<and>
        map (\<lambda>row. (get_value st1 row ''name'', get_value st1 row ''link'')) rows =
          map (\<lambda>h. (Some (h_name h), Some (h_name h))) (filter h_visible handlers)))"
proof -
  define names where "names = map h_name (filter h_visible handlers)"
  obtain h s1 where h: "included td ''HEADER'' (header_tpl hf) st = (h, s1)" by (rule prod.exhaust)
  obtain ph s2 where ph: "included td ''PAGE_HEADER'' ''page_header.tpl'' s1 = (ph, s2)" by (rule prod.exhaust)
  define s3 where "s3 = fold (menu_item ph) handlers s2"
  obtain f s4 where f: "included td ''FOOTER'' ''footer.tpl'' s3 = (f, s4)" by (rule prod.exhaust)
  obtain pf s5 where pf: "included td ''PAGE_FOOTER'' ''page_footer.tpl'' s4 = (pf, s5)" by (rule prod.exhaust)
  have st1: "st1 = s5" by (simp add: assms(2) process_alt h ph f pf s3_def [symmetric])
  note h1 = included_facts [OF assms(1) h]
  have td1: "td < length (cells s1)" using assms(1) h1(2) by simp
  note ph1 = included_facts [OF td1 ph]
  have td2: "td < length (cells s2)" "h < length (cells s1)" "h < length (cells s2)" "ph < length (cells s2)"
    using td1 h1(1,2) ph1(1,2) by simp_all
  have "menu_of s2 ph []" using ph1(6) by (simp add: menu_of_def dicts_of_def lookup_id_def entries_def)
  from menu_items_run [OF td2(4) this, of handlers]
  have menu: "keeps s2 s3" "menu_of s3 ph names" by (simp_all add: s3_def names_def)
  have td3: "td < length (cells s3)" "h < length (cells s3)" "ph < length (cells s3)" using menu(1) td2 by (auto simp: keeps_def)
  note f1 = included_facts [OF td3(1) f]
  have td4: "td < length (cells s4)" "h < length (cells s4)" "ph < length (cells s4)" "f < length (cells s4)"
    using td3 f1(1,2) by simp_all
  note pf1 = included_facts [OF td4(1) pf]
  note keys = keys_differ(2)
  have "last_include s2 td ''HEADER'' = Some (h, Some (cstr (header_tpl hf)))"
    using included_keeps [OF td1 ph _ h1(3) td2(2)] keys by simp
  from keeps_include [OF menu(1) td2(1) this td2(3)] included_keeps [OF td3(1) f _ _ td3(2)] included_keeps [OF td4(1) pf _ _ td4(2)] keys
  have a: "last_include st1 td ''HEADER'' = Some (h, Some (cstr (header_tpl hf)))" by (simp add: st1)
  from keeps_include [OF menu(1) td2(1) ph1(3) td2(4)] included_keeps [OF td3(1) f _ _ td3(3)] included_keeps [OF td4(1) pf _ _ td4(3)] keys
  have b: "last_include st1 td ''PAGE_HEADER'' = Some (ph, Some ''page_header.tpl'')" by (simp add: st1)
  have c: "last_include st1 td ''FOOTER'' = Some (f, Some ''footer.tpl'')"
    using included_keeps [OF td4(1) pf _ f1(3) td4(4)] keys by (simp add: st1)
  have d: "last_include st1 td ''PAGE_FOOTER'' = Some (pf, Some ''page_footer.tpl'')" using pf1(3) by (simp add: st1)
  have rows: "menu_of st1 ph names"
    unfolding st1 by (rule menu_kept [OF td4(1) pf td4(3)], rule menu_kept [OF td3(1) f td3(3) menu(2)])
  let ?rows = "dicts_of (section_dict (cell st1 ph)) ''MENUITEM''"
  have "is_hidden_section st1 ph ''MENUITEM'' = Some False \<and> create_section_iterator st1 ph ''MENUITEM'' = Some (Inr ?rows)"
    if "names \<noteq> []"
  proof -
    have "?rows \<noteq> []" using rows that by (auto simp: menu_of_def)
    then have "lookup_id (section_dict (cell st1 ph)) ''MENUITEM'' = Some ?rows" by (auto simp: dicts_of_def split: option.splits)
    then have "search_up (\<lambda>c. lookup_id (section_dict c) ''MENUITEM'') st1 ph = Some (Some ?rows)" by (rule search_here)
    then show ?thesis by (simp add: is_hidden_section_def create_section_iterator_def)
  qed
  moreover have "map (\<lambda>row. (get_value st1 row ''name'', get_value st1 row ''link'')) ?rows = map (\<lambda>n. (Some n, Some n)) names"
    using rows unfolding menu_of_def by (induction rule: list_all2_induct) (simp_all add: get_value_alt search_here)
  ultimately show ?thesis using a b c d unfolding names_def map_is_Nil_conv map_map comp_def by blast
qed

text \<open>A handler that takes every request.\<close>

definition home_handler :: "unit handler" where
  "home_handler = \<lparr>h_name = ''home'', h_visible = True, h_can_handle = (\<lambda>_ _. True), h_handle = (\<lambda>s. (Inr True, s))\<rparr>"

theorem every_page_has_menu_witness:
  "\<exists>ph rows. last_include (header_footer_process new_header_footer [home_handler] 0
        (snd (new_template_dictionary ''page'' setup_global_dict))) 0 ''PAGE_HEADER'' = Some (ph, Some ''page_header.tpl'') \<and>
    create_section_iterator (header_footer_process new_header_footer [home_handler] 0
        (snd (new_template_dictionary ''page'' setup_global_dict))) ph ''MENUITEM'' = Some (Inr rows) \<and> length rows = 1"
proof -
  let ?st = "snd (new_template_dictionary ''page'' setup_global_dict)"
  let ?st1 = "header_footer_process new_header_footer [home_handler] 0 ?st"
  have "0 < length (cells ?st)" by (simp add: new_template_dictionary_def Let_def)
  moreover have vis: "filter h_visible [home_handler] = [home_handler]" by (simp add: home_handler_def)
  ultimately obtain ph rows where rows: "last_include ?st1 0 ''PAGE_HEADER'' = Some (ph, Some ''page_header.tpl'')"
    "create_section_iterator ?st1 ph ''MENUITEM'' = Some (Inr rows)"
    "map (\<lambda>row. (get_value ?st1 row ''name'', get_value ?st1 row ''link'')) rows =
      map (\<lambda>h. (Some (h_name h), Some (h_name h))) [home_handler]"
    using every_page_has_menu [of 0 ?st ?st1 new_header_footer "[home_handler]", OF _ refl, unfolded vis] by blast
  have "length rows = 1" using arg_cong [OF rows(3), of length] by simp
  with rows show ?thesis by blast
qed

end
