(* ===== verification/Template_Cache.thy ===== *)
theory Template_Cache
  imports Template_Rendering Template_Names "HOL-Library.AList"
begin

text \<open>
  The cache of parsed templates (\<open>third/ctemplate-2.2/src/template_cache.cc\<close>), the search for files
  (\<open>template_pathops.cc\<close>) and how a template is loaded (\<open>template.cc\<close>). Templates are counted references, which caches
  share after \<open>Clone\<close>: they live in a list, a pointer is a place in it, and one whose count came to zero was
  deleted, so that every use of it is undefined. The file system is a parameter of each call; locks are not
  modelled, a call runs to its end.
\<close>

section \<open>Paths\<close>

definition path_sep :: char where "path_sep = CHR ''/''"

definition k_cwd :: string where "k_cwd = [CHR ''.'', path_sep]"

definition is_abspath :: "string \<Rightarrow> bool" where
  "is_abspath path \<longleftrightarrow> path \<noteq> [] \<and> hd path = path_sep"

definition is_directory :: "string \<Rightarrow> bool" where
  "is_directory path \<longleftrightarrow> path \<noteq> [] \<and> last path = path_sep"

definition path_join :: "string \<Rightarrow> string \<Rightarrow> string" where
  "path_join a b =
     (if b = [] then a
      else if a = [] then b
      else if is_abspath b then b
      else if is_directory a then a @ b
      else a @ [path_sep] @ b)"

definition normalize_directory :: "string \<Rightarrow> string" where
  "normalize_directory dir = (if dir = [] then [] else if last dir \<noteq> path_sep then dir @ [path_sep] else dir)"

definition basename :: "string \<Rightarrow> string" where
  "basename path = rev (takeWhile (\<lambda>c. c \<noteq> path_sep) (rev path))"

section \<open>Data\<close>

text \<open>What \<open>File::Stat\<close> says, what \<open>Open\<close> and \<open>Read\<close> give for a length, and \<open>getcwd\<close>.\<close>

record file_stat =
  st_mtime :: int
  st_length :: nat
  st_directory :: bool

record file_system =
  fs_stat :: "string \<Rightarrow> file_stat option"
  fs_read :: "string \<Rightarrow> nat \<Rightarrow> string option"
  fs_getcwd :: "string option"

text \<open>A \<open>Template\<close> as the cache knows it.\<close>

record loaded_template =
  original_filename :: string
  resolved_filename :: string
  filename_mtime :: int
  lt_strip :: strip
  lt_state :: template_state
  lt_tree :: "template_node option"

datatype template_type = UNUSED_TYPE | FILE_BASED | STRING_BASED

record cached_template =
  refcounted_tpl :: nat
  should_reload :: bool
  template_type :: template_type

type_synonym cache_key = "template_id \<times> strip"

record template_cache =
  parsed_template_cache :: "(cache_key \<times> cached_template) list"
  is_frozen :: bool
  search_path :: "string list"
  get_template_calls :: "(nat \<times> nat) list"

type_synonym refcounts = "(loaded_template \<times> nat) list"

record cache_world =
  templates :: refcounts
  caches :: "template_cache list"
  world_modifiers :: registry

type_synonym parser_memory = "htmlparser_ctx \<times> jsparser_ctx \<times> entityfilter_ctx"

text \<open>A call: \<open>None\<close> does not return.\<close>

type_synonym 'a cache_op = "cache_world \<Rightarrow> ('a \<times> cache_world) result option"

definition retC :: "'a \<Rightarrow> 'a cache_op" where
  "retC x w = Some (Inr (x, w))"

definition bindC :: "'a cache_op \<Rightarrow> ('a \<Rightarrow> 'b cache_op) \<Rightarrow> 'b cache_op" where
  "bindC m f w =
     (case m w of
        None \<Rightarrow> None
      | Some (Inl e) \<Rightarrow> Some (Inl e)
      | Some (Inr (x, w1)) \<Rightarrow> f x w1)"

definition askC :: "(cache_world \<Rightarrow> 'a) \<Rightarrow> 'a cache_op" where
  "askC f w = Some (Inr (f w, w))"

text \<open>What happens to the references.\<close>

definition on_templates :: "(refcounts \<Rightarrow> refcounts result) \<Rightarrow> unit cache_op" where
  "on_templates f w = Some (bindE (f (templates w)) (\<lambda>ts. Inr ((), w\<lparr>templates := ts\<rparr>)))"

definition on_cache :: "nat \<Rightarrow> (template_cache \<Rightarrow> template_cache) \<Rightarrow> unit cache_op" where
  "on_cache i f w = Some (Inr ((), w\<lparr>caches := (caches w)[i := f (caches w ! i)]\<rparr>))"

section \<open>Counted references\<close>

definition refcount_at :: "refcounts \<Rightarrow> nat \<Rightarrow> nat" where
  "refcount_at ts a = (if a < length ts then snd (ts ! a) else 0)"

definition inc_ref :: "nat \<Rightarrow> refcounts \<Rightarrow> refcounts result" where
  "inc_ref a ts =
     (if refcount_at ts a = 0 then Inl UndefinedBehaviour
      else Inr (ts[a := (fst (ts ! a), refcount_at ts a + 1)]))"

definition dec_ref_n :: "nat \<Rightarrow> nat \<Rightarrow> refcounts \<Rightarrow> refcounts result" where
  "dec_ref_n a n ts =
     (if refcount_at ts a = 0 then Inl UndefinedBehaviour
      else if refcount_at ts a < n then Inl AssertFailure
      else Inr (ts[a := (fst (ts ! a), refcount_at ts a - n)]))"

definition dec_ref :: "nat \<Rightarrow> refcounts \<Rightarrow> refcounts result" where
  "dec_ref a = dec_ref_n a 1"

text \<open>\<open>tpl()\<close>\<close>

definition tpl_at :: "nat \<Rightarrow> loaded_template cache_op" where
  "tpl_at a w =
     Some (if refcount_at (templates w) a = 0 then Inl UndefinedBehaviour else Inr (fst (templates w ! a), w))"

definition new_refcounted :: "loaded_template \<Rightarrow> nat cache_op" where
  "new_refcounted t w = Some (Inr (length (templates w), w\<lparr>templates := templates w @ [(t, 1)]\<rparr>))"

text \<open>A loop over references.\<close>

fun each_ref :: "('a \<Rightarrow> refcounts \<Rightarrow> refcounts result) \<Rightarrow> 'a list \<Rightarrow> refcounts \<Rightarrow> refcounts result" where
  "each_ref f [] ts = Inr ts"
| "each_ref f (x # xs) ts = bindE (f x ts) (each_ref f xs)"

section \<open>Loading templates\<close>

text \<open>\<open>ResolveTemplateFilename\<close> and \<open>FindTemplateFilename\<close>\<close>

fun first_in_path :: "file_system \<Rightarrow> string \<Rightarrow> string list \<Rightarrow> (string \<times> file_stat) option" where
  "first_in_path fs name [] = None"
| "first_in_path fs name (dir # dirs) =
     (case fs_stat fs (cstr (path_join dir name)) of
        Some st \<Rightarrow> Some (path_join dir name, st)
      | None \<Rightarrow> first_in_path fs name dirs)"

definition resolve_template_filename :: "file_system \<Rightarrow> string list \<Rightarrow> string \<Rightarrow> (string \<times> file_stat) option" where
  "resolve_template_filename fs path unresolved =
     (if path = [] \<or> is_abspath unresolved
      then map_option (\<lambda>st. (unresolved, st)) (fs_stat fs (cstr unresolved))
      else first_in_path fs unresolved path)"

definition find_template_filename :: "file_system \<Rightarrow> string list \<Rightarrow> string \<Rightarrow> string" where
  "find_template_filename fs path unresolved =
     (case resolve_template_filename fs path unresolved of None \<Rightarrow> [] | Some (resolved, st) \<Rightarrow> resolved)"

definition is_valid_template_filename :: "file_system \<Rightarrow> string list \<Rightarrow> string \<Rightarrow> bool" where
  "is_valid_template_filename fs path name =
     (case resolve_template_filename fs path name of None \<Rightarrow> False | Some (resolved, st) \<Rightarrow> \<not> st_directory st)"

definition has_template_changed_on_disk :: "file_system \<Rightarrow> string \<Rightarrow> int \<Rightarrow> bool" where
  "has_template_changed_on_disk fs file mtime =
     (case fs_stat fs (cstr file) of
        None \<Rightarrow> True
      | Some st \<Rightarrow> \<not> (st_mtime st = mtime \<and> mtime > 0))"

text \<open>The parser, with the modifiers that the program knows.\<close>

definition parse_content :: "parser_memory \<Rightarrow> string \<Rightarrow> strip \<Rightarrow> template_node option cache_op" where
  "parse_content memory content strip1 w =
     map_option (\<lambda>r. bindE r (\<lambda>(tree, t). Inr (tree, w\<lparr>world_modifiers := known_modifiers t\<rparr>)))
       (string_to_template content strip1 (world_modifiers w) memory)"

text \<open>\<open>Template::ReloadIfChangedLocked\<close>: whether the file was read and parsed, and the template.\<close>

definition reload_if_changed_locked ::
  "file_system \<Rightarrow> parser_memory \<Rightarrow> string list \<Rightarrow> loaded_template \<Rightarrow> (bool \<times> loaded_template) cache_op" where
  "reload_if_changed_locked fs memory path t =
     (if original_filename t = [] then retC (False, t)
      else
        case (if resolved_filename t = [] then resolve_template_filename fs path (original_filename t)
              else map_option (\<lambda>st. (resolved_filename t, st)) (fs_stat fs (cstr (resolved_filename t)))) of
          None \<Rightarrow> retC (False, t\<lparr>lt_state := TS_ERROR\<rparr>)
        | Some (resolved, st) \<Rightarrow>
            (let t1 = t\<lparr>resolved_filename := resolved\<rparr>
             in if st_directory st then retC (False, t1\<lparr>lt_state := TS_ERROR\<rparr>)
                else if st_mtime st = filename_mtime t \<and> filename_mtime t > 0 \<and> lt_tree t \<noteq> None
                then retC (False, t1\<lparr>lt_state := TS_READY\<rparr>)
                else case fs_read fs (cstr resolved) (st_length st) of
                       None \<Rightarrow> retC (False, t1\<lparr>lt_state := TS_ERROR\<rparr>)
                     | Some content \<Rightarrow>
                         bindC (parse_content memory content (lt_strip t)) (\<lambda>tree.
                           retC (tree \<noteq> None,
                             t1\<lparr>filename_mtime := st_mtime st, lt_tree := tree,
                                lt_state := (if tree \<noteq> None then TS_READY else TS_ERROR)\<rparr>))))"

text \<open>The constructor of a template for a file.\<close>

definition construct_template :: "file_system \<Rightarrow> parser_memory \<Rightarrow> nat \<Rightarrow> string \<Rightarrow> strip \<Rightarrow> loaded_template cache_op" where
  "construct_template fs memory i filename strip1 =
     bindC (askC (\<lambda>w. search_path (caches w ! i))) (\<lambda>path.
       bindC (reload_if_changed_locked fs memory path
           \<lparr>original_filename = filename, resolved_filename = [], filename_mtime = 0,
            lt_strip = (if ends_with ''.js'' (cstr filename) \<and> strip1 = STRIP_WHITESPACE then STRIP_BLANK_LINES else strip1),
            lt_state = TS_EMPTY, lt_tree = None\<rparr>)
         (\<lambda>(_, t). retC t))"

section \<open>The cache\<close>

definition new_cache :: template_cache where
  "new_cache = \<lparr>parsed_template_cache = [], is_frozen = False, search_path = [], get_template_calls = []\<rparr>"

definition find_entry :: "nat \<Rightarrow> cache_key \<Rightarrow> cached_template option cache_op" where
  "find_entry i key = askC (\<lambda>w. map_of (parsed_template_cache (caches w ! i)) key)"

definition put_entry :: "cache_key \<Rightarrow> cached_template \<Rightarrow> template_cache \<Rightarrow> template_cache" where
  "put_entry key e c = c\<lparr>parsed_template_cache := AList.update key e (parsed_template_cache c)\<rparr>"

definition file_entry :: "nat \<Rightarrow> cached_template" where
  "file_entry a = \<lparr>refcounted_tpl = a, should_reload = False, template_type = FILE_BASED\<rparr>"

text \<open>What \<open>GetTemplateLocked\<close> does with an entry that is marked: a new template in its place when the file changed.\<close>

definition reload_entry ::
  "file_system \<Rightarrow> parser_memory \<Rightarrow> nat \<Rightarrow> string \<Rightarrow> strip \<Rightarrow> cache_key \<Rightarrow> cached_template \<Rightarrow> cached_template cache_op" where
  "reload_entry fs memory i filename strip1 key e =
     (if \<not> should_reload e then retC e
      else
        bindC (tpl_at (refcounted_tpl e)) (\<lambda>t.
        bindC (askC (\<lambda>w. find_template_filename fs (search_path (caches w ! i)) (cstr (original_filename t)))) (\<lambda>resolved.
        bindC (if template_type e = FILE_BASED \<and>
                 (resolved \<noteq> cstr (resolved_filename t) \<or>
                  has_template_changed_on_disk fs (cstr (resolved_filename t)) (filename_mtime t))
               then bindC (construct_template fs memory i filename strip1) (\<lambda>t1.
                    bindC (on_templates (dec_ref (refcounted_tpl e))) (\<lambda>_.
                    bindC (new_refcounted t1) (\<lambda>a. retC (file_entry a))))
               else retC e) (\<lambda>e1.
        bindC (on_cache i (put_entry key (e1\<lparr>should_reload := False\<rparr>))) (\<lambda>_.
          retC (e1\<lparr>should_reload := False\<rparr>))))))"

definition get_template_locked ::
  "file_system \<Rightarrow> parser_memory \<Rightarrow> nat \<Rightarrow> string \<Rightarrow> strip \<Rightarrow> cache_key \<Rightarrow> nat option cache_op" where
  "get_template_locked fs memory i filename strip1 key =
     bindC (find_entry i key) (\<lambda>entry.
     bindC (askC (\<lambda>w. is_frozen (caches w ! i))) (\<lambda>frozen.
       if entry = None \<and> frozen then retC None
       else
         bindC (case entry of
                  Some e \<Rightarrow> retC e
                | None \<Rightarrow>
                    bindC (construct_template fs memory i filename strip1) (\<lambda>t.
                    bindC (new_refcounted t) (\<lambda>a.
                    bindC (on_cache i (put_entry key (file_entry a))) (\<lambda>_. retC (file_entry a)))))
           (\<lambda>e.
         bindC (reload_entry fs memory i filename strip1 key e) (\<lambda>e1.
         bindC (tpl_at (refcounted_tpl e1)) (\<lambda>t.
           retC (if lt_state t \<noteq> TS_READY then None else Some (refcounted_tpl e1)))))))"

definition cache_key_of :: "string \<Rightarrow> strip \<Rightarrow> cache_key" where
  "cache_key_of filename strip1 = (get_global_id filename, strip1)"

definition load_template :: "file_system \<Rightarrow> parser_memory \<Rightarrow> nat \<Rightarrow> string \<Rightarrow> strip \<Rightarrow> bool cache_op" where
  "load_template fs memory i filename strip1 =
     bindC (get_template_locked fs memory i filename strip1 (cache_key_of filename strip1)) (\<lambda>r. retC (r \<noteq> None))"

definition count_call :: "nat \<Rightarrow> template_cache \<Rightarrow> template_cache" where
  "count_call a c =
     c\<lparr>get_template_calls := AList.update a ((case map_of (get_template_calls c) a of None \<Rightarrow> 0 | Some n \<Rightarrow> n) + 1) (get_template_calls c)\<rparr>"

definition get_template :: "file_system \<Rightarrow> parser_memory \<Rightarrow> nat \<Rightarrow> string \<Rightarrow> strip \<Rightarrow> nat option cache_op" where
  "get_template fs memory i filename strip1 =
     bindC (get_template_locked fs memory i filename strip1 (cache_key_of filename strip1)) (\<lambda>r.
       case r of
         None \<Rightarrow> retC None
       | Some a \<Rightarrow>
           bindC (on_templates (inc_ref a)) (\<lambda>_.
           bindC (on_cache i (count_call a)) (\<lambda>_. retC (Some a))))"

text \<open>\<open>StringToTemplateCache\<close>: the entry is looked up before and after the parse.\<close>

definition string_template :: "strip \<Rightarrow> template_node \<Rightarrow> loaded_template" where
  "string_template strip1 tree =
     \<lparr>original_filename = [], resolved_filename = [], filename_mtime = 0, lt_strip = strip1, lt_state = TS_READY, lt_tree = Some tree\<rparr>"

definition entry_in_error :: "cached_template option \<Rightarrow> bool cache_op" where
  "entry_in_error entry =
     (case entry of
        None \<Rightarrow> retC True
      | Some e \<Rightarrow> bindC (tpl_at (refcounted_tpl e)) (\<lambda>t. retC (lt_state t = TS_ERROR)))"

definition insert_string :: "nat \<Rightarrow> cache_key \<Rightarrow> strip \<Rightarrow> template_node \<Rightarrow> cached_template option \<Rightarrow> bool cache_op" where
  "insert_string i key strip1 tree entry =
     bindC (entry_in_error entry) (\<lambda>free.
       if \<not> free then retC False
       else
         bindC (case entry of None \<Rightarrow> retC () | Some e \<Rightarrow> on_templates (dec_ref (refcounted_tpl e))) (\<lambda>_.
         bindC (new_refcounted (string_template strip1 tree)) (\<lambda>a.
         bindC (on_cache i (put_entry key \<lparr>refcounted_tpl = a, should_reload = False, template_type = STRING_BASED\<rparr>)) (\<lambda>_.
           retC True))))"

definition string_to_template_cache :: "parser_memory \<Rightarrow> nat \<Rightarrow> string \<Rightarrow> string \<Rightarrow> strip \<Rightarrow> bool cache_op" where
  "string_to_template_cache memory i key content strip1 =
     bindC (askC (\<lambda>w. is_frozen (caches w ! i))) (\<lambda>frozen.
       if frozen then retC False
       else
         bindC (bindC (find_entry i (cache_key_of key strip1)) entry_in_error) (\<lambda>free.
           if \<not> free then retC False
           else
             bindC (parse_content memory content strip1) (\<lambda>parsed.
               case parsed of
                 None \<Rightarrow> retC False
               | Some tree \<Rightarrow>
                   bindC (find_entry i (cache_key_of key strip1)) (insert_string i (cache_key_of key strip1) strip1 tree))))"

section \<open>Managing the cache\<close>

definition delete_key :: "nat \<Rightarrow> string \<Rightarrow> bool cache_op" where
  "delete_key i key =
     bindC (askC (\<lambda>w. caches w ! i)) (\<lambda>c.
       if is_frozen c then retC False
       else
         (let gone = filter (\<lambda>(k, e). fst k = get_global_id key) (parsed_template_cache c)
          in bindC (on_templates (each_ref dec_ref (map (refcounted_tpl \<circ> snd) gone))) (\<lambda>_.
             bindC (on_cache i (\<lambda>c. c\<lparr>parsed_template_cache := filter (\<lambda>(k, e). fst k \<noteq> get_global_id key) (parsed_template_cache c)\<rparr>)) (\<lambda>_.
               retC (gone \<noteq> [])))))"

definition done_with_get_template_ptrs :: "nat \<Rightarrow> unit cache_op" where
  "done_with_get_template_ptrs i =
     bindC (askC (\<lambda>w. get_template_calls (caches w ! i))) (\<lambda>calls.
     bindC (on_templates (each_ref (\<lambda>(a, n). dec_ref_n a n) calls)) (\<lambda>_.
       on_cache i (\<lambda>c. c\<lparr>get_template_calls := []\<rparr>)))"

definition clear_cache :: "nat \<Rightarrow> unit cache_op" where
  "clear_cache i =
     bindC (askC (\<lambda>w. parsed_template_cache (caches w ! i))) (\<lambda>entries.
     bindC (on_cache i (\<lambda>c. c\<lparr>parsed_template_cache := [], is_frozen := False\<rparr>)) (\<lambda>_.
     bindC (on_templates (each_ref dec_ref (map (refcounted_tpl \<circ> snd) entries))) (\<lambda>_.
       done_with_get_template_ptrs i)))"

datatype reload_type = LAZY_RELOAD | IMMEDIATE_RELOAD

text \<open>The loop of \<open>ReloadAllIfChanged\<close> over the keys of the map.\<close>

definition mark_entry :: "cache_key \<Rightarrow> template_cache \<Rightarrow> template_cache" where
  "mark_entry key c =
     (case map_of (parsed_template_cache c) key of None \<Rightarrow> c | Some e \<Rightarrow> put_entry key (e\<lparr>should_reload := True\<rparr>) c)"

fun reload_keys :: "file_system \<Rightarrow> parser_memory \<Rightarrow> reload_type \<Rightarrow> nat \<Rightarrow> cache_key list \<Rightarrow> unit cache_op" where
  "reload_keys fs memory ty i [] = retC ()"
| "reload_keys fs memory ty i (key # keys) =
     bindC (on_cache i (mark_entry key)) (\<lambda>_.
     bindC (if ty = LAZY_RELOAD then retC ()
            else
              bindC (find_entry i key) (\<lambda>entry.
                case entry of
                  None \<Rightarrow> retC ()
                | Some e \<Rightarrow>
                    bindC (tpl_at (refcounted_tpl e)) (\<lambda>t.
                    bindC (get_template_locked fs memory i (cstr (original_filename t)) (lt_strip t) key) (\<lambda>_. retC ()))))
       (\<lambda>_. reload_keys fs memory ty i keys))"

definition reload_all_if_changed :: "file_system \<Rightarrow> parser_memory \<Rightarrow> reload_type \<Rightarrow> nat \<Rightarrow> unit cache_op" where
  "reload_all_if_changed fs memory ty i =
     bindC (askC (\<lambda>w. caches w ! i)) (\<lambda>c.
       if is_frozen c then retC () else reload_keys fs memory ty i (map fst (parsed_template_cache c)))"

definition freeze :: "file_system \<Rightarrow> parser_memory \<Rightarrow> nat \<Rightarrow> unit cache_op" where
  "freeze fs memory i =
     bindC (askC (\<lambda>w. is_frozen (caches w ! i))) (\<lambda>frozen.
       if frozen then retC ()
       else
         bindC (reload_all_if_changed fs memory IMMEDIATE_RELOAD i) (\<lambda>_.
           on_cache i (\<lambda>c. c\<lparr>is_frozen := True\<rparr>)))"

definition make_cache :: "template_cache \<Rightarrow> nat cache_op" where
  "make_cache c w = Some (Inr (length (caches w), w\<lparr>caches := caches w @ [c]\<rparr>))"

definition clone :: "nat \<Rightarrow> nat cache_op" where
  "clone i =
     bindC (askC (\<lambda>w. parsed_template_cache (caches w ! i))) (\<lambda>entries.
     bindC (on_templates (each_ref inc_ref (map (refcounted_tpl \<circ> snd) entries))) (\<lambda>_.
       make_cache (new_cache\<lparr>parsed_template_cache := entries\<rparr>)))"

text \<open>Directories.\<close>

definition absolute_directory :: "file_system \<Rightarrow> string \<Rightarrow> string" where
  "absolute_directory fs directory =
     (let normalized = normalize_directory directory
      in if is_abspath normalized then normalized
         else case fs_getcwd fs of None \<Rightarrow> normalized | Some cwd \<Rightarrow> path_join cwd normalized)"

definition add_template_root_directory :: "file_system \<Rightarrow> parser_memory \<Rightarrow> bool \<Rightarrow> nat \<Rightarrow> string \<Rightarrow> bool cache_op" where
  "add_template_root_directory fs memory clear i directory =
     bindC (askC (\<lambda>w. is_frozen (caches w ! i))) (\<lambda>frozen.
       if frozen then retC False
       else
         bindC (on_cache i (\<lambda>c. c\<lparr>search_path := (if clear then [] else search_path c) @ [absolute_directory fs directory]\<rparr>)) (\<lambda>_.
         bindC (reload_all_if_changed fs memory LAZY_RELOAD i) (\<lambda>_. retC True)))"

definition template_root_directory :: "template_cache \<Rightarrow> string" where
  "template_root_directory c = (case search_path c of [] \<Rightarrow> k_cwd | dir # dirs \<Rightarrow> dir)"

definition cache_refcount :: "nat \<Rightarrow> cache_key \<Rightarrow> cache_world \<Rightarrow> nat" where
  "cache_refcount i key w =
     (case map_of (parsed_template_cache (caches w ! i)) key of
        None \<Rightarrow> 0
      | Some e \<Rightarrow> refcount_at (templates w) (refcounted_tpl e))"

definition template_is_cached :: "nat \<Rightarrow> cache_key \<Rightarrow> cache_world \<Rightarrow> bool" where
  "template_is_cached i key w \<longleftrightarrow> map_of (parsed_template_cache (caches w ! i)) key \<noteq> None"

section \<open>Expansion through the cache\<close>

definition as_op :: "cache_world expansion \<Rightarrow> (bool \<times> string) cache_op" where
  "as_op m w =
     (case m w of
        None \<Rightarrow> None
      | Some (Inl e) \<Rightarrow> Some (Inl e)
      | Some (Inr (ok, out, w1)) \<Rightarrow> Some (Inr ((ok, out), w1)))"

definition as_expansion :: "(bool \<times> string) cache_op \<Rightarrow> cache_world expansion" where
  "as_expansion m w =
     (case m w of
        None \<Rightarrow> None
      | Some (Inl e) \<Rightarrow> Some (Inl e)
      | Some (Inr ((ok, out), w1)) \<Rightarrow> Some (Inr (ok, out, w1)))"

text \<open>\<open>Template::ExpandLocked\<close>: a tree is asked for only when the template is ready.\<close>

definition expand_loaded ::
  "'d dictionary_interface \<Rightarrow> per_expand_data \<Rightarrow> ('d, cache_world) includer \<Rightarrow> loaded_template \<Rightarrow> 'd \<Rightarrow> cache_world expansion" where
  "expand_loaded I p sub t d =
     (if lt_state t \<noteq> TS_READY then (\<lambda>w. Some (Inr (False, [], w)))
      else case lt_tree t of
             None \<Rightarrow> stop_with UndefinedBehaviour
           | Some tree \<Rightarrow> expand_tree I p sub \<lparr>rt_tree = tree, rt_file = resolved_filename t\<rparr> d)"

text \<open>The template is held while it is expanded.\<close>

definition expand_held ::
  "'d dictionary_interface \<Rightarrow> per_expand_data \<Rightarrow> ('d, cache_world) includer \<Rightarrow> nat \<Rightarrow> 'd \<Rightarrow> (bool \<times> string) cache_op" where
  "expand_held I p sub a d =
     bindC (on_templates (inc_ref a)) (\<lambda>_.
     bindC (tpl_at a) (\<lambda>t.
     bindC (as_op (expand_loaded I p sub t d)) (\<lambda>answer.
     bindC (on_templates (dec_ref a)) (\<lambda>_. retC answer))))"

text \<open>\<open>ExpandWithData\<close> and \<open>ExpandLocked\<close>. The recursion through included templates is on fuel.\<close>

fun cache_expand ::
  "file_system \<Rightarrow> parser_memory \<Rightarrow> nat \<Rightarrow> 'd dictionary_interface \<Rightarrow> per_expand_data \<Rightarrow> nat \<Rightarrow> ('d, cache_world) includer" where
  "cache_expand fs memory i I p 0 filename strip1 d = does_not_return"
| "cache_expand fs memory i I p (Suc n) filename strip1 d =
     as_expansion (bindC (get_template_locked fs memory i filename strip1 (cache_key_of filename strip1)) (\<lambda>r.
       case r of
         None \<Rightarrow> retC (False, [])
       | Some a \<Rightarrow> expand_held I p (cache_expand fs memory i I p n) a d))"

text \<open>\<open>ExpandNoLoad\<close>\<close>

definition expand_no_load ::
  "file_system \<Rightarrow> parser_memory \<Rightarrow> nat \<Rightarrow> 'd dictionary_interface \<Rightarrow> per_expand_data \<Rightarrow> nat \<Rightarrow> string \<Rightarrow> strip \<Rightarrow> 'd \<Rightarrow> (bool \<times> string) cache_op" where
  "expand_no_load fs memory i I p n filename strip1 d =
     bindC (askC (\<lambda>w. is_frozen (caches w ! i))) (\<lambda>frozen.
       if \<not> frozen then retC (False, [])
       else
         bindC (find_entry i (cache_key_of filename strip1)) (\<lambda>entry.
           case entry of
             None \<Rightarrow> retC (False, [])
           | Some e \<Rightarrow> expand_held I p (cache_expand fs memory i I p n) (refcounted_tpl e) d))"

section \<open>Requests\<close>

text \<open>A call of an application on one of its caches; an expansion comes with the dictionaries of the application, whose
  number is enough fuel.\<close>

datatype cache_request =
    New_request
  | Load_request string strip
  | Get_request string strip
  | String_request string string strip
  | Delete_request string
  | Done_request
  | Clear_request
  | Reload_request reload_type
  | Freeze_request
  | Clone_request
  | Root_request bool string
  | Expand_request string strip per_expand_data dict_store nat
  | Expand_no_load_request string strip per_expand_data dict_store nat

definition quietly :: "'a cache_op \<Rightarrow> unit cache_op" where
  "quietly m = bindC m (\<lambda>_. retC ())"

fun serve_request :: "file_system \<Rightarrow> parser_memory \<Rightarrow> nat \<Rightarrow> cache_request \<Rightarrow> unit cache_op" where
  "serve_request fs memory i New_request = quietly (make_cache new_cache)"
| "serve_request fs memory i (Load_request f s) = quietly (load_template fs memory i f s)"
| "serve_request fs memory i (Get_request f s) = quietly (get_template fs memory i f s)"
| "serve_request fs memory i (String_request key content s) = quietly (string_to_template_cache memory i key content s)"
| "serve_request fs memory i (Delete_request key) = quietly (delete_key i key)"
| "serve_request fs memory i Done_request = done_with_get_template_ptrs i"
| "serve_request fs memory i Clear_request = clear_cache i"
| "serve_request fs memory i (Reload_request ty) = reload_all_if_changed fs memory ty i"
| "serve_request fs memory i Freeze_request = freeze fs memory i"
| "serve_request fs memory i Clone_request = quietly (clone i)"
| "serve_request fs memory i (Root_request clear dir) = quietly (add_template_root_directory fs memory clear i dir)"
| "serve_request fs memory i (Expand_request f s p st d) =
     quietly (as_op (cache_expand fs memory i (store_interface st) p (Suc (length (cells st))) f s d))"
| "serve_request fs memory i (Expand_no_load_request f s p st d) =
     quietly (expand_no_load fs memory i (store_interface st) p (Suc (length (cells st))) f s d)"

end
