(* ===== verification/Template_References.thy ===== *)
theory Template_References
  imports Template_Cache
begin

text \<open>
  The counted references of the template caches: an assertion that counts them, and what each operation does to it. An
  operation fails only where the parser does; no template is used or given back after it was deleted.
\<close>

section \<open>Counting\<close>

definition uses :: "template_cache \<Rightarrow> nat \<Rightarrow> nat" where
  "uses c a = count_list (map (refcounted_tpl \<circ> snd) (parsed_template_cache c)) a +
     (case map_of (get_template_calls c) a of None \<Rightarrow> 0 | Some n \<Rightarrow> n)"

definition references :: "cache_world \<Rightarrow> nat \<Rightarrow> nat" where
  "references w a = sum_list (map (\<lambda>c. uses c a) (caches w))"

definition cache_ok :: "template_cache \<Rightarrow> bool" where
  "cache_ok c \<longleftrightarrow> distinct (map fst (parsed_template_cache c)) \<and> distinct (map fst (get_template_calls c)) \<and>
     (\<forall>(a, n) \<in> set (get_template_calls c). 0 < n)"

text \<open>The count of each template is that of the caches, and what a call in progress holds.\<close>

definition world_ok :: "(nat \<Rightarrow> int) \<Rightarrow> cache_world \<Rightarrow> bool" where
  "world_ok borrowed w \<longleftrightarrow>
     (\<forall>a. int (refcount_at (templates w) a) = int (references w a) + borrowed a) \<and>
     (\<forall>c \<in> set (caches w). cache_ok c) \<and>
     (\<forall>(t, n) \<in> set (templates w). lt_state t = TS_READY \<longrightarrow> lt_tree t \<noteq> None)"

lemma sum_list_put:
  "i < length xs \<Longrightarrow> int (sum_list (map f (xs[i := y]))) = int (sum_list (map f xs)) - int (f (xs ! i)) + int (f y)"
proof (induction xs arbitrary: i)
  case (Cons x xs)
  then show ?case by (cases i) simp_all
qed simp

lemma references_put:
  "i < length (caches w) \<Longrightarrow> int (references (w\<lparr>caches := (caches w)[i := c]\<rparr>) a) =
    int (references w a) - int (uses (caches w ! i) a) + int (uses c a)"
  by (simp add: references_def sum_list_put)

lemma uses_le_references: "i < length (caches w) \<Longrightarrow> uses (caches w ! i) a \<le> references w a"
  using elem_le_sum_list [of i "map (\<lambda>c. uses c a) (caches w)"] by (simp add: references_def)

lemma world_ok_cache:
  assumes "world_ok borrowed w" "i < length (caches w)" "cache_ok c"
    and "\<And>a. borrowed' a = borrowed a + int (uses (caches w ! i) a) - int (uses c a)"
  shows "world_ok borrowed' (w\<lparr>caches := (caches w)[i := c]\<rparr>)"
  using assms by (auto simp: world_ok_def references_put dest: set_update_subset_insert [THEN subsetD])

lemma world_ok_templates:
  assumes "world_ok borrowed w" "map fst ts = map fst (templates w)"
    and "\<And>a. borrowed' a = borrowed a + int (refcount_at ts a) - int (refcount_at (templates w) a)"
  shows "world_ok borrowed' (w\<lparr>templates := ts\<rparr>)"
proof -
  have "fst ` set ts = fst ` set (templates w)" using assms(2) by (metis set_map)
  then have "\<forall>(t, n) \<in> set ts. lt_state t = TS_READY \<longrightarrow> lt_tree t \<noteq> None"
    using assms(1) unfolding world_ok_def by (metis (mono_tags, lifting) case_prod_beta' image_iff)
  then show ?thesis using assms(1,3) by (simp add: world_ok_def references_def)
qed

lemma world_ok_modifiers: "world_ok borrowed (w\<lparr>world_modifiers := ms\<rparr>) = world_ok borrowed w"
  by (simp add: world_ok_def references_def)

text \<open>An entry of a cache counts.\<close>

lemma entry_counted:
  assumes "world_ok borrowed w" "i < length (caches w)" "map_of (parsed_template_cache (caches w ! i)) key = Some e"
    and "0 \<le> borrowed (refcounted_tpl e)"
  shows "0 < refcount_at (templates w) (refcounted_tpl e)"
proof -
  have "refcounted_tpl e \<in> set (map (refcounted_tpl \<circ> snd) (parsed_template_cache (caches w ! i)))"
    using map_of_SomeD [OF assms(3)] by force
  then have "0 < uses (caches w ! i) (refcounted_tpl e)" by (simp add: uses_def count_list_0_iff flip: neq0_conv)
  with uses_le_references [OF assms(2)] have "0 < references w (refcounted_tpl e)" by (meson order.strict_trans2)
  then show ?thesis using assms(1,4) by (simp add: world_ok_def) (metis of_nat_0_less_iff add_pos_nonneg)
qed

text \<open>What an update of an entry does to the uses.\<close>

lemma count_update:
  "int (count_list (map (f \<circ> snd) (AList.update k e xs)) a) =
     int (count_list (map (f \<circ> snd) xs) a) - (case map_of xs k of None \<Rightarrow> 0 | Some e0 \<Rightarrow> of_bool (f e0 = a)) + of_bool (f e = a)"
  by (induction xs) auto

lemma uses_put:
  "int (uses (put_entry key e c) a) = int (uses c a) -
     (case map_of (parsed_template_cache c) key of None \<Rightarrow> 0 | Some e0 \<Rightarrow> of_bool (refcounted_tpl e0 = a)) + of_bool (refcounted_tpl e = a)"
  unfolding uses_def put_entry_def by (simp add: count_update)

lemma put_entry_fields [simp]:
  "is_frozen (put_entry key e c) = is_frozen c" "search_path (put_entry key e c) = search_path c"
  "get_template_calls (put_entry key e c) = get_template_calls c"
  "map_of (parsed_template_cache (put_entry key e c)) = (map_of (parsed_template_cache c))(key \<mapsto> e)"
  by (simp_all add: put_entry_def AList.update_conv')

lemma set_update_subset: "set (AList.update k e xs) \<subseteq> insert (k, e) (set xs)"
  by (induction xs) auto

lemma cache_ok_put: "cache_ok c \<Longrightarrow> cache_ok (put_entry key e c)"
  by (simp add: cache_ok_def put_entry_def distinct_update)

section \<open>References given back\<close>

definition weight :: "(nat \<times> nat) list \<Rightarrow> nat \<Rightarrow> nat" where
  "weight xs a = sum_list (map (\<lambda>(b, n). if b = a then n else 0) xs)"

lemma weight_simps [simp]:
  "weight [] a = 0" "weight ((b, n) # xs) a = (if b = a then n else 0) + weight xs a"
  by (simp_all add: weight_def)

lemma refcount_update: "a < length ts \<Longrightarrow> refcount_at (ts[a := (t, n)]) b = (if b = a then n else refcount_at ts b)"
  by (simp add: refcount_at_def nth_list_update)

lemma dec_ref_n_ok:
  assumes "0 < n" "n \<le> refcount_at ts a"
  shows "\<exists>ts1. dec_ref_n a n ts = Inr ts1 \<and> map fst ts1 = map fst ts \<and>
    (\<forall>b. refcount_at ts1 b = refcount_at ts b - (if b = a then n else 0))"
proof -
  have "a < length ts" using assms by (cases "a < length ts") (simp_all add: refcount_at_def)
  then show ?thesis using assms by (simp add: dec_ref_n_def refcount_update map_update list_update_same_conv)
qed

lemma inc_ref_ok:
  assumes "0 < refcount_at ts a"
  shows "\<exists>ts1. inc_ref a ts = Inr ts1 \<and> map fst ts1 = map fst ts \<and>
    (\<forall>b. refcount_at ts1 b = refcount_at ts b + (if b = a then 1 else 0))"
proof -
  have "a < length ts" using assms by (cases "a < length ts") (simp_all add: refcount_at_def)
  then show ?thesis using assms by (simp add: inc_ref_def refcount_update map_update list_update_same_conv)
qed

lemma each_dec_ok:
  "(\<And>a n. (a, n) \<in> set xs \<Longrightarrow> 0 < n) \<Longrightarrow> (\<And>a. weight xs a \<le> refcount_at ts a) \<Longrightarrow>
    \<exists>ts1. each_ref (\<lambda>(a, n). dec_ref_n a n) xs ts = Inr ts1 \<and> map fst ts1 = map fst ts \<and>
      (\<forall>b. refcount_at ts1 b = refcount_at ts b - weight xs b)"
proof (induction xs arbitrary: ts)
  case (Cons x xs)
  obtain a n where x: "x = (a, n)" by (cases x)
  have "0 < n" "n \<le> refcount_at ts a" using Cons.prems(1) [of a n] Cons.prems(2) [of a] x by auto
  then obtain ts1 where one: "dec_ref_n a n ts = Inr ts1" "map fst ts1 = map fst ts"
    "\<And>b. refcount_at ts1 b = refcount_at ts b - (if b = a then n else 0)" using dec_ref_n_ok by blast
  have rest: "weight xs b \<le> refcount_at ts1 b" for b using Cons.prems(2) [of b] one(3) [of b] x by auto
  obtain ts2 where two: "each_ref (\<lambda>(a, n). dec_ref_n a n) xs ts1 = Inr ts2" "map fst ts2 = map fst ts1"
    "\<And>b. refcount_at ts2 b = refcount_at ts1 b - weight xs b"
    using Cons.IH [OF _ rest] Cons.prems(1) by (metis list.set_intros(2))
  have "refcount_at ts2 b = refcount_at ts b - weight (x # xs) b" for b using two(3) one(3) x by simp
  then show ?case using one two x by simp
qed simp

lemma each_dec_one: "each_ref dec_ref xs ts = each_ref (\<lambda>(a, n). dec_ref_n a n) (map (\<lambda>a. (a, 1)) xs) ts"
proof (induction xs arbitrary: ts)
  case (Cons a xs)
  then show ?case by (cases "dec_ref_n a 1 ts") (simp_all add: dec_ref_def)
qed simp

lemma weight_ones: "weight (map (\<lambda>a. (a, 1)) xs) a = count_list xs a"
  by (induction xs) simp_all

lemma weight_calls: "distinct (map fst xs) \<Longrightarrow> weight xs a = (case map_of xs a of None \<Rightarrow> 0 | Some n \<Rightarrow> n)"
proof (induction xs)
  case (Cons x xs)
  obtain b n where x: "x = (b, n)" by (cases x)
  show ?case
  proof (cases "b = a")
    case True
    then have "map_of xs a = None" using Cons.prems x by (simp add: map_of_eq_None_iff)
    then show ?thesis using Cons x True by simp
  qed (use Cons x in auto)
qed simp

lemma each_inc_ok:
  "(\<And>a. a \<in> set xs \<Longrightarrow> 0 < refcount_at ts a) \<Longrightarrow>
    \<exists>ts1. each_ref inc_ref xs ts = Inr ts1 \<and> map fst ts1 = map fst ts \<and>
      (\<forall>b. refcount_at ts1 b = refcount_at ts b + count_list xs b)"
proof (induction xs arbitrary: ts)
  case (Cons a xs)
  obtain ts1 where one: "inc_ref a ts = Inr ts1" "map fst ts1 = map fst ts"
    "\<And>b. refcount_at ts1 b = refcount_at ts b + (if b = a then 1 else 0)" using inc_ref_ok Cons.prems by (metis list.set_intros(1))
  have rest: "\<And>b. b \<in> set xs \<Longrightarrow> 0 < refcount_at ts1 b" using Cons.prems one(3) by (simp add: trans_less_add1)
  obtain ts2 where two: "each_ref inc_ref xs ts1 = Inr ts2" "map fst ts2 = map fst ts1"
    "\<And>b. refcount_at ts2 b = refcount_at ts1 b + count_list xs b" using Cons.IH [OF rest] by blast
  have "refcount_at ts2 b = refcount_at ts b + count_list (a # xs) b" for b using two(3) one(3) by simp
  then show ?case using one two by simp
qed simp

section \<open>Triples\<close>

text \<open>What a call does from a condition, and the failures that it may have.\<close>

definition triple :: "(rt_error option \<Rightarrow> bool) \<Rightarrow> (cache_world \<Rightarrow> bool) \<Rightarrow> 'a cache_op \<Rightarrow> ('a \<Rightarrow> cache_world \<Rightarrow> bool) \<Rightarrow> bool" where
  "triple B P m Q \<longleftrightarrow> (\<forall>w. P w \<longrightarrow> (case m w of
     None \<Rightarrow> B None | Some (Inl e) \<Rightarrow> B (Some e) | Some (Inr (x, w1)) \<Rightarrow> Q x w1))"

lemma triple_ret: "(\<And>w. P w \<Longrightarrow> Q x w) \<Longrightarrow> triple B P (retC x) Q"
  by (simp add: triple_def retC_def)

lemma triple_ask: "(\<And>w. P w \<Longrightarrow> Q (f w) w) \<Longrightarrow> triple B P (askC f) Q"
  by (simp add: triple_def askC_def)

lemma triple_bind:
  assumes "triple B P m R" "\<And>x. triple B (R x) (f x) Q"
  shows "triple B P (bindC m f) Q"
  unfolding triple_def
proof (intro allI impI)
  fix w assume "P w"
  with assms(1) have m: "case m w of None \<Rightarrow> B None | Some (Inl e) \<Rightarrow> B (Some e) | Some (Inr (x, w1)) \<Rightarrow> R x w1"
    by (simp add: triple_def)
  show "case bindC m f w of None \<Rightarrow> B None | Some (Inl e) \<Rightarrow> B (Some e) | Some (Inr (x, w1)) \<Rightarrow> Q x w1"
  proof (cases "m w")
    case (Some r)
    then show ?thesis
    proof (cases r)
      case (Inr y)
      then obtain x w1 where y: "r = Inr (x, w1)" by (cases y) auto
      with m Some have "R x w1" by simp
      with assms(2) [of x] Some y show ?thesis by (simp add: triple_def bindC_def)
    qed (use m in \<open>simp add: bindC_def\<close>)
  qed (use m in \<open>simp add: bindC_def\<close>)
qed

lemma triple_weaken:
  "triple B P m Q \<Longrightarrow> (\<And>w. P' w \<Longrightarrow> P w) \<Longrightarrow> (\<And>x w. Q x w \<Longrightarrow> Q' x w) \<Longrightarrow> triple B P' m Q'"
  unfolding triple_def by (fastforce split: option.splits sum.splits)

lemma triple_pure: "(\<And>w. P w \<Longrightarrow> X) \<Longrightarrow> (X \<Longrightarrow> triple B P m Q) \<Longrightarrow> triple B P m Q"
  unfolding triple_def by blast

lemma triple_templates:
  assumes "\<And>w. P w \<Longrightarrow> \<exists>ts. f (templates w) = Inr ts \<and> Q () (w\<lparr>templates := ts\<rparr>)"
  shows "triple B P (on_templates f) Q"
  unfolding triple_def on_templates_def by (auto dest!: assms)

lemma triple_cache:
  "(\<And>w. P w \<Longrightarrow> Q () (w\<lparr>caches := (caches w)[i := f (caches w ! i)]\<rparr>)) \<Longrightarrow> triple B P (on_cache i f) Q"
  by (simp add: triple_def on_cache_def)

text \<open>The failures of the parser, on some text and with some modifiers.\<close>

definition parser_fails :: "parser_memory \<Rightarrow> rt_error option \<Rightarrow> bool" where
  "parser_fails memory x \<longleftrightarrow> (\<exists>content strip1 ms. string_to_template content strip1 ms memory = map_option Inl x)"

abbreviation safely :: "parser_memory \<Rightarrow> (cache_world \<Rightarrow> bool) \<Rightarrow> 'a cache_op \<Rightarrow> ('a \<Rightarrow> cache_world \<Rightarrow> bool) \<Rightarrow> bool" where
  "safely memory \<equiv> triple (parser_fails memory)"

text \<open>The assertion on the way: what is held, and what is known of the caches.\<close>

definition counted :: "(nat \<Rightarrow> int) \<Rightarrow> (template_cache list \<Rightarrow> bool) \<Rightarrow> cache_world \<Rightarrow> bool" where
  "counted borrowed R w \<longleftrightarrow> world_ok borrowed w \<and> R (caches w)"

lemma counted_ask: "triple B (counted b R) (askC f) (\<lambda>x. counted b (\<lambda>cs. R cs \<and> (\<exists>w. caches w = cs \<and> x = f w)))"
  by (rule triple_ask) (auto simp: counted_def)

lemma counted_ret: "(\<And>cs. R cs \<Longrightarrow> R' x cs) \<Longrightarrow> triple B (counted b R) (retC x) (\<lambda>y. counted b (R' y))"
  by (rule triple_ret) (simp add: counted_def)

lemma counted_pre: "triple B (counted b R) m Q \<Longrightarrow> (\<And>cs. R' cs \<Longrightarrow> R cs) \<Longrightarrow> triple B (counted b R') m Q"
  by (erule triple_weaken) (simp_all add: counted_def)

lemma counted_post:
  "triple B P m (\<lambda>x. counted b (R x)) \<Longrightarrow> (\<And>x cs. R x cs \<Longrightarrow> R' x cs) \<Longrightarrow> triple B P m (\<lambda>x. counted b (R' x))"
  by (erule triple_weaken) (simp_all add: counted_def)

lemma counted_pure: "(\<And>cs. R cs \<Longrightarrow> X) \<Longrightarrow> (X \<Longrightarrow> triple B (counted b R) m Q) \<Longrightarrow> triple B (counted b R) m Q"
  unfolding triple_def counted_def by blast

lemma counted_parse: "safely memory (counted b R) (parse_content memory content strip1) (\<lambda>_. counted b R)"
  unfolding triple_def
proof (intro allI impI)
  fix w assume w: "counted b R w"
  let ?r = "string_to_template content strip1 (world_modifiers w) memory"
  have fails: "?r = map_option Inl x \<Longrightarrow> parser_fails memory x" for x unfolding parser_fails_def by blast
  show "case parse_content memory content strip1 w of None \<Rightarrow> parser_fails memory None
      | Some (Inl e) \<Rightarrow> parser_fails memory (Some e) | Some (Inr (x, w1)) \<Rightarrow> counted b R w1"
  proof (cases ?r)
    case (Some r)
    then show ?thesis using w fails [of "Some _"]
      by (cases r) (auto simp: parse_content_def counted_def world_ok_modifiers)
  qed (use fails [of None] in \<open>simp add: parse_content_def\<close>)
qed

lemma counted_templates:
  assumes "\<And>w. counted b R w \<Longrightarrow> \<exists>ts. f (templates w) = Inr ts \<and> map fst ts = map fst (templates w) \<and>
    (\<forall>a. b' a = b a + int (refcount_at ts a) - int (refcount_at (templates w) a))"
  shows "triple B (counted b R) (on_templates f) (\<lambda>_. counted b' R)"
proof (rule triple_templates)
  fix w assume w: "counted b R w"
  from assms [OF this] obtain ts where "f (templates w) = Inr ts" "map fst ts = map fst (templates w)"
    "\<And>a. b' a = b a + int (refcount_at ts a) - int (refcount_at (templates w) a)" by blast
  then show "\<exists>ts. f (templates w) = Inr ts \<and> counted b' R (w\<lparr>templates := ts\<rparr>)"
    using w world_ok_templates [of b w ts b'] by (auto simp: counted_def)
qed

text \<open>An entry of a cache.\<close>

definition live :: "nat \<Rightarrow> bool \<Rightarrow> template_cache list \<Rightarrow> bool" where
  "live i fr cs \<longleftrightarrow> i < length cs \<and> is_frozen (cs ! i) = fr"

definition has :: "nat \<Rightarrow> cache_key \<Rightarrow> cached_template \<Rightarrow> template_cache list \<Rightarrow> bool" where
  "has i key e cs \<longleftrightarrow> i < length cs \<and> map_of (parsed_template_cache (cs ! i)) key = Some e"

lemma has_counted:
  "counted b R w \<Longrightarrow> (\<And>cs. R cs \<Longrightarrow> has i key e cs) \<Longrightarrow> 0 \<le> b (refcounted_tpl e) \<Longrightarrow> 0 < refcount_at (templates w) (refcounted_tpl e)"
  unfolding counted_def has_def using entry_counted by blast

lemma counted_tpl:
  assumes "\<And>cs. R cs \<Longrightarrow> has i key e cs" "0 \<le> b (refcounted_tpl e)"
  shows "triple B (counted b R) (tpl_at (refcounted_tpl e)) (\<lambda>_. counted b R)"
proof -
  have "0 < refcount_at (templates w) (refcounted_tpl e)" if "counted b R w" for w
    using has_counted [of b R w i key e, OF that assms(1) assms(2)] .
  then show ?thesis by (fastforce simp: triple_def tpl_at_def)
qed

lemma counted_dec:
  assumes "\<And>w. counted b R w \<Longrightarrow> 0 < refcount_at (templates w) a"
  shows "triple B (counted b R) (on_templates (dec_ref a)) (\<lambda>_. counted (b(a := b a - 1)) R)"
proof (rule counted_templates)
  fix w assume "counted b R w"
  from assms [OF this] have pos: "1 \<le> refcount_at (templates w) a" by simp
  obtain ts where "dec_ref a (templates w) = Inr ts" "map fst ts = map fst (templates w)"
    "\<And>c. refcount_at ts c = refcount_at (templates w) c - (if c = a then 1 else 0)"
    using dec_ref_n_ok [OF _ pos] by (auto simp: dec_ref_def)
  then show "\<exists>ts. dec_ref a (templates w) = Inr ts \<and> map fst ts = map fst (templates w) \<and>
      (\<forall>c. (b(a := b a - 1)) c = b c + int (refcount_at ts c) - int (refcount_at (templates w) c))"
    using pos by auto
qed

lemma counted_inc:
  assumes "\<And>w. counted b R w \<Longrightarrow> 0 < refcount_at (templates w) a"
  shows "triple B (counted b R) (on_templates (inc_ref a)) (\<lambda>_. counted (b(a := b a + 1)) R)"
proof (rule counted_templates)
  fix w assume "counted b R w"
  from inc_ref_ok [OF assms [OF this]] show "\<exists>ts. inc_ref a (templates w) = Inr ts \<and> map fst ts = map fst (templates w) \<and>
      (\<forall>c. (b(a := b a + 1)) c = b c + int (refcount_at ts c) - int (refcount_at (templates w) c))" by auto
qed

lemma counted_new:
  assumes "lt_state t = TS_READY \<longrightarrow> lt_tree t \<noteq> None"
  shows "triple B (counted b R) (new_refcounted t) (\<lambda>a. counted (b(a := b a + 1)) R)"
  using assms by (auto simp: triple_def new_refcounted_def counted_def world_ok_def references_def refcount_at_def nth_append)

lemma counted_cache:
  assumes "\<And>cs. R cs \<Longrightarrow> i < length cs \<and> (cache_ok (cs ! i) \<longrightarrow> cache_ok (f (cs ! i))) \<and> R' (cs[i := f (cs ! i)]) \<and>
    (\<forall>a. b' a = b a + int (uses (cs ! i) a) - int (uses (f (cs ! i)) a))"
  shows "triple B (counted b R) (on_cache i f) (\<lambda>_. counted b' R')"
proof (rule triple_cache)
  fix w assume w: "counted b R w"
  then have i: "i < length (caches w)" "cache_ok (caches w ! i) \<longrightarrow> cache_ok (f (caches w ! i))"
    "R' ((caches w)[i := f (caches w ! i)])" "\<And>a. b' a = b a + int (uses (caches w ! i) a) - int (uses (f (caches w ! i)) a)"
    using assms [of "caches w"] by (simp_all add: counted_def)
  have "cache_ok (f (caches w ! i))" using w i(1,2) nth_mem by (auto simp: counted_def world_ok_def)
  with world_ok_cache [of b w i "f (caches w ! i)" b'] i w
  show "counted b' R' (w\<lparr>caches := (caches w)[i := f (caches w ! i)]\<rparr>)" by (simp add: counted_def)
qed

section \<open>The operations\<close>

definition ready_ok :: "loaded_template \<Rightarrow> bool" where
  "ready_ok t \<longleftrightarrow> (lt_state t = TS_READY \<longrightarrow> lt_tree t \<noteq> None)"

lemma reload_if_changed_ok:
  assumes "ready_ok t"
  shows "safely memory (counted b R) (reload_if_changed_locked fs memory path t)
    (\<lambda>r. counted b (\<lambda>cs. R cs \<and> ready_ok (snd r)))"
proof -
  define ok where "ok m \<longleftrightarrow> safely memory (counted b R) m (\<lambda>r. counted b (\<lambda>cs. R cs \<and> ready_ok (snd r)))"
    for m :: "(bool \<times> loaded_template) cache_op"
  have ret: "ok (retC (x, u))" if "ready_ok u" for x u
    unfolding ok_def by (rule counted_ret) (simp add: that)
  have err: "ok (retC (x, u\<lparr>lt_state := TS_ERROR\<rparr>))" for x u
    by (rule ret) (simp add: ready_ok_def)
  have ready: "ok (retC (x, u\<lparr>lt_state := TS_READY\<rparr>))" if "lt_tree u \<noteq> None" for x u
    by (rule ret) (use that in \<open>simp add: ready_ok_def\<close>)
  have parsed: "ok (bindC (parse_content memory content (lt_strip t)) (\<lambda>tree.
         retC (tree \<noteq> None, u\<lparr>filename_mtime := m, lt_tree := tree, lt_state := (if tree \<noteq> None then TS_READY else TS_ERROR)\<rparr>)))"
    for content u m
    unfolding ok_def by (rule triple_bind, rule counted_parse, rule ret [unfolded ok_def]) (simp add: ready_ok_def)
  have rest: "ok (if dir then retC (False, u\<lparr>lt_state := TS_ERROR\<rparr>)
      else if same \<and> lt_tree t \<noteq> None then retC (False, u\<lparr>lt_state := TS_READY\<rparr>)
      else case r of
        None \<Rightarrow> retC (False, u\<lparr>lt_state := TS_ERROR\<rparr>)
      | Some content \<Rightarrow> bindC (parse_content memory content (lt_strip t)) (\<lambda>tree.
          retC (tree \<noteq> None, u\<lparr>filename_mtime := m, lt_tree := tree, lt_state := (if tree \<noteq> None then TS_READY else TS_ERROR)\<rparr>)))"
    if "lt_tree u = lt_tree t" for dir same r u m
    using that by (simp add: err ready parsed split: option.split del: not_None_eq)
  have opt: "ok (case q of None \<Rightarrow> retC (False, t\<lparr>lt_state := TS_ERROR\<rparr>) | Some (resolved, st) \<Rightarrow> f resolved st)"
    if "\<And>resolved st. ok (f resolved st)" for q and f :: "string \<Rightarrow> file_stat \<Rightarrow> (bool \<times> loaded_template) cache_op"
    using that err by (simp split: option.split)
  have "ok (reload_if_changed_locked fs memory path t)"
  proof (cases "original_filename t = []")
    case False
    then show ?thesis unfolding reload_if_changed_locked_def Let_def if_not_P [OF False]
      by (intro opt, unfold conj_assoc [symmetric], intro rest) simp
  qed (simp add: reload_if_changed_locked_def ret assms)
  then show ?thesis by (simp only: ok_def)
qed

lemma construct_ok:
  "safely memory (counted b R) (construct_template fs memory i filename strip1)
    (\<lambda>t. counted b (\<lambda>cs. R cs \<and> ready_ok t))"
  unfolding construct_template_def
proof (rule triple_bind [OF counted_ask], rule counted_pre [where R = R], rule triple_bind [OF reload_if_changed_ok])
  fix x :: "bool \<times> loaded_template"
  show "safely memory (counted b (\<lambda>cs. R cs \<and> ready_ok (snd x))) (case x of (_, t) \<Rightarrow> retC t)
      (\<lambda>t. counted b (\<lambda>cs. R cs \<and> ready_ok t))"
    by (cases x) (auto intro: counted_ret)
qed (simp_all add: ready_ok_def)

text \<open>A new template takes the place of an entry, or a new one.\<close>

lemma put_ok:
  assumes "\<And>cs. R cs \<Longrightarrow> live i fr cs"
    and "\<And>cs. R cs \<Longrightarrow> map_of (parsed_template_cache (cs ! i)) key = old"
    and "\<And>a. b' a = b a + (case old of None \<Rightarrow> 0 | Some e0 \<Rightarrow> of_bool (refcounted_tpl e0 = a)) - of_bool (refcounted_tpl e = a)"
  shows "triple B (counted b R) (on_cache i (put_entry key e)) (\<lambda>_. counted b' (\<lambda>cs. live i fr cs \<and> has i key e cs))"
proof (rule counted_cache, intro conjI impI allI)
  fix cs a assume R: "R cs"
  then show "i < length cs" using assms(1) by (simp add: live_def)
  show "cache_ok (cs ! i) \<Longrightarrow> cache_ok (put_entry key e (cs ! i))" by (rule cache_ok_put)
  show "live i fr (cs[i := put_entry key e (cs ! i)])" "has i key e (cs[i := put_entry key e (cs ! i)])"
    using assms(1) [OF R] by (simp_all add: live_def has_def)
  show "b' a = b a + int (uses (cs ! i) a) - int (uses (put_entry key e (cs ! i)) a)"
    using assms(2) [OF R] assms(3) [of a] by (simp add: uses_put)
qed

lemma reload_entry_ok:
  assumes "\<And>a. 0 \<le> b a"
  shows "safely memory (counted b (\<lambda>cs. live i fr cs \<and> has i key e cs)) (reload_entry fs memory i filename strip1 key e)
    (\<lambda>e1. counted b (\<lambda>cs. live i fr cs \<and> has i key e1 cs))"
proof (cases "should_reload e")
  case True
  let ?R = "\<lambda>cs. live i fr cs \<and> has i key e cs" and ?a = "refcounted_tpl e"
  let ?new = "bindC (construct_template fs memory i filename strip1) (\<lambda>t1.
                    bindC (on_templates (dec_ref ?a)) (\<lambda>_.
                    bindC (new_refcounted t1) (\<lambda>a. retC (file_entry a))))"
  let ?moved = "\<lambda>e1. (b(?a := b ?a - 1))(refcounted_tpl e1 := (b(?a := b ?a - 1)) (refcounted_tpl e1) + 1)"
  have new: "safely memory (counted b ?R) ?new (\<lambda>e1. counted (?moved e1) ?R)"
  proof (rule triple_bind [OF construct_ok], rule triple_bind)
    fix t1
    show "safely memory (counted b (\<lambda>cs. ?R cs \<and> ready_ok t1)) (on_templates (dec_ref ?a))
        (\<lambda>_. counted (b(?a := b ?a - 1)) (\<lambda>cs. ?R cs \<and> ready_ok t1))"
      by (rule counted_dec, erule has_counted) (auto simp: assms)
    show "safely memory (counted (b(?a := b ?a - 1)) (\<lambda>cs. ?R cs \<and> ready_ok t1))
        (bindC (new_refcounted t1) (\<lambda>a. retC (file_entry a))) (\<lambda>e1. counted (?moved e1) ?R)"
    proof (rule counted_pure [of _ "ready_ok t1"], simp, rule triple_bind [OF counted_new])
      fix a
      have "safely memory (counted (?moved (file_entry a)) (\<lambda>cs. ?R cs \<and> ready_ok t1)) (retC (file_entry a))
          (\<lambda>e1. counted (?moved e1) ?R)"
        by (rule triple_ret) (simp add: counted_def)
      then show "safely memory (counted ((b(?a := b ?a - 1))(a := (b(?a := b ?a - 1)) a + 1)) (\<lambda>cs. ?R cs \<and> ready_ok t1))
          (retC (file_entry a)) (\<lambda>e1. counted (?moved e1) ?R)" by (simp add: file_entry_def)
    qed (simp add: ready_ok_def)
  qed
  have same: "safely memory (counted b ?R) (retC e) (\<lambda>e1. counted (?moved e1) ?R)"
    by (rule triple_ret) (simp add: counted_def)
  have put: "safely memory (counted (?moved e1) ?R) (on_cache i (put_entry key (e1\<lparr>should_reload := False\<rparr>)))
      (\<lambda>_. counted b (\<lambda>cs. live i fr cs \<and> has i key (e1\<lparr>should_reload := False\<rparr>) cs))" for e1
    by (rule put_ok [where old = "Some e"]) (auto simp: has_def)
  show ?thesis
    unfolding reload_entry_def using True
    apply simp
    apply (rule triple_bind [OF counted_tpl [where key = key and i = i]], simp, simp add: assms)
    apply (rule triple_bind [OF counted_ask], rule counted_pre [where R = ?R])
    apply (rule triple_bind [where R = "\<lambda>e1. counted (?moved e1) ?R"])
    using new same apply simp
    apply (rule triple_bind [OF put], rule triple_ret, assumption)
    apply simp
    done
qed (auto simp: reload_entry_def intro: triple_ret)

text \<open>What \<open>GetTemplateLocked\<close> gives is in the cache.\<close>

definition cached_at :: "nat \<Rightarrow> bool \<Rightarrow> nat option \<Rightarrow> template_cache list \<Rightarrow> bool" where
  "cached_at i fr r cs \<longleftrightarrow> live i fr cs \<and> (\<forall>a. r = Some a \<longrightarrow> (\<exists>key e. has i key e cs \<and> refcounted_tpl e = a))"

lemma cached_at_none: "live i fr cs \<Longrightarrow> cached_at i fr None cs"
  by (simp add: cached_at_def)

lemma cached_at_entry: "live i fr cs \<Longrightarrow> has i key e cs \<Longrightarrow> cached_at i fr (Some (refcounted_tpl e)) cs"
  unfolding cached_at_def by (metis option.inject)

lemma get_template_locked_ok:
  assumes "\<And>a. 0 \<le> b a"
  shows "safely memory (counted b (live i fr)) (get_template_locked fs memory i filename strip1 key)
    (\<lambda>r. counted b (cached_at i fr r))"
proof -
  have fresh: "safely memory (counted b (\<lambda>cs. live i fr cs \<and> map_of (parsed_template_cache (cs ! i)) key = None))
      (bindC (construct_template fs memory i filename strip1) (\<lambda>t.
         bindC (new_refcounted t) (\<lambda>a. bindC (on_cache i (put_entry key (file_entry a))) (\<lambda>_. retC (file_entry a)))))
      (\<lambda>e. counted b (\<lambda>cs. live i fr cs \<and> has i key e cs))" (is "safely _ (counted b ?R) _ _")
  proof (rule triple_bind [OF construct_ok])
    fix t
    show "safely memory (counted b (\<lambda>cs. ?R cs \<and> ready_ok t))
        (bindC (new_refcounted t) (\<lambda>a. bindC (on_cache i (put_entry key (file_entry a))) (\<lambda>_. retC (file_entry a))))
        (\<lambda>e. counted b (\<lambda>cs. live i fr cs \<and> has i key e cs))"
    proof (rule counted_pure [of _ "ready_ok t"], simp, rule triple_bind [OF counted_new], simp add: ready_ok_def, rule triple_bind)
      fix a
      show "safely memory (counted (b(a := b a + 1)) (\<lambda>cs. ?R cs \<and> ready_ok t)) (on_cache i (put_entry key (file_entry a)))
          (\<lambda>_. counted b (\<lambda>cs. live i fr cs \<and> has i key (file_entry a) cs))"
        by (rule put_ok [where old = None]) (auto simp: file_entry_def)
      show "safely memory (counted b (\<lambda>cs. live i fr cs \<and> has i key (file_entry a) cs)) (retC (file_entry a))
          (\<lambda>e. counted b (\<lambda>cs. live i fr cs \<and> has i key e cs))" by (rule counted_ret)
    qed
  qed
  have known: "safely memory (counted b (\<lambda>cs. live i fr cs \<and> has i key e cs))
      (bindC (reload_entry fs memory i filename strip1 key e) (\<lambda>e1.
         bindC (tpl_at (refcounted_tpl e1)) (\<lambda>t. retC (if lt_state t \<noteq> TS_READY then None else Some (refcounted_tpl e1)))))
      (\<lambda>r. counted b (cached_at i fr r))" for e
    by (rule triple_bind [OF reload_entry_ok], rule assms, rule triple_bind, rule counted_tpl)
      (auto intro!: counted_ret simp: assms cached_at_none cached_at_entry)
  show ?thesis
    unfolding get_template_locked_def find_entry_def
  proof (rule triple_bind [OF counted_ask], rule triple_bind [OF counted_ask])
    fix entry frozen
    let ?now = "\<lambda>cs. (live i fr cs \<and> (\<exists>w :: cache_world. caches w = cs \<and> entry = map_of (parsed_template_cache (caches w ! i)) key)) \<and>
        (\<exists>w :: cache_world. caches w = cs \<and> frozen = is_frozen (caches w ! i))"
    have looked_up: "safely memory (counted b ?now)
        (case entry of Some e \<Rightarrow> retC e | None \<Rightarrow> bindC (construct_template fs memory i filename strip1) (\<lambda>t.
           bindC (new_refcounted t) (\<lambda>a. bindC (on_cache i (put_entry key (file_entry a))) (\<lambda>_. retC (file_entry a)))))
        (\<lambda>e. counted b (\<lambda>cs. live i fr cs \<and> has i key e cs))"
    proof (cases entry)
      case None
      then show ?thesis by simp (rule counted_pre [OF fresh], auto)
    next
      case (Some e)
      then show ?thesis by simp (rule counted_ret, auto simp: live_def has_def)
    qed
    show "safely memory (counted b ?now)
        (if entry = None \<and> frozen then retC None
         else bindC (case entry of Some e \<Rightarrow> retC e | None \<Rightarrow> bindC (construct_template fs memory i filename strip1) (\<lambda>t.
           bindC (new_refcounted t) (\<lambda>a. bindC (on_cache i (put_entry key (file_entry a))) (\<lambda>_. retC (file_entry a)))))
           (\<lambda>e. bindC (reload_entry fs memory i filename strip1 key e) (\<lambda>e1.
              bindC (tpl_at (refcounted_tpl e1)) (\<lambda>t. retC (if lt_state t \<noteq> TS_READY then None else Some (refcounted_tpl e1))))))
        (\<lambda>r. counted b (cached_at i fr r))"
    proof (cases "entry = None \<and> frozen")
      case True
      then show ?thesis by simp (rule counted_ret, simp add: cached_at_def)
    next
      case False
      show ?thesis unfolding if_not_P [OF False] by (rule triple_bind [OF looked_up known])
    qed
  qed
qed

lemma load_template_ok:
  "(\<And>a. 0 \<le> b a) \<Longrightarrow> safely memory (counted b (live i fr)) (load_template fs memory i filename strip1) (\<lambda>_. counted b (live i fr))"
  unfolding load_template_def
  by (rule triple_bind [OF get_template_locked_ok]) (auto intro: counted_ret simp: cached_at_def)

lemma uses_count_call: "int (uses (count_call a c) x) = int (uses c x) + of_bool (x = a)"
  by (simp add: uses_def count_call_def AList.update_conv' split: option.split)

lemma cache_ok_count_call: "cache_ok c \<Longrightarrow> cache_ok (count_call a c)"
  using set_update_subset [of a "(case map_of (get_template_calls c) a of None \<Rightarrow> 0 | Some n \<Rightarrow> n) + 1" "get_template_calls c"]
  by (fastforce simp: cache_ok_def count_call_def distinct_update)

lemma get_template_ok:
  assumes "\<And>a. 0 \<le> b a"
  shows "safely memory (counted b (live i fr)) (get_template fs memory i filename strip1) (\<lambda>_. counted b (live i fr))"
  unfolding get_template_def
proof (rule triple_bind [OF get_template_locked_ok [OF assms]])
  fix r
  show "safely memory (counted b (cached_at i fr r))
      (case r of None \<Rightarrow> retC None
       | Some a \<Rightarrow> bindC (on_templates (inc_ref a)) (\<lambda>_. bindC (on_cache i (count_call a)) (\<lambda>_. retC (Some a))))
      (\<lambda>_. counted b (live i fr))"
  proof (cases r)
    case (Some a)
    have "safely memory (counted b (cached_at i fr r)) (on_templates (inc_ref a)) (\<lambda>_. counted (b(a := b a + 1)) (cached_at i fr r))"
    proof (rule counted_inc)
      fix w assume w: "counted b (cached_at i fr r) w"
      then obtain key e where "has i key e (caches w)" "refcounted_tpl e = a" using Some by (auto simp: counted_def cached_at_def)
      then show "0 < refcount_at (templates w) a"
        using has_counted [of b "\<lambda>cs. has i key e cs" w i key e] w assms by (simp add: counted_def)
    qed
    moreover have "safely memory (counted (b(a := b a + 1)) (cached_at i fr r)) (on_cache i (count_call a)) (\<lambda>_. counted b (live i fr))"
    proof (rule counted_cache)
      fix cs assume "cached_at i fr r cs"
      then have "live i fr cs" by (simp add: cached_at_def)
      then show "i < length cs \<and> (cache_ok (cs ! i) \<longrightarrow> cache_ok (count_call a (cs ! i))) \<and> live i fr (cs[i := count_call a (cs ! i)]) \<and>
          (\<forall>x. b x = (b(a := b a + 1)) x + int (uses (cs ! i) x) - int (uses (count_call a (cs ! i)) x))"
        by (simp add: live_def cache_ok_count_call uses_count_call) (simp add: count_call_def)
    qed
    ultimately show ?thesis using Some by simp (rule triple_bind, assumption, rule triple_bind, assumption, rule counted_ret)
  qed (auto intro: counted_ret simp: cached_at_def)
qed

lemma entry_in_error_ok:
  assumes "\<And>a. 0 \<le> b a" "\<And>cs e. R cs \<Longrightarrow> x = Some e \<Longrightarrow> has i key e cs"
  shows "safely memory (counted b R) (entry_in_error x) (\<lambda>_. counted b R)"
proof (cases x)
  case (Some e)
  then show ?thesis using assms
    by (simp add: entry_in_error_def) (rule triple_bind [OF counted_tpl [where i = i and key = key]], auto intro: counted_ret)
qed (auto simp: entry_in_error_def intro: counted_ret)

lemma insert_string_ok:
  assumes "\<And>a. 0 \<le> b a"
  shows "safely memory (counted b (\<lambda>cs. live i fr cs \<and> map_of (parsed_template_cache (cs ! i)) key = entry))
    (insert_string i key strip1 tree entry) (\<lambda>_. counted b (live i fr))" (is "safely memory (counted b ?R) _ _")
proof -
  let ?b = "case entry of None \<Rightarrow> b | Some e \<Rightarrow> b(refcounted_tpl e := b (refcounted_tpl e) - 1)"
  have given: "safely memory (counted b ?R) (case entry of None \<Rightarrow> retC () | Some e \<Rightarrow> on_templates (dec_ref (refcounted_tpl e)))
      (\<lambda>_. counted ?b ?R)"
  proof (cases entry)
    case (Some e)
    then show ?thesis by simp (rule counted_dec, erule has_counted, auto simp: has_def live_def assms)
  qed (auto intro: counted_ret)
  have new: "safely memory (counted ?b ?R) (new_refcounted (string_template strip1 tree)) (\<lambda>a. counted (?b(a := ?b a + 1)) ?R)"
    by (rule counted_new) (simp add: string_template_def)
  have put: "safely memory (counted (?b(a := ?b a + 1)) ?R)
      (on_cache i (put_entry key \<lparr>refcounted_tpl = a, should_reload = False, template_type = STRING_BASED\<rparr>))
      (\<lambda>_. counted b (live i fr))" for a
    by (rule counted_post, rule put_ok [where old = entry]) (auto split: option.split)
  have check: "safely memory (counted b ?R) (entry_in_error entry) (\<lambda>_. counted b ?R)"
    by (rule entry_in_error_ok [where key = key and i = i]) (auto simp: assms has_def live_def)
  show ?thesis unfolding insert_string_def
  proof (rule triple_bind [OF check])
    fix free
    show "safely memory (counted b ?R)
        (if \<not> free then retC False
         else bindC (case entry of None \<Rightarrow> retC () | Some e \<Rightarrow> on_templates (dec_ref (refcounted_tpl e))) (\<lambda>_.
           bindC (new_refcounted (string_template strip1 tree)) (\<lambda>a.
           bindC (on_cache i (put_entry key \<lparr>refcounted_tpl = a, should_reload = False, template_type = STRING_BASED\<rparr>)) (\<lambda>_. retC True))))
        (\<lambda>_. counted b (live i fr))"
    proof (cases free)
      case True
      then show ?thesis by simp (rule triple_bind [OF given], rule triple_bind [OF new], rule triple_bind [OF put], rule counted_ret)
    qed (auto intro: counted_ret)
  qed
qed

text \<open>A question about the entry, and what follows.\<close>

lemma find_entry_ok:
  assumes "\<And>x. safely memory (counted b (\<lambda>cs. live i fr cs \<and> map_of (parsed_template_cache (cs ! i)) key = x)) (f x) (\<lambda>_. counted b R)"
  shows "safely memory (counted b (live i fr)) (bindC (find_entry i key) f) (\<lambda>_. counted b R)"
  unfolding find_entry_def by (rule triple_bind [OF counted_ask]) (rule counted_pre, rule assms, auto)

lemma string_to_template_cache_ok:
  assumes "\<And>a. 0 \<le> b a"
  shows "safely memory (counted b (live i fr)) (string_to_template_cache memory i key content strip1) (\<lambda>_. counted b (live i fr))"
proof -
  define k where "k = cache_key_of key strip1"
  have insert: "safely memory (counted b (live i fr)) (bindC (find_entry i k) (insert_string i k strip1 tree)) (\<lambda>_. counted b (live i fr))" for tree
    by (rule find_entry_ok) (rule insert_string_ok [OF assms])
  have check: "safely memory (counted b (live i fr)) (bindC (find_entry i k) entry_in_error) (\<lambda>_. counted b (live i fr))"
    by (rule find_entry_ok, rule counted_post, rule entry_in_error_ok [where key = k and i = i]) (auto simp: assms has_def live_def)
  have "safely memory (counted b (live i fr)) (bindC (parse_content memory content strip1) (\<lambda>parsed.
      case parsed of None \<Rightarrow> retC False | Some tree \<Rightarrow> bindC (find_entry i k) (insert_string i k strip1 tree))) (\<lambda>_. counted b (live i fr))"
    by (rule triple_bind [OF counted_parse]) (auto intro: counted_ret insert split: option.split)
  then have "safely memory (counted b (live i fr)) (bindC (bindC (find_entry i k) entry_in_error) (\<lambda>free.
      if \<not> free then retC False
      else bindC (parse_content memory content strip1) (\<lambda>parsed.
        case parsed of None \<Rightarrow> retC False | Some tree \<Rightarrow> bindC (find_entry i k) (insert_string i k strip1 tree)))) (\<lambda>_. counted b (live i fr))"
    by (intro triple_bind [OF check]) (auto intro: counted_ret)
  then show ?thesis unfolding string_to_template_cache_def k_def [symmetric]
    by (intro triple_bind [OF counted_ask]) (rule counted_pre [where R = "live i fr"], auto intro: counted_ret)
qed

section \<open>Giving back\<close>

lemma counted_each_dec:
  assumes "\<And>a n. (a, n) \<in> set xs \<Longrightarrow> 0 < n"
    and "\<And>w a. counted b R w \<Longrightarrow> weight xs a \<le> refcount_at (templates w) a"
  shows "triple B (counted b R) (on_templates (each_ref (\<lambda>(a, n). dec_ref_n a n) xs)) (\<lambda>_. counted (\<lambda>a. b a - int (weight xs a)) R)"
proof (rule counted_templates)
  fix w assume w: "counted b R w"
  have "\<exists>ts1. each_ref (\<lambda>(a, n). dec_ref_n a n) xs (templates w) = Inr ts1 \<and> map fst ts1 = map fst (templates w) \<and>
      (\<forall>a. refcount_at ts1 a = refcount_at (templates w) a - weight xs a)"
    by (rule each_dec_ok) (use assms(1) assms(2) [OF w] in blast)+
  then obtain ts where
    "each_ref (\<lambda>(a, n). dec_ref_n a n) xs (templates w) = Inr ts" "map fst ts = map fst (templates w)"
    "\<And>a. refcount_at ts a = refcount_at (templates w) a - weight xs a" by blast
  then show "\<exists>ts. each_ref (\<lambda>(a, n). dec_ref_n a n) xs (templates w) = Inr ts \<and> map fst ts = map fst (templates w) \<and>
      (\<forall>a. b a - int (weight xs a) = b a + int (refcount_at ts a) - int (refcount_at (templates w) a))"
    using assms(2) [OF w] by (simp add: of_nat_diff)
qed

lemma counted_each_dec_one:
  assumes "\<And>w a. counted b R w \<Longrightarrow> count_list xs a \<le> refcount_at (templates w) a"
  shows "triple B (counted b R) (on_templates (each_ref dec_ref xs)) (\<lambda>_. counted (\<lambda>a. b a - int (count_list xs a)) R)"
  using counted_each_dec [of "map (\<lambda>a. (a, 1)) xs" b R B] assms
  by (auto simp: weight_ones each_dec_one [abs_def] simp del: One_nat_def)

text \<open>What is held can be given back, and what a cache uses.\<close>

lemma held_le: "world_ok b w \<Longrightarrow> int n \<le> b a \<Longrightarrow> n \<le> refcount_at (templates w) a"
  unfolding world_ok_def by (metis add_increasing of_nat_0_le_iff of_nat_le_iff)

lemma used_le: "world_ok b w \<Longrightarrow> 0 \<le> b a \<Longrightarrow> i < length (caches w) \<Longrightarrow> uses (caches w ! i) a \<le> refcount_at (templates w) a"
  unfolding world_ok_def using uses_le_references [of i w a] by (metis add_increasing2 of_nat_le_iff order_refl order_trans)

lemma drop_counts:
  "count_list (map (refcounted_tpl \<circ> snd) (filter P xs)) a + count_list (map (refcounted_tpl \<circ> snd) (filter (\<lambda>x. \<not> P x) xs)) a =
     count_list (map (refcounted_tpl \<circ> snd) xs) a"
  by (induction xs) auto

lemma done_ok:
  assumes "\<And>a. 0 \<le> b a"
  shows "safely memory (counted b (live i fr)) (done_with_get_template_ptrs i) (\<lambda>_. counted b (live i fr))"
  unfolding done_with_get_template_ptrs_def
proof (rule triple_bind [OF counted_ask])
  fix calls
  let ?now = "\<lambda>cs. live i fr cs \<and> (\<exists>w :: cache_world. caches w = cs \<and> calls = get_template_calls (caches w ! i))"
  have calls: "cache_ok (caches w ! i)" "calls = get_template_calls (caches w ! i)" "i < length (caches w)" if "counted b ?now w" for w
    using that by (auto simp: counted_def world_ok_def live_def)
  have X: "distinct (map fst calls) \<and> (\<forall>a n. (a, n) \<in> set calls \<longrightarrow> 0 < n)" if "counted b ?now w" for w
    using calls [OF that] by (auto simp: cache_ok_def)
  show "safely memory (counted b ?now) (bindC (on_templates (each_ref (\<lambda>(a, n). dec_ref_n a n) calls)) (\<lambda>_.
       on_cache i (\<lambda>c. c\<lparr>get_template_calls := []\<rparr>))) (\<lambda>_. counted b (live i fr))"
  proof (rule triple_pure [OF X], assumption, rule triple_bind)
    assume calls_ok: "distinct (map fst calls) \<and> (\<forall>a n. (a, n) \<in> set calls \<longrightarrow> 0 < n)"
    show "safely memory (counted b ?now) (on_templates (each_ref (\<lambda>(a, n). dec_ref_n a n) calls))
        (\<lambda>_. counted (\<lambda>a. b a - int (weight calls a)) ?now)"
    proof (rule counted_each_dec)
      fix w a assume w: "counted b ?now w"
      have "weight calls a \<le> uses (caches w ! i) a" using calls [OF w] calls_ok by (simp add: uses_def weight_calls)
      then show "weight calls a \<le> refcount_at (templates w) a"
        using used_le [of b w a i] w calls(3) [OF w] assms [of a] by (simp add: counted_def)
    qed (use calls_ok in blast)
    show "safely memory (counted (\<lambda>a. b a - int (weight calls a)) ?now) (on_cache i (\<lambda>c. c\<lparr>get_template_calls := []\<rparr>))
        (\<lambda>_. counted b (live i fr))"
      by (rule counted_cache) (use calls_ok in \<open>auto simp: live_def cache_ok_def uses_def weight_calls\<close>)
  qed
qed

lemma delete_ok:
  assumes "\<And>a. 0 \<le> b a"
  shows "safely memory (counted b (live i fr)) (delete_key i key) (\<lambda>_. counted b (live i fr))"
  unfolding delete_key_def
proof (rule triple_bind [OF counted_ask])
  fix c
  let ?now = "\<lambda>cs. live i fr cs \<and> (\<exists>w :: cache_world. caches w = cs \<and> c = caches w ! i)"
  let ?P = "\<lambda>(k, e). fst k = get_global_id key"
  let ?gone = "map (refcounted_tpl \<circ> snd) (filter ?P (parsed_template_cache c))"
  let ?rest = "\<lambda>c. c\<lparr>parsed_template_cache := filter (\<lambda>(k, e). fst k \<noteq> get_global_id key) (parsed_template_cache c)\<rparr>"
  have split: "count_list ?gone a + uses (?rest c) a = uses c a" for a
    using drop_counts [of ?P "parsed_template_cache c" a] by (simp add: uses_def case_prod_beta' o_def)
  have dec: "safely memory (counted b ?now) (on_templates (each_ref dec_ref ?gone))
      (\<lambda>_. counted (\<lambda>a. b a - int (count_list ?gone a)) ?now)"
  proof (rule counted_each_dec_one)
    fix w a assume w: "counted b ?now w"
    then have c: "i < length (caches w)" "c = caches w ! i" by (auto simp: counted_def live_def)
    have "count_list ?gone a \<le> uses c a" using split [of a] by simp
    with used_le [of b w a i] w c assms [of a]
    show "count_list ?gone a \<le> refcount_at (templates w) a" by (auto simp: counted_def)
  qed
  have rest: "safely memory (counted (\<lambda>a. b a - int (count_list ?gone a)) ?now) (on_cache i ?rest) (\<lambda>_. counted b (live i fr))"
  proof (rule counted_cache)
    fix cs assume "?now cs"
    then have c: "live i fr cs" "cs ! i = c" by auto
    have "cache_ok c \<longrightarrow> cache_ok (?rest c)" by (auto simp: cache_ok_def distinct_map_filter)
    then show "i < length cs \<and> (cache_ok (cs ! i) \<longrightarrow> cache_ok (?rest (cs ! i))) \<and> live i fr (cs[i := ?rest (cs ! i)]) \<and>
        (\<forall>a. b a = b a - int (count_list ?gone a) + int (uses (cs ! i) a) - int (uses (?rest (cs ! i)) a))"
      using c split by (auto simp: live_def simp flip: of_nat_add split)
  qed
  show "safely memory (counted b ?now)
      (if is_frozen c then retC False
       else let gone = filter ?P (parsed_template_cache c)
         in bindC (on_templates (each_ref dec_ref (map (refcounted_tpl \<circ> snd) gone))) (\<lambda>_.
            bindC (on_cache i ?rest) (\<lambda>_. retC (gone \<noteq> []))))
      (\<lambda>_. counted b (live i fr))"
  proof (cases "is_frozen c")
    case False
    show ?thesis unfolding if_not_P [OF False] Let_def by (rule triple_bind [OF dec], rule triple_bind [OF rest], rule counted_ret)
  qed (auto intro: counted_ret)
qed

lemma clear_cache_ok:
  assumes "\<And>a. 0 \<le> b a"
  shows "safely memory (counted b (live i fr)) (clear_cache i) (\<lambda>_. counted b (live i False))"
  unfolding clear_cache_def
proof (rule triple_bind [OF counted_ask])
  fix xs
  let ?now = "\<lambda>cs. live i fr cs \<and> (\<exists>w :: cache_world. caches w = cs \<and> xs = parsed_template_cache (caches w ! i))"
  let ?refs = "map (refcounted_tpl \<circ> snd) xs"
  let ?b = "\<lambda>a. b a + int (count_list ?refs a)"
  have swap: "safely memory (counted b ?now) (on_cache i (\<lambda>c. c\<lparr>parsed_template_cache := [], is_frozen := False\<rparr>))
      (\<lambda>_. counted ?b (live i False))"
    by (rule counted_cache) (auto simp: live_def cache_ok_def uses_def)
  have "safely memory (counted ?b (live i False)) (on_templates (each_ref dec_ref ?refs))
      (\<lambda>_. counted (\<lambda>a. ?b a - int (count_list ?refs a)) (live i False))"
    by (rule counted_each_dec_one) (use assms held_le in \<open>force simp: counted_def\<close>)
  then have dec: "safely memory (counted ?b (live i False)) (on_templates (each_ref dec_ref ?refs)) (\<lambda>_. counted b (live i False))"
    by simp
  show "safely memory (counted b ?now)
      (bindC (on_cache i (\<lambda>c. c\<lparr>parsed_template_cache := [], is_frozen := False\<rparr>)) (\<lambda>_.
         bindC (on_templates (each_ref dec_ref ?refs)) (\<lambda>_. done_with_get_template_ptrs i)))
      (\<lambda>_. counted b (live i False))"
    by (rule triple_bind [OF swap], rule triple_bind [OF dec], rule done_ok) (rule assms)
qed

section \<open>Reloading, freezing and copying\<close>

lemma uses_mark: "uses (mark_entry key c) a = uses c a"
proof (cases "map_of (parsed_template_cache c) key")
  case (Some e)
  then show ?thesis using uses_put [of key "e\<lparr>should_reload := True\<rparr>" c a] by (simp add: mark_entry_def)
qed (simp add: mark_entry_def)

lemma mark_frozen: "is_frozen (mark_entry key c) = is_frozen c"
  by (simp add: mark_entry_def split: option.split)

lemma mark_cache_ok: "cache_ok c \<Longrightarrow> cache_ok (mark_entry key c)"
  by (simp add: mark_entry_def cache_ok_put split: option.split)

lemma mark_ok: "safely memory (counted b (live i False)) (on_cache i (mark_entry key)) (\<lambda>_. counted b (live i False))"
  by (rule counted_cache) (simp add: live_def uses_mark mark_frozen mark_cache_ok)

lemma reload_keys_ok:
  assumes "\<And>a. 0 \<le> b a"
  shows "safely memory (counted b (live i False)) (reload_keys fs memory ty i keys) (\<lambda>_. counted b (live i False))"
proof (induction keys)
  case (Cons key keys)
  have "safely memory (counted b (\<lambda>cs. live i False cs \<and> map_of (parsed_template_cache (cs ! i)) key = x))
      (case x of None \<Rightarrow> retC ()
       | Some e \<Rightarrow> bindC (tpl_at (refcounted_tpl e)) (\<lambda>t.
           bindC (get_template_locked fs memory i (cstr (original_filename t)) (lt_strip t) key) (\<lambda>_. retC ())))
      (\<lambda>_. counted b (live i False))" for x
  proof (cases x)
    case (Some e)
    have get: "safely memory (counted b (\<lambda>cs. live i False cs \<and> map_of (parsed_template_cache (cs ! i)) key = x))
        (get_template_locked fs memory i f s key) (\<lambda>r. counted b (cached_at i False r))" for f s
      by (rule counted_pre [OF get_template_locked_ok]) (auto simp: assms)
    show ?thesis unfolding Some option.case
      by (rule triple_bind [OF counted_tpl [where i = i and key = key]], simp add: has_def live_def, rule assms,
          rule triple_bind [OF get [unfolded Some]], rule counted_ret) (simp add: cached_at_def)
  qed (auto intro: counted_ret)
  then have "safely memory (counted b (live i False)) (if ty = LAZY_RELOAD then retC () else bindC (find_entry i key) (\<lambda>x.
      case x of None \<Rightarrow> retC ()
       | Some e \<Rightarrow> bindC (tpl_at (refcounted_tpl e)) (\<lambda>t.
           bindC (get_template_locked fs memory i (cstr (original_filename t)) (lt_strip t) key) (\<lambda>_. retC ()))))
      (\<lambda>_. counted b (live i False))"
    by (auto intro: counted_ret find_entry_ok)
  then show ?case unfolding reload_keys.simps by (intro triple_bind [OF mark_ok]) (rule triple_bind, assumption, rule Cons.IH)
qed (simp add: counted_ret)

lemma reload_all_ok:
  assumes "\<And>a. 0 \<le> b a"
  shows "safely memory (counted b (live i fr)) (reload_all_if_changed fs memory ty i) (\<lambda>_. counted b (live i fr))"
  unfolding reload_all_if_changed_def
proof (rule triple_bind [OF counted_ask])
  fix c
  let ?now = "\<lambda>cs. live i fr cs \<and> (\<exists>w :: cache_world. caches w = cs \<and> c = caches w ! i)"
  show "safely memory (counted b ?now) (if is_frozen c then retC () else reload_keys fs memory ty i (map fst (parsed_template_cache c)))
      (\<lambda>_. counted b (live i fr))"
  proof (cases "is_frozen c")
    case False
    show ?thesis unfolding if_not_P [OF False]
    proof (rule counted_pure [of ?now "\<not> fr"])
      assume "\<not> fr"
      then have fr: "fr = False" by simp
      show "safely memory (counted b ?now) (reload_keys fs memory ty i (map fst (parsed_template_cache c))) (\<lambda>_. counted b (live i fr))"
        unfolding fr by (rule counted_pre [OF reload_keys_ok]) (auto simp: assms)
    qed (use False in \<open>auto simp: live_def\<close>)
  qed (auto intro: counted_ret)
qed

lemma freeze_ok:
  assumes "\<And>a. 0 \<le> b a"
  shows "safely memory (counted b (live i fr)) (freeze fs memory i) (\<lambda>_. counted b (live i True))"
  unfolding freeze_def
proof (rule triple_bind [OF counted_ask])
  fix frozen
  let ?now = "\<lambda>cs. live i fr cs \<and> (\<exists>w :: cache_world. caches w = cs \<and> frozen = is_frozen (caches w ! i))"
  have set_it: "safely memory (counted b (live i fr)) (on_cache i (\<lambda>c. c\<lparr>is_frozen := True\<rparr>)) (\<lambda>_. counted b (live i True))"
    by (rule counted_cache) (auto simp: live_def cache_ok_def uses_def)
  have "safely memory (counted b ?now) (bindC (reload_all_if_changed fs memory IMMEDIATE_RELOAD i) (\<lambda>_.
      on_cache i (\<lambda>c. c\<lparr>is_frozen := True\<rparr>))) (\<lambda>_. counted b (live i True))"
    by (rule triple_bind [OF _ set_it], rule counted_pre [OF reload_all_ok [OF assms]]) simp
  then show "safely memory (counted b ?now) (if frozen then retC () else bindC (reload_all_if_changed fs memory IMMEDIATE_RELOAD i) (\<lambda>_.
      on_cache i (\<lambda>c. c\<lparr>is_frozen := True\<rparr>))) (\<lambda>_. counted b (live i True))"
    by (cases frozen) (auto intro!: counted_ret simp: live_def)
qed

lemma add_root_ok:
  assumes "\<And>a. 0 \<le> b a"
  shows "safely memory (counted b (live i fr)) (add_template_root_directory fs memory clear i dir) (\<lambda>_. counted b (live i fr))"
proof -
  have path: "safely memory (counted b (live i fr)) (on_cache i (\<lambda>c. c\<lparr>search_path := f c\<rparr>)) (\<lambda>_. counted b (live i fr))" for f
    by (rule counted_cache) (auto simp: live_def cache_ok_def uses_def)
  have "safely memory (counted b (live i fr)) (bindC (on_cache i (\<lambda>c. c\<lparr>search_path := f c\<rparr>)) (\<lambda>_.
      bindC (reload_all_if_changed fs memory LAZY_RELOAD i) (\<lambda>_. retC True))) (\<lambda>_. counted b (live i fr))" for f
    by (rule triple_bind [OF path], rule triple_bind [OF reload_all_ok [OF assms]], rule counted_ret)
  then show ?thesis unfolding add_template_root_directory_def
    by (intro triple_bind [OF counted_ask]) (rule counted_pre [where R = "live i fr"], auto intro: counted_ret)
qed

text \<open>A copy shares the templates.\<close>

lemma map_of_count: "a \<in> set (map (refcounted_tpl \<circ> snd) xs) \<Longrightarrow> 0 < count_list (map (refcounted_tpl \<circ> snd) xs) a"
  by (simp only: neq0_conv [symmetric] count_list_0_iff) simp

lemma clone_ok:
  assumes "\<And>a. 0 \<le> b a"
  shows "safely memory (counted b (live i fr)) (clone i) (\<lambda>_. counted b (live i fr))"
  unfolding clone_def
proof (rule triple_bind [OF counted_ask])
  fix xs
  let ?now = "\<lambda>cs. live i fr cs \<and> (\<exists>w :: cache_world. caches w = cs \<and> xs = parsed_template_cache (caches w ! i))"
  let ?refs = "map (refcounted_tpl \<circ> snd) xs"
  let ?b = "\<lambda>a. b a + int (count_list ?refs a)"
  have inc: "safely memory (counted b ?now) (on_templates (each_ref inc_ref ?refs)) (\<lambda>_. counted ?b ?now)"
  proof (rule counted_templates)
    fix w assume w: "counted b ?now w"
    have pos: "0 < refcount_at (templates w) a" if "a \<in> set ?refs" for a
    proof -
      have "i < length (caches w)" "xs = parsed_template_cache (caches w ! i)" using w by (auto simp: counted_def live_def)
      then show ?thesis
        using map_of_count [OF that] used_le [of b w a i] w assms [of a] by (simp add: counted_def uses_def)
    qed
    from each_inc_ok [of ?refs "templates w", OF pos]
    show "\<exists>ts. each_ref inc_ref ?refs (templates w) = Inr ts \<and> map fst ts = map fst (templates w) \<and>
        (\<forall>a. ?b a = b a + int (refcount_at ts a) - int (refcount_at (templates w) a))" by auto
  qed
  have copy: "safely memory (counted ?b ?now) (make_cache (new_cache\<lparr>parsed_template_cache := xs\<rparr>)) (\<lambda>_. counted b (live i fr))"
    by (auto simp: triple_def make_cache_def counted_def world_ok_def references_def uses_def cache_ok_def new_cache_def live_def nth_append)
  show "safely memory (counted b ?now) (bindC (on_templates (each_ref inc_ref ?refs)) (\<lambda>_. make_cache (new_cache\<lparr>parsed_template_cache := xs\<rparr>)))
      (\<lambda>_. counted b (live i fr))"
    by (rule triple_bind [OF inc copy])
qed

section \<open>Expansion\<close>

lemma as_op_ok: "keeps B P m \<Longrightarrow> triple B P (as_op m) (\<lambda>_. P)"
  unfolding keeps_def triple_def as_op_def by (fastforce split: option.splits sum.splits)

lemma as_expansion_ok: "triple B P m (\<lambda>_. P) \<Longrightarrow> keeps B P (as_expansion m)"
  unfolding keeps_def triple_def as_expansion_def by (fastforce split: option.splits sum.splits)

text \<open>A template that is held can be used and given back.\<close>

lemma held_counted: "counted b R w \<Longrightarrow> 0 < b a \<Longrightarrow> 0 < refcount_at (templates w) a"
  using held_le [of b w 1 a] by (simp add: counted_def)

lemma tpl_held:
  assumes "0 < b a"
  shows "triple B (counted b R) (tpl_at a) (\<lambda>t. counted b (\<lambda>cs. R cs \<and> ready_ok t))"
  unfolding triple_def
proof (intro allI impI)
  fix w assume w: "counted b R w"
  from held_counted [OF this assms] have pos: "0 < refcount_at (templates w) a" .
  then have "a < length (templates w)" by (simp add: refcount_at_def split: if_splits)
  then have "templates w ! a \<in> set (templates w)" by (rule nth_mem)
  then have "ready_ok (fst (templates w ! a))" using w by (auto simp: counted_def world_ok_def ready_ok_def)
  then show "case tpl_at a w of None \<Rightarrow> B None | Some (Inl e) \<Rightarrow> B (Some e)
      | Some (Inr (t, w1)) \<Rightarrow> counted b (\<lambda>cs. R cs \<and> ready_ok t) w1"
    using w pos by (simp add: tpl_at_def counted_def)
qed

lemma expand_held_ok:
  assumes "\<And>w. counted b R0 w \<Longrightarrow> 0 < refcount_at (templates w) a" "0 \<le> b a"
    and "\<And>cs. R0 cs \<Longrightarrow> R cs"
    and "\<And>t. ready_ok t \<Longrightarrow> keeps B (counted (b(a := b a + 1)) R) (expand_loaded I p sub t d)"
  shows "triple B (counted b R0) (expand_held I p sub a d) (\<lambda>_. counted b R)"
proof -
  let ?b = "b(a := b a + 1)"
  have give_back: "triple B (counted ?b R) (on_templates (dec_ref a)) (\<lambda>_. counted b R)"
    using counted_dec [of ?b R a B] held_counted [of ?b R _ a] assms(2) by simp
  have "triple B (counted ?b (\<lambda>cs. R cs \<and> ready_ok t)) (bindC (as_op (expand_loaded I p sub t d)) (\<lambda>answer.
      bindC (on_templates (dec_ref a)) (\<lambda>_. retC answer))) (\<lambda>_. counted b R)" for t
  proof (rule counted_pure [of _ "ready_ok t"], simp)
    assume "ready_ok t"
    from as_op_ok [OF assms(4) [OF this]]
    have "triple B (counted ?b R) (bindC (as_op (expand_loaded I p sub t d)) (\<lambda>answer.
      bindC (on_templates (dec_ref a)) (\<lambda>_. retC answer))) (\<lambda>_. counted b R)"
      by (rule triple_bind) (rule triple_bind [OF give_back], rule counted_ret)
    then show "triple B (counted ?b (\<lambda>cs. R cs \<and> ready_ok t)) (bindC (as_op (expand_loaded I p sub t d)) (\<lambda>answer.
      bindC (on_templates (dec_ref a)) (\<lambda>_. retC answer))) (\<lambda>_. counted b R)" by (rule counted_pre) simp
  qed
  note run = this
  have "triple B (counted ?b R) (bindC (tpl_at a) (\<lambda>t. bindC (as_op (expand_loaded I p sub t d)) (\<lambda>answer.
      bindC (on_templates (dec_ref a)) (\<lambda>_. retC answer)))) (\<lambda>_. counted b R)"
    by (rule triple_bind [OF tpl_held], simp add: assms(2) add_nonneg_pos, rule run)
  then have "triple B (counted ?b R0) (bindC (tpl_at a) (\<lambda>t. bindC (as_op (expand_loaded I p sub t d)) (\<lambda>answer.
      bindC (on_templates (dec_ref a)) (\<lambda>_. retC answer)))) (\<lambda>_. counted b R)" by (rule counted_pre) (rule assms(3))
  moreover have "triple B (counted b R0) (on_templates (inc_ref a)) (\<lambda>_. counted ?b R0)"
    by (rule counted_inc) (rule assms(1))
  ultimately show ?thesis unfolding expand_held_def by (rule triple_bind [rotated])
qed

lemma cached_counted:
  assumes "counted b (cached_at i fr (Some a)) w" "\<And>a. 0 \<le> b a"
  shows "0 < refcount_at (templates w) a"
proof -
  obtain key e where "has i key e (caches w)" "refcounted_tpl e = a" using assms(1) by (auto simp: counted_def cached_at_def)
  then show ?thesis using has_counted [of b "\<lambda>cs. has i key e cs" w i key e] assms by (simp add: counted_def)
qed

context dictionary_contract
begin

lemma loaded_keeps:
  assumes "good d" "\<And>f s d1. good d1 \<Longrightarrow> depth d1 < depth d \<Longrightarrow> keeps B P (sub f s d1)" "ready_ok t"
  shows "keeps B P (expand_loaded I p sub t d)"
proof -
  have "agree_below B P (depth d) sub sub" using assms(2) by (simp add: agree_below_def)
  from tree_agrees [OF assms(1) this] have "keeps B P (expand_tree I p sub t1 d)" for t1 by blast
  moreover have "keeps B P (\<lambda>w. Some (Inr (False, [], w)))" by (simp add: keeps_def)
  ultimately show ?thesis using assms(3) by (auto simp: expand_loaded_def ready_ok_def)
qed

lemma held_keeps:
  assumes "good d" "\<And>a. 0 \<le> b a"
    and "\<And>b f s d1. (\<And>a. 0 \<le> b a) \<Longrightarrow> good d1 \<Longrightarrow> depth d1 < depth d \<Longrightarrow>
      keeps (parser_fails memory) (counted b (live i fr)) (sub f s d1)"
  shows "safely memory (counted b (cached_at i fr (Some a))) (expand_held I p sub a d) (\<lambda>_. counted b (live i fr))"
proof (rule expand_held_ok)
  show "0 < refcount_at (templates w) a" if "counted b (cached_at i fr (Some a)) w" for w
    using cached_counted [OF that assms(2)] .
  show "keeps (parser_fails memory) (counted (b(a := b a + 1)) (live i fr)) (expand_loaded I p sub t d)" if "ready_ok t" for t
    by (rule loaded_keeps [OF assms(1) assms(3) that]) (simp add: assms(2) add_nonneg_nonneg)
qed (simp_all add: assms(2) cached_at_def)

lemma cache_expand_keeps:
  assumes "\<And>a. 0 \<le> b a" "good d" "depth d < n"
  shows "keeps (parser_fails memory) (counted b (live i fr)) (cache_expand fs memory i I p n f s d)"
  using assms
proof (induction n arbitrary: b d f s)
  case (Suc n)
  have "safely memory (counted b (cached_at i fr r))
      (case r of None \<Rightarrow> retC (False, []) | Some a \<Rightarrow> expand_held I p (cache_expand fs memory i I p n) a d)
      (\<lambda>_. counted b (live i fr))" for r
  proof (cases r)
    case (Some a)
    show ?thesis unfolding Some option.case
      by (rule held_keeps) (use Suc in auto)
  qed (auto intro: counted_ret simp: cached_at_def)
  then show ?case unfolding cache_expand.simps
    by (intro as_expansion_ok triple_bind [OF get_template_locked_ok]) (rule Suc.prems)
qed simp

end

section \<open>Every request\<close>

fun request_ok :: "cache_request \<Rightarrow> bool" where
  "request_ok (Expand_request f s p st d) \<longleftrightarrow> dict_call\<^sup>*\<^sup>* setup_global_dict st \<and> no_shared_sections st \<and> d < length (cells st)"
| "request_ok (Expand_no_load_request f s p st d) \<longleftrightarrow> dict_call\<^sup>*\<^sup>* setup_global_dict st \<and> no_shared_sections st \<and> d < length (cells st)"
| "request_ok _ \<longleftrightarrow> True"

lemma new_cache_ok: "safely memory (counted b (live i fr)) (make_cache new_cache) (\<lambda>_. counted b (live i fr))"
  by (auto simp: triple_def make_cache_def counted_def world_ok_def references_def uses_def cache_ok_def new_cache_def live_def nth_append)

lemma quietly_ok: "triple B P m (\<lambda>x. counted b (R x)) \<Longrightarrow> triple B P (quietly m) (\<lambda>_. counted b (\<lambda>_. True))"
  unfolding quietly_def by (erule triple_bind) (rule counted_ret, simp)

lemma expand_request_ok:
  assumes "\<And>a. 0 \<le> b a" "dict_call\<^sup>*\<^sup>* setup_global_dict st" "no_shared_sections st" "d < length (cells st)"
  shows "keeps (parser_fails memory) (counted b (live i fr)) (cache_expand fs memory i (store_interface st) p (Suc (length (cells st))) f s d)"
    and "safely memory (counted b (live i fr)) (expand_no_load fs memory i (store_interface st) p (Suc (length (cells st))) f s d)
      (\<lambda>_. counted b (live i fr))"
proof -
  have good: "good_dict st d" using assms(3,4) reachable_ok [OF assms(2)] by (simp add: good_dict_def)
  have deep: "dict_depth st d < Suc (length (cells st))" by (simp add: dict_depth_def)
  show "keeps (parser_fails memory) (counted b (live i fr)) (cache_expand fs memory i (store_interface st) p (Suc (length (cells st))) f s d)"
    using dictionaries.cache_expand_keeps [OF assms(1) good deep] .
  let ?sub = "cache_expand fs memory i (store_interface st) p (Suc (length (cells st)))"
  have sub: "keeps (parser_fails memory) (counted b (live i fr)) (?sub f s d1)"
    if "\<And>a. 0 \<le> b a" "good_dict st d1" "dict_depth st d1 < dict_depth st d" for b f s d1
    by (rule dictionaries.cache_expand_keeps [OF that(1,2)]) (use that(3) deep in simp)
  have "safely memory (counted b (\<lambda>cs. live i fr cs \<and> map_of (parsed_template_cache (cs ! i)) (cache_key_of f s) = x))
      (case x of None \<Rightarrow> retC (False, []) | Some e \<Rightarrow> expand_held (store_interface st) p ?sub (refcounted_tpl e) d)
      (\<lambda>_. counted b (live i fr))" for x
  proof (cases x)
    case (Some e)
    have "safely memory (counted b (cached_at i fr (Some (refcounted_tpl e)))) (expand_held (store_interface st) p ?sub (refcounted_tpl e) d)
        (\<lambda>_. counted b (live i fr))"
      by (rule dictionaries.held_keeps [OF good assms(1) sub])
    then show ?thesis unfolding Some option.case
      by (rule counted_pre) (rule cached_at_entry, auto simp: has_def live_def)
  qed (auto intro: counted_ret)
  then show "safely memory (counted b (live i fr)) (expand_no_load fs memory i (store_interface st) p (Suc (length (cells st))) f s d)
      (\<lambda>_. counted b (live i fr))"
    unfolding expand_no_load_def
    by (intro triple_bind [OF counted_ask]) (rule counted_pre [where R = "live i fr"], auto intro: counted_ret find_entry_ok)
qed

lemma serve_ok:
  assumes "\<And>a. 0 \<le> b a" "request_ok req"
  shows "safely memory (counted b (live i fr)) (serve_request fs memory i req) (\<lambda>_. counted b (\<lambda>_. True))"
proof -
  have drop: "safely memory (counted b (live i fr)) m (\<lambda>_. counted b (\<lambda>_. True))"
    if "safely memory (counted b (live i fr)) m (\<lambda>_. counted b R)" for m :: "unit cache_op" and R
    using that by (rule counted_post) simp
  show ?thesis
  proof (cases req)
    case New_request
    then show ?thesis by simp (rule quietly_ok, rule new_cache_ok)
  next
    case (Load_request f s)
    then show ?thesis by simp (rule quietly_ok, rule load_template_ok, rule assms(1))
  next
    case (Get_request f s)
    then show ?thesis by simp (rule quietly_ok, rule get_template_ok, rule assms(1))
  next
    case (String_request key content s)
    then show ?thesis by simp (rule quietly_ok, rule string_to_template_cache_ok, rule assms(1))
  next
    case (Delete_request key)
    then show ?thesis by simp (rule quietly_ok, rule delete_ok, rule assms(1))
  next
    case Done_request
    then show ?thesis by simp (rule drop, rule done_ok, rule assms(1))
  next
    case Clear_request
    then show ?thesis by simp (rule drop, rule clear_cache_ok, rule assms(1))
  next
    case (Reload_request ty)
    then show ?thesis by simp (rule drop, rule reload_all_ok, rule assms(1))
  next
    case Freeze_request
    then show ?thesis by simp (rule drop, rule freeze_ok, rule assms(1))
  next
    case Clone_request
    then show ?thesis by simp (rule quietly_ok, rule clone_ok, rule assms(1))
  next
    case (Root_request clear dir)
    then show ?thesis by simp (rule quietly_ok, rule add_root_ok, rule assms(1))
  next
    case (Expand_request f s p st d)
    with assms(2) have st: "dict_call\<^sup>*\<^sup>* setup_global_dict st" "no_shared_sections st" "d < length (cells st)" by simp_all
    show ?thesis unfolding Expand_request serve_request.simps by (rule quietly_ok, rule as_op_ok, rule expand_request_ok(1) [OF assms(1) st])
  next
    case (Expand_no_load_request f s p st d)
    with assms(2) have st: "dict_call\<^sup>*\<^sup>* setup_global_dict st" "no_shared_sections st" "d < length (cells st)" by simp_all
    show ?thesis unfolding Expand_no_load_request serve_request.simps by (rule quietly_ok, rule expand_request_ok(2) [OF assms(1) st])
  qed
qed

text \<open>An application makes requests, one after the other, and the files may change in between.\<close>

inductive cache_step :: "parser_memory \<Rightarrow> cache_world \<Rightarrow> cache_world \<Rightarrow> bool" for memory where
  Request: "i < length (caches w) \<Longrightarrow> request_ok req \<Longrightarrow> serve_request fs memory i req w = Some (Inr ((), w1)) \<Longrightarrow> cache_step memory w w1"

definition start_world :: "registry \<Rightarrow> cache_world" where
  "start_world ms = \<lparr>templates = [], caches = [new_cache], world_modifiers = ms\<rparr>"

lemma start_ok: "world_ok (\<lambda>_. 0) (start_world ms)"
  by (simp add: world_ok_def start_world_def references_def uses_def new_cache_def refcount_at_def cache_ok_def)

lemma request_answer:
  assumes "world_ok (\<lambda>_. 0) w" "i < length (caches w)" "request_ok req"
  shows "case serve_request fs memory i req w of None \<Rightarrow> parser_fails memory None
    | Some (Inl e) \<Rightarrow> parser_fails memory (Some e) | Some (Inr (x, w1)) \<Rightarrow> world_ok (\<lambda>_. 0) w1"
proof -
  have "counted (\<lambda>_. 0) (live i (is_frozen (caches w ! i))) w" using assms by (simp add: counted_def live_def)
  moreover have "safely memory (counted (\<lambda>_. 0) (live i (is_frozen (caches w ! i)))) (serve_request fs memory i req)
      (\<lambda>_. counted (\<lambda>_. 0) (\<lambda>_. True))"
    by (rule serve_ok) (simp_all add: assms(3))
  ultimately have "case serve_request fs memory i req w of None \<Rightarrow> parser_fails memory None
      | Some (Inl e) \<Rightarrow> parser_fails memory (Some e) | Some (Inr (x, w1)) \<Rightarrow> counted (\<lambda>_. 0) (\<lambda>_. True) w1"
    unfolding triple_def by blast
  then show ?thesis unfolding counted_def simp_thms .
qed

lemma cache_reachable_ok: "(cache_step memory)\<^sup>*\<^sup>* (start_world ms) w \<Longrightarrow> world_ok (\<lambda>_. 0) w"
proof (induction rule: rtranclp_induct)
  case base
  show ?case by (rule start_ok)
next
  case (step w w1)
  from step(2) obtain i req fs where "i < length (caches w)" "request_ok req" "serve_request fs memory i req w = Some (Inr ((), w1))"
    by cases blast
  with request_answer [OF step(3), of i req memory fs] show ?case by simp
qed

end
