(* ===== verification/Template_Frozen.thy ===== *)
theory Template_Frozen
  imports Template_References
begin

text \<open>
  Frozen caches: \<open>Freeze\<close> leaves no entry that waits to be reloaded, and then nothing that an expansion does changes the
  caches or looks at the files.
\<close>

section \<open>Entries that wait to be reloaded\<close>

text \<open>What is known of the caches after a call that comes to its end.\<close>

abbreviation leaves :: "(template_cache list \<Rightarrow> bool) \<Rightarrow> 'a cache_op \<Rightarrow> ('a \<Rightarrow> template_cache list \<Rightarrow> bool) \<Rightarrow> bool" where
  "leaves P m Q \<equiv> triple (\<lambda>_. True) (\<lambda>w. P (caches w)) m (\<lambda>x w. Q x (caches w))"

definition same_caches :: "'a cache_op \<Rightarrow> bool" where
  "same_caches m \<longleftrightarrow> (\<forall>w x w1. m w = Some (Inr (x, w1)) \<longrightarrow> caches w1 = caches w)"

lemma same_leaves: "same_caches m \<Longrightarrow> leaves P m (\<lambda>_. P)"
  unfolding same_caches_def triple_def by (simp split: option.split sum.split)

lemma same_bind: "same_caches m \<Longrightarrow> (\<And>x. same_caches (f x)) \<Longrightarrow> same_caches (bindC m f)"
  unfolding same_caches_def bindC_def by (fastforce split: option.splits sum.splits)

lemma same_simps [simp]:
  "same_caches (retC x)" "same_caches (askC g)" "same_caches (on_templates f)" "same_caches (tpl_at a)" "same_caches (new_refcounted t)"
  "same_caches (parse_content memory content strip1)"
  by (auto simp: same_caches_def retC_def askC_def on_templates_def tpl_at_def new_refcounted_def parse_content_def result_simps
      split: if_splits)

lemma same_reload_if_changed: "same_caches (reload_if_changed_locked fs memory path t)"
  by (auto simp: reload_if_changed_locked_def Let_def intro!: same_bind split: option.split)

lemma same_construct: "same_caches (construct_template fs memory i filename strip1)"
  by (auto simp: construct_template_def intro!: same_bind same_reload_if_changed split: prod.split)

definition flagged :: "nat \<Rightarrow> cache_key set \<Rightarrow> template_cache list \<Rightarrow> bool" where
  "flagged i S cs \<longleftrightarrow> i < length cs \<and> (\<forall>k e. map_of (parsed_template_cache (cs ! i)) k = Some e \<longrightarrow> should_reload e \<longrightarrow> k \<in> S)"

lemma flagged_drop:
  "flagged i (insert key S) cs \<Longrightarrow> (\<And>e. map_of (parsed_template_cache (cs ! i)) key = Some e \<Longrightarrow> \<not> should_reload e) \<Longrightarrow> flagged i S cs"
  unfolding flagged_def by (metis insertE)

lemma leaves_find:
  assumes "\<And>x. leaves (\<lambda>cs. P cs \<and> map_of (parsed_template_cache (cs ! i)) key = x) (f x) Q"
  shows "leaves P (bindC (find_entry i key) f) Q"
proof (rule triple_bind)
  show "leaves P (find_entry i key) (\<lambda>x cs. P cs \<and> map_of (parsed_template_cache (cs ! i)) key = x)"
    unfolding find_entry_def by (rule triple_ask) simp
qed (rule assms)

lemma leaves_ret: "(\<And>cs. P cs \<Longrightarrow> Q x cs) \<Longrightarrow> leaves P (retC x) Q"
  by (rule triple_ret)

lemma leaves_cache: "(\<And>cs. P cs \<Longrightarrow> Q () (cs[i := f (cs ! i)])) \<Longrightarrow> leaves P (on_cache i f) Q"
  by (rule triple_cache) simp

lemma put_unflagged: "\<not> should_reload e \<Longrightarrow> leaves (flagged i (insert key S)) (on_cache i (put_entry key e)) (\<lambda>_. flagged i S)"
  by (rule leaves_cache) (auto simp: flagged_def split: if_splits)

lemma reload_entry_unflags:
  "leaves (\<lambda>cs. flagged i (insert key S) cs \<and> map_of (parsed_template_cache (cs ! i)) key = Some e)
    (reload_entry fs memory i filename strip1 key e) (\<lambda>_. flagged i S)"
proof (cases "should_reload e")
  case True
  let ?new = "bindC (construct_template fs memory i filename strip1) (\<lambda>t1.
                    bindC (on_templates (dec_ref (refcounted_tpl e))) (\<lambda>_. bindC (new_refcounted t1) (\<lambda>a. retC (file_entry a))))"
  have new: "same_caches (if c then ?new else retC e)" for c
    by (auto intro!: same_bind same_construct)
  have put: "leaves (flagged i (insert key S)) (on_cache i (put_entry key (e1\<lparr>should_reload := False\<rparr>))) (\<lambda>_. flagged i S)" for e1
    by (rule put_unflagged) simp
  have "leaves (flagged i (insert key S)) (reload_entry fs memory i filename strip1 key e) (\<lambda>_. flagged i S)"
    unfolding reload_entry_def using True
    by simp (rule triple_bind [OF same_leaves], simp, rule triple_bind [OF same_leaves], simp,
        rule triple_bind [OF same_leaves [OF new]], rule triple_bind [OF put], rule leaves_ret)
  then show ?thesis by (rule triple_weaken) auto
next
  case False
  then show ?thesis by (auto simp: reload_entry_def intro!: leaves_ret elim: flagged_drop)
qed

lemma get_template_unflags:
  "leaves (flagged i (insert key S)) (get_template_locked fs memory i filename strip1 key) (\<lambda>_. flagged i S)"
  unfolding get_template_locked_def
proof (rule leaves_find, rule triple_bind [OF same_leaves [OF same_simps(2)]])
  fix entry :: "cached_template option" and frozen
  let ?now = "\<lambda>cs. flagged i (insert key S) cs \<and> map_of (parsed_template_cache (cs ! i)) key = entry"
  let ?entry = "case entry of Some e \<Rightarrow> retC e | None \<Rightarrow>
      bindC (construct_template fs memory i filename strip1) (\<lambda>t. bindC (new_refcounted t) (\<lambda>a.
        bindC (on_cache i (put_entry key (file_entry a))) (\<lambda>_. retC (file_entry a))))"
  have put: "leaves ?now (on_cache i (put_entry key (file_entry a)))
      (\<lambda>_ cs. flagged i (insert key S) cs \<and> map_of (parsed_template_cache (cs ! i)) key = Some (file_entry a))" for a
    by (rule leaves_cache) (auto simp: flagged_def)
  have known: "leaves ?now ?entry (\<lambda>e cs. flagged i (insert key S) cs \<and> map_of (parsed_template_cache (cs ! i)) key = Some e)"
  proof (cases entry)
    case None
    show ?thesis using put unfolding None
      by simp (rule triple_bind [OF same_leaves [OF same_construct]], rule triple_bind [OF same_leaves], simp,
        rule triple_bind, assumption, rule leaves_ret)
  qed (auto intro: leaves_ret)
  have rest: "leaves (flagged i S) (bindC (tpl_at a) (\<lambda>t. retC (f t))) (\<lambda>_. flagged i S)" for a and f :: "loaded_template \<Rightarrow> nat option"
    by (rule same_leaves) (auto intro: same_bind)
  show "leaves ?now
      (if entry = None \<and> frozen then retC None
       else bindC ?entry (\<lambda>e. bindC (reload_entry fs memory i filename strip1 key e) (\<lambda>e1.
         bindC (tpl_at (refcounted_tpl e1)) (\<lambda>t. retC (if lt_state t \<noteq> TS_READY then None else Some (refcounted_tpl e1))))))
      (\<lambda>_. flagged i S)"
  proof (cases "entry = None \<and> frozen")
    case True
    then show ?thesis by (auto intro!: leaves_ret elim: flagged_drop)
  next
    case False
    show ?thesis unfolding if_not_P [OF False] by (rule triple_bind [OF known], rule triple_bind [OF reload_entry_unflags rest])
  qed
qed

text \<open>An immediate reload leaves no entry that waits.\<close>

lemma reload_keys_unflags:
  "leaves (flagged i (set keys \<union> S)) (reload_keys fs memory IMMEDIATE_RELOAD i keys) (\<lambda>_. flagged i S)"
proof (induction keys)
  case (Cons key keys)
  let ?S = "set keys \<union> S"
  have mark: "leaves (flagged i (insert key ?S)) (on_cache i (mark_entry key)) (\<lambda>_. flagged i (insert key ?S))"
    by (rule leaves_cache) (auto simp: flagged_def mark_entry_def split: option.splits if_splits)
  have "leaves (\<lambda>cs. flagged i (insert key ?S) cs \<and> map_of (parsed_template_cache (cs ! i)) key = x)
      (case x of None \<Rightarrow> retC ()
       | Some e \<Rightarrow> bindC (tpl_at (refcounted_tpl e)) (\<lambda>t.
           bindC (get_template_locked fs memory i (cstr (original_filename t)) (lt_strip t) key) (\<lambda>_. retC ())))
      (\<lambda>_. flagged i ?S)" for x
  proof (cases x)
    case None
    then show ?thesis by (auto intro!: leaves_ret elim: flagged_drop)
  next
    case (Some e)
    have "leaves (flagged i (insert key ?S)) (bindC (tpl_at (refcounted_tpl e)) (\<lambda>t.
           bindC (get_template_locked fs memory i (cstr (original_filename t)) (lt_strip t) key) (\<lambda>_. retC ()))) (\<lambda>_. flagged i ?S)"
      by (rule triple_bind [OF same_leaves], simp, rule triple_bind [OF get_template_unflags], rule leaves_ret)
    then show ?thesis unfolding Some option.case by (rule triple_weaken) auto
  qed
  then have "leaves (flagged i (insert key ?S)) (bindC (find_entry i key) (\<lambda>x. case x of None \<Rightarrow> retC ()
       | Some e \<Rightarrow> bindC (tpl_at (refcounted_tpl e)) (\<lambda>t.
           bindC (get_template_locked fs memory i (cstr (original_filename t)) (lt_strip t) key) (\<lambda>_. retC ())))) (\<lambda>_. flagged i ?S)"
    by (rule leaves_find)
  then show ?case unfolding reload_keys.simps
    using mark Cons.IH by (auto intro: triple_bind)
qed (simp add: same_leaves)

section \<open>Expansions that change nothing\<close>

text \<open>Two expansions that do the same from a state, and leave it as it is.\<close>

definition same_at :: "'c \<Rightarrow> 'c expansion \<Rightarrow> 'c expansion \<Rightarrow> bool" where
  "same_at c m m' \<longleftrightarrow> m' c = m c \<and> (\<forall>ok out c1. m c = Some (Inr (ok, out, c1)) \<longrightarrow> c1 = c)"

lemma same_at_simps [simp]:
  "same_at c (emit_text s) (emit_text s)" "same_at c does_not_return does_not_return" "same_at c (stop_with e) (stop_with e)"
  by (simp_all add: same_at_def emit_text_def does_not_return_def stop_with_def)

lemma same_at_and_then [simp]:
  assumes "same_at c a a'" "same_at c b b'"
  shows "same_at c (and_then a b) (and_then a' b')"
  using assms by (fastforce simp: same_at_def and_then_def split: option.splits sum.splits)

lemma same_at_annotation [simp]: "same_at c (annotation p f) (annotation p f)"
  by (simp add: annotation_def)

lemma same_at_ask [simp]: "(\<And>x. same_at c (f x) (g x)) \<Longrightarrow> same_at c (ask q f) (ask q g)"
  by (simp add: ask_def split: option.split)

lemma same_at_ask_result [simp]: "(\<And>x. same_at c (f x) (g x)) \<Longrightarrow> same_at c (ask_result q f) (ask_result q g)"
  by (simp add: ask_result_def split: sum.split)

lemma same_at_modified [simp]: "same_at c (emit_modified_string p mvs s) (emit_modified_string p mvs s)"
  by (simp add: emit_modified_string_def split: sum.split)

lemma same_at_variable [simp]: "same_at c (expand_variable I p token d) (expand_variable I p token d)"
  by (simp add: expand_variable_def)

lemma same_at_include_once:
  assumes "same_at c (sub f s d) (sub' f s d)"
  shows "same_at c (expand_include_once p sub token s f d) (expand_include_once p sub' token s f d)"
proof -
  have "same_at c
         (\<lambda>c. case sub f s d c of
            None \<Rightarrow> None
          | Some (Inl e) \<Rightarrow> Some (Inl e)
          | Some (Inr (ok, out, c1)) \<Rightarrow>
              if any_might_modify p (token_modvals token) then
                (if \<not> ok then Some (Inr (False, missing_include p f, c1))
                 else emit_modified_string p (token_modvals token) out c1)
              else if \<not> ok then Some (Inr (False, out @ missing_include p f, c1))
              else Some (Inr (True, out, c1)))
         (\<lambda>c. case sub' f s d c of
            None \<Rightarrow> None
          | Some (Inl e) \<Rightarrow> Some (Inl e)
          | Some (Inr (ok, out, c1)) \<Rightarrow>
              if any_might_modify p (token_modvals token) then
                (if \<not> ok then Some (Inr (False, missing_include p f, c1))
                 else emit_modified_string p (token_modvals token) out c1)
              else if \<not> ok then Some (Inr (False, out @ missing_include p f, c1))
              else Some (Inr (True, out, c1)))"
    using assms by (auto simp: same_at_def emit_modified_string_def emit_text_def stop_with_def split: option.splits sum.splits if_splits)
  then show ?thesis by (simp add: expand_include_once_def)
qed

lemma same_at_includes:
  "(\<And>f s d. same_at c (sub f s d) (sub' f s d)) \<Longrightarrow>
    same_at c (expand_includes I p sub token s d i ds) (expand_includes I p sub' token s d i ds)"
  by (induction ds arbitrary: i) (simp_all add: same_at_include_once)

lemma same_at_include:
  "(\<And>f s d. same_at c (sub f s d) (sub' f s d)) \<Longrightarrow> same_at c (expand_include I p sub token s d) (expand_include I p sub' token s d)"
  by (simp add: expand_include_def same_at_include_once same_at_includes)

lemma same_at_each: "(\<And>d b. same_at c (f d b) (g d b)) \<Longrightarrow> same_at c (each_dict f ds) (each_dict g ds)"
  by (induction ds) simp_all

lemma same_at_section:
  "(\<And>d b. same_at c (f d b) (g d b)) \<Longrightarrow> same_at c (section_shown I token hidden d f) (section_shown I token hidden d g)"
  by (simp add: section_shown_def same_at_each)

lemma same_at_node:
  assumes sub: "\<And>f s d. same_at c (sub f s d) (sub' f s d)"
  shows "same_at c (expand_node I p sub node d) (expand_node I p sub' node d)"
    and "same_at c (expand_nodes I p sub separator last_child i nodes d) (expand_nodes I p sub' separator last_child i nodes d)"
  using sub
proof (induction I p sub node d and I p sub separator last_child i nodes d rule: expand_node_expand_nodes.induct)
  case (5 I p sub token nodes separator hidden d)
  then show ?case unfolding expand_node.simps by (intro same_at_section) simp
next
  case (7 I p sub separator last_child i node nodes d)
  then show ?case by (auto split: template_node.split)
qed (simp_all add: same_at_include)

lemma same_at_loaded:
  assumes "\<And>f s d. same_at w (sub f s d) (sub' f s d)"
  shows "same_at w (expand_loaded I p sub t d) (expand_loaded I p sub' t d)"
proof -
  have node: "same_at w (expand_node I p sub n d) (expand_node I p sub' n d)" for n
    by (rule same_at_node(1)) (rule assms)
  have "same_at w (expand_tree I p sub t1 d) (expand_tree I p sub' t1 d)" for t1
    unfolding expand_tree_def using node [of "rt_tree t1"]
    by (intro same_at_and_then) (auto simp: same_at_def emit_text_def annotation_def split: option.splits sum.splits)
  then show ?thesis by (simp add: expand_loaded_def split: option.split) (simp add: same_at_def)
qed

section \<open>A frozen cache\<close>

definition settled :: "nat \<Rightarrow> cache_world \<Rightarrow> bool" where
  "settled i w \<longleftrightarrow> is_frozen (caches w ! i) \<and> flagged i {} (caches w)"

lemma settled_get:
  assumes "settled i w"
  shows "get_template_locked fs memory i f s key w =
    (case map_of (parsed_template_cache (caches w ! i)) key of
       None \<Rightarrow> Some (Inr (None, w))
     | Some e \<Rightarrow>
         if refcount_at (templates w) (refcounted_tpl e) = 0 then Some (Inl UndefinedBehaviour)
         else Some (Inr (if lt_state (fst (templates w ! refcounted_tpl e)) \<noteq> TS_READY then None else Some (refcounted_tpl e), w)))"
proof -
  have "\<not> should_reload e" if "map_of (parsed_template_cache (caches w ! i)) key = Some e" for e
    using that assms unfolding settled_def flagged_def by blast
  then show ?thesis using assms
    by (auto simp: settled_def get_template_locked_def find_entry_def bindC_def askC_def retC_def reload_entry_def tpl_at_def
        split: option.split)
qed

lemma freeze_settles:
  assumes "freeze fs memory i w = Some (Inr ((), w1))" "i < length (caches w)" "\<not> is_frozen (caches w ! i)"
  shows "settled i w1"
proof -
  let ?keys = "map fst (parsed_template_cache (caches w ! i))"
  obtain w2 where run: "reload_keys fs memory IMMEDIATE_RELOAD i ?keys w = Some (Inr ((), w2))"
    "on_cache i (\<lambda>c. c\<lparr>is_frozen := True\<rparr>) w2 = Some (Inr ((), w1))"
    using assms(1,3)
    by (auto simp: freeze_def reload_all_if_changed_def bindC_def askC_def retC_def split: option.splits sum.splits)
  have "flagged i (set ?keys \<union> {}) (caches w)" using assms(2) by (auto simp: flagged_def dest!: map_of_SomeD intro: rev_image_eqI)
  then have "flagged i {} (caches w2)"
    using reload_keys_unflags [of i ?keys "{}" fs memory] run(1) unfolding triple_def by fastforce
  then show ?thesis using run(2) by (auto simp: on_cache_def settled_def flagged_def)
qed

text \<open>Taking a reference and giving it back leaves the references as they were.\<close>

lemma hold_and_give_back:
  assumes "0 < refcount_at ts a"
  shows "\<exists>ts1. inc_ref a ts = Inr ts1 \<and> 0 < refcount_at ts1 a \<and> dec_ref a ts1 = Inr ts"
proof -
  have a: "a < length ts" using assms by (simp add: refcount_at_def split: if_splits)
  have "ts[a := (fst (ts ! a), refcount_at ts a)] = ts" using a by (simp add: refcount_at_def list_update_id)
  then show ?thesis using assms a by (simp add: inc_ref_def dec_ref_def dec_ref_n_def refcount_update)
qed

lemma settled_templates [simp]: "settled i (w\<lparr>templates := ts\<rparr>) = settled i w"
  by (simp add: settled_def)

lemma held_same:
  assumes "settled i w" "\<And>w1 f s d. settled i w1 \<Longrightarrow> same_at w1 (sub f s d) (sub' f s d)"
  shows "expand_held I p sub' a d w = expand_held I p sub a d w \<and>
    (\<forall>r w1. expand_held I p sub a d w = Some (Inr (r, w1)) \<longrightarrow> w1 = w)"
proof (cases "refcount_at (templates w) a = 0")
  case True
  then show ?thesis by (simp add: expand_held_def bindC_def on_templates_def inc_ref_def)
next
  case False
  then obtain ts where ts: "inc_ref a (templates w) = Inr ts" "0 < refcount_at ts a" "dec_ref a ts = Inr (templates w)"
    using hold_and_give_back by blast
  let ?w = "w\<lparr>templates := ts\<rparr>"
  have tpl: "tpl_at a ?w = Some (Inr (fst (ts ! a), ?w))" using ts(2) by (simp add: tpl_at_def)
  have held: "on_templates (inc_ref a) w = Some (Inr ((), ?w))" using ts(1) by (simp add: on_templates_def)
  have given: "on_templates (dec_ref a) ?w = Some (Inr ((), w))" using ts(3) by (simp add: on_templates_def)
  have "same_at ?w (expand_loaded I p sub (fst (ts ! a)) d) (expand_loaded I p sub' (fst (ts ! a)) d)"
    by (rule same_at_loaded) (rule assms(2), simp add: assms(1))
  then show ?thesis
    by (auto simp: expand_held_def bindC_def held tpl given retC_def as_op_def same_at_def split: option.splits sum.splits)
qed

text \<open>The answer of a frozen cache does not depend on the files (nor on the memory of the parser), and the caches stay.\<close>

lemma frozen_same:
  "settled i w \<Longrightarrow> same_at w (cache_expand fs memory i I p n f s d) (cache_expand fs' memory' i I p n f s d)"
proof (induction n arbitrary: f s d w)
  case (Suc n)
  let ?sub = "cache_expand fs memory i I p n" and ?sub' = "cache_expand fs' memory' i I p n"
  have held: "expand_held I p ?sub' a d w = expand_held I p ?sub a d w \<and>
      (\<forall>r w1. expand_held I p ?sub a d w = Some (Inr (r, w1)) \<longrightarrow> w1 = w)" for a
    by (rule held_same [OF Suc.prems Suc.IH])
  show ?case
    using held unfolding same_at_def cache_expand.simps as_expansion_def bindC_def settled_get [OF Suc.prems]
    by (auto simp: retC_def split: option.splits sum.splits)
qed simp

end
