(* ===== verification/Template_Sharing.thy ===== *)
theory Template_Sharing
  imports Template_Frozen Template_Page
begin

text \<open>
  What an application can rely on when it shares templates in caches: the references are counted right, requests are
  answered, a frozen cache stays as it is, and a text that was put into a cache comes out as a page.
\<close>

text \<open>A disk without files, and one where every file has been written.\<close>

definition no_files :: file_system where
  "no_files = \<lparr>fs_stat = (\<lambda>_. None), fs_read = (\<lambda>_ _. None), fs_getcwd = None\<rparr>"

definition new_files :: file_system where
  "new_files = \<lparr>fs_stat = (\<lambda>_. Some \<lparr>st_mtime = 1, st_length = 3, st_directory = False\<rparr>), fs_read = (\<lambda>_ _. Some ''new''), fs_getcwd = None\<rparr>"

section \<open>References\<close>


text \<open>A template that is not there is kept in the cache with its error, and shared by a copy of the cache.\<close>

lemma missing_then_copied:
  "\<exists>w. (cache_step some_memory)\<^sup>*\<^sup>* (start_world plain_registry) w \<and> length (caches w) = 2 \<and> references w 0 = 2"
proof -
  let ?e = "(cache_key_of ''t'' DO_NOT_STRIP, file_entry 0)"
  let ?t = "\<lparr>original_filename = ''t'', resolved_filename = [], filename_mtime = 0, lt_strip = DO_NOT_STRIP, lt_state = TS_ERROR, lt_tree = None\<rparr>"
  let ?c = "new_cache\<lparr>parsed_template_cache := [?e]\<rparr>"
  let ?w1 = "\<lparr>templates = [(?t, 1)], caches = [?c], world_modifiers = plain_registry\<rparr>"
  let ?w2 = "\<lparr>templates = [(?t, 2)], caches = [?c, ?c], world_modifiers = plain_registry\<rparr>"
  have load: "serve_request no_files some_memory 0 (Load_request ''t'' DO_NOT_STRIP) (start_world plain_registry) = Some (Inr ((), ?w1))"
    by (simp add: start_world_def no_files_def new_cache_def quietly_def load_template_def get_template_locked_def bindC_def find_entry_def
        askC_def retC_def construct_template_def reload_if_changed_locked_def resolve_template_filename_def new_refcounted_def on_cache_def
        put_entry_def file_entry_def reload_entry_def tpl_at_def refcount_at_def)
  have copy: "serve_request no_files some_memory 0 Clone_request ?w1 = Some (Inr ((), ?w2))"
    by (simp add: quietly_def clone_def bindC_def askC_def retC_def on_templates_def inc_ref_def refcount_at_def make_cache_def
        file_entry_def numeral_2_eq_2)
  have "cache_step some_memory (start_world plain_registry) ?w1"
    by (rule Request [OF _ _ load]) (simp_all add: start_world_def)
  moreover have "cache_step some_memory ?w1 ?w2" by (rule Request [OF _ _ copy]) simp_all
  moreover have "references ?w2 0 = 2" by (simp add: references_def uses_def new_cache_def file_entry_def)
  ultimately show ?thesis by (intro exI [of _ ?w2]) (auto intro: converse_rtranclp_into_rtranclp)
qed




section \<open>Frozen caches\<close>

text \<open>C14: A frozen cache cannot change: after \<open>Freeze\<close>, a page that is expanded from the cache is the same whatever has become
  of the files (or what the parser would do with them), for all templates that it includes as well, and the expansion leaves the
  caches and the counts of references as they were.\<close>

theorem frozen_cache_ignores_files:
  assumes "freeze fs0 memory0 i w0 = Some (Inr ((), w))" "i < length (caches w0)" "\<not> is_frozen (caches w0 ! i)"
    and "cache_expand fs memory i I p n f s d w = Some (Inr (ok, out, w1))"
  shows "w1 = w \<and> cache_expand fs' memory' i I p n f s d w = Some (Inr (ok, out, w))"
  using frozen_same [OF freeze_settles [OF assms(1-3)], of fs memory I p n f s d fs' memory'] assms(4)
  by (auto simp: same_at_def)

definition greeting :: template_node where
  "greeting = Text_node (Token TOKENTYPE_TEXT ''hi'' [])"

definition greeting_world :: "bool \<Rightarrow> cache_world" where
  "greeting_world frozen =
     \<lparr>templates = [(string_template DO_NOT_STRIP greeting, 1)],
      caches = [new_cache\<lparr>parsed_template_cache := [(cache_key_of ''t'' DO_NOT_STRIP,
        \<lparr>refcounted_tpl = 0, should_reload = False, template_type = STRING_BASED\<rparr>)], is_frozen := frozen\<rparr>],
      world_modifiers = plain_registry\<rparr>"

lemma greeting_frozen: "freeze no_files some_memory 0 (greeting_world False) = Some (Inr ((), greeting_world True))"
  by (simp add: greeting_world_def new_cache_def freeze_def reload_all_if_changed_def bindC_def askC_def retC_def on_cache_def mark_entry_def
      put_entry_def find_entry_def tpl_at_def refcount_at_def get_template_locked_def reload_entry_def string_template_def)

theorem frozen_cache_ignores_files_witness:
  "cache_expand new_files some_memory 0 (store_interface small_page) no_data 1 ''t'' DO_NOT_STRIP 0 (greeting_world True) =
    Some (Inr (True, ''hi'', greeting_world True))"
proof -
  have "cache_expand no_files some_memory 0 (store_interface small_page) no_data 1 ''t'' DO_NOT_STRIP 0 (greeting_world True) =
      Some (Inr (True, ''hi'', greeting_world True))"
    by (simp add: greeting_world_def new_cache_def get_template_locked_def find_entry_def bindC_def askC_def retC_def reload_entry_def
        tpl_at_def refcount_at_def string_template_def expand_held_def on_templates_def inc_ref_def dec_ref_def dec_ref_n_def as_op_def
        as_expansion_def expand_loaded_def expand_tree_def no_data_def and_then_def emit_text_def annotation_def annotate_def greeting_def)
  from frozen_cache_ignores_files [OF greeting_frozen _ _ this, of new_files some_memory] show ?thesis
    by (simp add: greeting_world_def new_cache_def)
qed

section \<open>Pages from a cache\<close>

lemma held_answer:
  assumes "0 < refcount_at (templates w) a"
    and "\<And>ts. expand_loaded I p sub (fst (templates w ! a)) d (w\<lparr>templates := ts\<rparr>) = Some (Inr (ok, out, w\<lparr>templates := ts\<rparr>))"
  shows "expand_held I p sub a d w = Some (Inr ((ok, out), w))"
proof -
  obtain ts where ts: "inc_ref a (templates w) = Inr ts" "0 < refcount_at ts a" "dec_ref a ts = Inr (templates w)"
    using hold_and_give_back [OF assms(1)] by blast
  have "a < length (templates w)" using assms(1) by (simp add: refcount_at_def split: if_splits)
  then have "fst (ts ! a) = fst (templates w ! a)" using ts(1) by (auto simp: inc_ref_def split: if_splits)
  then show ?thesis using ts assms(2) [of ts]
    by (simp add: expand_held_def bindC_def on_templates_def tpl_at_def as_op_def retC_def)
qed

lemma tree_page:
  assumes "annotate_path p = None" "expand_modifier p = None" "lt_state t = TS_READY" "lt_tree t = Some tree"
    and "expand_node I p sub tree d w = Some (Inr (True, out, w))"
  shows "expand_loaded I p sub t d w = Some (Inr (True, out, w))"
  using assms by (simp add: expand_loaded_def expand_tree_def and_then_def emit_text_def annotation_def annotate_def)

text \<open>What \<open>StringToTemplateCache\<close> leaves for a new key.\<close>

lemma string_in_cache:
  assumes "i < length (caches w)" "\<not> is_frozen (caches w ! i)" "map_of (parsed_template_cache (caches w ! i)) (cache_key_of key strip1) = None"
    and "string_to_template content strip1 (world_modifiers w) memory = Some (Inr (Some tree, t))"
  shows "\<exists>w1. string_to_template_cache memory i key content strip1 w = Some (Inr (True, w1)) \<and> i < length (caches w1) \<and>
    map_of (parsed_template_cache (caches w1 ! i)) (cache_key_of key strip1) =
      Some \<lparr>refcounted_tpl = length (templates w), should_reload = False, template_type = STRING_BASED\<rparr> \<and>
    templates w1 = templates w @ [(string_template strip1 tree, 1)]"
  using assms
  by (simp add: string_to_template_cache_def bindC_def askC_def find_entry_def entry_in_error_def retC_def parse_content_def insert_string_def
      new_refcounted_def on_cache_def)



end
